(* ===== verification/Prelude.thy ===== *)
theory Prelude
  imports Main "HOL-Library.Monad_Syntax"
begin

text \<open>
  Shared ground of the development: the error-or-value type of Go functions that return
  \<open>(T, error)\<close>, the wrap-around of Go's 64-bit integers, the interface of a state
  machine with an invariant, and the lemma collections the components extend.
\<close>

section \<open>Collections\<close>

named_theorems catalog_simps \<open>evaluated entries of the permission catalog\<close>
named_theorems path_simps \<open>equations of the path functions\<close>
named_theorems sup_simps \<open>equations of the supervisor operations\<close>
named_theorems time_simps \<open>equations of the calendar functions\<close>

section \<open>Results: a value or an error\<close>

text \<open>A Go function returning \<open>(T, error)\<close>: \<open>Inl\<close> is a non-nil error.\<close>

fun rbind :: "'e + 'a \<Rightarrow> ('a \<Rightarrow> 'e + 'b) \<Rightarrow> 'e + 'b" where
  "rbind (Inl e) f = Inl e"
| "rbind (Inr a) f = f a"

lemma rbind_Inr_iff [simp]: "rbind r f = Inr b \<longleftrightarrow> (\<exists>a. r = Inr a \<and> f a = Inr b)"
  by (cases r) auto

lemma rbind_Inl_iff: "rbind r f = Inl e \<longleftrightarrow> r = Inl e \<or> (\<exists>a. r = Inr a \<and> f a = Inl e)"
  by (cases r) auto

text \<open>A loop over a list whose body may return an error stops at the first one.\<close>

fun rfold :: "('s \<Rightarrow> 'a \<Rightarrow> 'e + 's) \<Rightarrow> 's \<Rightarrow> 'a list \<Rightarrow> 'e + 's" where
  "rfold f s [] = Inr s"
| "rfold f s (x # xs) = rbind (f s x) (\<lambda>s'. rfold f s' xs)"

lemma rfold_invariant:
  assumes "rfold f s xs = Inr s'" "I s"
    and "\<And>s x s'. x \<in> set xs \<Longrightarrow> I s \<Longrightarrow> f s x = Inr s' \<Longrightarrow> I s'"
  shows "I s'"
  using assms
proof (induction xs arbitrary: s)
  case Nil
  then show ?case by simp
next
  case (Cons x xs)
  from Cons.prems(1) obtain t where t: "f s x = Inr t" "rfold f t xs = Inr s'"
    by auto
  then have "I t" using Cons.prems(2,3) by (meson list.set_intros(1))
  then show ?case using Cons.IH [OF t(2)] Cons.prems(3) by (meson list.set_intros(2))
qed

section \<open>64-bit integers\<close>

text \<open>
  Go's \<open>int\<close> and \<open>int64\<close> are 64-bit two's complement and wrap. They are modelled as
  \<open>int\<close>; \<open>wrap64\<close> is applied to the result of an operation that can leave the range.
\<close>

definition max_int64 :: int where "max_int64 = 9223372036854775807"
definition min_int64 :: int where "min_int64 = - 9223372036854775808"

definition wrap64 :: "int \<Rightarrow> int" where
  "wrap64 x = (x + 9223372036854775808) mod 18446744073709551616 - 9223372036854775808"

lemma wrap64_id: "min_int64 \<le> x \<Longrightarrow> x \<le> max_int64 \<Longrightarrow> wrap64 x = x"
  by (simp add: wrap64_def min_int64_def max_int64_def)

lemma wrap64_range: "min_int64 \<le> wrap64 x \<and> wrap64 x \<le> max_int64"
proof -
  have "0 \<le> (x + 9223372036854775808) mod 18446744073709551616"
    and "(x + 9223372036854775808) mod 18446744073709551616 < 18446744073709551616"
    by simp_all
  then show ?thesis unfolding wrap64_def min_int64_def max_int64_def by linarith
qed

section \<open>State machines with an invariant\<close>

text \<open>
  The contract of a component whose state changes only through its operations: a step
  function and a predicate every step keeps. The lemma for whole runs is proved once.
\<close>

locale invariant_machine =
  fixes step :: "'s \<Rightarrow> 'e \<Rightarrow> 's"
    and inv :: "'s \<Rightarrow> bool"
  assumes step_keeps: "inv s \<Longrightarrow> inv (step s e)"
begin

lemma run_keeps: "inv s \<Longrightarrow> inv (foldl step s es)"
  by (induction es arbitrary: s) (auto intro: step_keeps)

lemma every_prefix_keeps: "inv s \<Longrightarrow> inv (foldl step s (take n es))"
  by (rule run_keeps)

end

text \<open>
  The contract of a relation that says what an operation may change: it holds for doing nothing and for
  doing one after the other, and leads from states in order to states in order. Loops and runs then
  change no more than their steps.
\<close>

locale change_frame =
  fixes ok :: "'s \<Rightarrow> bool"
    and may :: "'s \<Rightarrow> 's \<Rightarrow> bool"
  assumes may_stay: "ok s \<Longrightarrow> may s s"
    and may_compose: "may s t \<Longrightarrow> may t u \<Longrightarrow> may s u"
    and may_ok: "may s t \<Longrightarrow> ok t"
begin

lemma may_fold: "(\<And>t x. x \<in> set xs \<Longrightarrow> ok t \<Longrightarrow> may t (f t x)) \<Longrightarrow> ok s \<Longrightarrow> may s (foldl f s xs)"
proof (induction xs arbitrary: s)
  case Nil
  then show ?case by (simp add: may_stay)
next
  case (Cons x xs)
  have w: "may s (f s x)" using Cons.prems by simp
  then have "may (f s x) (foldl f (f s x) xs)" using Cons.IH may_ok Cons.prems(1) by simp
  with w show ?case using may_compose by simp
qed

end

section \<open>Keyed tables\<close>

text \<open>
  The contract of a database table addressed by a key: a write is read back, and it leaves
  every other key alone. The handlers rely on nothing else of the tables they write.
\<close>

locale keyed_store =
  fixes get :: "'s \<Rightarrow> 'k \<Rightarrow> 'v"
    and put :: "'k \<Rightarrow> 'v \<Rightarrow> 's \<Rightarrow> 's"
  assumes get_put_same: "get (put k v s) k = v"
    and get_put_other: "k \<noteq> k' \<Longrightarrow> get (put k v s) k' = get s k'"
begin

definition put_all :: "('k \<times> 'v) list \<Rightarrow> 's \<Rightarrow> 's" where
  "put_all kvs s = foldl (\<lambda>s kv. put (fst kv) (snd kv) s) s kvs"

lemma get_put: "get (put k v s) k' = (if k = k' then v else get s k')"
  by (simp add: get_put_same get_put_other)

lemma get_put_all_untouched: "k \<notin> fst ` set kvs \<Longrightarrow> get (put_all kvs s) k = get s k"
  unfolding put_all_def by (induction kvs arbitrary: s) (auto simp: get_put)

lemma get_put_all_last:
  "k \<notin> fst ` set kvs' \<Longrightarrow> get (put_all (kvs @ (k, v) # kvs') s) k = v"
  using get_put_all_untouched [of k kvs' "put k v (put_all kvs s)"]
  by (simp add: put_all_def get_put)

end

section \<open>Generic list lemmas\<close>

lemma list_all_take_drop: "list_all P xs \<Longrightarrow> list_all P (take n xs) \<and> list_all P (drop n xs)"
  by (metis append_take_drop_id list_all_append)

lemma find_append_None: "List.find P xs = None \<Longrightarrow> List.find P (xs @ ys) = List.find P ys"
  by (induction xs) (auto split: if_splits)

lemma find_SomeD: "List.find P xs = Some x \<Longrightarrow> x \<in> set xs \<and> P x"
  by (auto simp: find_Some_iff)

lemma foldl_preserves:
  assumes "P s" "\<And>s x. x \<in> set xs \<Longrightarrow> P s \<Longrightarrow> P (f s x)"
  shows "P (foldl f s xs)"
  using assms by (induction xs arbitrary: s) auto

lemma foldl_max_upper:
  fixes m :: "'a::linorder"
  shows "m \<le> foldl max m ns \<and> (\<forall>n\<in>set ns. n \<le> foldl max m ns)"
proof (induction ns arbitrary: m)
  case (Cons k ns)
  from Cons [of "max m k"] show ?case by auto
qed simp

end
