(* ===== verification/Utf8.thy ===== *)
theory Utf8
  imports GoStrings
begin

text \<open>
  UTF-8 as Go's \<open>unicode/utf8\<close> decodes and encodes it, on byte strings: \<open>decode_rune\<close> is
  \<open>DecodeRuneInString\<close> (an invalid byte decodes to U+FFFD with size 1), \<open>encode_rune\<close> is
  \<open>AppendRune\<close>, \<open>runes\<close> is the conversion \<open>[]rune(s)\<close>. The lemmas are the two round trips.
\<close>

section \<open>Decoding and encoding one rune\<close>

abbreviation byte :: "char \<Rightarrow> nat" where "byte c \<equiv> of_char c"
abbreviation chr :: "nat \<Rightarrow> char" where "chr n \<equiv> char_of n"

definition rune_error :: nat where "rune_error = 65533"

definition cont_byte :: "nat \<Rightarrow> bool" where "cont_byte b \<longleftrightarrow> 128 \<le> b \<and> b \<le> 191"

text \<open>The bytes that may follow a lead byte: no overlong forms, surrogates or values above
  U+10FFFF.\<close>

definition second_byte :: "nat \<Rightarrow> nat \<Rightarrow> bool" where
  "second_byte a b \<longleftrightarrow>
     (if a = 224 then 160 \<le> b \<and> b \<le> 191
      else if a = 237 then 128 \<le> b \<and> b \<le> 159
      else if a = 240 then 144 \<le> b \<and> b \<le> 191
      else if a = 244 then 128 \<le> b \<and> b \<le> 143
      else cont_byte b)"

fun decode2 :: "nat \<Rightarrow> string \<Rightarrow> nat \<times> nat" where
  "decode2 a (c1 # s) =
     (if cont_byte (byte c1) then ((a - 192) * 64 + (byte c1 - 128), 2) else (rune_error, 1))"
| "decode2 a [] = (rune_error, 1)"

fun decode3 :: "nat \<Rightarrow> string \<Rightarrow> nat \<times> nat" where
  "decode3 a (c1 # c2 # s) =
     (if second_byte a (byte c1) \<and> cont_byte (byte c2)
      then ((a - 224) * 4096 + (byte c1 - 128) * 64 + (byte c2 - 128), 3) else (rune_error, 1))"
| "decode3 a s = (rune_error, 1)"

fun decode4 :: "nat \<Rightarrow> string \<Rightarrow> nat \<times> nat" where
  "decode4 a (c1 # c2 # c3 # s) =
     (if second_byte a (byte c1) \<and> cont_byte (byte c2) \<and> cont_byte (byte c3)
      then ((a - 240) * 262144 + (byte c1 - 128) * 4096 + (byte c2 - 128) * 64 + (byte c3 - 128), 4)
      else (rune_error, 1))"
| "decode4 a s = (rune_error, 1)"

fun decode_rune :: "string \<Rightarrow> nat \<times> nat" where
  "decode_rune [] = (rune_error, 0)"
| "decode_rune (c # s) =
     (let a = byte c in
      if a < 128 then (a, 1)
      else if 194 \<le> a \<and> a \<le> 223 then decode2 a s
      else if 224 \<le> a \<and> a \<le> 239 then decode3 a s
      else if 240 \<le> a \<and> a \<le> 244 then decode4 a s
      else (rune_error, 1))"

definition valid_rune :: "nat \<Rightarrow> bool" where
  "valid_rune r \<longleftrightarrow> r < 55296 \<or> (57344 \<le> r \<and> r \<le> 1114111)"

definition encode_rune :: "nat \<Rightarrow> string" where
  "encode_rune r0 =
     (let r = if valid_rune r0 then r0 else rune_error in
      if r < 128 then [chr r]
      else if r < 2048 then [chr (192 + r div 64), chr (128 + r mod 64)]
      else if r < 65536
        then [chr (224 + r div 4096), chr (128 + r div 64 mod 64), chr (128 + r mod 64)]
      else [chr (240 + r div 262144), chr (128 + r div 4096 mod 64),
            chr (128 + r div 64 mod 64), chr (128 + r mod 64)])"

lemma encode_rune_code [code]:
  "encode_rune r = (if r < 128 then [Enum.enum ! r] else
     let r = if valid_rune r then r else rune_error in
      if r < 2048 then [chr (192 + r div 64), chr (128 + r mod 64)]
      else if r < 65536
        then [chr (224 + r div 4096), chr (128 + r div 64 mod 64), chr (128 + r mod 64)]
      else [chr (240 + r div 262144), chr (128 + r div 4096 mod 64),
            chr (128 + r div 64 mod 64), chr (128 + r mod 64)])"
proof (cases "r < 128")
  case True
  then have "Enum.enum ! r = (chr r)" by (simp add: enum_char_unfold)
  with True show ?thesis by (simp add: encode_rune_def valid_rune_def)
qed (simp add: encode_rune_def rune_error_def Let_def)

lemma byte_chr [simp]: "n < 256 \<Longrightarrow> byte (chr n) = n"
  by simp

lemma byte_less: "byte c < 256"
  using of_char_of [of "of_char c :: nat"] by (metis of_char_mod_256 mod_less_divisor zero_less_numeral)

lemma encode_nonempty [simp]: "encode_rune r \<noteq> []"
  by (simp add: encode_rune_def Let_def)

lemma second_cont: "second_byte a b \<Longrightarrow> cont_byte b"
  by (auto simp: second_byte_def cont_byte_def split: if_splits)

lemma decode_size:
  assumes "s \<noteq> []" shows "1 \<le> snd (decode_rune s)" "snd (decode_rune s) \<le> length s"
proof -
  obtain c t where s: "s = c # t" using assms by (cases s) auto
  have "1 \<le> snd (decode2 a t) \<and> snd (decode2 a t) \<le> Suc (length t)"
    "1 \<le> snd (decode3 a t) \<and> snd (decode3 a t) \<le> Suc (length t)"
    "1 \<le> snd (decode4 a t) \<and> snd (decode4 a t) \<le> Suc (length t)" for a
    by (cases "(a, t)" rule: decode2.cases, auto)
      (cases "(a, t)" rule: decode3.cases, auto, cases "(a, t)" rule: decode4.cases, auto)+
  then show "1 \<le> snd (decode_rune s)" "snd (decode_rune s) \<le> length s"
    unfolding s by (simp_all add: Let_def)
qed

section \<open>Round trips\<close>

lemma digits2: "r = (r div 64) * 64 + r mod (64::nat)" "r mod 64 < (64::nat)"
  by simp_all

lemma digits3:
  "r = (r div 4096) * 4096 + (r div 64 mod 64) * 64 + r mod (64::nat)"
  "r div 64 mod 64 < (64::nat)"
proof -
  have "r div 64 = (r div 4096) * 64 + r div 64 mod 64"
    using div_mult_mod_eq [of "r div 64" 64] by (simp add: div_mult2_eq [symmetric])
  then show "r = (r div 4096) * 4096 + (r div 64 mod 64) * 64 + r mod (64::nat)"
    using digits2 [of r] by linarith
qed simp

lemma digits4:
  "r = (r div 262144) * 262144 + (r div 4096 mod 64) * 4096 + (r div 64 mod 64) * 64 + r mod (64::nat)"
  "r div 4096 mod 64 < (64::nat)"
proof -
  have "r div 4096 = (r div 262144) * 64 + r div 4096 mod 64"
    using div_mult_mod_eq [of "r div 4096" 64] by (simp add: div_mult2_eq [symmetric])
  then show "r = (r div 262144) * 262144 + (r div 4096 mod 64) * 4096 + (r div 64 mod 64) * 64 + r mod (64::nat)"
    using digits3 [of r] by linarith
qed simp

lemma second_byte3:
  assumes "2048 \<le> r" "r < 65536" "valid_rune r"
  shows "second_byte (224 + r div 4096) (128 + r div 64 mod 64)"
proof -
  note d = digits3 [of r] digits2(2) [of r]
  have "r div 4096 = 13 \<Longrightarrow> r div 64 mod 64 < 32"
    using d assms(3) unfolding valid_rune_def by linarith
  moreover have "r div 4096 = 0 \<Longrightarrow> 32 \<le> r div 64 mod 64" using d assms(1) by linarith
  moreover have "r div 4096 < 16" using d assms(2) by linarith
  ultimately show ?thesis
    using d(2) unfolding second_byte_def cont_byte_def by auto
qed

lemma second_byte4:
  assumes "65536 \<le> r" "valid_rune r"
  shows "second_byte (240 + r div 262144) (128 + r div 4096 mod 64)"
proof -
  note d = digits4 [of r] digits3(2) [of r] digits2(2) [of r]
  have "r div 262144 = 4 \<Longrightarrow> r div 4096 mod 64 < 16"
    using d assms(2) unfolding valid_rune_def by linarith
  moreover have "r div 262144 = 0 \<Longrightarrow> 16 \<le> r div 4096 mod 64" using d assms(1) by linarith
  moreover have "r div 262144 \<le> 4" using d assms(2) unfolding valid_rune_def by linarith
  ultimately show ?thesis
    using d(2) unfolding second_byte_def cont_byte_def by auto
qed

lemma cont_mod: "n < 64 \<Longrightarrow> cont_byte (128 + n)"
  unfolding cont_byte_def by simp

text \<open>The decoders on bytes given by their values.\<close>

lemma decode2_bytes:
  assumes "x < 64"
  shows "decode2 (192 + a) (chr (128 + x) # s) = (a * 64 + x, 2)"
  using assms by (simp add: cont_byte_def)

lemma decode3_bytes:
  assumes "second_byte (224 + a) (128 + x)" "x < 64" "y < 64"
  shows "decode3 (224 + a) (chr (128 + x) # chr (128 + y) # s) = (a * 4096 + x * 64 + y, 3)"
  using assms by (simp add: cont_byte_def)

lemma decode4_bytes:
  assumes "second_byte (240 + a) (128 + x)" "x < 64" "y < 64" "z < 64"
  shows "decode4 (240 + a) (chr (128 + x) # chr (128 + y) # chr (128 + z) # s) =
     (a * 262144 + x * 4096 + y * 64 + z, 4)"
  using assms by (simp add: cont_byte_def)

lemma decode_encode:
  assumes "valid_rune r"
  shows "decode_rune (encode_rune r @ s) = (r, length (encode_rune r))"
proof -
  note d = digits4 [of r] digits3 [of r] digits2 [of r]
  consider "r < 128" | "128 \<le> r" "r < 2048" | "2048 \<le> r" "r < 65536" | "65536 \<le> r" by linarith
  then show ?thesis
  proof cases
    case 1 then show ?thesis using assms by (simp add: encode_rune_def)
  next
    case 2
    then have a: "2 \<le> r div 64" "r div 64 < 32" using d by linarith+
    have e: "encode_rune r = [chr (192 + r div 64), chr (128 + r mod 64)]"
      using 2 assms by (simp add: encode_rune_def)
    have b: "byte (chr (192 + r div 64)) = 192 + r div 64" using a by simp
    show ?thesis
      unfolding e append.simps decode_rune.simps Let_def b decode2_bytes [OF digits2(2)]
      using a d(5) by simp
  next
    case 3
    then have a: "r div 4096 < 16" using d by linarith
    have e: "encode_rune r = [chr (224 + r div 4096), chr (128 + r div 64 mod 64), chr (128 + r mod 64)]"
      using 3 assms by (simp add: encode_rune_def)
    have b: "byte (chr (224 + r div 4096)) = 224 + r div 4096" using a by simp
    show ?thesis
      unfolding e append.simps decode_rune.simps Let_def b
        decode3_bytes [OF second_byte3 [OF 3 assms] digits3(2) digits2(2)]
      using a d(3) by simp
  next
    case 4
    then have a: "r div 262144 < 5" using d assms unfolding valid_rune_def by linarith
    have e: "encode_rune r = [chr (240 + r div 262144), chr (128 + r div 4096 mod 64),
        chr (128 + r div 64 mod 64), chr (128 + r mod 64)]"
      using 4 assms by (simp add: encode_rune_def)
    have b: "byte (chr (240 + r div 262144)) = 240 + r div 262144" using a by simp
    show ?thesis
      unfolding e append.simps decode_rune.simps Let_def b
        decode4_bytes [OF second_byte4 [OF 4 assms] digits4(2) digits3(2) digits2(2)]
      using a d(1) by simp
  qed
qed

text \<open>Whatever decodes is valid.\<close>

lemma valid3:
  assumes "a < 16" "b < 64" "c < 64" "a = 13 \<Longrightarrow> b < (32::nat)"
  shows "valid_rune (a * 4096 + b * 64 + c)"
proof -
  consider "a < 13" | "a = 13" | "14 \<le> a" by linarith
  then show ?thesis using assms unfolding valid_rune_def by cases simp_all
qed

lemma valid4:
  assumes "a < 5" "b < 64" "c < 64" "d < 64" "a = 0 \<Longrightarrow> (16::nat) \<le> b" "a = 4 \<Longrightarrow> b < 16"
  shows "valid_rune (a * 262144 + b * 4096 + c * 64 + d)"
proof -
  consider "a = 0" | "0 < a" "a < 4" | "a = 4" using assms(1) by linarith
  then show ?thesis using assms unfolding valid_rune_def by cases simp_all
qed

lemma valid_error: "valid_rune rune_error"
  by (simp add: valid_rune_def rune_error_def)

lemma decode2_valid:
  assumes "194 \<le> a" "a \<le> 223" shows "valid_rune (fst (decode2 a s))"
  using assms valid_error
  by (cases "(a, s)" rule: decode2.cases) (auto simp: valid_rune_def cont_byte_def)

lemma decode3_valid:
  assumes "224 \<le> a" "a \<le> 239" shows "valid_rune (fst (decode3 a s))"
proof (cases "(a, s)" rule: decode3.cases)
  case (1 a' c1 c2 t)
  have "valid_rune ((a - 224) * 4096 + (byte c1 - 128) * 64 + (byte c2 - 128))"
    if "second_byte a (byte c1)" "cont_byte (byte c2)"
    using that second_cont [OF that(1)] assms
    by (intro valid3) (auto simp: second_byte_def cont_byte_def split: if_splits)
  with 1 valid_error show ?thesis by simp
qed (use valid_error in auto)

lemma decode4_valid:
  assumes "240 \<le> a" "a \<le> 244" shows "valid_rune (fst (decode4 a s))"
proof (cases "(a, s)" rule: decode4.cases)
  case (1 a' c1 c2 c3 t)
  have "valid_rune ((a - 240) * 262144 + (byte c1 - 128) * 4096 + (byte c2 - 128) * 64 + (byte c3 - 128))"
    if "second_byte a (byte c1)" "cont_byte (byte c2)" "cont_byte (byte c3)"
    using that second_cont [OF that(1)] assms
    by (intro valid4) (auto simp: second_byte_def cont_byte_def split: if_splits)
  with 1 valid_error show ?thesis by simp
qed (use valid_error in auto)

lemma decode_valid: "valid_rune (fst (decode_rune s))"
proof (cases s)
  case (Cons c t)
  have "byte c < 128 \<Longrightarrow> valid_rune (byte c)" by (simp add: valid_rune_def)
  with Cons decode2_valid [of "byte c" t] decode3_valid [of "byte c" t] decode4_valid [of "byte c" t]
    valid_error show ?thesis by (simp add: Let_def)
qed (simp add: valid_error)

section \<open>Strings of runes\<close>

function runes :: "string \<Rightarrow> nat list" where
  "runes s = (if s = [] then [] else case decode_rune s of (r, n) \<Rightarrow> r # runes (drop n s))"
  by pat_completeness auto
termination
proof (relation "measure length")
  fix s x y assume ne: "s \<noteq> []" and "(x, y) = decode_rune s"
  then have "y = snd (decode_rune s)" by (metis snd_conv)
  with decode_size(1) [OF ne] ne show "(drop y s, s) \<in> measure length" by simp
qed simp

declare runes.simps [simp del]

definition encode_all :: "nat list \<Rightarrow> string" where "encode_all rs = concat (map encode_rune rs)"

definition RuneCount :: "string \<Rightarrow> nat" where "RuneCount s = length (runes s)"

lemma runes_encode_all: "list_all valid_rune rs \<Longrightarrow> runes (encode_all rs) = rs"
proof (induction rs)
  case Nil show ?case by (simp add: encode_all_def runes.simps)
next
  case (Cons r rs)
  then have "decode_rune (encode_rune r @ encode_all rs) = (r, length (encode_rune r))"
    by (simp add: decode_encode)
  with Cons show ?case
    by (subst runes.simps) (simp add: encode_all_def)
qed

lemma encode_all_append [simp]: "encode_all (xs @ ys) = encode_all xs @ encode_all ys"
  "encode_all [] = []" "encode_all (r # rs) = encode_rune r @ encode_all rs"
  by (simp_all add: encode_all_def)

end
