(* ===== verification/ConsoleText.thy ===== *)
theory ConsoleText
  imports Utf8
begin

text \<open>
  Cleaning of console lines (\<open>source/internal/supervisor/console_text.go\<close>): \<open>SanitizeLine\<close>
  strips terminal control sequences from a line of the pseudo-terminal. Its properties: the
  result is bounded, valid UTF-8 without control or format characters, and plain text is left
  as it is.
\<close>

section \<open>Format characters\<close>

text \<open>The ranges of Unicode's category Cf.\<close>

definition Cf_ranges :: "(nat \<times> nat) list" where
  "Cf_ranges = [(173, 173), (1536, 1541), (1564, 1564), (1757, 1757), (1807, 1807), (2192, 2193),
     (2274, 2274), (6158, 6158), (8203, 8207), (8234, 8238), (8288, 8292), (8294, 8303),
     (65279, 65279), (65529, 65531), (69821, 69821), (69837, 69837), (78896, 78911),
     (113824, 113827), (119155, 119162), (917505, 917505), (917536, 917631)]"

definition is_Cf :: "nat \<Rightarrow> bool" where
  "is_Cf r \<longleftrightarrow> list_ex (\<lambda>(lo, hi). lo \<le> r \<and> r \<le> hi) Cf_ranges"

section \<open>Escape sequences\<close>

text \<open>The loops of \<open>escapeLength\<close>, from index \<open>i\<close> with the rest of the string.\<close>

fun scan_csi :: "nat \<Rightarrow> string \<Rightarrow> nat" where
  "scan_csi i [] = i"
| "scan_csi i (c # cs) = (if 64 \<le> byte c \<and> byte c \<le> (126::nat) then i + 1 else scan_csi (i + 1) cs)"

fun scan_osc :: "nat \<Rightarrow> string \<Rightarrow> nat" where
  "scan_osc i [] = i"
| "scan_osc i (c # cs) =
     (if byte c = (7::nat) then i + 1
      else if byte c = (27::nat) \<and> cs \<noteq> [] \<and> hd cs = CHR 0x5C then i + 2
      else scan_osc (i + 1) cs)"

fun scan_st :: "nat \<Rightarrow> string \<Rightarrow> nat" where
  "scan_st i [] = i"
| "scan_st i (c # cs) =
     (if byte c = (27::nat) \<and> cs \<noteq> [] \<and> hd cs = CHR 0x5C then i + 2 else scan_st (i + 1) cs)"

fun escapeLength :: "string \<Rightarrow> nat" where
  "escapeLength (e # c # rest) =
     (if byte e \<noteq> (27::nat) then 0
      else if c = CHR ''['' then scan_csi 2 rest
      else if c = CHR '']'' then scan_osc 2 rest
      else if c = CHR ''P'' \<or> c = CHR ''^'' \<or> c = CHR ''_'' then scan_st 2 rest
      else if c = CHR ''('' \<or> c = CHR '')'' \<or> c = CHR ''*'' \<or> c = CHR ''+''
        then (if rest \<noteq> [] then 3 else 2)
      else 2)"
| "escapeLength s = 0"

lemma scan_bounds:
  "i \<le> scan_csi i s \<and> scan_csi i s \<le> i + length s"
  "i \<le> scan_osc i s \<and> scan_osc i s \<le> i + length s"
  "i \<le> scan_st i s \<and> scan_st i s \<le> i + length s"
proof -
  show "i \<le> scan_csi i s \<and> scan_csi i s \<le> i + length s"
    by (induction i s rule: scan_csi.induct) auto
  show "i \<le> scan_osc i s \<and> scan_osc i s \<le> i + length s"
  proof (induction i s rule: scan_osc.induct)
    case (2 i c cs) then show ?case by (cases cs) auto
  qed simp
  show "i \<le> scan_st i s \<and> scan_st i s \<le> i + length s"
  proof (induction i s rule: scan_st.induct)
    case (2 i c cs) then show ?case by (cases cs) auto
  qed simp
qed

lemma escapeLength_bound: "escapeLength s \<le> length s"
proof (cases s rule: escapeLength.cases)
  case (1 e c rest)
  then show ?thesis
    using scan_bounds(1) [of 2 rest] scan_bounds(2) [of 2 rest] scan_bounds(3) [of 2 rest]
    by (cases rest) simp_all
qed simp_all

section \<open>SanitizeLine\<close>

definition maxLineRunes :: nat where "maxLineRunes = 4000"

text \<open>The loop, with \<open>line[i:]\<close> and the text built so far.\<close>

function sanitize_loop :: "string \<Rightarrow> string \<Rightarrow> string" where
  "sanitize_loop s b =
     (if s = [] then b
      else case decode_rune s of (r, sz) \<Rightarrow>
        if r = 27 then
          (let n = escapeLength s
           in if 0 < n then sanitize_loop (drop n s) b else sanitize_loop (drop sz s) b)
        else if r = 13 then sanitize_loop (drop sz s) []
        else if r = 9 then sanitize_loop (drop sz s) (b @ '' '')
        else if r = rune_error \<and> sz = 1 then sanitize_loop (drop 1 s) b
        else if r < 32 \<or> r = 127 then sanitize_loop (drop sz s) b
        else if is_Cf r then sanitize_loop (drop sz s) b
        else sanitize_loop (drop sz s) (b @ encode_rune r))"
  by pat_completeness auto
termination
proof (relation "measure (\<lambda>(s, b). length s)", goal_cases)
  case (3 s b x y)
  then show ?case using decode_size(1) [of s] by (auto simp: prod_eq_iff)
next
  case (4 s b x y)
  then show ?case using decode_size(1) [of s] by (auto simp: prod_eq_iff)
next
  case (5 s b x y)
  then show ?case using decode_size(1) [of s] by (auto simp: prod_eq_iff)
next
  case (7 s b x y)
  then show ?case using decode_size(1) [of s] by (auto simp: prod_eq_iff)
next
  case (8 s b x y)
  then show ?case using decode_size(1) [of s] by (auto simp: prod_eq_iff)
next
  case (9 s b x y)
  then show ?case using decode_size(1) [of s] by (auto simp: prod_eq_iff)
qed auto

declare sanitize_loop.simps [simp del]

definition TrimRightSpaces :: "string \<Rightarrow> string" where
  "TrimRightSpaces s = rev (dropWhile (\<lambda>c. c = CHR '' '') (rev s))"

text \<open>A space, the ellipsis U+2026 and \<open>[truncated]\<close>.\<close>

definition truncated_mark :: string where
  "truncated_mark = '' '' @ encode_rune 0x2026 @ ''[truncated]''"

definition SanitizeLine :: "string \<Rightarrow> string" where
  "SanitizeLine line =
     (if line = [] then []
      else let out = TrimRightSpaces (sanitize_loop line [])
           in if maxLineRunes < RuneCount out
              then encode_all (take maxLineRunes (runes out)) @ truncated_mark
              else out)"

section \<open>What a cleaned line is\<close>

definition console_rune :: "nat \<Rightarrow> bool" where
  "console_rune r \<longleftrightarrow> valid_rune r \<and> 32 \<le> r \<and> r \<noteq> 127 \<and> \<not> is_Cf r"

definition console_text :: "string \<Rightarrow> bool" where
  "console_text s \<longleftrightarrow> (\<exists>rs. s = encode_all rs \<and> list_all console_rune rs)"

lemma console_textI: "list_all console_rune rs \<Longrightarrow> console_text (encode_all rs)"
  by (auto simp: console_text_def)

lemma console_text_runes:
  assumes "console_text s" shows "s = encode_all (runes s)" "list_all console_rune (runes s)"
proof -
  from assms obtain rs where rs: "s = encode_all rs" "list_all console_rune rs"
    by (auto simp: console_text_def)
  then have "list_all valid_rune rs" by (auto simp: list_all_iff console_rune_def)
  with rs show "s = encode_all (runes s)" "list_all console_rune (runes s)"
    by (simp_all add: runes_encode_all)
qed

lemma console_text_append: "console_text a \<Longrightarrow> console_text b \<Longrightarrow> console_text (a @ b)"
  unfolding console_text_def by (metis encode_all_append(1) list_all_append)

lemma encode_ascii: "byte c < (128::nat) \<Longrightarrow> encode_rune (byte c) = [c]"
  by (simp add: encode_rune_def valid_rune_def)

lemma encode_all_ascii: "list_all (\<lambda>c. byte c < (128::nat)) s \<Longrightarrow> encode_all (map byte s) = s"
  by (induction s) (simp_all add: encode_ascii)

lemma console_ascii: "32 \<le> r \<Longrightarrow> r < 127 \<Longrightarrow> console_rune r"
  by (simp add: console_rune_def valid_rune_def is_Cf_def Cf_ranges_def)

lemma ascii_space_encode: "encode_rune 32 = '' ''"
  using encode_ascii [of "CHR '' ''"] by simp

lemma space_console: "console_text '' ''"
  using console_textI [of "[32]"] by (simp add: console_ascii ascii_space_encode)

lemma sanitize_loop_text: "console_text b \<Longrightarrow> console_text (sanitize_loop s b)"
proof (induction s b rule: sanitize_loop.induct)
  case (1 s b)
  show ?case
  proof (cases "s = []")
    case True with 1 show ?thesis by (simp add: sanitize_loop.simps)
  next
    case False
    obtain r n where d: "decode_rune s = (r, n)" by fastforce
    have b1: "console_text (b @ '' '')" using 1(9) space_console by (rule console_text_append)
    have b2: "console_text (b @ encode_rune r)" if "32 \<le> r" "r \<noteq> 127" "\<not> is_Cf r"
    proof -
      from decode_valid [of s] d that have "list_all console_rune [r]"
        by (simp add: console_rune_def)
      from console_textI [OF this] 1(9) show ?thesis by (simp add: console_text_append)
    qed
    have b0: "console_text []" by (simp add: console_text_def encode_all_def)
    show ?thesis
      unfolding sanitize_loop.simps [of s b] d
      using False 1(1-2) [OF False d [symmetric] _ refl] 1(3-8) [OF False d [symmetric]] 1(9) b0 b1 b2
      by (simp add: Let_def rune_error_def)
  qed
qed

lemma encode_last:
  assumes "valid_rune r" "last (encode_rune r) = CHR '' ''" shows "r = 32"
proof (rule ccontr)
  assume ne: "r \<noteq> 32"
  have "last (encode_rune r) = chr (if r < 128 then r else 128 + r mod 64)"
    unfolding encode_rune_def Let_def using assms(1) by simp
  moreover have "(if r < 128 then r else 128 + r mod 64) < 256" using digits2(2) [of r] by auto
  ultimately have "byte (last (encode_rune r)) = (if r < 128 then r else 128 + r mod 64)"
    by (simp only: byte_chr)
  moreover have "byte (last (encode_rune r)) = (32::nat)" unfolding assms(2) by simp
  ultimately have "(if r < 128 then r else 128 + r mod 64) = 32" by simp
  with ne show False by (simp split: if_splits)
qed

lemma dropWhile_rev_last:
  "ys \<noteq> [] \<Longrightarrow> last ys \<noteq> c \<Longrightarrow> dropWhile (\<lambda>x. x = c) (rev (xs @ ys)) = rev (xs @ ys)"
  by (cases ys rule: rev_cases) simp_all

lemma TrimRightSpaces_encode:
  "list_all valid_rune rs \<Longrightarrow>
   TrimRightSpaces (encode_all rs) = encode_all (rev (dropWhile (\<lambda>r. r = 32) (rev rs)))"
proof (induction rs rule: rev_induct)
  case Nil show ?case by (simp add: TrimRightSpaces_def)
next
  case (snoc r rs)
  show ?case
  proof (cases "r = 32")
    case True
    have "TrimRightSpaces (encode_all rs @ '' '') = TrimRightSpaces (encode_all rs)"
      by (simp add: TrimRightSpaces_def)
    with True snoc show ?thesis by (simp add: ascii_space_encode)
  next
    case False
    with snoc.prems encode_last [of r] have l: "last (encode_rune r) \<noteq> CHR '' ''" by auto
    from dropWhile_rev_last [OF encode_nonempty this]
    have "dropWhile (\<lambda>c. c = CHR '' '') (rev (encode_all rs @ encode_rune r)) =
        rev (encode_all rs @ encode_rune r)" .
    then have "TrimRightSpaces (encode_all rs @ encode_rune r) = encode_all rs @ encode_rune r"
      by (simp add: TrimRightSpaces_def)
    with False show ?thesis by simp
  qed
qed

lemma TrimRightSpaces_text:
  assumes "console_text s" shows "console_text (TrimRightSpaces s)"
proof -
  note r = console_text_runes [OF assms]
  then have "list_all valid_rune (runes s)" by (auto simp: list_all_iff console_rune_def)
  from TrimRightSpaces_encode [OF this] r(1)
  have t: "TrimRightSpaces s = encode_all (rev (dropWhile (\<lambda>r. r = 32) (rev (runes s))))" by simp
  have "list_all console_rune (rev (dropWhile (\<lambda>r. r = 32) (rev (runes s))))"
    using r(2) by (auto simp: list_all_iff dest: set_dropWhileD)
  then show ?thesis unfolding t by (rule console_textI)
qed

definition mark_runes :: "nat list" where
  "mark_runes = 32 # 0x2026 # map byte ''[truncated]''"

lemma truncated_mark_runes: "truncated_mark = encode_all mark_runes" "list_all console_rune mark_runes"
  "length mark_runes = 13"
proof -
  have "list_all (\<lambda>c. byte c < (128::nat)) ''[truncated]''" by simp
  from encode_all_ascii [OF this] show "truncated_mark = encode_all mark_runes"
    by (simp only: truncated_mark_def mark_runes_def encode_all_append ascii_space_encode)
  show "list_all console_rune mark_runes"
    by (simp add: mark_runes_def console_ascii)
      (simp add: console_rune_def valid_rune_def is_Cf_def Cf_ranges_def)
qed (simp add: mark_runes_def)

text \<open>C10. Whatever bytes the terminal sends, a cleaned line is valid UTF-8 of at most 4013 runes,
  none of them a C0 control, an escape, DEL or a format character. (C1 controls do pass, against
  the comment on the function: \<open>C1_control_passes\<close> below.)\<close>

theorem sanitized_line_clean:
  "\<exists>rs. SanitizeLine line = encode_all rs \<and> list_all console_rune rs \<and> length rs \<le> maxLineRunes + 13"
proof -
  define out where "out = TrimRightSpaces (sanitize_loop line [])"
  have "console_text []" by (simp add: console_text_def encode_all_def)
  then have "console_text out" unfolding out_def by (intro TrimRightSpaces_text sanitize_loop_text)
  note r = console_text_runes [OF this]
  have mark: "list_all console_rune (take maxLineRunes (runes out) @ mark_runes)"
    using r(2) truncated_mark_runes(2) by (simp add: list_all_take_drop)
  consider "line = []" | "line \<noteq> []" "maxLineRunes < RuneCount out"
    | "line \<noteq> []" "\<not> maxLineRunes < RuneCount out" by blast
  then show ?thesis
  proof cases
    case 1 then show ?thesis by (intro exI [of _ "[]"]) (simp add: SanitizeLine_def)
  next
    case 2
    then have "SanitizeLine line = encode_all (take maxLineRunes (runes out) @ mark_runes)"
      by (simp add: SanitizeLine_def Let_def out_def [symmetric] truncated_mark_runes(1))
    with mark truncated_mark_runes(3) show ?thesis by (metis add_le_mono length_append length_take min.cobounded2 order_refl)
  next
    case 3
    then have "SanitizeLine line = out" by (simp add: SanitizeLine_def Let_def out_def [symmetric])
    with 3 r show ?thesis by (intro exI [of _ "runes out"]) (simp add: RuneCount_def)
  qed
qed

section \<open>Plain text passes\<close>

lemma console_no_escape:
  assumes "console_rune r"
  shows "sanitize_loop (encode_rune r @ s) b = sanitize_loop s (b @ encode_rune r)"
proof -
  from assms have v: "valid_rune r" by (simp add: console_rune_def)
  have "\<not> (r = rune_error \<and> length (encode_rune r) = 1)"
    by (simp add: encode_rune_def rune_error_def valid_rune_def)
  with assms show ?thesis
    by (subst sanitize_loop.simps) (auto simp: decode_encode [OF v] console_rune_def)
qed

lemma sanitize_loop_plain:
  "list_all console_rune rs \<Longrightarrow> sanitize_loop (encode_all rs @ s) b = sanitize_loop s (b @ encode_all rs)"
  by (induction rs arbitrary: b) (simp_all add: console_no_escape)

lemma SanitizeLine_plain:
  assumes "list_all console_rune rs" "length rs \<le> maxLineRunes" "rs \<noteq> []" "last rs \<noteq> 32"
  shows "SanitizeLine (encode_all rs) = encode_all rs"
proof -
  have v: "list_all valid_rune rs" using assms(1) by (auto simp: list_all_iff console_rune_def)
  have "dropWhile (\<lambda>r. r = 32) (rev rs) = rev rs"
    using assms(3,4) by (cases rs rule: rev_cases) simp_all
  with TrimRightSpaces_encode [OF v] have "TrimRightSpaces (encode_all rs) = encode_all rs" by simp
  moreover have "encode_all rs \<noteq> []" using assms(3) by (cases rs) simp_all
  ultimately show ?thesis
    using assms(2) sanitize_loop_plain [OF assms(1), of "[]" "[]"]
    by (simp add: SanitizeLine_def RuneCount_def runes_encode_all [OF v] sanitize_loop.simps [of "[]"])
qed

text \<open>Printable text that is not too long and ends in no space is shown as it is; so cleaning a
  line twice is cleaning it once.\<close>

lemma plain_text_kept:
  assumes "list_all console_rune rs" "length rs \<le> maxLineRunes" "rs \<noteq> []" "last rs \<noteq> 32"
  shows "SanitizeLine (encode_all rs) = encode_all rs \<and>
    SanitizeLine (SanitizeLine (encode_all rs)) = SanitizeLine (encode_all rs)"
  using SanitizeLine_plain [OF assms] by simp

lemma plain_text_kept_witness:
  "SanitizeLine (encode_all [72, 105, 0x2603]) = encode_all [72, 105, 0x2603]"
  by (rule plain_text_kept [THEN conjunct1])
    (simp_all add: console_rune_def valid_rune_def is_Cf_def Cf_ranges_def maxLineRunes_def)

text \<open>Two limits of the cleaning: a C1 control such as the one-byte CSI U+009B passes, and a line
  that ends in a carriage return is erased although a terminal would still show it.\<close>

lemma C1_control_passes: "SanitizeLine (encode_rune 0x9b) = encode_rune 0x9b"
  using SanitizeLine_plain [of "[0x9b]"]
  by (simp add: console_rune_def valid_rune_def is_Cf_def Cf_ranges_def maxLineRunes_def)

lemma trailing_return_erases:
  assumes "list_all console_rune rs" shows "SanitizeLine (encode_all rs @ [CHR 0x0D]) = []"
proof -
  have "sanitize_loop [CHR 0x0D] (encode_all rs) = []"
    by (simp add: sanitize_loop.simps [of "[CHR 0x0D]"] sanitize_loop.simps [of "[]"])
  with sanitize_loop_plain [OF assms, of "[CHR 0x0D]" "[]"] show ?thesis
    by (simp add: SanitizeLine_def TrimRightSpaces_def RuneCount_def runes.simps)
qed

end
