(* ===== verification/SupervisorConsole.thy ===== *)
theory SupervisorConsole
  imports ConsoleText
begin

text \<open>
  The console of the supervisor (\<open>source/internal/supervisor/supervisor.go\<close>): the bounded
  replay history and the fan-out to subscribers, the hiding of the output of Bonghos' own
  bookkeeping commands, and the commands sent to the server. A channel is the list of the lines
  it holds; sends to a full channel are dropped, as the code's \<open>select\<close> does. \<open>None\<close> is the zero
  time.
\<close>

section \<open>State\<close>

datatype sup_state =
  StateStopped | StateStarting | StateRunning | StateStopping | StateRestarting | StateCrashed

text \<open>The only pattern \<open>internalReplies\<close> holds.\<close>

datatype reply_pattern = ListReply

record console =
  c_history :: "string list"
  c_size :: int
  c_subs :: "(nat \<times> string list) list"
  c_internal :: "(nat \<times> string list) list"
  suppress_until :: "int option"
  suppress_re :: "reply_pattern option"
  suppress_echo :: string
  echo_pending :: bool
  reply_pending :: bool
  visible_command :: string
  visible_until :: "int option"

definition new_console :: console where
  "new_console = \<lparr>c_history = [], c_size = 0, c_subs = [], c_internal = [], suppress_until = None,
     suppress_re = None, suppress_echo = [], echo_pending = False, reply_pending = False,
     visible_command = [], visible_until = None\<rparr>"

definition historyLines :: nat where "historyLines = 500"
definition historyBytes :: int where "historyBytes = 48 * 1024"

definition nano :: int where "nano = 1000000000"

section \<open>History and fan-out\<close>

text \<open>The trimming loop of \<open>broadcast\<close>.\<close>

fun trim_history :: "string list \<Rightarrow> int \<Rightarrow> string list \<times> int" where
  "trim_history [] sz = ([], sz)"
| "trim_history (l # ls) sz =
     (if historyLines < length (l # ls) \<or> (historyBytes < sz \<and> 1 < length (l # ls))
      then trim_history ls (sz - (int (length l) + 1))
      else (l # ls, sz))"

definition offer :: "nat \<Rightarrow> string \<Rightarrow> nat \<times> string list \<Rightarrow> nat \<times> string list" where
  "offer cap line s = (case s of (ch, buf) \<Rightarrow> if length buf < cap then (ch, buf @ [line]) else (ch, buf))"

definition subscriber_cap :: nat where "subscriber_cap = 256"
definition internal_cap :: nat where "internal_cap = 32"

definition broadcast :: "string \<Rightarrow> console \<Rightarrow> console" where
  "broadcast line c =
     (case trim_history (c_history c @ [line]) (c_size c + (int (length line) + 1)) of
        (h, sz) \<Rightarrow> c\<lparr>c_history := h, c_size := sz,
                        c_subs := map (offer subscriber_cap line) (c_subs c)\<rparr>)"

definition broadcastInternal :: "string \<Rightarrow> console \<Rightarrow> console" where
  "broadcastInternal line c = c\<lparr>c_internal := map (offer internal_cap line) (c_internal c)\<rparr>"

definition Subscribe :: "nat \<Rightarrow> console \<Rightarrow> string list \<times> console" where
  "Subscribe ch c = (c_history c, c\<lparr>c_subs := c_subs c @ [(ch, [])]\<rparr>)"

definition Unsubscribe :: "nat \<Rightarrow> console \<Rightarrow> console" where
  "Unsubscribe ch c = c\<lparr>c_subs := filter (\<lambda>s. fst s \<noteq> ch) (c_subs c)\<rparr>"

definition SubscribeInternal :: "nat \<Rightarrow> console \<Rightarrow> console" where
  "SubscribeInternal ch c = c\<lparr>c_internal := c_internal c @ [(ch, [])]\<rparr>"

definition UnsubscribeInternal :: "nat \<Rightarrow> console \<Rightarrow> console" where
  "UnsubscribeInternal ch c = c\<lparr>c_internal := filter (\<lambda>s. fst s \<noteq> ch) (c_internal c)\<rparr>"

section \<open>Hiding bookkeeping output\<close>

text \<open>The regular expression \<open>players online|There are \d+ of a max\<close>.\<close>

definition count_then_max :: "string \<Rightarrow> bool" where
  "count_then_max s \<longleftrightarrow> s \<noteq> [] \<and> is_digit (hd s) \<and> HasPrefix (dropWhile is_digit s) '' of a max''"

fun there_are :: "string \<Rightarrow> bool" where
  "there_are [] = False"
| "there_are (c # cs) =
     (HasPrefix (c # cs) ''There are '' \<and> count_then_max (drop 10 (c # cs)) \<or> there_are cs)"

fun match_reply :: "reply_pattern \<Rightarrow> string \<Rightarrow> bool" where
  "match_reply ListReply line = (Contains line ''players online'' \<or> there_are line)"

definition internalReplies :: "string \<Rightarrow> reply_pattern option" where
  "internalReplies cmd = (if cmd = ''list'' then Some ListReply else None)"

definition clearSuppression :: "console \<Rightarrow> console" where
  "clearSuppression c = c\<lparr>suppress_until := None, suppress_re := None, suppress_echo := [],
     echo_pending := False, reply_pending := False\<rparr>"

definition finishSuppression :: "console \<Rightarrow> console" where
  "finishSuppression c = (if \<not> echo_pending c \<and> \<not> reply_pending c then clearSuppression c else c)"

definition suppressed :: "int \<Rightarrow> string \<Rightarrow> console \<Rightarrow> bool \<times> console" where
  "suppressed now line c =
     (case suppress_until c of
        None \<Rightarrow> (False, clearSuppression c)
      | Some t \<Rightarrow>
          if t < now then (False, clearSuppression c)
          else let trimmed = TrimSpace line in
            if echo_pending c \<and> suppress_echo c \<noteq> [] \<and>
               (trimmed = suppress_echo c \<or> HasSuffix trimmed (''> '' @ suppress_echo c))
            then (True, finishSuppression (c\<lparr>echo_pending := False\<rparr>))
            else if reply_pending c \<and>
                    (case suppress_re c of None \<Rightarrow> False | Some re \<Rightarrow> match_reply re line)
            then (True, finishSuppression (c\<lparr>reply_pending := False\<rparr>))
            else (False, c))"

section \<open>Commands\<close>

text \<open>\<open>strings.Map\<close> without line breaks: it re-encodes every rune it keeps, so an invalid byte
  becomes U+FFFD.\<close>

definition strip_breaks :: "string \<Rightarrow> string" where
  "strip_breaks s = encode_all (filter (\<lambda>r. r \<noteq> 10 \<and> r \<noteq> 13) (runes s))"

definition cleanConsoleCommand :: "string \<Rightarrow> string" where
  "cleanConsoleCommand cmd = TrimSpace (strip_breaks cmd)"

datatype send_error = EmptyCommand | NotRunning | NotAttached | WriteFailed

text \<open>\<open>attached\<close> says whether the terminal is there, \<open>write_ok\<close> whether the write succeeds. The
  bytes written are returned with the error.\<close>

definition sendCommand ::
  "sup_state \<Rightarrow> bool \<Rightarrow> bool \<Rightarrow> int \<Rightarrow> string \<Rightarrow> reply_pattern option \<Rightarrow> console
   \<Rightarrow> send_error option \<times> string \<times> console" where
  "sendCommand st attached write_ok now cmd reply c =
     (if cmd = [] then (Some EmptyCommand, [], c)
      else if st \<noteq> StateRunning \<and> st \<noteq> StateStarting \<and> st \<noteq> StateStopping then (Some NotRunning, [], c)
      else if \<not> attached then (Some NotAttached, [], c)
      else if reply \<noteq> None \<and> visible_command c = cmd \<and>
              (case visible_until c of None \<Rightarrow> False | Some t \<Rightarrow> now < t)
        then (None, [], c)
      else let c1 = (if reply \<noteq> None
             then c\<lparr>suppress_until := Some (now + 5 * nano), suppress_re := reply, suppress_echo := cmd,
                    echo_pending := True, reply_pending := True\<rparr>
             else if internalReplies cmd \<noteq> None
             then (clearSuppression c)\<lparr>visible_command := cmd, visible_until := Some (now + 5 * nano)\<rparr>
             else c)
        in if write_ok then (None, cmd @ [CHR 0x0A], c1)
           else (Some WriteFailed, [],
             if reply \<noteq> None then clearSuppression c1
             else if visible_command c1 = cmd then c1\<lparr>visible_command := [], visible_until := None\<rparr>
             else c1))"

definition SendCommand ::
  "sup_state \<Rightarrow> bool \<Rightarrow> bool \<Rightarrow> int \<Rightarrow> string \<Rightarrow> console \<Rightarrow> send_error option \<times> string \<times> console" where
  "SendCommand st attached write_ok now cmd c =
     sendCommand st attached write_ok now (cleanConsoleCommand cmd) None c"

definition SendInternalCommand ::
  "sup_state \<Rightarrow> bool \<Rightarrow> bool \<Rightarrow> int \<Rightarrow> string \<Rightarrow> console \<Rightarrow> send_error option \<times> string \<times> console" where
  "SendInternalCommand st attached write_ok now cmd c =
     (let cmd = cleanConsoleCommand cmd in
      case internalReplies cmd of
        None \<Rightarrow> SendCommand st attached write_ok now cmd c
      | Some reply \<Rightarrow> sendCommand st attached write_ok now cmd (Some reply) c)"

section \<open>Reading a line\<close>

text \<open>What one line of the terminal does: the line handed to the parser, the line appended to the
  log file, and whether it reports that the server is up.\<close>

record line_effect =
  le_parsed :: "string option"
  le_logged :: "string option"
  le_done :: bool

definition read_line :: "int \<Rightarrow> string \<Rightarrow> console \<Rightarrow> line_effect \<times> console" where
  "read_line now raw c =
     (let line = SanitizeLine raw in
      if line = [] \<and> TrimSpace raw \<noteq> [] then (\<lparr>le_parsed = None, le_logged = None, le_done = False\<rparr>, c)
      else case suppressed now line c of
        (hidden, c1) \<Rightarrow>
          (\<lparr>le_parsed = Some line, le_logged = (if hidden then None else Some line),
            le_done = (Contains line ''Done ('' \<and> Contains line '')!'')\<rparr>,
           if hidden then broadcastInternal line c1 else broadcast line c1))"

section \<open>The replay history\<close>

definition history_bytes :: "string list \<Rightarrow> int" where
  "history_bytes ls = sum_list (map (\<lambda>l. int (length l) + 1) ls)"

definition fits :: "string list \<Rightarrow> bool" where
  "fits ls \<longleftrightarrow> length ls \<le> historyLines \<and> (history_bytes ls \<le> historyBytes \<or> length ls \<le> 1)"

text \<open>The specification: the longest end of the output that fits.\<close>

fun longest_fit :: "string list \<Rightarrow> string list" where
  "longest_fit [] = []"
| "longest_fit (l # ls) = (if fits (l # ls) then l # ls else longest_fit ls)"

lemma history_bytes_simps [simp]:
  "history_bytes [] = 0"
  "history_bytes (l # ls) = int (length l) + 1 + history_bytes ls"
  "history_bytes (xs @ ys) = history_bytes xs + history_bytes ys"
  by (simp_all add: history_bytes_def)

lemma history_bytes_nonneg: "0 \<le> history_bytes ls"
  by (induction ls) simp_all

lemma trim_history_longest:
  "trim_history ls (history_bytes ls) = (longest_fit ls, history_bytes (longest_fit ls))"
  by (induction ls) (auto simp: fits_def not_less)

lemma longest_fit_fits: "fits (longest_fit ls)"
  by (induction ls) (simp_all add: fits_def)

lemma longest_fit_suffix: "\<exists>xs. ls = xs @ longest_fit ls"
proof (induction ls)
  case (Cons l ls)
  then obtain xs where "ls = xs @ longest_fit ls" by blast
  then have "l # ls = (l # xs) @ longest_fit ls" by simp
  then have "\<not> fits (l # ls) \<Longrightarrow> \<exists>xs. l # ls = xs @ longest_fit (l # ls)" by (metis longest_fit.simps(2))
  moreover have "fits (l # ls) \<Longrightarrow> l # ls = [] @ longest_fit (l # ls)" by simp
  ultimately show ?case by blast
qed simp

lemma fits_snoc: "fits (ls @ [l]) \<Longrightarrow> fits ls"
  by (cases ls) (auto simp: fits_def historyLines_def)

text \<open>Trimming line by line gives the longest fitting end of everything.\<close>

lemma longest_fit_snoc: "longest_fit (longest_fit ls @ [l]) = longest_fit (ls @ [l])"
proof (induction ls)
  case (Cons k ls)
  show ?case
  proof (cases "fits (k # ls)")
    case False
    then have "\<not> fits ((k # ls) @ [l])" using fits_snoc by blast
    with False Cons show ?thesis by simp
  qed simp
qed simp

definition history_inv :: "string list \<Rightarrow> console \<Rightarrow> bool" where
  "history_inv all c \<longleftrightarrow> c_history c = longest_fit all \<and> c_size c = history_bytes (c_history c)"

lemma broadcast_history: "history_inv all c \<Longrightarrow> history_inv (all @ [line]) (broadcast line c)"
  using trim_history_longest [of "longest_fit all @ [line]"]
  by (simp add: history_inv_def broadcast_def longest_fit_snoc)

section \<open>Runs of the console\<close>

text \<open>A run: lines of the terminal, notices of the supervisor, commands of operators and of
  Bonghos itself, and subscribers that come and go.\<close>

datatype console_event =
    OutLine int string
  | Notice string
  | OperatorSend sup_state bool bool int string
  | BookSend sup_state bool bool int string
  | Attach nat
  | Detach nat

fun console_step :: "console_event \<Rightarrow> console \<Rightarrow> line_effect option \<times> console" where
  "console_step (OutLine now raw) c = (case read_line now raw c of (e, c') \<Rightarrow> (Some e, c'))"
| "console_step (Notice line) c = (None, broadcast line c)"
| "console_step (OperatorSend st att ok now cmd) c = (None, snd (snd (SendCommand st att ok now cmd c)))"
| "console_step (BookSend st att ok now cmd) c = (None, snd (snd (SendInternalCommand st att ok now cmd c)))"
| "console_step (Attach ch) c = (None, snd (Subscribe ch c))"
| "console_step (Detach ch) c = (None, Unsubscribe ch c)"

text \<open>The lines an event makes visible, and those it hides.\<close>

fun shown :: "console_event \<Rightarrow> line_effect option \<Rightarrow> string list" where
  "shown (Notice line) e = [line]"
| "shown ev (Some e) = (case le_logged e of Some l \<Rightarrow> [l] | None \<Rightarrow> [])"
| "shown ev None = []"

fun hidden :: "line_effect option \<Rightarrow> nat" where
  "hidden (Some e) = (if le_parsed e \<noteq> None \<and> le_logged e = None then 1 else 0)"
| "hidden None = 0"

fun console_run :: "console_event list \<Rightarrow> console \<Rightarrow> string list \<times> nat \<times> console" where
  "console_run [] c = ([], 0, c)"
| "console_run (ev # evs) c =
     (case console_step ev c of (e, c1) \<Rightarrow>
      case console_run evs c1 of (ls, n, c2) \<Rightarrow> (shown ev e @ ls, hidden e + n, c2))"

lemma suppression_frame [simp]:
  "c_history (clearSuppression c) = c_history c" "c_size (clearSuppression c) = c_size c"
  "c_history (finishSuppression c) = c_history c" "c_size (finishSuppression c) = c_size c"
  by (simp_all add: clearSuppression_def finishSuppression_def)

lemma suppressed_frame:
  "suppressed now line c = (b, c') \<Longrightarrow> c_history c' = c_history c \<and> c_size c' = c_size c"
  by (auto simp: suppressed_def Let_def split: option.splits if_splits)

lemma sendCommand_frame:
  "sendCommand st att ok now cmd reply c = (e, w, c') \<Longrightarrow>
   c_history c' = c_history c \<and> c_size c' = c_size c"
  by (auto simp: sendCommand_def Let_def split: if_splits)

lemma history_inv_cong:
  "c_history c' = c_history c \<and> c_size c' = c_size c \<Longrightarrow> history_inv all c \<Longrightarrow> history_inv all c'"
  by (simp add: history_inv_def)

lemma SendCommand_frame:
  "SendCommand st att ok now cmd c = (e, w, c') \<Longrightarrow> c_history c' = c_history c \<and> c_size c' = c_size c"
  "SendInternalCommand st att ok now cmd c = (e, w, c') \<Longrightarrow>
   c_history c' = c_history c \<and> c_size c' = c_size c"
  by (auto simp: SendCommand_def SendInternalCommand_def Let_def split: option.splits
      dest: sendCommand_frame)

lemma read_line_history:
  assumes "read_line now raw c = (e, c')" "history_inv all c"
  shows "history_inv (all @ (case le_logged e of Some l \<Rightarrow> [l] | None \<Rightarrow> [])) c'"
proof -
  obtain h c1 where s: "suppressed now (SanitizeLine raw) c = (h, c1)" by fastforce
  from history_inv_cong [OF suppressed_frame [OF s] assms(2)] have i: "history_inv all c1" .
  then have "history_inv all (broadcastInternal l c1)" for l
    by (simp add: history_inv_def broadcastInternal_def)
  with assms i s broadcast_history [OF i] show ?thesis
    by (auto simp: read_line_def Let_def split: if_splits)
qed

lemma console_step_history:
  assumes "console_step ev c = (e, c')" "history_inv all c"
  shows "history_inv (all @ shown ev e) c'"
proof (cases ev)
  case (OutLine now raw)
  with assms obtain e0 where "read_line now raw c = (e0, c')" "e = Some e0" by (auto split: prod.splits)
  with read_line_history [OF this(1) assms(2)] OutLine show ?thesis by simp
next
  case (Notice l) with assms broadcast_history show ?thesis by auto
next
  case (OperatorSend st att ok now cmd)
  obtain r w c1 where s: "SendCommand st att ok now cmd c = (r, w, c1)" by (metis surj_pair)
  with OperatorSend assms history_inv_cong [OF SendCommand_frame(1) [OF s] assms(2)] show ?thesis by auto
next
  case (BookSend st att ok now cmd)
  obtain r w c1 where s: "SendInternalCommand st att ok now cmd c = (r, w, c1)" by (metis surj_pair)
  with BookSend assms history_inv_cong [OF SendCommand_frame(2) [OF s] assms(2)] show ?thesis by auto
qed (use assms in \<open>auto simp: Subscribe_def Unsubscribe_def history_inv_def\<close>)

lemma console_run_history:
  "console_run evs c = (ls, n, c') \<Longrightarrow> history_inv all c \<Longrightarrow> history_inv (all @ ls) c'"
proof (induction evs arbitrary: c c' ls n all)
  case (Cons ev evs)
  obtain e c1 where s: "console_step ev c = (e, c1)" by fastforce
  obtain ls1 n1 c2 where r: "console_run evs c1 = (ls1, n1, c2)" by (metis surj_pair)
  from Cons.IH [OF r console_step_history [OF s Cons.prems(2)]] Cons.prems(1) s r
  show ?case by auto
qed simp

text \<open>C11. After any run, the replay history is exactly the longest end of the visible lines that
  fits in 500 lines and 48 KiB (or is a single longer line), and its byte count is right.\<close>

theorem history_is_longest_fit:
  "case console_run evs new_console of (visible, n, c) \<Rightarrow>
     c_history c = longest_fit visible \<and> fits (c_history c) \<and> c_size c = history_bytes (c_history c)"
proof -
  obtain ls n c where r: "console_run evs new_console = (ls, n, c)" by (metis surj_pair)
  have "history_inv [] new_console" by (simp add: history_inv_def new_console_def)
  from console_run_history [OF r this] longest_fit_fits [of ls] r show ?thesis
    by (simp add: history_inv_def)
qed

section \<open>What may be hidden\<close>

text \<open>The outputs still to be hidden.\<close>

definition pending :: "console \<Rightarrow> nat" where
  "pending c = of_bool (echo_pending c) + of_bool (reply_pending c)"

lemma pending_simps [simp]:
  "pending (clearSuppression c) = 0" "pending (finishSuppression c) = pending c"
  "pending (broadcast l c) = pending c" "pending (broadcastInternal l c) = pending c"
  by (simp_all add: pending_def clearSuppression_def finishSuppression_def broadcast_def
      broadcastInternal_def split: prod.split)

lemma suppressed_pending:
  assumes "suppressed now line c = (h, c')" shows "of_bool h + pending c' \<le> pending c"
proof -
  have "Suc (pending (c\<lparr>echo_pending := False\<rparr>)) = pending c" if "echo_pending c"
    using that by (simp add: pending_def)
  moreover have "Suc (pending (c\<lparr>reply_pending := False\<rparr>)) = pending c" if "reply_pending c"
    using that by (simp add: pending_def)
  ultimately show ?thesis
    using assms by (auto simp: suppressed_def Let_def split: option.splits if_splits)
qed

lemma read_line_pending:
  assumes "read_line now raw c = (e, c')" shows "hidden (Some e) + pending c' \<le> pending c"
proof -
  obtain h c1 where s: "suppressed now (SanitizeLine raw) c = (h, c1)" by fastforce
  from suppressed_pending [OF s] assms s show ?thesis
    by (auto simp: read_line_def Let_def split: if_splits)
qed

lemma sendCommand_pending:
  "sendCommand st att ok now cmd reply c = (e, w, c') \<Longrightarrow>
   pending c' \<le> pending c + (if reply = None then 0 else 2)"
  by (auto simp: sendCommand_def Let_def pending_def clearSuppression_def split: if_splits)

text \<open>A bookkeeping command that was sent.\<close>

fun polls :: "console_event \<Rightarrow> nat" where
  "polls (BookSend st att ok now cmd) = (if cleanConsoleCommand cmd = ''list'' then 1 else 0)"
| "polls ev = 0"

lemma console_step_pending:
  assumes "console_step ev c = (e, c')"
  shows "hidden e + pending c' \<le> pending c + 2 * polls ev"
proof (cases ev)
  case (OutLine now raw)
  with assms obtain e0 where "read_line now raw c = (e0, c')" "e = Some e0" by (auto split: prod.splits)
  with read_line_pending [OF this(1)] show ?thesis by simp
next
  case (OperatorSend st att ok now cmd)
  obtain r w c1 where s: "sendCommand st att ok now (cleanConsoleCommand cmd) None c = (r, w, c1)"
    by (metis surj_pair)
  with sendCommand_pending [OF s] OperatorSend assms show ?thesis by (auto simp: SendCommand_def)
next
  case (BookSend st att ok now cmd)
  obtain r w c1 where s: "SendInternalCommand st att ok now cmd c = (r, w, c1)" by (metis surj_pair)
  then have "pending c1 \<le> pending c + 2 * polls ev"
    using BookSend by (auto simp: SendInternalCommand_def SendCommand_def Let_def internalReplies_def
        split: if_splits dest: sendCommand_pending)
  with BookSend assms s show ?thesis by auto
qed (use assms in \<open>auto simp: Subscribe_def Unsubscribe_def pending_def broadcast_def split: prod.splits\<close>)

lemma console_run_pending:
  "console_run evs c = (ls, n, c') \<Longrightarrow> n + pending c' \<le> pending c + 2 * sum_list (map polls evs)"
proof (induction evs arbitrary: c c' ls n)
  case (Cons ev evs)
  obtain e c1 where s: "console_step ev c = (e, c1)" by fastforce
  obtain ls1 n1 c2 where r: "console_run evs c1 = (ls1, n1, c2)" by (metis surj_pair)
  from Cons.IH [OF r] console_step_pending [OF s] Cons.prems s r show ?case by auto
qed simp

text \<open>In any run the hidden lines number at most two, an echo and a reply, for every bookkeeping
  \<open>list\<close> Bonghos issued; no other command hides anything.\<close>

lemma hidden_lines_bounded:
  "case console_run evs new_console of (visible, n, c) \<Rightarrow> n \<le> 2 * sum_list (map polls evs)"
proof -
  obtain ls n c where r: "console_run evs new_console = (ls, n, c)" by (metis surj_pair)
  have "pending new_console = 0" by (simp add: pending_def new_console_def)
  with console_run_pending [OF r] r show ?thesis by simp
qed
section \<open>The operator's own commands\<close>

fun event_within :: "int \<Rightarrow> int \<Rightarrow> console_event \<Rightarrow> bool" where
  "event_within a b (OutLine now raw) = (a \<le> now \<and> now < b)"
| "event_within a b (OperatorSend st att ok now cmd) = (ok \<and> a \<le> now \<and> now < b)"
| "event_within a b (BookSend st att ok now cmd) = (ok \<and> a \<le> now \<and> now < b)"
| "event_within a b ev = True"

definition lease :: "int \<Rightarrow> console \<Rightarrow> bool" where
  "lease b c \<longleftrightarrow> pending c = 0 \<and> visible_command c = ''list'' \<and>
     (\<exists>u. visible_until c = Some u \<and> b \<le> u)"

lemma lease_send:
  assumes "lease (t + 5 * nano) c" "t \<le> now"
    "sendCommand st att True now cmd None c = (e, w, c')"
  shows "lease (t + 5 * nano) c'"
  using assms by (auto simp: sendCommand_def lease_def Let_def internalReplies_def pending_def
      clearSuppression_def split: if_splits)

lemma lease_poll:
  assumes "lease b c" "now < b" "sendCommand st att True now ''list'' (Some re) c = (e, w, c')"
  shows "lease b c'"
  using assms by (auto simp: sendCommand_def lease_def split: if_splits)

lemma lease_line:
  assumes "lease b c" "read_line now raw c = (e, c')"
  shows "lease b c' \<and> hidden (Some e) = 0"
proof -
  obtain h c1 where s: "suppressed now (SanitizeLine raw) c = (h, c1)" by fastforce
  with assms(1) have "c1 = c \<or> c1 = clearSuppression c" "\<not> h"
    by (auto simp: suppressed_def lease_def pending_def Let_def split: option.splits if_splits)
  then have "lease b c1" using assms(1) by (auto simp: lease_def) (simp_all add: clearSuppression_def)
  then have "lease b (broadcast l c1)" for l
    by (auto simp: lease_def) (auto simp: broadcast_def split: prod.splits)
  with assms(1) assms(2) s \<open>\<not> h\<close> show ?thesis
    by (auto simp: read_line_def Let_def split: if_splits)
qed

lemma lease_step:
  assumes "lease (t + 5 * nano) c" "event_within t (t + 5 * nano) ev" "console_step ev c = (e, c')"
  shows "lease (t + 5 * nano) c' \<and> hidden e = 0"
proof (cases ev)
  case (OutLine now raw)
  with assms(3) obtain e0 where "read_line now raw c = (e0, c')" "e = Some e0" by (auto split: prod.splits)
  with lease_line [OF assms(1) this(1)] show ?thesis by simp
next
  case (OperatorSend st att ok now cmd)
  obtain r w c1 where s: "SendCommand st att ok now cmd c = (r, w, c1)" by (metis surj_pair)
  with OperatorSend assms(1,2) have "lease (t + 5 * nano) c1"
    by (auto simp: SendCommand_def intro: lease_send)
  with OperatorSend assms(3) s show ?thesis by auto
next
  case (BookSend st att ok now cmd)
  obtain r w c1 where s: "SendInternalCommand st att ok now cmd c = (r, w, c1)" by (metis surj_pair)
  with BookSend assms(1,2) have "lease (t + 5 * nano) c1"
    by (auto simp: SendInternalCommand_def SendCommand_def internalReplies_def Let_def
        split: if_splits intro: lease_send lease_poll)
  with BookSend assms(3) s show ?thesis by auto
next
  case (Notice l)
  with assms show ?thesis by (auto simp: lease_def) (auto simp: broadcast_def split: prod.splits)
qed (use assms in \<open>auto simp: Subscribe_def Unsubscribe_def lease_def pending_def\<close>)

lemma lease_run:
  "lease (t + 5 * nano) c \<Longrightarrow> list_all (event_within t (t + 5 * nano)) evs \<Longrightarrow>
   console_run evs c = (ls, n, c') \<Longrightarrow> n = 0"
proof (induction evs arbitrary: c c' ls n)
  case (Cons ev evs)
  obtain e c1 where s: "console_step ev c = (e, c1)" by fastforce
  obtain ls1 n1 c2 where r: "console_run evs c1 = (ls1, n1, c2)" by (metis surj_pair)
  from lease_step [OF Cons.prems(1) _ s] Cons.prems(2)
  have "lease (t + 5 * nano) c1" "hidden e = 0" by simp_all
  with Cons.IH [OF this(1) _ r] Cons.prems(2,3) s r show ?case by auto
qed simp

text \<open>After an operator's own \<open>list\<close> nothing is hidden for five seconds, whatever polls were
  pending before and whatever polls and commands follow, as long as writes succeed.\<close>

lemma operator_list_stays_visible:
  assumes "SendCommand st att True t cmd c = (None, w, c1)" "cleanConsoleCommand cmd = ''list''"
    "list_all (event_within t (t + 5 * nano)) evs" "console_run evs c1 = (visible, n, c2)"
  shows "n = 0"
proof -
  from assms(1,2) have "lease (t + 5 * nano) c1"
    by (auto simp: SendCommand_def sendCommand_def internalReplies_def Let_def lease_def split: if_splits)
      (simp_all add: pending_def clearSuppression_def)
  then show ?thesis using assms(3,4) by (rule lease_run)
qed

lemma clean_list: "cleanConsoleCommand ''list'' = ''list''"
proof -
  have r: "runes ''list'' = map byte ''list''"
    using runes_encode_all [of "map byte ''list''"] encode_all_ascii [of "''list''"]
    by (simp add: valid_rune_def)
  have "encode_all (map byte ''list'') = ''list''" by (rule encode_all_ascii) simp
  moreover have "TrimSpace ''list'' = ''list''" by code_simp
  ultimately show ?thesis by (simp add: cleanConsoleCommand_def strip_breaks_def r)
qed

theorem operator_list_stays_visible_witness:
  "fst (snd (console_run
     [BookSend StateRunning True True 1 ''list'', OutLine 2 ''There are 0 of a max of 20 players online'']
     (snd (snd (SendCommand StateRunning True True 0 ''list'' new_console))))) = 0"
proof -
  let ?s = "SendCommand StateRunning True True 0 ''list'' new_console"
  let ?evs = "[BookSend StateRunning True True 1 ''list'',
    OutLine 2 ''There are 0 of a max of 20 players online'']"
  obtain e w c1 where s: "?s = (e, w, c1)" by (metis surj_pair)
  then have "e = None" by (simp add: SendCommand_def sendCommand_def clean_list Let_def split: if_splits)
  moreover obtain ls n c2 where "console_run ?evs c1 = (ls, n, c2)" by (metis surj_pair)
  ultimately show ?thesis
    using operator_list_stays_visible [of StateRunning True 0 "''list''" new_console w c1 ?evs ls n c2] s
    by (simp add: clean_list nano_def)
qed

section \<open>One line per command\<close>

lemma high_byte: "128 \<le> n \<Longrightarrow> n < 256 \<Longrightarrow> 128 \<le> (byte (chr n) :: nat)"
  by (simp only: byte_chr)

lemma encode_high:
  assumes "valid_rune r" "128 \<le> r" "c \<in> set (encode_rune r)"
  shows "128 \<le> (byte c :: nat)"
proof -
  note d = digits4 [of r] digits3 [of r] digits2 [of r]
  have top: "r \<le> 1114111" using assms(1) by (auto simp: valid_rune_def)
  have low: "128 + n mod 64 < 256" for n :: nat
    using mod_less_divisor [of 64 n] by linarith
  consider "r < 2048" | "2048 \<le> r" "r < 65536" | "65536 \<le> r" by linarith
  then show ?thesis
  proof cases
    case 1
    then have "192 + r div 64 < 256" using d by linarith
    moreover have "c = chr (192 + r div 64) \<or> c = chr (128 + r mod 64)"
      using assms 1 by (simp add: encode_rune_def)
    moreover have "128 \<le> 192 + r div 64" by linarith
    ultimately show ?thesis using high_byte low le_add1 by metis
  next
    case 2
    then have "224 + r div 4096 < 256" using d by linarith
    moreover have "c = chr (224 + r div 4096) \<or> c = chr (128 + r div 64 mod 64) \<or> c = chr (128 + r mod 64)"
      using assms 2 by (simp add: encode_rune_def)
    moreover have "128 \<le> 224 + r div 4096" by linarith
    ultimately show ?thesis using high_byte low le_add1 by metis
  next
    case 3
    then have "240 + r div 262144 < 256" using d top by linarith
    moreover have "c = chr (240 + r div 262144) \<or> c = chr (128 + r div 4096 mod 64) \<or>
        c = chr (128 + r div 64 mod 64) \<or> c = chr (128 + r mod 64)"
      using assms 3 by (simp add: encode_rune_def)
    moreover have "128 \<le> 240 + r div 262144" by linarith
    ultimately show ?thesis using high_byte low le_add1 by metis
  qed
qed

lemma encode_low:
  assumes "valid_rune r" "c \<in> set (encode_rune r)" "byte c < (128::nat)"
  shows "byte c = r"
proof -
  have "r < 128" using encode_high [OF assms(1) _ assms(2)] assms(3) by (meson not_le)
  then have "c = chr r" "r < 256" using assms(1,2) by (simp_all add: encode_rune_def)
  then show ?thesis by (simp only: byte_chr)
qed

lemma runes_valid: "list_all valid_rune (runes s)"
proof (induction s rule: runes.induct)
  case (1 s)
  obtain r n where d: "decode_rune s = (r, n)" by fastforce
  with decode_valid [of s] 1 show ?case
    by (subst runes.simps) (simp add: d)
qed

definition is_break :: "char \<Rightarrow> bool" where "is_break c \<longleftrightarrow> c = CHR 0x0A \<or> c = CHR 0x0D"

lemma clean_no_breaks: "c \<in> set (cleanConsoleCommand cmd) \<Longrightarrow> \<not> is_break c"
proof
  assume c: "c \<in> set (cleanConsoleCommand cmd)" "is_break c"
  then have "c \<in> set (strip_breaks cmd)" using TrimSpace_set unfolding cleanConsoleCommand_def by blast
  then obtain r where r: "r \<in> set (runes cmd)" "r \<noteq> 10" "r \<noteq> 13" "c \<in> set (encode_rune r)"
    by (auto simp: strip_breaks_def encode_all_def)
  have v: "valid_rune r" using runes_valid [of cmd] r(1) by (simp add: list_all_iff)
  have b: "byte c = (10::nat) \<or> byte c = (13::nat)" using c(2) by (auto simp: is_break_def)
  then have "byte c < (128::nat)" by auto
  from encode_low [OF v r(4) this] b r(2,3) show False by auto
qed

text \<open>Whatever an operator or a client types, the terminal receives nothing or exactly one line:
  a non-empty text without line breaks, closed by one line feed. A second command cannot be
  smuggled in.\<close>

lemma one_line_per_command:
  "case SendCommand st att ok now cmd c of (e, w, c') \<Rightarrow>
     w = [] \<or> (\<exists>line. w = line @ [CHR 0x0A] \<and> line \<noteq> [] \<and> list_all (\<lambda>b. \<not> is_break b) line \<and>
       st \<in> {StateRunning, StateStarting, StateStopping})"
proof -
  obtain e w c' where s: "SendCommand st att ok now cmd c = (e, w, c')" by (metis surj_pair)
  then have "w = [] \<or> w = cleanConsoleCommand cmd @ [CHR 0x0A] \<and> cleanConsoleCommand cmd \<noteq> [] \<and>
      st \<in> {StateRunning, StateStarting, StateStopping}"
    by (auto simp: SendCommand_def sendCommand_def Let_def split: if_splits)
  moreover have "list_all (\<lambda>b. \<not> is_break b) (cleanConsoleCommand cmd)"
    using clean_no_breaks by (auto simp: list_all_iff)
  ultimately show ?thesis unfolding s by auto
qed

end
