(* ===== verification/Supervisor.thy ===== *)
theory Supervisor
  imports SupervisorConsole
begin

text \<open>
  The lifecycle of the Minecraft process (\<open>source/internal/supervisor/supervisor.go\<close>): the main
  loop \<open>Run\<close> with its restart policy, and the calls \<open>Stop\<close>, \<open>Restart\<close> and \<open>ForceStop\<close> that
  other goroutines make at any time. Every section the code runs under its mutex is one
  function, and the step relation interleaves them. Times are nanoseconds.
\<close>

section \<open>State\<close>

datatype class_kind = NoClass | ClassCleanStop | ClassRequestedRestart | ClassCrash

record sup_config =
  sc_policy :: string
  sc_delay :: int
  sc_grace :: int
  sc_max_crash :: int

text \<open>Where \<open>Run\<close> is: at the top of its loop, between the two sections of \<open>startOnce\<close>, in \<open>wait\<close>,
  with the exit of the child in hand, with the new state in hand, in the restart delay, or
  returned.\<close>

datatype phase =
    AtTop
  | Launching
  | Waiting
  | Reaped int string
  | Deciding sup_state
  | Delaying int
  | Finished "string option"

record sup =
  s_cfg :: sup_config
  s_state :: sup_state
  s_cmd :: "int option"
  s_script_pid :: int
  s_pgid :: int
  s_started :: int
  s_last_exit :: int
  s_last_signal :: string
  s_last_class :: class_kind
  s_restarts :: int
  s_stop_intent :: bool
  s_restart_intent :: bool
  s_crash_times :: "int list"
  s_phase :: phase
  s_now :: int
  s_cancelled :: bool

definition apply_defaults :: "sup_config \<Rightarrow> sup_config" where
  "apply_defaults cfg = cfg
     \<lparr>sc_grace := (if sc_grace cfg \<le> 0 then 120 else sc_grace cfg),
      sc_delay := (if sc_delay cfg \<le> 0 then 10 else sc_delay cfg),
      sc_max_crash := (if sc_max_crash cfg \<le> 0 then 5 else sc_max_crash cfg)\<rparr>"

definition New :: "sup_config \<Rightarrow> int \<Rightarrow> sup" where
  "New cfg now = \<lparr>s_cfg = apply_defaults cfg, s_state = StateStopped, s_cmd = None, s_script_pid = 0,
     s_pgid = 0, s_started = 0, s_last_exit = 0, s_last_signal = [], s_last_class = NoClass,
     s_restarts = 0, s_stop_intent = False, s_restart_intent = False, s_crash_times = [],
     s_phase = AtTop, s_now = now, s_cancelled = False\<rparr>"

section \<open>The main loop\<close>

text \<open>A failed start: the loop then waits for a child that does not exist.\<close>

definition start_failed :: "sup \<Rightarrow> sup" where
  "start_failed s = s\<lparr>s_state := StateCrashed, s_last_class := ClassCrash, s_phase := Waiting\<rparr>"

text \<open>The check of the context and the first section of \<open>startOnce\<close>.\<close>

definition start_begin :: "sup \<Rightarrow> sup" where
  "start_begin s =
     (if s_cancelled s then s\<lparr>s_phase := Finished None\<rparr>
      else if s_state s = StateRunning \<or> s_state s = StateStarting then start_failed s
      else s\<lparr>s_state := StateStarting, s_started := s_now s, s_phase := Launching\<rparr>)"

text \<open>The second section: \<open>None\<close> when the script is missing or could not be started, else the
  process id and process group.\<close>

definition start_end :: "(int \<times> int) option \<Rightarrow> sup \<Rightarrow> sup" where
  "start_end r s =
     (case r of
        None \<Rightarrow> start_failed s
      | Some (pid, pgid) \<Rightarrow>
          s\<lparr>s_cmd := Some pid, s_script_pid := pid, s_pgid := pgid, s_state := StateStarting,
            s_phase := Waiting\<rparr>)"

text \<open>\<open>wait\<close> returns; without a child it returns at once, with exit code -1.\<close>

definition reap :: "int \<Rightarrow> string \<Rightarrow> sup \<Rightarrow> sup" where
  "reap code sig s =
     (case s_cmd s of
        None \<Rightarrow> s\<lparr>s_phase := Reaped (-1) []\<rparr>
      | Some pid \<Rightarrow> s\<lparr>s_cmd := None, s_phase := Reaped code sig\<rparr>)"

definition classify :: "int \<Rightarrow> string \<Rightarrow> sup \<Rightarrow> sup" where
  "classify code sig s0 =
     (let stopReq = s_stop_intent s0; restartReq = s_restart_intent s0;
          s = s0\<lparr>s_last_exit := code, s_last_signal := sig, s_stop_intent := False,
                 s_restart_intent := False\<rparr>;
          s1 = (if restartReq then s\<lparr>s_last_class := ClassRequestedRestart, s_state := StateRestarting\<rparr>
                else if stopReq \<or> s_cancelled s
                  then s\<lparr>s_last_class := ClassCleanStop, s_state := StateStopped\<rparr>
                else if code = 0 then s\<lparr>s_last_class := ClassCleanStop, s_state := StateStopped\<rparr>
                else s\<lparr>s_last_class := ClassCrash, s_state := StateCrashed,
                       s_crash_times := s_crash_times s @ [s_now s]\<rparr>)
      in s1\<lparr>s_phase := Deciding (s_state s1)\<rparr>)"

definition ten_minutes :: int where "ten_minutes = 10 * 60 * nano"

definition recentCrashes :: "int \<Rightarrow> int \<Rightarrow> int list \<Rightarrow> int list" where
  "recentCrashes now window ts = filter (\<lambda>t. now - window < t) ts"

definition crashLooping :: "sup \<Rightarrow> bool" where
  "crashLooping s \<longleftrightarrow>
     sc_max_crash (s_cfg s) \<le> int (length (recentCrashes (s_now s) ten_minutes (s_crash_times s)))"

text \<open>The doubling loop, from counter \<open>i\<close>.\<close>

function double_delay :: "int \<Rightarrow> int \<Rightarrow> int \<Rightarrow> int" where
  "double_delay i recent delay =
     (if i < recent \<and> i < 5 then double_delay (i + 1) recent (wrap64 (delay * 2)) else delay)"
  by auto
termination by (relation "measure (\<lambda>(i, r, d). nat (5 - i))") auto

declare double_delay.simps [simp del]

definition restart_delay :: "sup \<Rightarrow> int" where
  "restart_delay s =
     double_delay 1 (int (length (recentCrashes (s_now s) ten_minutes (s_crash_times s))))
       (wrap64 (sc_delay (s_cfg s) * nano))"

definition decide_restart :: "sup_state \<Rightarrow> sup \<Rightarrow> sup" where
  "decide_restart st s =
     (let policy = sc_policy (s_cfg s);
          again = s\<lparr>s_restarts := wrap64 (s_restarts s + 1),
                    s_phase := Delaying (s_now s + restart_delay s)\<rparr>
      in if s_cancelled s then s\<lparr>s_phase := Finished None\<rparr>
         else if st = StateRestarting then again
         else if st = StateStopped then s\<lparr>s_phase := Finished None\<rparr>
         else if st = StateCrashed \<and> policy = ''never'' then s\<lparr>s_phase := Finished None\<rparr>
         else if st = StateCrashed \<and> (policy = ''on-failure'' \<or> policy = ''always'') \<and> crashLooping s
           then s\<lparr>s_phase := Finished (Some ''crash loop detected'')\<rparr>
         else again)"

section \<open>Calls from outside\<close>

text \<open>The first section of \<open>Stop\<close>; \<open>None\<close> when there is nothing to stop, else whether a terminal is
  attached, the process group and the process id.\<close>

definition stop_begin :: "sup \<Rightarrow> (bool \<times> int \<times> int) option \<times> sup" where
  "stop_begin s =
     (if s_state s = StateStopped \<or> s_state s = StateCrashed then (None, s)
      else (Some (s_cmd s \<noteq> None, s_pgid s, s_script_pid s),
            s\<lparr>s_stop_intent := True, s_state := StateStopping\<rparr>))"

definition restart_begin :: "sup \<Rightarrow> bool \<times> sup" where
  "restart_begin s =
     (if s_state s \<noteq> StateRunning \<and> s_state s \<noteq> StateStarting then (False, s)
      else (True, s\<lparr>s_restart_intent := True\<rparr>))"

definition ForceStop :: "sup \<Rightarrow> sup" where
  "ForceStop s = s\<lparr>s_stop_intent := True\<rparr>"

text \<open>The console reports that the server is up.\<close>

definition done_line :: "sup \<Rightarrow> sup" where
  "done_line s = (if s_state s = StateStarting then s\<lparr>s_state := StateRunning\<rparr> else s)"

section \<open>Steps\<close>

inductive sup_step :: "sup \<Rightarrow> sup \<Rightarrow> bool" where
  top: "s_phase s = AtTop \<Longrightarrow> sup_step s (start_begin s)"
| launch: "s_phase s = Launching \<Longrightarrow> sup_step s (start_end r s)"
| exited: "s_phase s = Waiting \<Longrightarrow> sup_step s (reap code sig s)"
| classified: "s_phase s = Reaped code sig \<Longrightarrow> sup_step s (classify code sig s)"
| decided: "s_phase s = Deciding st \<Longrightarrow> sup_step s (decide_restart st s)"
| timer: "s_phase s = Delaying t \<Longrightarrow> t \<le> s_now s \<Longrightarrow> sup_step s (s\<lparr>s_phase := AtTop\<rparr>)"
| delay_cancelled: "s_phase s = Delaying t \<Longrightarrow> s_cancelled s \<Longrightarrow> sup_step s (s\<lparr>s_phase := Finished None\<rparr>)"
| cancel: "sup_step s (s\<lparr>s_cancelled := True\<rparr>)"
| tick: "s_now s \<le> t \<Longrightarrow> sup_step s (s\<lparr>s_now := t\<rparr>)"
| stop: "sup_step s (snd (stop_begin s))"
| restart: "sup_step s (snd (restart_begin s))"
| force: "sup_step s (ForceStop s)"
| started: "sup_step s (done_line s)"

inductive sup_run :: "sup \<Rightarrow> sup \<Rightarrow> bool" where
  refl: "sup_run s s"
| step: "sup_run s t \<Longrightarrow> sup_step t u \<Longrightarrow> sup_run s u"

lemma sup_run_trans: "sup_run t u \<Longrightarrow> sup_run s t \<Longrightarrow> sup_run s u"
  by (induction rule: sup_run.induct) (auto intro: sup_run.step)

lemma sup_run_one: "sup_step s t \<Longrightarrow> sup_run s t"
  by (rule sup_run.step [OF sup_run.refl])

text \<open>A state predicate that every step keeps is kept by every run.\<close>

lemma sup_run_keeps:
  assumes "sup_run s t" "I s" "\<And>a b. I a \<Longrightarrow> sup_step a b \<Longrightarrow> I b"
  shows "I t"
  using assms(1,2) by (induction rule: sup_run.induct) (auto intro: assms(3))

lemmas sup_ops = start_begin_def start_failed_def start_end_def reap_def classify_def
  decide_restart_def stop_begin_def restart_begin_def ForceStop_def done_line_def

section \<open>Crash-loop protection\<close>

definition crash_window :: "int \<Rightarrow> int list \<Rightarrow> nat" where
  "crash_window t ts = length (filter (\<lambda>c. t - ten_minutes < c \<and> c \<le> t) ts)"

text \<open>Outside the moment between a crash and its decision, some check has found fewer crashes
  than the limit, and no crash came after it.\<close>

definition checked :: "sup \<Rightarrow> bool" where
  "checked s \<longleftrightarrow> (\<exists>d. d \<le> s_now s \<and> (\<forall>c\<in>set (s_crash_times s). c \<le> d) \<and>
     int (length (recentCrashes d ten_minutes (s_crash_times s))) < sc_max_crash (s_cfg s))"

definition crash_inv :: "sup \<Rightarrow> bool" where
  "crash_inv s \<longleftrightarrow>
     sc_policy (s_cfg s) \<in> {''on-failure'', ''always''} \<and>
     (\<forall>t. int (crash_window t (s_crash_times s)) \<le> sc_max_crash (s_cfg s)) \<and>
     (\<forall>c\<in>set (s_crash_times s). c \<le> s_now s) \<and>
     (s_phase s = Deciding StateCrashed \<or> (\<exists>e. s_phase s = Finished e) \<or> checked s)"

lemma crash_window_le:
  assumes "d \<le> t" shows "crash_window t ts \<le> length (recentCrashes d ten_minutes ts)"
  unfolding crash_window_def recentCrashes_def
  using assms by (induction ts) auto

lemma crash_window_snoc:
  assumes "\<forall>t. int (crash_window t ts) \<le> m" "d \<le> now"
    "int (length (recentCrashes d ten_minutes ts)) < m"
  shows "int (crash_window t (ts @ [now])) \<le> m"
proof (cases "now \<le> t")
  case True
  with crash_window_le [of d t ts] assms(2,3)
  have "int (crash_window t ts) + 1 \<le> m" by linarith
  moreover have "crash_window t (ts @ [now]) \<le> crash_window t ts + 1" by (simp add: crash_window_def)
  ultimately show ?thesis by linarith
next
  case False with assms(1) show ?thesis by (simp add: crash_window_def)
qed

lemma checked_cong:
  "s_crash_times t = s_crash_times s \<Longrightarrow> s_cfg t = s_cfg s \<Longrightarrow> s_now s \<le> s_now t \<Longrightarrow> checked s \<Longrightarrow> checked t"
  unfolding checked_def by (metis order_trans)

lemma crash_inv_cong:
  assumes "crash_inv s" "s_crash_times t = s_crash_times s" "s_cfg t = s_cfg s" "s_now s \<le> s_now t"
    "(\<exists>e. s_phase t = Finished e) \<or>
     s_phase s \<noteq> Deciding StateCrashed \<and> (\<forall>e. s_phase s \<noteq> Finished e) \<or> s_phase t = s_phase s"
  shows "crash_inv t"
  using assms checked_cong [OF assms(2,3,4)] unfolding crash_inv_def by (metis order_trans)

lemma classify_crash_inv:
  assumes "crash_inv s" "s_phase s = Reaped code sig" shows "crash_inv (classify code sig s)"
proof (cases "\<not> s_restart_intent s \<and> \<not> s_stop_intent s \<and> \<not> s_cancelled s \<and> code \<noteq> 0")
  case True
  then have c: "s_crash_times (classify code sig s) = s_crash_times s @ [s_now s]"
    "s_cfg (classify code sig s) = s_cfg s" "s_now (classify code sig s) = s_now s"
    "s_phase (classify code sig s) = Deciding StateCrashed"
    by (simp_all add: classify_def Let_def)
  from assms obtain d where "d \<le> s_now s"
    "int (length (recentCrashes d ten_minutes (s_crash_times s))) < sc_max_crash (s_cfg s)"
    unfolding crash_inv_def checked_def by auto
  with crash_window_snoc assms(1) show ?thesis
    unfolding crash_inv_def c by auto
next
  case False
  have "s_crash_times (classify code sig s) = s_crash_times s"
    "s_cfg (classify code sig s) = s_cfg s" "s_now s \<le> s_now (classify code sig s)"
    using False by (auto simp: classify_def Let_def)
  from crash_inv_cong [OF assms(1) this] assms(2) show ?thesis by simp
qed

lemma decide_crash_inv:
  assumes "crash_inv s" "s_phase s = Deciding st" shows "crash_inv (decide_restart st s)"
proof -
  have same: "s_crash_times (decide_restart st s) = s_crash_times s"
    "s_cfg (decide_restart st s) = s_cfg s" "s_now (decide_restart st s) = s_now s"
    by (simp_all add: decide_restart_def Let_def)
  show ?thesis
  proof (cases "st = StateCrashed \<and> (\<forall>e. s_phase (decide_restart st s) \<noteq> Finished e)")
    case True
    with assms(1) have "\<not> crashLooping s"
      by (auto simp: decide_restart_def Let_def crash_inv_def split: if_splits)
    with assms(1) have "checked s"
      unfolding crash_inv_def checked_def crashLooping_def by auto
    then have "checked (decide_restart st s)" using same by (simp add: checked_def)
    with assms(1) same show ?thesis by (simp add: crash_inv_def)
  next
    case False
    from crash_inv_cong [OF assms(1) same(1,2)] same(3) assms(2) False show ?thesis by auto
  qed
qed

lemma crash_inv_step:
  assumes "sup_step s t" "crash_inv s" shows "crash_inv t"
  using assms
proof (induction rule: sup_step.induct)
  case (top s) then show ?case
    by (elim crash_inv_cong) (simp_all add: start_begin_def start_failed_def)
next
  case (launch s r) then show ?case
    by (elim crash_inv_cong) (auto simp: start_end_def start_failed_def split: option.splits)
next
  case (exited s code sig) then show ?case
    by (elim crash_inv_cong) (simp_all add: reap_def split: option.splits)
next
  case (classified s code sig) then show ?case by (auto intro: classify_crash_inv)
next
  case (decided s st) then show ?case by (auto intro: decide_crash_inv)
next
  case (stop s) then show ?case
    by (elim crash_inv_cong) (simp_all add: stop_begin_def)
next
  case (restart s) then show ?case
    by (elim crash_inv_cong) (simp_all add: restart_begin_def)
next
  case (force s) then show ?case
    by (elim crash_inv_cong) (simp_all add: ForceStop_def)
next
  case (started s) then show ?case
    by (elim crash_inv_cong) (simp_all add: done_line_def)
qed (elim crash_inv_cong; simp)+

text \<open>C12. With a restart policy of on-failure or always, in any run no ten minutes see more crashes
  than the limit: the crash that reaches it is the last.\<close>

theorem crash_loop_bounded:
  assumes "sc_policy cfg \<in> {''on-failure'', ''always''}" "sup_run (New cfg now) s"
  shows "int (crash_window t (s_crash_times s)) \<le> sc_max_crash (apply_defaults cfg)"
proof -
  have "s_cfg s = apply_defaults cfg \<and> crash_inv s"
  proof (rule sup_run_keeps [OF assms(2)])
    show "s_cfg (New cfg now) = apply_defaults cfg \<and> crash_inv (New cfg now)"
      using assms(1) by (auto simp: New_def crash_inv_def checked_def crash_window_def recentCrashes_def
          apply_defaults_def)
  next
    fix a b assume "s_cfg a = apply_defaults cfg \<and> crash_inv a" "sup_step a b"
    moreover from this(2) have "s_cfg b = s_cfg a"
      by (induction rule: sup_step.induct)
        (simp_all add: sup_ops Let_def split: option.splits)
    ultimately show "s_cfg b = apply_defaults cfg \<and> crash_inv b" using crash_inv_step by simp
  qed
  then show ?thesis unfolding crash_inv_def by metis
qed

theorem crash_loop_bounded_witness:
  "int (crash_window 0 (s_crash_times (New \<lparr>sc_policy = ''always'', sc_delay = 10, sc_grace = 0,
     sc_max_crash = 3\<rparr> 0))) \<le> 3"
  using crash_loop_bounded [of "\<lparr>sc_policy = ''always'', sc_delay = 10, sc_grace = 0, sc_max_crash = 3\<rparr>",
      OF _ sup_run.refl, of 0 0]
  by (simp add: apply_defaults_def)

section \<open>Stopping\<close>

text \<open>What is true from a stop request on.\<close>

definition ending :: "sup \<Rightarrow> bool" where
  "ending s \<longleftrightarrow>
     (case s_phase s of
        Waiting \<Rightarrow> s_cmd s \<noteq> None \<and> s_state s = StateStopping \<and> s_stop_intent s \<and> \<not> s_restart_intent s
      | Reaped c g \<Rightarrow> s_state s = StateStopping \<and> s_stop_intent s \<and> \<not> s_restart_intent s
      | Deciding st \<Rightarrow> st = StateStopped \<and> s_state s = StateStopped \<and> s_last_class s = ClassCleanStop
      | Finished e \<Rightarrow> e = None \<and> s_state s = StateStopped \<and> s_last_class s = ClassCleanStop
      | _ \<Rightarrow> False)"

lemma ending_step:
  assumes "sup_step s t" "ending s" shows "ending t"
  using assms
  by (induction rule: sup_step.induct)
    (auto simp: ending_def sup_ops Let_def split: phase.splits option.splits)

text \<open>C13. Once \<open>Stop\<close> is called while the server runs, no later event makes the supervisor start it
  again, whatever its exit code and the restart policy: it can only end, stopped cleanly.\<close>

theorem stop_is_final:
  assumes "s_phase s = Waiting" "s_cmd s = Some pid" "\<not> s_restart_intent s"
    "stop_begin s = (Some x, s')" "sup_run s' t"
  shows "ending t"
proof (rule sup_run_keeps [OF assms(5)])
  show "ending s'" using assms(1-4) by (auto simp: stop_begin_def ending_def split: if_splits)
qed (rule ending_step)

text \<open>A stop requested while the supervisor waits to restart does not stop anything: after the
  delay the server is started again.\<close>

lemma stop_in_restart_delay_lost:
  assumes "s_phase s = Delaying d" "\<not> s_cancelled s" "s_state s \<in> {StateRestarting, StateCrashed}"
  shows "\<exists>t. sup_run (snd (stop_begin s)) t \<and> s_phase t = Launching \<and> s_state t = StateStarting"
proof -
  define a where "a = snd (stop_begin s)"
  define b where "b = a\<lparr>s_now := max (s_now a) d\<rparr>"
  define c where "c = b\<lparr>s_phase := AtTop\<rparr>"
  have a: "s_phase a = Delaying d" "\<not> s_cancelled a" "s_state a \<notin> {StateRunning, StateStarting}"
    using assms by (auto simp: a_def stop_begin_def)
  have "sup_step a b" unfolding b_def by (rule sup_step.tick) simp
  moreover have "sup_step b c"
    unfolding c_def by (rule sup_step.timer [of _ d]) (simp_all add: b_def a(1))
  moreover have "sup_step c (start_begin c)" by (rule sup_step.top) (simp add: c_def)
  ultimately have "sup_run a (start_begin c)" by (meson sup_run.step sup_run.refl)
  moreover have "s_phase (start_begin c) = Launching \<and> s_state (start_begin c) = StateStarting"
    using a(2,3) by (simp add: start_begin_def c_def b_def)
  ultimately show ?thesis unfolding a_def by blast
qed


section \<open>One child at a time\<close>

definition lifecycle_inv :: "sup \<Rightarrow> bool" where
  "lifecycle_inv s \<longleftrightarrow>
     (s_cmd s \<noteq> None \<longrightarrow> s_phase s = Waiting) \<and>
     (s_state s = StateRunning \<or> s_state s = StateStarting \<longrightarrow>
        s_phase s = Launching \<or> s_phase s = Waiting \<or> (\<exists>c g. s_phase s = Reaped c g)) \<and>
     (\<forall>st. s_phase s = Deciding st \<longrightarrow> st \<in> {StateStopped, StateCrashed, StateRestarting})"

lemma lifecycle_step:
  assumes "sup_step s t" "lifecycle_inv s" shows "lifecycle_inv t"
  using assms
  by (induction rule: sup_step.induct)
    (auto simp: lifecycle_inv_def sup_ops Let_def split: option.splits)

text \<open>In any run there is a child only while the loop waits for it, so a start never finds one
  alive; the server counts as starting or running only between its launch and the handling of
  its exit, and never after the loop has returned.\<close>

lemma one_child_at_a_time:
  assumes "sup_run (New cfg now) s"
  shows "(s_cmd s \<noteq> None \<longrightarrow> s_phase s = Waiting) \<and>
    (s_state s \<in> {StateStarting, StateRunning} \<longrightarrow>
       s_phase s = Launching \<or> s_phase s = Waiting \<or> (\<exists>c g. s_phase s = Reaped c g))"
proof -
  have "lifecycle_inv s"
    by (rule sup_run_keeps [OF assms _ lifecycle_step]) (simp_all add: lifecycle_inv_def New_def)
  then show ?thesis by (auto simp: lifecycle_inv_def)
qed

section \<open>Requested restarts and the backoff\<close>

lemma double_delay_range:
  assumes "1 \<le> i" "i \<le> 5" "0 \<le> d" "d * 2 ^ nat (5 - i) \<le> max_int64"
  shows "d \<le> double_delay i r d \<and> double_delay i r d \<le> d * 2 ^ nat (5 - i)"
  using assms
proof (induction i r d rule: double_delay.induct)
  case (1 i r d)
  show ?case
  proof (cases "i < r \<and> i < 5")
    case True
    then have p: "(2::int) ^ nat (5 - i) = 2 * 2 ^ nat (5 - (i + 1))"
      by (metis diff_add_eq_diff_diff_swap nat_diff_distrib' zero_less_diff Suc_nat_eq_nat_zadd1
          diff_add_cancel diff_diff_eq less_imp_le nonneg_int_cases power_Suc zle_diff1_eq add.commute
          diff_ge_0_iff_ge)
    have "1 * 1 \<le> 2 ^ nat (5 - (i + 1)) * (1::int)" by simp
    then have "d * 2 * 1 \<le> d * 2 * 2 ^ nat (5 - (i + 1))" using 1(4) by (intro mult_left_mono) auto
    then have "d * 2 \<le> max_int64" using 1(5) p by simp
    then have w: "wrap64 (d * 2) = d * 2" using 1(4) by (intro wrap64_id) (auto simp: min_int64_def)
    from 1(1) [OF True] 1(2-5) True p have "d * 2 \<le> double_delay (i + 1) r (d * 2) \<and>
        double_delay (i + 1) r (d * 2) \<le> d * 2 * 2 ^ nat (5 - (i + 1))"
      by (simp add: w mult.assoc)
    moreover have "double_delay i r d = double_delay (i + 1) r (d * 2)"
      using True w by (subst double_delay.simps) simp
    ultimately show ?thesis using p 1(4) by (simp add: mult.assoc)
  next
    case False
    then have "double_delay i r d = d" by (subst double_delay.simps) (simp only: if_False)
    moreover have "d * 1 \<le> d * 2 ^ nat (5 - i)" using 1(4) by (intro mult_left_mono) auto
    ultimately show ?thesis by simp
  qed
qed

lemma restart_delay_range:
  assumes "0 < sc_delay (s_cfg s)" "sc_delay (s_cfg s) \<le> 500000000"
  shows "sc_delay (s_cfg s) * nano \<le> restart_delay s \<and>
    restart_delay s \<le> 16 * (sc_delay (s_cfg s) * nano)"
proof -
  have w: "wrap64 (sc_delay (s_cfg s) * nano) = sc_delay (s_cfg s) * nano"
    using assms by (intro wrap64_id) (simp_all add: nano_def min_int64_def max_int64_def)
  have "0 \<le> sc_delay (s_cfg s) * nano" "sc_delay (s_cfg s) * nano * 2 ^ nat (5 - 1) \<le> max_int64"
    using assms by (simp_all add: nano_def max_int64_def)
  from double_delay_range [OF _ _ this, where r = "int (length (recentCrashes (s_now s) ten_minutes (s_crash_times s)))"]
  show ?thesis unfolding restart_delay_def w by (simp add: mult.commute)
qed

text \<open>The states any run from \<open>s\<close> passes through before it launches, how many sections the loop is
  still away from the launch, and the section it runs next when nobody interferes (in the restart
  delay it waits for its timer).\<close>

inductive before_launch :: "sup \<Rightarrow> sup \<Rightarrow> bool" where
  refl: "before_launch s s"
| step: "before_launch s t \<Longrightarrow> sup_step t u \<Longrightarrow> s_phase u \<noteq> Launching \<Longrightarrow> before_launch s u"

fun sections_left :: "phase \<Rightarrow> nat" where
  "sections_left (Reaped code sig) = 4"
| "sections_left (Deciding st) = 3"
| "sections_left (Delaying t) = 2"
| "sections_left AtTop = 1"
| "sections_left Launching = 0"
| "sections_left Waiting = 5"
| "sections_left (Finished e) = 5"

definition next_section :: "sup \<Rightarrow> sup" where
  "next_section s =
     (case s_phase s of
        Reaped code sig \<Rightarrow> classify code sig s
      | Deciding st \<Rightarrow> decide_restart st s
      | Delaying t \<Rightarrow> s\<lparr>s_now := max (s_now s) t, s_phase := AtTop\<rparr>
      | AtTop \<Rightarrow> start_begin s
      | _ \<Rightarrow> s)"

text \<open>What holds from the exit that follows a requested restart on, until the launch.\<close>

definition relaunching :: "sup_config \<Rightarrow> int \<Rightarrow> sup \<Rightarrow> bool" where
  "relaunching cfg begun t \<longleftrightarrow> s_cfg t = cfg \<and> begun \<le> s_now t \<and>
     (s_cancelled t \<or>
      (case s_phase t of
         Reaped code sig \<Rightarrow> s_restart_intent t
       | Deciding st \<Rightarrow> st = StateRestarting \<and> s_state t \<notin> {StateRunning, StateStarting} \<and>
           s_last_class t = ClassRequestedRestart
       | Delaying u \<Rightarrow> s_state t \<notin> {StateRunning, StateStarting} \<and>
           s_last_class t = ClassRequestedRestart \<and>
           begun + sc_delay cfg * nano \<le> u \<and> u \<le> s_now t + 16 * (sc_delay cfg * nano)
       | AtTop \<Rightarrow> s_state t \<notin> {StateRunning, StateStarting} \<and>
           s_last_class t = ClassRequestedRestart \<and> begun + sc_delay cfg * nano \<le> s_now t
       | _ \<Rightarrow> False))"

lemma relaunching_decide:
  assumes "relaunching cfg begun t" "s_phase t = Deciding st" "0 < sc_delay cfg" "sc_delay cfg \<le> 500000000"
  shows "relaunching cfg begun (decide_restart st t)"
  using assms restart_delay_range [of t]
  by (auto simp: relaunching_def decide_restart_def Let_def)

lemma relaunching_step:
  assumes "sup_step t u" "relaunching cfg begun t" "s_phase u \<noteq> Launching"
    "0 < sc_delay cfg" "sc_delay cfg \<le> 500000000"
  shows "relaunching cfg begun u"
  using assms
proof (induction rule: sup_step.induct)
  case (decided s st) then show ?case by (intro relaunching_decide)
next
  case (tick s t) then show ?case
    by (auto simp: relaunching_def split: phase.splits)
qed (auto simp: relaunching_def sup_ops Let_def split: phase.splits option.splits if_splits)

lemma relaunching_before:
  assumes "before_launch s t" "relaunching (s_cfg s) (s_now s) s"
    "0 < sc_delay (s_cfg s)" "sc_delay (s_cfg s) \<le> 500000000"
  shows "relaunching (s_cfg s) (s_now s) t"
  using assms by (induction rule: before_launch.induct) (auto intro: relaunching_step)

lemma relaunching_sections:
  assumes "relaunching cfg begun t" "\<not> s_cancelled t"
  shows "sections_left (s_phase t) \<in> {1..4}"
  using assms by (cases "s_phase t") (simp_all add: relaunching_def)

lemma relaunching_progress:
  assumes "sup_step t u" "relaunching cfg begun t" "\<not> s_cancelled u"
  shows "sections_left (s_phase u) \<le> sections_left (s_phase t)"
  using assms
  by (induction rule: sup_step.induct)
    (auto simp: relaunching_def sup_ops Let_def split: phase.splits option.splits if_splits)

lemma relaunching_launch:
  assumes "sup_step t u" "relaunching cfg begun t" "\<not> s_cancelled t" "s_phase u = Launching"
  shows "s_state u = StateStarting \<and> s_last_class u = ClassRequestedRestart \<and>
    begun + sc_delay cfg * nano \<le> s_now u"
  using assms
  by (induction rule: sup_step.induct)
    (auto simp: relaunching_def sup_ops Let_def split: phase.splits option.splits if_splits)

lemma next_section_run: "s_phase s \<notin> {Waiting, Launching} \<Longrightarrow> sup_run s (next_section s)"
proof (cases "s_phase s")
  case (Delaying t)
  have "sup_step s (s\<lparr>s_now := max (s_now s) t\<rparr>)" by (rule sup_step.tick) simp
  moreover have "sup_step (s\<lparr>s_now := max (s_now s) t\<rparr>) (s\<lparr>s_now := max (s_now s) t, s_phase := AtTop\<rparr>)"
    using sup_step.timer [of "s\<lparr>s_now := max (s_now s) t\<rparr>" t] Delaying by simp
  ultimately have "sup_run s (s\<lparr>s_now := max (s_now s) t, s_phase := AtTop\<rparr>)"
    using sup_run.refl sup_run.step by meson
  then show ?thesis by (simp add: next_section_def Delaying)
qed (auto simp: next_section_def intro: sup_run_one sup_run.refl sup_step.intros)

text \<open>Left alone, the loop reaches the launch, and takes no longer than the delay.\<close>

lemma relaunching_alone:
  assumes "relaunching cfg begun t" "\<not> s_cancelled t" "0 < sc_delay cfg" "sc_delay cfg \<le> 500000000"
  shows "sup_run t ((next_section ^^ sections_left (s_phase t)) t) \<and>
    s_phase ((next_section ^^ sections_left (s_phase t)) t) = Launching \<and>
    s_now ((next_section ^^ sections_left (s_phase t)) t) \<le> s_now t + 16 * (sc_delay cfg * nano)"
  using assms
proof (induction "sections_left (s_phase t)" arbitrary: t)
  case 0
  then show ?case by (cases "s_phase t") (auto simp: relaunching_def)
next
  case (Suc n)
  have pos: "0 \<le> sc_delay cfg * nano" using Suc.prems(3) by (simp add: nano_def)
  have run: "sup_run t (next_section t)"
    using Suc.prems(1,2) by (intro next_section_run) (auto simp: relaunching_def)
  show ?case
  proof (cases "s_phase t = AtTop")
    case True
    with Suc.prems run pos show ?thesis
      by (auto simp: next_section_def relaunching_def start_begin_def)
  next
    case False
    have nx: "relaunching cfg begun (next_section t) \<and> \<not> s_cancelled (next_section t) \<and>
        sections_left (s_phase (next_section t)) = n"
      using False Suc.prems Suc.hyps(2) restart_delay_range [of t]
      by (cases "s_phase t")
         (auto simp: next_section_def relaunching_def classify_def decide_restart_def Let_def)
    note IH = Suc.hyps(1) [OF _ conjunct1 [OF nx] _ Suc.prems(3,4)]
    have "s_now (next_section t) = s_now t \<or> s_phase (next_section t) = AtTop"
      using Suc.prems False
      by (cases "s_phase t")
         (auto simp: next_section_def relaunching_def classify_def decide_restart_def Let_def)
    then show ?thesis
    proof
      assume "s_now (next_section t) = s_now t"
      with IH nx sup_run_trans [OF _ run] show ?thesis
        by (simp add: Suc.hyps(2) [symmetric] funpow_swap1 del: funpow.simps(2)) (simp add: funpow_swap1)
    next
      assume top: "s_phase (next_section t) = AtTop"
      then have "n = 1" using nx by simp
      moreover obtain u where "s_phase t = Delaying u"
        using Suc.hyps(2) Suc.prems \<open>n = 1\<close> by (cases "s_phase t") (auto simp: relaunching_def)
      moreover have two: "(next_section ^^ sections_left (s_phase t)) t = next_section (next_section t)"
        using \<open>n = 1\<close> by (simp add: Suc.hyps(2) [symmetric])
      ultimately show ?thesis
        using IH nx sup_run_trans [OF _ run] Suc.prems pos two
        by (auto simp: next_section_def relaunching_def start_begin_def)
    qed
  qed
qed

text \<open>C14. A requested restart starts the server again whatever its exit code, the restart policy,
  the crashes before, and whatever stops, restarts and forced stops are requested meanwhile: in
  every run, until the supervisor is told to end or launches, its loop is at most four sections
  away from the launch and never gets further from it; every launch comes at least the configured
  delay after the exit; and from every state on the way the loop left to itself launches within
  sixteen times the delay.\<close>

theorem requested_restart_relaunches:
  assumes "s_phase s = Reaped code sig" "s_restart_intent s"
    "0 < sc_delay (s_cfg s)" "sc_delay (s_cfg s) \<le> 500000000"
    "before_launch s t" "\<not> s_cancelled t"
  shows "sections_left (s_phase t) \<in> {1..4} \<and>
    (\<forall>u. sup_step t u \<longrightarrow> \<not> s_cancelled u \<longrightarrow>
       sections_left (s_phase u) \<le> sections_left (s_phase t)) \<and>
    (\<forall>u. sup_step t u \<longrightarrow> s_phase u = Launching \<longrightarrow>
       s_state u = StateStarting \<and> s_last_class u = ClassRequestedRestart \<and>
       s_now s + sc_delay (s_cfg s) * nano \<le> s_now u) \<and>
    sup_run t ((next_section ^^ sections_left (s_phase t)) t) \<and>
    s_phase ((next_section ^^ sections_left (s_phase t)) t) = Launching \<and>
    s_now ((next_section ^^ sections_left (s_phase t)) t) \<le> s_now t + 16 * (sc_delay (s_cfg s) * nano)"
proof -
  have "relaunching (s_cfg s) (s_now s) s" using assms(1,2) by (simp add: relaunching_def)
  from relaunching_before [OF assms(5) this assms(3,4)]
  have r: "relaunching (s_cfg s) (s_now s) t" .
  show ?thesis
    using relaunching_sections [OF r assms(6)] relaunching_progress [OF _ r]
      relaunching_launch [OF _ r assms(6)] relaunching_alone [OF r assms(6,3,4)] by blast
qed

section \<open>The rest of Stop\<close>

datatype stop_action = TtyWrite string | SigTerm int | SigKill int

text \<open>The polling loop, every 500 ms until the process is gone or the deadline has passed.\<close>

function poll_gone :: "(int \<Rightarrow> bool) \<Rightarrow> int \<Rightarrow> int \<Rightarrow> bool \<times> int" where
  "poll_gone alive now deadline =
     (if now < deadline
      then (if \<not> alive now then (True, now) else poll_gone alive (now + 500000000) deadline)
      else (False, now))"
  by auto
termination by (relation "measure (\<lambda>(a, n, d). nat (d - n))") auto

declare poll_gone.simps [simp del]

text \<open>\<open>alive t\<close> says whether \<open>processAlive\<close> holds at time \<open>t\<close>. The result is what was sent, and the
  time of return.\<close>

definition stop_finish ::
  "sup_config \<Rightarrow> bool \<Rightarrow> bool \<times> int \<times> int \<Rightarrow> (int \<Rightarrow> bool) \<Rightarrow> int \<Rightarrow> stop_action list \<times> int" where
  "stop_finish cfg graceful target alive now =
     (case target of (tty, pgid, pid) \<Rightarrow>
      let escalate = (\<lambda>acts t.
            if 0 < pgid
            then (case poll_gone alive t (t + 15 * nano) of
                    (True, t') \<Rightarrow> (acts @ [SigTerm pgid], t')
                  | (False, t') \<Rightarrow> (acts @ [SigTerm pgid, SigKill pgid], t'))
            else (acts, t))
      in if graceful \<and> tty
         then (let t1 = now + 2 * nano; acts = [TtyWrite ''save-all flush\<newline>'', TtyWrite ''stop\<newline>'']
               in case poll_gone alive t1 (t1 + wrap64 (sc_grace cfg * nano)) of
                    (True, t') \<Rightarrow> (acts, t')
                  | (False, t') \<Rightarrow> escalate acts t')
         else escalate [] now)"

lemma poll_gone_result:
  "poll_gone alive now deadline = (gone, t) \<Longrightarrow> now \<le> t \<and> t \<le> max now (deadline + 500000000) \<and>
     (gone \<longrightarrow> \<not> alive t)"
proof (induction alive now deadline rule: poll_gone.induct)
  case (1 alive now deadline)
  show ?case
  proof (cases "now < deadline \<and> alive now")
    case True
    then have "poll_gone alive now deadline = poll_gone alive (now + 500000000) deadline"
      by (subst poll_gone.simps) simp
    with 1(1) 1(2) True show ?thesis by fastforce
  next
    case False
    with 1(2) show ?thesis by (subst (asm) poll_gone.simps) (auto split: if_splits)
  qed
qed

lemma wrap64_le: "0 \<le> x \<Longrightarrow> wrap64 x \<le> x"
proof -
  assume x: "0 \<le> x"
  have "(x + 9223372036854775808) mod 18446744073709551616 \<le> x + 9223372036854775808"
    using x by (intro zmod_le_nonneg_dividend) simp
  then show ?thesis by (simp add: wrap64_def)
qed

text \<open>C15. \<open>Stop\<close> always returns: within the grace period plus eighteen seconds it has seen the
  process gone, or has sent SIGKILL to its process group as the last of what it sends.\<close>

theorem stop_returns:
  assumes "stop_finish cfg graceful (tty, pgid, pid) alive now = (acts, t)" "0 < pgid" "0 \<le> sc_grace cfg"
  shows "now \<le> t \<and> t \<le> now + (sc_grace cfg + 18) * nano \<and>
    (\<not> alive t \<or> (acts \<noteq> [] \<and> last acts = SigKill pgid))"
proof -
  obtain g1 t1 where p1: "poll_gone alive (now + 2 * nano) (now + 2 * nano + wrap64 (sc_grace cfg * nano)) = (g1, t1)"
    by fastforce
  have "wrap64 (sc_grace cfg * nano) \<le> sc_grace cfg * nano"
    using assms(3) by (intro wrap64_le) (simp add: nano_def)
  with poll_gone_result [OF p1]
  have r1: "now + 2 * nano \<le> t1 \<and> t1 \<le> now + 2 * nano + sc_grace cfg * nano + 500000000 \<and> (g1 \<longrightarrow> \<not> alive t1)"
    using assms(3) by (simp add: max_def nano_def split: if_splits)
  obtain g2 t2 where p2: "poll_gone alive t1 (t1 + 15 * nano) = (g2, t2)" by fastforce
  obtain g3 t3 where p3: "poll_gone alive now (now + 15 * nano) = (g3, t3)" by fastforce
  from r1 poll_gone_result [OF p2] poll_gone_result [OF p3] assms p1 p2 p3
  show ?thesis
    by (cases "graceful \<and> tty"; cases g1; cases g2; cases g3)
      (auto simp: stop_finish_def Let_def nano_def algebra_simps split: if_splits)
qed

section \<open>Witnesses\<close>

definition running_sup :: sup where
  "running_sup = (New \<lparr>sc_policy = ''always'', sc_delay = 10, sc_grace = 30, sc_max_crash = 5\<rparr> 0)
     \<lparr>s_phase := Waiting, s_cmd := Some 42, s_pgid := 42, s_state := StateRunning\<rparr>"

theorem stop_is_final_witness:
  "ending (running_sup\<lparr>s_state := StateStopping, s_stop_intent := True\<rparr>)"
  by (rule stop_is_final [of running_sup 42 "(True, 42, 0)", OF _ _ _ _ sup_run.refl])
    (simp_all add: running_sup_def New_def stop_begin_def)

theorem stop_in_restart_delay_lost_witness:
  "\<exists>t. sup_run (running_sup\<lparr>s_cmd := None, s_state := StateCrashed, s_phase := Delaying 7\<rparr>) t \<and>
     s_phase t = Launching"
  using stop_in_restart_delay_lost
    [of "running_sup\<lparr>s_cmd := None, s_state := StateCrashed, s_phase := Delaying 7\<rparr>" 7]
  by (auto simp: running_sup_def New_def stop_begin_def)

theorem one_child_at_a_time_witness:
  "s_cmd (New (sup_config.make ''never'' 10 30 5) 0) = None"
  using one_child_at_a_time [OF sup_run.refl, of "sup_config.make ''never'' 10 30 5" 0]
  by (simp add: New_def)

definition restarting_sup :: sup where
  "restarting_sup = running_sup\<lparr>s_cmd := None, s_phase := Reaped 1 [], s_restart_intent := True\<rparr>"

text \<open>Ten seconds: no crash came before. A stop comes in between, to no effect.\<close>

theorem requested_restart_relaunches_witness:
  "before_launch restarting_sup (ForceStop (classify 1 [] restarting_sup)) \<and>
   s_phase ((next_section ^^ 3) (ForceStop (classify 1 [] restarting_sup))) = Launching \<and>
   sections_left (s_phase (ForceStop (classify 1 [] restarting_sup))) = 3"
proof -
  have "before_launch restarting_sup (classify 1 [] restarting_sup)"
    by (rule before_launch.step [OF before_launch.refl sup_step.classified])
       (simp_all add: restarting_sup_def classify_def)
  then have b: "before_launch restarting_sup (ForceStop (classify 1 [] restarting_sup))"
    by (rule before_launch.step [OF _ sup_step.force])
       (simp add: restarting_sup_def classify_def ForceStop_def)
  have n: "sections_left (s_phase (ForceStop (classify 1 [] restarting_sup))) = 3"
    by (simp add: restarting_sup_def classify_def ForceStop_def)
  from requested_restart_relaunches [OF _ _ _ _ b, of 1 "[]"] b n show ?thesis
    by (simp add: restarting_sup_def running_sup_def New_def apply_defaults_def classify_def ForceStop_def
        Let_def)
qed

theorem stop_returns_witness:
  "\<exists>acts t. stop_finish (s_cfg running_sup) False (True, 42, 42) (\<lambda>_. False) 0 = (acts, t) \<and>
     t \<le> 48 * nano"
proof -
  obtain acts t where s: "stop_finish (s_cfg running_sup) False (True, 42, 42) (\<lambda>_. False) 0 = (acts, t)"
    by fastforce
  from stop_returns [OF s] s show ?thesis
    by (auto simp: running_sup_def New_def apply_defaults_def)
qed

end
