(* ===== verification/GoPath.thy ===== *)
theory GoPath
  imports GoStrings
begin

text \<open>
  Go's \<open>path/filepath\<close> on Unix, on byte strings: \<open>Clean\<close>, \<open>Join\<close>, \<open>Dir\<close>, \<open>Base\<close>, \<open>IsAbs\<close> and
  \<open>Rel\<close>. A cleaned absolute path is determined by its list of names, \<open>names\<close>; the lemmas
  describe every function by what it does to the names.
\<close>

section \<open>Cleaning\<close>

abbreviation slash :: char where "slash \<equiv> CHR ''/''"

definition IsAbs :: "string \<Rightarrow> bool" where "IsAbs s \<longleftrightarrow> HasPrefix s ''/''"

text \<open>The names of a path are processed from the left with a stack of kept names, innermost
  first; \<open>..\<close> removes one, is dropped at a root, and is kept at the start of a relative path.\<close>

fun clean_stack :: "bool \<Rightarrow> string list \<Rightarrow> string list \<Rightarrow> string list" where
  "clean_stack rooted st [] = rev st"
| "clean_stack rooted st (c # cs) =
     (if c = [] \<or> c = ''.'' then clean_stack rooted st cs
      else if c = ''..'' then
        (case st of
           [] \<Rightarrow> if rooted then clean_stack rooted [] cs else clean_stack rooted [''..''] cs
         | t # ts \<Rightarrow> if t = ''..'' then clean_stack rooted (''..'' # st) cs
                    else clean_stack rooted ts cs)
      else clean_stack rooted (c # st) cs)"

definition render :: "bool \<Rightarrow> string list \<Rightarrow> string" where
  "render rooted cs =
     (if rooted then slash # Join ''/'' cs else if cs = [] then ''.'' else Join ''/'' cs)"

definition Clean :: "string \<Rightarrow> string" where
  "Clean s = render (IsAbs s) (clean_stack (IsAbs s) [] (Split slash s))"

definition JoinPath :: "string list \<Rightarrow> string" where
  "JoinPath elems =
     (case dropWhile (\<lambda>e. e = []) elems of [] \<Rightarrow> [] | es \<Rightarrow> Clean (Join ''/'' es))"

text \<open>The text up to and including the last slash, and the text after it.\<close>

definition upto_slash :: "string \<Rightarrow> string" where
  "upto_slash s = rev (dropWhile (\<lambda>c. c \<noteq> slash) (rev s))"

definition after_slash :: "string \<Rightarrow> string" where
  "after_slash s = rev (takeWhile (\<lambda>c. c \<noteq> slash) (rev s))"

definition Dir :: "string \<Rightarrow> string" where "Dir s = Clean (upto_slash s)"

definition Base :: "string \<Rightarrow> string" where
  "Base s =
     (if s = [] then ''.''
      else let t = after_slash (rev (dropWhile (\<lambda>c. c = slash) (rev s)))
           in if t = [] then ''/'' else t)"

text \<open>\<open>Rel\<close>: the names of both cleaned paths after their common start; going up is a \<open>..\<close> for each
  remaining name of the base.\<close>

fun strip_common :: "string list \<Rightarrow> string list \<Rightarrow> string list \<times> string list" where
  "strip_common (b # bs) (t # ts) = (if b = t then strip_common bs ts else (b # bs, t # ts))"
| "strip_common bs ts = (bs, ts)"

definition parts :: "string \<Rightarrow> string list" where
  "parts s = (let r = TrimPrefix s ''/'' in if r = [] then [] else Split slash r)"

definition Rel :: "string \<Rightarrow> string \<Rightarrow> string option" where
  "Rel basepath targpath =
     (let base = Clean basepath; targ = Clean targpath in
      if targ = base then Some ''.''
      else let base = (if base = ''.'' then [] else base) in
        if IsAbs base \<noteq> IsAbs targ then None
        else case strip_common (parts base) (parts targ) of
          (bs, ts) \<Rightarrow>
            if bs \<noteq> [] \<and> ts \<noteq> [] \<and> hd bs = ''..'' then None
            else Some (Join ''/'' (map (\<lambda>_. ''..'') bs @ ts)))"

section \<open>Names\<close>

definition good_name :: "string \<Rightarrow> bool" where
  "good_name c \<longleftrightarrow> c \<noteq> [] \<and> c \<noteq> ''.'' \<and> c \<noteq> ''..'' \<and> slash \<notin> set c"

text \<open>The names of an absolute path.\<close>

definition names :: "string \<Rightarrow> string list" where
  "names s = clean_stack True [] (Split slash s)"

lemma clean_stack_good:
  "list_all good_name st \<Longrightarrow> \<forall>c\<in>set cs. slash \<notin> set c \<Longrightarrow> list_all good_name (clean_stack True st cs)"
proof (induction True st cs rule: clean_stack.induct)
  case (2 st c cs)
  then show ?case by (cases st) (auto simp: good_name_def)
qed simp

lemma names_good: "list_all good_name (names s)"
  unfolding names_def by (rule clean_stack_good) (auto dest: Split_no_sep)

text \<open>A relative path: some \<open>..\<close> and then good names.\<close>

definition up_down :: "string list \<Rightarrow> bool" where
  "up_down cs \<longleftrightarrow> (\<exists>n ds. cs = replicate n ''..'' @ ds \<and> list_all good_name ds)"

lemma clean_stack_good_names:
  "list_all good_name cs \<Longrightarrow> clean_stack r st cs = rev st @ cs"
  by (induction cs arbitrary: st) (auto simp: good_name_def)

lemma clean_stack_append:
  "clean_stack True st (xs @ ys) = clean_stack True (rev (clean_stack True st xs)) ys"
proof (induction True st xs rule: clean_stack.induct)
  case (2 st c cs)
  then show ?case by (cases st) simp_all
qed simp

lemma Split_two: "Split sep (a @ sep # b) = Split sep a @ Split sep b"
  by (induction a) (auto split: list.splits)

lemma render_abs [simp]: "IsAbs (render True cs)"
  by (simp add: render_def IsAbs_def HasPrefix_def)

lemma Split_Join_good:
  "list_all good_name cs \<Longrightarrow> cs \<noteq> [] \<Longrightarrow> Split slash (Join ''/'' cs) = cs"
  by (rule Split_Join) (auto simp: list_all_iff good_name_def)

lemma parts_render:
  assumes "list_all good_name cs" shows "parts (render True cs) = cs"
proof -
  have "TrimPrefix (render True cs) ''/'' = Join ''/'' cs"
    by (simp add: render_def TrimPrefix_def HasPrefix_def)
  moreover have "cs \<noteq> [] \<Longrightarrow> Join ''/'' cs \<noteq> []"
    using assms by (cases cs rule: remdups_adj.cases) (auto simp: good_name_def)
  ultimately show ?thesis
    using Split_Join_good [OF assms] by (cases "cs = []") (simp_all add: parts_def)
qed

lemma Clean_abs: "IsAbs s \<Longrightarrow> Clean s = render True (names s)"
  by (simp add: Clean_def names_def)

lemma names_render: "list_all good_name cs \<Longrightarrow> names (render True cs) = cs"
proof (cases "cs = []")
  case True then show ?thesis by (simp add: names_def render_def)
next
  case False
  assume g: "list_all good_name cs"
  have "Split slash (slash # Join ''/'' cs) = [] # cs" using Split_Join_good [OF g False] by simp
  with g show ?thesis by (simp add: names_def render_def clean_stack_good_names)
qed

lemma render_inj:
  assumes "list_all good_name a" "list_all good_name b"
  shows "render True a = render True b \<longleftrightarrow> a = b"
  using names_render [OF assms(1)] names_render [OF assms(2)] by metis

lemma names_Clean [simp]: "IsAbs s \<Longrightarrow> names (Clean s) = names s"
  by (simp add: Clean_abs names_render names_good)

lemma IsAbs_Clean: "IsAbs s \<Longrightarrow> IsAbs (Clean s)"
  by (simp add: Clean_abs)

lemma Clean_Clean: "IsAbs s \<Longrightarrow> Clean (Clean s) = Clean s"
  using Clean_abs IsAbs_Clean names_Clean by metis

section \<open>Relative paths\<close>

text \<open>The test the program makes on a relative path.\<close>

definition escapes :: "string \<Rightarrow> bool" where
  "escapes rel \<longleftrightarrow> rel = ''..'' \<or> HasPrefix rel ''../''"

lemma escapes_Join:
  assumes "cs \<noteq> []" "\<forall>c\<in>set cs. slash \<notin> set c"
  shows "escapes (Join ''/'' cs) \<longleftrightarrow> hd cs = ''..''"
proof
  have s: "Split slash (Join ''/'' cs) = cs" using Split_Join [OF assms] .
  assume "escapes (Join ''/'' cs)"
  then consider "Join ''/'' cs = ''..''" | r where "Join ''/'' cs = ''../'' @ r"
    by (auto simp: escapes_def HasPrefix_iff)
  then show "hd cs = ''..''"
  proof cases
    case 1
    have "Split slash ''..'' = [''..'']" by simp
    with 1 s show ?thesis by (metis list.sel(1))
  next
    case (2 r)
    have "Split slash (''../'' @ r) = ''..'' # Split slash r" by simp
    with 2 s show ?thesis by (metis list.sel(1))
  qed
next
  assume "hd cs = ''..''"
  with assms(1) show "escapes (Join ''/'' cs)"
    by (cases cs rule: remdups_adj.cases) (auto simp: escapes_def HasPrefix_iff)
qed

lemma strip_common_prefix: "fst (strip_common bs ts) = [] \<longleftrightarrow> (\<exists>r. ts = bs @ r)"
  by (induction bs ts rule: strip_common.induct) auto

lemma strip_common_subset:
  "strip_common bs ts = (b, t) \<Longrightarrow> set b \<subseteq> set bs \<and> set t \<subseteq> set ts"
  by (induction bs ts rule: strip_common.induct) (auto split: if_splits)

lemma strip_common_Nil: "strip_common bs ts = ([], t) \<Longrightarrow> ts = bs @ t"
  by (induction bs ts rule: strip_common.induct) (auto split: if_splits)

text \<open>\<open>Rel\<close> between absolute paths always succeeds; its result escapes exactly when the base's names
  are not a start of the target's.\<close>

lemma Rel_abs:
  assumes "IsAbs base" "IsAbs targ"
  obtains rel where "Rel base targ = Some rel"
    "escapes rel \<longleftrightarrow> \<not> (\<exists>r. names targ = names base @ r)" "\<not> IsAbs rel"
proof (cases "names targ = names base")
  case True
  then have "Rel base targ = Some ''.''" using assms by (simp add: Rel_def Clean_abs)
  moreover have "\<not> escapes ''.''" "\<not> IsAbs ''.''" by code_simp+
  ultimately show thesis using that True by auto
next
  case False
  obtain bs ts where sc: "strip_common (names base) (names targ) = (bs, ts)" by fastforce
  have good: "list_all good_name bs" "list_all good_name ts"
    using strip_common_subset [OF sc] names_good [of base] names_good [of targ]
    by (auto simp: list_all_iff)
  define cs where "cs = map (\<lambda>_. ''..'') bs @ ts"
  have ne: "Clean base \<noteq> ''.''" using assms(1) by (simp add: Clean_abs render_def)
  have "Clean targ \<noteq> Clean base" using False assms names_Clean by metis
  moreover have "parts (Clean base) = names base" "parts (Clean targ) = names targ"
    using assms by (simp_all add: Clean_abs parts_render names_good)
  moreover have "\<not> (bs \<noteq> [] \<and> ts \<noteq> [] \<and> hd bs = ''..'')"
    using good(1) by (cases bs) (auto simp: good_name_def)
  ultimately have rel: "Rel base targ = Some (Join ''/'' cs)"
    using assms ne sc by (simp add: Rel_def Let_def IsAbs_Clean cs_def)
  have "cs \<noteq> []" using False sc strip_common_Nil by (fastforce simp: cs_def)
  moreover have slashes: "\<forall>c\<in>set cs. slash \<notin> set c"
    using good(2) by (auto simp: cs_def list_all_iff good_name_def)
  ultimately have "escapes (Join ''/'' cs) \<longleftrightarrow> hd cs = ''..''" by (rule escapes_Join)
  also have "\<dots> \<longleftrightarrow> bs \<noteq> []"
    using good(2) \<open>cs \<noteq> []\<close> by (cases bs; cases ts) (auto simp: cs_def good_name_def)
  also have "\<dots> \<longleftrightarrow> \<not> (\<exists>r. names targ = names base @ r)"
    using strip_common_prefix [of "names base" "names targ"] sc by simp
  finally have e: "escapes (Join ''/'' cs) \<longleftrightarrow> \<not> (\<exists>r. names targ = names base @ r)" .
  have "\<not> IsAbs (Join ''/'' cs)"
  proof
    assume "IsAbs (Join ''/'' cs)"
    then obtain r where "Join ''/'' cs = slash # r" by (auto simp: IsAbs_def HasPrefix_iff)
    then have "hd (Split slash (Join ''/'' cs)) = []" by simp
    then have "hd cs = []" using Split_Join [OF \<open>cs \<noteq> []\<close> slashes] by simp
    with good(2) \<open>cs \<noteq> []\<close> show False by (cases bs; cases ts) (auto simp: cs_def good_name_def)
  qed
  with that rel e show thesis by blast
qed

section \<open>Joining\<close>

lemma Split_Join_concat:
  "es \<noteq> [] \<Longrightarrow> Split slash (Join ''/'' es) = concat (map (Split slash) es)"
  by (induction "''/''" es rule: Join.induct) (simp_all add: Split_two)

text \<open>Joining an absolute path with others appends their names and cleans.\<close>

lemma JoinPath_abs:
  assumes "IsAbs root"
  shows "JoinPath (root # es) =
    render True (clean_stack True (rev (names root)) (concat (map (Split slash) es)))"
proof -
  have ne: "root \<noteq> []" using assms by (auto simp: IsAbs_def HasPrefix_def)
  have abs: "IsAbs (Join ''/'' (root # es))"
    using assms by (cases es) (auto simp: IsAbs_def HasPrefix_iff)
  have "JoinPath (root # es) = render True (names (Join ''/'' (root # es)))"
    using ne abs by (simp add: JoinPath_def Clean_abs)
  also have "names (Join ''/'' (root # es)) =
      clean_stack True [] (Split slash root @ concat (map (Split slash) es))"
    by (simp add: names_def Split_Join_concat)
  also have "\<dots> = clean_stack True (rev (names root)) (concat (map (Split slash) es))"
    by (simp add: clean_stack_append names_def)
  finally show ?thesis .
qed

end
