(* ===== verification/FileTree.thy ===== *)
theory FileTree
  imports GoPath
begin

text \<open>
  The file tree the archive and file code writes to, as the operating system sees it: a list of
  nodes with their physical paths (a path is its list of names from the root), symbolic links
  resolved on the way as the kernel does, with its limit of forty links per lookup. The
  operations are those of Go's \<open>os\<close> package that the program calls. Contents count only by their
  size, and two hard links to a file are two files of the same size.
\<close>

section \<open>Nodes and lookup\<close>

datatype node = NDir | NFile nat | NLink string

type_synonym fs = "(string list \<times> node) list"

definition fs_get :: "fs \<Rightarrow> string list \<Rightarrow> node option" where
  "fs_get fs p = (if p = [] then Some NDir else map_of fs p)"

definition fs_del :: "string list \<Rightarrow> fs \<Rightarrow> fs" where
  "fs_del p fs = filter (\<lambda>e. fst e \<noteq> p) fs"

definition fs_put :: "string list \<Rightarrow> node \<Rightarrow> fs \<Rightarrow> fs" where
  "fs_put p n fs = (p, n) # fs_del p fs"

lemma fs_get_del: "p \<noteq> [] \<Longrightarrow> fs_get (fs_del p fs) q = (if q = p then None else fs_get fs q)"
proof -
  have "map_of (filter (\<lambda>e. fst e \<noteq> p) fs) q = (if q = p then None else map_of fs q)"
    by (induction fs) auto
  then show "p \<noteq> [] \<Longrightarrow> ?thesis" by (auto simp: fs_get_def fs_del_def)
qed

lemma fs_get_put: "p \<noteq> [] \<Longrightarrow> fs_get (fs_put p n fs) q = (if q = p then Some n else fs_get fs q)"
  using fs_get_del [of p fs q] by (auto simp: fs_get_def fs_put_def)

text \<open>Path resolution from the physical directory \<open>cur\<close>: \<open>n\<close> is the number of links that may still
  be followed, \<open>follow\<close> says whether a link in the last place is. The result is where the last
  name lies, whether or not it exists; \<open>None\<close> is an error.\<close>

function walk :: "nat \<Rightarrow> fs \<Rightarrow> bool \<Rightarrow> string list \<Rightarrow> string list \<Rightarrow> string list option" where
  "walk n fs follow cur [] = Some cur"
| "walk n fs follow cur (c # cs) =
     (if c = [] \<or> c = ''.'' then walk n fs follow cur cs
      else if c = ''..'' then walk n fs follow (butlast cur) cs
      else case fs_get fs (cur @ [c]) of
        None \<Rightarrow> if cs = [] then Some (cur @ [c]) else None
      | Some NDir \<Rightarrow> walk n fs follow (cur @ [c]) cs
      | Some (NFile k) \<Rightarrow> if cs = [] then Some (cur @ [c]) else None
      | Some (NLink t) \<Rightarrow>
          if cs = [] \<and> \<not> follow then Some (cur @ [c])
          else if n = 0 then None
          else walk (n - 1) fs follow (if IsAbs t then [] else cur) (Split slash t @ cs))"
  by pat_completeness auto
termination by (relation "measures [\<lambda>(n, fs, f, cur, cs). n, \<lambda>(n, fs, f, cur, cs). length cs]") auto

definition link_limit :: nat where "link_limit = 40"

definition lookup :: "fs \<Rightarrow> bool \<Rightarrow> string list \<Rightarrow> string list option" where
  "lookup fs follow p = walk link_limit fs follow [] p"

definition Stat :: "fs \<Rightarrow> string list \<Rightarrow> node option" where
  "Stat fs p = (case lookup fs True p of None \<Rightarrow> None | Some q \<Rightarrow> fs_get fs q)"

section \<open>Operations\<close>

text \<open>\<open>os.MkdirAll\<close>: the prefixes of the path from the shortest; an existing directory, also behind
  a link, is kept. The first component of the result is false on an error.\<close>

fun mkdir_all :: "fs \<Rightarrow> string list \<Rightarrow> string list \<Rightarrow> bool \<times> fs" where
  "mkdir_all fs pre [] = (True, fs)"
| "mkdir_all fs pre (c # cs) =
     (case Stat fs (pre @ [c]) of
        Some NDir \<Rightarrow> mkdir_all fs (pre @ [c]) cs
      | Some n \<Rightarrow> (False, fs)
      | None \<Rightarrow>
          (case lookup fs False (pre @ [c]) of
             None \<Rightarrow> (False, fs)
           | Some q \<Rightarrow> if fs_get fs q = None then mkdir_all (fs_put q NDir fs) (pre @ [c]) cs
                       else (False, fs)))"

definition MkdirAll :: "string list \<Rightarrow> fs \<Rightarrow> bool \<times> fs" where
  "MkdirAll p fs = mkdir_all fs [] p"

text \<open>Opening with \<open>O_CREATE|O_TRUNC|O_WRONLY\<close> and writing \<open>k\<close> bytes, through a link if there is
  one.\<close>

definition write_file :: "string list \<Rightarrow> nat \<Rightarrow> fs \<Rightarrow> bool \<times> fs" where
  "write_file p k fs =
     (case lookup fs True p of
        None \<Rightarrow> (False, fs)
      | Some q \<Rightarrow> if fs_get fs q = Some NDir then (False, fs) else (True, fs_put q (NFile k) fs))"

text \<open>\<open>os.Remove\<close>: a file, a link itself, or an empty directory.\<close>

definition has_child :: "fs \<Rightarrow> string list \<Rightarrow> bool" where
  "has_child fs p \<longleftrightarrow> list_ex (\<lambda>e. fst e \<noteq> [] \<and> butlast (fst e) = p) fs"

definition Remove :: "string list \<Rightarrow> fs \<Rightarrow> bool \<times> fs" where
  "Remove p fs =
     (case lookup fs False p of
        None \<Rightarrow> (False, fs)
      | Some q \<Rightarrow>
          if q = [] \<or> fs_get fs q = None \<or> (fs_get fs q = Some NDir \<and> has_child fs q) then (False, fs)
          else (True, fs_del q fs))"

definition Symlink :: "string \<Rightarrow> string list \<Rightarrow> fs \<Rightarrow> bool \<times> fs" where
  "Symlink target p fs =
     (case lookup fs False p of
        None \<Rightarrow> (False, fs)
      | Some q \<Rightarrow> if target = [] \<or> fs_get fs q \<noteq> None then (False, fs)
                  else (True, fs_put q (NLink target) fs))"

definition HardLink :: "string list \<Rightarrow> string list \<Rightarrow> fs \<Rightarrow> bool \<times> fs" where
  "HardLink old new fs =
     (case lookup fs False old of
        None \<Rightarrow> (False, fs)
      | Some q \<Rightarrow>
         (case fs_get fs q of
            None \<Rightarrow> (False, fs)
          | Some NDir \<Rightarrow> (False, fs)
          | Some n \<Rightarrow>
             (case lookup fs False new of
                None \<Rightarrow> (False, fs)
              | Some r \<Rightarrow> if fs_get fs r \<noteq> None then (False, fs) else (True, fs_put r n fs))))"

section \<open>Trees without links\<close>

text \<open>Paths at or below a directory, and trees in which neither the way to it nor anything below it
  is a link.\<close>

definition under :: "string list \<Rightarrow> string list \<Rightarrow> bool" where
  "under d p \<longleftrightarrow> take (length d) p = d"

definition link_free :: "string list \<Rightarrow> fs \<Rightarrow> bool" where
  "link_free d fs \<longleftrightarrow> (\<forall>p t. fs_get fs p = Some (NLink t) \<longrightarrow> \<not> under d p \<and> \<not> under p d)"

lemma under_iff: "under d p \<longleftrightarrow> (\<exists>r. p = d @ r)"
  unfolding under_def by (metis append_eq_conv_conj append_take_drop_id)

lemma under_trans: "under a b \<Longrightarrow> under b c \<Longrightarrow> under a c"
  by (auto simp: under_iff)

lemma under_append [simp]: "under d (d @ r)"
  by (simp add: under_def)

text \<open>Along plain names without links a path is its own physical path.\<close>

lemma walk_plain:
  assumes "list_all good_name cs" "\<And>a b t. cs = a @ b \<Longrightarrow> fs_get fs (cur @ a) \<noteq> Some (NLink t)"
    "walk n fs f cur cs = Some q"
  shows "q = cur @ cs"
  using assms
proof (induction cs arbitrary: cur)
  case (Cons c cs)
  from Cons.prems(1) have g: "c \<noteq> []" "c \<noteq> ''.''" "c \<noteq> ''..''" "list_all good_name cs"
    by (auto simp: good_name_def list_all_iff)
  have nl: "fs_get fs (cur @ [c]) \<noteq> Some (NLink t)" for t
    using Cons.prems(2) [of "[c]" cs t] by simp
  show ?case
  proof (cases "fs_get fs (cur @ [c]) = Some NDir")
    case True
    have "fs_get fs ((cur @ [c]) @ a) \<noteq> Some (NLink t)" if "cs = a @ b" for a b t
      using Cons.prems(2) [of "c # a" b t] that by simp
    with Cons.IH [OF g(4), of "cur @ [c]"] Cons.prems(3) True g show ?thesis by simp
  next
    case False
    with nl Cons.prems(3) g show ?thesis
      by (auto split: option.splits node.splits if_splits)
  qed
qed simp

lemma lookup_plain:
  assumes "list_all good_name (d @ r)" "link_free d fs" "lookup fs f (d @ r) = Some q"
  shows "q = d @ r"
proof -
  have "fs_get fs ([] @ a) \<noteq> Some (NLink t)" if "d @ r = a @ b" for a b t
  proof -
    from that have "under d a \<or> under a d"
      unfolding under_iff using append_eq_append_conv2 [of d r a b] by metis
    with assms(2) show ?thesis by (auto simp: link_free_def)
  qed
  from walk_plain [OF assms(1) this assms(3) [unfolded lookup_def]] show ?thesis by simp
qed

lemma link_free_put:
  "link_free d fs \<Longrightarrow> p \<noteq> [] \<Longrightarrow> (\<And>t. n \<noteq> NLink t) \<Longrightarrow> link_free d (fs_put p n fs)"
  by (auto simp: link_free_def fs_get_put)

lemma link_free_del: "link_free d fs \<Longrightarrow> p \<noteq> [] \<Longrightarrow> link_free d (fs_del p fs)"
  by (auto simp: link_free_def fs_get_del)

text \<open>What a change confined to \<open>d\<close> leaves alone.\<close>

definition same_outside :: "string list \<Rightarrow> fs \<Rightarrow> fs \<Rightarrow> bool" where
  "same_outside d fs fs' \<longleftrightarrow> (\<forall>p. \<not> under d p \<longrightarrow> fs_get fs' p = fs_get fs p)"

lemma same_outside_refl [simp]: "same_outside d fs fs"
  by (simp add: same_outside_def)

lemma same_outside_trans: "same_outside d a b \<Longrightarrow> same_outside d b c \<Longrightarrow> same_outside d a c"
  by (simp add: same_outside_def)

definition confined :: "string list \<Rightarrow> fs \<Rightarrow> fs \<Rightarrow> bool" where
  "confined d fs fs' \<longleftrightarrow> same_outside d fs fs' \<and> link_free d fs'"

lemma confined_put:
  assumes "link_free d fs" "d @ r \<noteq> []" "\<And>t. n \<noteq> NLink t"
  shows "confined d fs (fs_put (d @ r) n fs)"
  using assms link_free_put [OF assms] by (auto simp: confined_def same_outside_def fs_get_put)

lemma confined_del:
  assumes "link_free d fs" "d @ r \<noteq> []"
  shows "confined d fs (fs_del (d @ r) fs)"
  using assms link_free_del [OF assms] by (auto simp: confined_def same_outside_def fs_get_del)

lemma confined_trans: "confined d a b \<Longrightarrow> confined d b c \<Longrightarrow> confined d a c"
  using same_outside_trans unfolding confined_def by blast

lemma write_file_confined:
  assumes "list_all good_name (d @ r)" "link_free d fs" "d @ r \<noteq> []" "write_file (d @ r) k fs = (b, fs')"
  shows "confined d fs fs'"
proof (cases "lookup fs True (d @ r)")
  case None with assms show ?thesis by (simp add: write_file_def confined_def)
next
  case (Some q)
  from lookup_plain [OF assms(1,2) Some] have "q = d @ r" .
  with Some assms confined_put [OF assms(2,3), of "NFile k"] show ?thesis
    by (auto simp: write_file_def confined_def split: if_splits)
qed

lemma Remove_confined:
  assumes "list_all good_name (d @ r)" "link_free d fs" "Remove (d @ r) fs = (b, fs')"
  shows "confined d fs fs'"
proof (cases "lookup fs False (d @ r)")
  case None with assms show ?thesis by (simp add: Remove_def confined_def)
next
  case (Some q)
  from lookup_plain [OF assms(1,2) Some] have "q = d @ r" .
  with Some assms confined_del [OF assms(2), of r] show ?thesis
    by (auto simp: Remove_def confined_def split: if_splits)
qed

text \<open>Making directories below an existing \<open>d\<close> stays below it.\<close>

lemma mkdir_all_confined:
  assumes "list_all good_name (d @ r @ cs)" "link_free d fs" "d @ r @ cs \<noteq> []"
    "mkdir_all fs (d @ r) cs = (b, fs')"
  shows "confined d fs fs'"
  using assms
proof (induction cs arbitrary: r fs)
  case Nil then show ?case by (simp add: confined_def)
next
  case (Cons c cs)
  have g: "list_all good_name (d @ (r @ [c]))" using Cons.prems(1) by simp
  have IH: "confined d f fs'" if "link_free d f" "mkdir_all f (d @ (r @ [c])) cs = (b, fs')" for f
    using Cons.IH [of "r @ [c]" f] Cons.prems(1) that by simp
  show ?case
  proof (cases "Stat fs (d @ r @ [c])")
    case (Some n)
    with Cons.prems(2,4) IH [of fs] show ?thesis by (cases n) (auto simp: confined_def)
  next
    case None
    note stat = this
    show ?thesis
    proof (cases "lookup fs False (d @ r @ [c])")
      case None with stat Cons.prems(2,4) show ?thesis by (auto simp: confined_def)
    next
      case (Some q)
      from lookup_plain [OF g Cons.prems(2)] Some have q: "q = d @ r @ [c]" by simp
      show ?thesis
      proof (cases "fs_get fs q = None")
        case True
        have c: "confined d fs (fs_put (d @ (r @ [c])) NDir fs)"
          by (rule confined_put [OF Cons.prems(2)]) simp_all
        with stat Some True q Cons.prems(4)
        have "mkdir_all (fs_put (d @ (r @ [c])) NDir fs) (d @ (r @ [c])) cs = (b, fs')" by simp
        with IH c show ?thesis using confined_trans unfolding confined_def by blast
      next
        case False with stat Some Cons.prems(2,4) show ?thesis by (auto simp: confined_def)
      qed
    qed
  qed
qed


section \<open>Directories that stay\<close>

definition keeps_dirs :: "fs \<Rightarrow> fs \<Rightarrow> bool" where
  "keeps_dirs fs fs' \<longleftrightarrow> (\<forall>p. fs_get fs p = Some NDir \<longrightarrow> fs_get fs' p = Some NDir)"

lemma keeps_dirs_refl [simp]: "keeps_dirs fs fs"
  by (simp add: keeps_dirs_def)

lemma keeps_dirs_trans: "keeps_dirs a b \<Longrightarrow> keeps_dirs b c \<Longrightarrow> keeps_dirs a c"
  by (simp add: keeps_dirs_def)

lemma keeps_dirs_put: "p \<noteq> [] \<Longrightarrow> fs_get fs p \<noteq> Some NDir \<or> n = NDir \<Longrightarrow> keeps_dirs fs (fs_put p n fs)"
  by (auto simp: keeps_dirs_def fs_get_put)

lemma lookup_nonroot: "fs_get fs q \<noteq> Some NDir \<Longrightarrow> q \<noteq> []"
  by (auto simp: fs_get_def)

lemma write_file_dirs: "write_file p k fs = (b, fs') \<Longrightarrow> keeps_dirs fs fs'"
  using lookup_nonroot by (auto simp: write_file_def split: option.splits if_splits intro!: keeps_dirs_put)

lemma mkdir_all_dirs: "mkdir_all fs pre cs = (b, fs') \<Longrightarrow> keeps_dirs fs fs'"
proof (induction fs pre cs rule: mkdir_all.induct)
  case (2 fs pre c cs)
  show ?case
  proof (cases "Stat fs (pre @ [c])")
    case (Some n) with 2 show ?thesis by (cases n) auto
  next
    case None
    show ?thesis
    proof (cases "lookup fs False (pre @ [c])")
      case None with \<open>Stat fs (pre @ [c]) = None\<close> 2 show ?thesis by auto
    next
      case (Some q)
      show ?thesis
      proof (cases "fs_get fs q = None")
        case True
        then have "keeps_dirs fs (fs_put q NDir fs)" by (intro keeps_dirs_put) (auto simp: fs_get_def)
        moreover have "mkdir_all (fs_put q NDir fs) (pre @ [c]) cs = (b, fs')"
          using "2.prems" None Some True by simp
        with "2.IH"(1) [OF None Some True] have "keeps_dirs (fs_put q NDir fs) fs'" by blast
        ultimately show ?thesis by (rule keeps_dirs_trans)
      next
        case False with None Some 2 show ?thesis by simp
      qed
    qed
  qed
qed simp

text \<open>A directory all of whose ancestors are directories.\<close>

definition real_dir :: "string list \<Rightarrow> fs \<Rightarrow> bool" where
  "real_dir d fs \<longleftrightarrow> (\<forall>a. under a d \<longrightarrow> fs_get fs a = Some NDir)"

lemma real_dir_kept: "real_dir d fs \<Longrightarrow> keeps_dirs fs fs' \<Longrightarrow> real_dir d fs'"
  by (simp add: real_dir_def keeps_dirs_def)

lemma walk_dirs:
  assumes "list_all good_name cs" "\<And>a b. cs = a @ b \<Longrightarrow> fs_get fs (cur @ a) = Some NDir"
  shows "walk n fs f cur cs = Some (cur @ cs)"
  using assms
proof (induction cs arbitrary: cur)
  case (Cons c cs)
  from Cons.prems(1) have g: "c \<noteq> []" "c \<noteq> ''.''" "c \<noteq> ''..''" "list_all good_name cs"
    by (auto simp: good_name_def list_all_iff)
  have "fs_get fs ((cur @ [c]) @ a) = Some NDir" if "cs = a @ b" for a b
    using Cons.prems(2) [of "c # a" b] that by simp
  with Cons.IH [OF g(4), of "cur @ [c]"] Cons.prems(2) [of "[c]" cs] g show ?case by simp
qed simp

lemma Stat_real_dir: "list_all good_name d \<Longrightarrow> real_dir d fs \<Longrightarrow> Stat fs d = Some NDir"
proof -
  assume d: "list_all good_name d" "real_dir d fs"
  have "fs_get fs ([] @ a) = Some NDir" if "d = a @ b" for a b
    using d(2) that by (simp add: real_dir_def)
  from walk_dirs [OF d(1) this] have "lookup fs True d = Some d" by (simp add: lookup_def)
  moreover have "fs_get fs d = Some NDir" using d(2) by (simp add: real_dir_def under_def)
  ultimately show "Stat fs d = Some NDir" by (simp add: Stat_def)
qed

lemma mkdir_all_real:
  assumes "list_all good_name (a @ b)" "real_dir (a @ b) fs"
  shows "mkdir_all fs a (b @ cs) = mkdir_all fs (a @ b) cs"
  using assms
proof (induction b arbitrary: a)
  case (Cons c b)
  have "real_dir (a @ [c]) fs"
    using Cons.prems(2) under_trans [of _ "a @ [c]" "a @ c # b"] by (simp add: real_dir_def under_iff)
  then have "Stat fs (a @ [c]) = Some NDir"
    using Cons.prems(1) by (intro Stat_real_dir) auto
  with Cons.IH [of "a @ [c]"] Cons.prems show ?case by simp
qed simp

lemma MkdirAll_confined:
  assumes "list_all good_name (d @ r)" "link_free d fs" "real_dir d fs" "MkdirAll (d @ r) fs = (b, fs')"
  shows "confined d fs fs' \<and> keeps_dirs fs fs'"
proof -
  have g: "list_all good_name d" using assms(1) by simp
  have m: "mkdir_all fs d r = (b, fs')"
    using mkdir_all_real [of "[]" d fs r] g assms(3,4) by (simp add: MkdirAll_def)
  have "confined d fs fs'"
  proof (cases "d @ r = []")
    case True with m assms(2) show ?thesis by (simp add: confined_def)
  next
    case False
    with mkdir_all_confined [of d "[]" r fs b fs'] m assms(1,2) show ?thesis by simp
  qed
  with mkdir_all_dirs [OF m] show ?thesis by simp
qed

end
