(* ===== verification/Sandbox.thy ===== *)
theory Sandbox
  imports GoPath
begin

text \<open>
  Containment of untrusted paths (\<open>source/internal/security/security.go\<close>): \<open>WithinRoot\<close>,
  \<open>SafeJoin\<close> and \<open>EvalWithinRoot\<close>, and the framing of \<open>Encrypt\<close> and \<open>Decrypt\<close>. The locale
  \<open>path_sandbox\<close> states what the program relies on in a function that turns an untrusted path
  into one below a root; \<open>SafeJoin\<close> is interpreted here, the archive entry paths in
  \<open>Archive\<close>.
\<close>

section \<open>Below a root\<close>

definition below :: "string \<Rightarrow> string \<Rightarrow> bool" where
  "below root p \<longleftrightarrow> (\<exists>r. names p = names root @ r)"

lemma below_refl: "below root root"
  by (simp add: below_def)

lemma below_trans: "below a b \<Longrightarrow> below b c \<Longrightarrow> below a c"
  by (auto simp: below_def)

locale path_sandbox =
  fixes resolve :: "string \<Rightarrow> 'a \<Rightarrow> 'e + string"
  assumes resolve_abs: "IsAbs root \<Longrightarrow> resolve root x = Inr p \<Longrightarrow> IsAbs p"
    and resolve_clean: "IsAbs root \<Longrightarrow> resolve root x = Inr p \<Longrightarrow> Clean p = p"
    and resolve_below: "IsAbs root \<Longrightarrow> resolve root x = Inr p \<Longrightarrow> below root p"
begin

text \<open>A resolved directory may itself serve as a root.\<close>

lemma resolve_twice:
  "IsAbs root \<Longrightarrow> resolve root x = Inr d \<Longrightarrow> resolve d y = Inr p \<Longrightarrow> below root p"
  using resolve_abs resolve_below below_trans by blast

text \<open>Two roots neither of which is below the other share no resolved path.\<close>

lemma resolve_apart:
  assumes "IsAbs a" "IsAbs b" "\<not> below a b" "\<not> below b a"
    "resolve a x = Inr p" "resolve b y = Inr q"
  shows "p \<noteq> q"
proof
  assume "p = q"
  with assms resolve_below have "below a p" "below b p" by blast+
  then obtain r s where "names p = names a @ r" "names p = names b @ s" unfolding below_def by blast
  then have "names a @ r = names b @ s" by simp
  then have "(\<exists>t. names b = names a @ t) \<or> (\<exists>t. names a = names b @ t)"
    using append_eq_append_conv2 [of "names a" r "names b" s] by metis
  with assms(3,4) show False by (auto simp: below_def)
qed

lemma resolve_parts: "IsAbs root \<Longrightarrow> resolve root x = Inr p \<Longrightarrow> list_all good_name (names p)"
  by (rule names_good)

end

section \<open>WithinRoot and SafeJoin\<close>

definition WithinRoot :: "string \<Rightarrow> string \<Rightarrow> bool" where
  "WithinRoot root candidate =
     (let root = Clean root; candidate = Clean candidate in
      if candidate = root then True
      else case Rel root candidate of
        None \<Rightarrow> False
      | Some rel \<Rightarrow> rel \<noteq> ''..'' \<and> \<not> HasPrefix rel ''../'' \<and> \<not> IsAbs rel)"

datatype path_error = ErrPathEscape | ErrResolve | ErrAbs

definition SafeJoin :: "string \<Rightarrow> string list \<Rightarrow> path_error + string" where
  "SafeJoin root ps =
     (if list_ex (\<lambda>p. IsAbs p \<or> CHR 0x00 \<in> set p) ps then Inl ErrPathEscape
      else let joined = JoinPath (root # ps)
           in if \<not> WithinRoot root joined then Inl ErrPathEscape else Inr joined)"

lemma WithinRoot_below:
  assumes "IsAbs root" "IsAbs candidate"
  shows "WithinRoot root candidate \<longleftrightarrow> below root candidate"
proof -
  obtain rel where r: "Rel (Clean root) (Clean candidate) = Some rel"
    "escapes rel \<longleftrightarrow> \<not> (\<exists>r. names (Clean candidate) = names (Clean root) @ r)" "\<not> IsAbs rel"
    using Rel_abs [OF IsAbs_Clean [OF assms(1)] IsAbs_Clean [OF assms(2)]] by blast
  have "Clean candidate = Clean root \<Longrightarrow> below root candidate"
    using names_Clean [OF assms(1)] names_Clean [OF assms(2)] by (simp add: below_def)
  with r assms show ?thesis
    by (auto simp: WithinRoot_def Let_def below_def escapes_def)
qed

text \<open>The names a join leads to.\<close>

definition joined_names :: "string \<Rightarrow> string list \<Rightarrow> string list" where
  "joined_names root ps = clean_stack True (rev (names root)) (concat (map (Split slash) ps))"

lemma joined_names_good: "list_all good_name (joined_names root ps)"
  unfolding joined_names_def
  by (rule clean_stack_good) (use names_good in \<open>auto simp: list_all_iff dest: Split_no_sep\<close>)

lemma JoinPath_names:
  "IsAbs root \<Longrightarrow> JoinPath (root # ps) = render True (joined_names root ps)"
  by (simp add: JoinPath_abs joined_names_def)

lemma SafeJoin_result:
  assumes "IsAbs root"
  shows "SafeJoin root ps = Inr p \<longleftrightarrow>
    list_all (\<lambda>q. \<not> IsAbs q \<and> CHR 0x00 \<notin> set q) ps \<and>
    (\<exists>r. joined_names root ps = names root @ r \<and> p = render True (names root @ r))"
proof -
  have "WithinRoot root (JoinPath (root # ps)) \<longleftrightarrow> (\<exists>r. joined_names root ps = names root @ r)"
    using WithinRoot_below [OF assms, of "JoinPath (root # ps)"] assms
    by (simp add: JoinPath_names below_def names_render joined_names_good)
  then show ?thesis
    using assms by (auto simp: SafeJoin_def Let_def list_ex_iff list_all_iff JoinPath_names)
qed

interpretation safe_join: path_sandbox SafeJoin
proof
  fix root x p assume a: "IsAbs root" "SafeJoin root x = Inr p"
  then obtain r where r: "joined_names root x = names root @ r" "p = render True (names root @ r)"
    by (auto simp: SafeJoin_result)
  have g: "list_all good_name (names root @ r)" using joined_names_good [of root x] r(1) by simp
  show "IsAbs p" by (simp add: r(2))
  then show "Clean p = p" using r(2) g by (simp add: Clean_abs names_render)
  show "below root p" using r(2) g by (simp add: below_def names_render)
qed


text \<open>C16. Joining untrusted parts to a root gives a path strictly by names below the root or an error;
  a result is clean and absolute, and joins below two separate roots never meet.\<close>

theorem SafeJoin_contained:
  assumes "IsAbs root" "SafeJoin root ps = Inr p"
  shows "IsAbs p \<and> Clean p = p \<and> below root p \<and> list_all good_name (names p) \<and>
    (SafeJoin p qs = Inr q \<longrightarrow> below root q)"
  using safe_join.resolve_abs [OF assms] safe_join.resolve_clean [OF assms]
    safe_join.resolve_below [OF assms] safe_join.resolve_parts [OF assms]
    safe_join.resolve_twice [OF assms] by blast

text \<open>Nothing harmless is refused: a join of plain names is accepted, and leads to exactly those
  names below the root.\<close>

lemma SafeJoin_complete:
  assumes "IsAbs root" "list_all good_name ns" "list_all (\<lambda>n. CHR 0x00 \<notin> set n) ns"
  shows "\<exists>p. SafeJoin root ns = Inr p \<and> names p = names root @ ns"
proof -
  have s: "concat (map (Split slash) ns) = ns"
    using assms(2) by (induction ns) (simp_all add: good_name_def Split_single)
  have j: "joined_names root ns = names root @ ns"
    by (simp add: joined_names_def s clean_stack_good_names [OF assms(2)])
  have "list_all (\<lambda>q. \<not> IsAbs q \<and> CHR 0x00 \<notin> set q) ns"
    using assms(2,3) by (induction ns) (auto simp: good_name_def IsAbs_def HasPrefix_iff)
  then have "SafeJoin root ns = Inr (render True (names root @ ns))"
    using assms(1) j by (simp add: SafeJoin_result)
  moreover have "names (render True (names root @ ns)) = names root @ ns"
    using joined_names_good [of root ns] by (simp add: j names_render)
  ultimately show ?thesis by blast
qed

theorem SafeJoin_contained_witness:
  "\<exists>p. SafeJoin ''/srv/files'' [''a/../b'', ''c''] = Inr p \<and> below ''/srv/files'' p"
proof -
  have a: "IsAbs ''/srv/files''" by code_simp
  have "SafeJoin ''/srv/files'' [''a/../b'', ''c''] = Inr ''/srv/files/b/c''" by code_simp
  with SafeJoin_contained [OF a this] show ?thesis by blast
qed

lemma SafeJoin_complete_witness:
  "\<exists>p. SafeJoin ''/srv'' [''world'', ''..data''] = Inr p \<and> names p = [''srv'', ''world'', ''..data'']"
proof -
  have n: "names ''/srv'' = [''srv'']" "IsAbs ''/srv''" by code_simp+
  have "list_all good_name [''world'', ''..data'']"
    "list_all (\<lambda>n. CHR 0x00 \<notin> set n) [''world'', ''..data'']" by code_simp+
  from SafeJoin_complete [OF n(2) this] n(1) show ?thesis by simp
qed

lemma SafeJoin_refuses_up: "SafeJoin ''/srv/files'' [''a/../../x''] = Inl ErrPathEscape"
  by code_simp

section \<open>EvalWithinRoot\<close>

text \<open>\<open>EvalSymlinks\<close> of the file system is an argument; \<open>reverse\<close> is the list reversal of the code,
  written as it is there.\<close>

datatype eval_error = NotExist | OtherError

fun reverse_into :: "'a list \<Rightarrow> nat \<Rightarrow> 'a list \<Rightarrow> 'a list" where
  "reverse_into out i [] = out"
| "reverse_into out i (v # vs) = reverse_into (out[length out - 1 - i := v]) (Suc i) vs"

definition reverse :: "string list \<Rightarrow> string list" where
  "reverse s = reverse_into (replicate (length s) []) 0 s"

text \<open>The probing loop, given the resolved root and the cleaned candidate. Each round goes one
  directory up, so the number of names bounds the rounds.\<close>

fun eval_probe ::
  "nat \<Rightarrow> (string \<Rightarrow> eval_error + string) \<Rightarrow> string \<Rightarrow> string \<Rightarrow> string \<Rightarrow> string list
   \<Rightarrow> (path_error + string) option" where
  "eval_probe 0 eval root path probe tail = None"
| "eval_probe (Suc n) eval root path probe tail =
     (case eval probe of
        Inr resolved \<Rightarrow>
          let joined = JoinPath (resolved # reverse tail)
          in Some (if \<not> WithinRoot root joined then Inl ErrPathEscape else Inr path)
      | Inl OtherError \<Rightarrow> Some (Inl ErrResolve)
      | Inl NotExist \<Rightarrow>
          let parent = Dir probe in
          if parent = probe then Some (Inl ErrPathEscape)
          else eval_probe n eval root path parent (tail @ [Base probe]))"

definition Abs :: "string \<Rightarrow> string \<Rightarrow> string" where
  "Abs cwd p = (if IsAbs p then Clean p else JoinPath [cwd, p])"

definition EvalWithinRoot ::
  "(string \<Rightarrow> eval_error + string) \<Rightarrow> string option \<Rightarrow> string \<Rightarrow> string \<Rightarrow> (path_error + string) option" where
  "EvalWithinRoot eval cwd root candidate =
     (case eval (Clean root) of
        Inl e \<Rightarrow> Some (Inl ErrResolve)
      | Inr root' \<Rightarrow>
          if \<not> IsAbs candidate \<and> cwd = None then Some (Inl ErrAbs)
          else let path = Clean (Abs (case cwd of Some d \<Rightarrow> d | None \<Rightarrow> []) candidate)
               in eval_probe (Suc (length (names path))) eval root' path path [])"


lemma reverse_into_rev:
  "reverse_into (replicate (length vs) [] @ xs) (length xs) vs = rev vs @ xs"
proof (induction vs arbitrary: xs)
  case (Cons v vs)
  have "(replicate (length (v # vs)) [] @ xs)
      [length (replicate (length (v # vs)) [] @ xs) - 1 - length xs := v] =
      replicate (length vs) [] @ (v # xs)"
    by (simp add: list_update_append replicate_append_same [symmetric] del: replicate_Suc)
      (simp add: replicate_append_same [symmetric] list_update_append)
  with Cons [of "v # xs"] show ?case by simp
qed simp

lemma reverse_rev: "reverse s = rev s"
  using reverse_into_rev [of s "[]"] by (simp add: reverse_def)

lemma rev_Join_snoc:
  assumes "list_all good_name (ns @ [n])"
  shows "render True (ns @ [n]) = (if ns = [] then ''/'' else render True ns @ ''/'') @ n"
proof -
  have "ns \<noteq> [] \<Longrightarrow> Join ''/'' (ns @ [n]) = Join ''/'' ns @ ''/'' @ n"
    by (induction "''/''" ns rule: Join.induct) simp_all
  then show ?thesis by (cases "ns = []") (simp_all add: render_def)
qed

lemma split_last_name:
  assumes "slash \<notin> set n"
  shows "upto_slash (d @ slash # n) = d @ [slash]" "after_slash (d @ slash # n) = n"
proof -
  have r: "rev (d @ slash # n) = rev n @ slash # rev d" by simp
  have "dropWhile (\<lambda>c. c \<noteq> slash) (rev n @ slash # rev d) = slash # rev d"
    "takeWhile (\<lambda>c. c \<noteq> slash) (rev n @ slash # rev d) = rev n"
    using assms by (subst dropWhile_append2, auto, subst takeWhile_append2, auto)
  then show "upto_slash (d @ slash # n) = d @ [slash]" "after_slash (d @ slash # n) = n"
    unfolding upto_slash_def after_slash_def r by simp_all
qed

lemma last_name:
  assumes "list_all good_name (ns @ [n])"
  shows "Dir (render True (ns @ [n])) = render True ns" "Base (render True (ns @ [n])) = n"
proof -
  define d where "d = (if ns = [] then [] else render True ns)"
  have p: "render True (ns @ [n]) = d @ slash # n" using rev_Join_snoc [OF assms] by (simp add: d_def)
  from assms have n: "slash \<notin> set n" "n \<noteq> []" by (auto simp: good_name_def)
  have g: "list_all good_name ns" using assms by simp
  have abs: "IsAbs (d @ [slash])"
    by (auto simp: d_def IsAbs_def HasPrefix_iff render_def)
  have "names (d @ [slash]) = ns"
  proof (cases "ns = []")
    case True then show ?thesis by (simp add: d_def names_def)
  next
    case False
    have "names (render True ns @ [slash]) = clean_stack True [] (Split slash (render True ns) @ [[]])"
      unfolding names_def using Split_two [of slash "render True ns" "[]"] by simp
    also have "\<dots> = names (render True ns)" by (simp add: clean_stack_append names_def)
    finally show ?thesis using False g by (simp add: d_def names_render)
  qed
  then show "Dir (render True (ns @ [n])) = render True ns"
    unfolding Dir_def p split_last_name(1) [OF n(1)] using abs by (simp add: Clean_abs)
  have "rev (dropWhile (\<lambda>c. c = slash) (rev (d @ slash # n))) = d @ slash # n"
    using n by (cases n rule: rev_cases) auto
  then show "Base (render True (ns @ [n])) = n"
    unfolding Base_def p using split_last_name(2) [OF n(1), of d] n(2) by (simp add: Let_def)
qed

lemma root_dir: "Dir (render True []) = render True []"
  by code_simp

lemma eval_probe_returns:
  "list_all good_name ns \<Longrightarrow> eval_probe (Suc (length ns)) eval root path (render True ns) acc \<noteq> None"
proof (induction ns arbitrary: acc rule: rev_induct)
  case Nil
  then show ?case using root_dir by (auto simp: Let_def split: sum.splits eval_error.splits)
next
  case (snoc n ns)
  then have "list_all good_name ns" by simp
  with snoc.IH [OF this] last_name [OF snoc.prems] show ?case
    by (auto simp: Let_def split: sum.splits eval_error.splits)
qed

lemma eval_probe_sound:
  "list_all good_name ns \<Longrightarrow> eval_probe n eval root path (render True ns) acc = Some (Inr q) \<Longrightarrow>
   q = path \<and> (\<exists>as bs resolved. ns = as @ bs \<and> eval (render True as) = Inr resolved \<and>
     (\<forall>cs d. ns = as @ cs @ d \<longrightarrow> cs \<noteq> [] \<longrightarrow> eval (render True (as @ cs)) = Inl NotExist) \<and>
     WithinRoot root (JoinPath (resolved # bs @ rev acc)))"
proof (induction n arbitrary: ns acc)
  case (Suc n)
  show ?case
  proof (cases "eval (render True ns)")
    case (Inr r)
    with Suc.prems(2) have "q = path \<and> WithinRoot root (JoinPath (r # [] @ rev acc))"
      by (auto simp: Let_def reverse_rev split: if_splits)
    with Inr show ?thesis by (metis append_Nil2 append_is_Nil_conv same_append_eq)
  next
    case (Inl e)
    with Suc.prems(2) have e: "e = NotExist" "Dir (render True ns) \<noteq> render True ns"
      by (auto simp: Let_def split: eval_error.splits if_splits)
    then obtain ms m where m: "ns = ms @ [m]" using root_dir by (cases ns rule: rev_cases) auto
    note l = last_name [OF Suc.prems(1) [unfolded m]]
    have "eval_probe n eval root path (render True ms) (acc @ [m]) = Some (Inr q)"
      using Suc.prems(2) e Inl l by (simp add: m Let_def)
    moreover have "list_all good_name ms" using Suc.prems(1) by (simp add: m)
    ultimately obtain as bs r where ih: "q = path" "ms = as @ bs" "eval (render True as) = Inr r"
      "\<And>cs d. ms = as @ cs @ d \<Longrightarrow> cs \<noteq> [] \<Longrightarrow> eval (render True (as @ cs)) = Inl NotExist"
      "WithinRoot root (JoinPath (r # bs @ rev (acc @ [m])))" using Suc.IH by metis
    have "eval (render True (as @ cs)) = Inl NotExist" if "ns = as @ cs @ d" "cs \<noteq> []" for cs d
    proof (cases d rule: rev_cases)
      case Nil with that Inl e show ?thesis by simp
    next
      case (snoc d' x) with that m have "ms = as @ cs @ d'" by simp
      with ih(4) that(2) show ?thesis by blast
    qed
    with ih m show ?thesis by (intro conjI exI [of _ as] exI [of _ "bs @ [m]"] exI [of _ r]) auto
  qed
qed simp

text \<open>\<open>EvalWithinRoot\<close> always answers. It accepts a candidate only when its deepest existing
  ancestor, with symbolic links resolved, extended by the names that do not exist yet, lies below
  the resolved root; what it returns is the cleaned candidate.\<close>

lemma EvalWithinRoot_contained:
  assumes "\<forall>q r. IsAbs q \<longrightarrow> eval q = Inr r \<longrightarrow> IsAbs r" "IsAbs root"
    "case cwd of Some d \<Rightarrow> IsAbs d | None \<Rightarrow> True"
  shows "\<exists>answer. EvalWithinRoot eval cwd root candidate = Some answer \<and>
    (\<forall>p. answer = Inr p \<longrightarrow> IsAbs p \<and> Clean p = p \<and>
      (\<exists>root' as bs resolved. eval (Clean root) = Inr root' \<and> names p = as @ bs \<and>
         eval (render True as) = Inr resolved \<and>
         (\<forall>cs d. names p = as @ cs @ d \<longrightarrow> cs \<noteq> [] \<longrightarrow> eval (render True (as @ cs)) = Inl NotExist) \<and>
         below root' (JoinPath (resolved # bs))))"
proof -
  define path where "path = Clean (Abs (case cwd of Some d \<Rightarrow> d | None \<Rightarrow> []) candidate)"
  consider e where "eval (Clean root) = Inl e" | "\<not> IsAbs candidate" "cwd = None"
    | root' where "eval (Clean root) = Inr root'" "IsAbs candidate \<or> cwd \<noteq> None"
    by (cases "eval (Clean root)") auto
  then show ?thesis
  proof cases
    case 1 then show ?thesis by (simp add: EvalWithinRoot_def)
  next
    case 2 then show ?thesis by (auto simp: EvalWithinRoot_def split: sum.splits)
  next
    case (3 root')
    have "IsAbs (Abs (case cwd of Some d \<Rightarrow> d | None \<Rightarrow> []) candidate)"
      using 3(2) assms(3) by (auto simp: Abs_def IsAbs_Clean JoinPath_names split: option.splits)
    then have p: "path = render True (names path)" "IsAbs path" "Clean path = path"
      by (simp_all add: path_def Clean_Clean IsAbs_Clean Clean_abs names_render names_good)
    have root': "IsAbs root'" using assms(1,2) 3(1) IsAbs_Clean by blast
    have run: "EvalWithinRoot eval cwd root candidate =
        eval_probe (Suc (length (names path))) eval root' path (render True (names path)) []"
      using 3 p(1) by (auto simp: EvalWithinRoot_def Let_def path_def [symmetric])
    obtain answer where a: "EvalWithinRoot eval cwd root candidate = Some answer"
      using eval_probe_returns [OF names_good, of path eval root' path "[]"] run by fastforce
    have "IsAbs q \<and> Clean q = q \<and>
      (\<exists>root' as bs resolved. eval (Clean root) = Inr root' \<and> names q = as @ bs \<and>
         eval (render True as) = Inr resolved \<and>
         (\<forall>cs d. names q = as @ cs @ d \<longrightarrow> cs \<noteq> [] \<longrightarrow> eval (render True (as @ cs)) = Inl NotExist) \<and>
         below root' (JoinPath (resolved # bs)))" if "answer = Inr q" for q
    proof -
      from run a that
      have "eval_probe (Suc (length (names path))) eval root' path (render True (names path)) [] = Some (Inr q)"
        by simp
      from eval_probe_sound [OF names_good this]
      obtain as bs r where s: "q = path" "names path = as @ bs" "eval (render True as) = Inr r"
        "\<forall>cs d. names path = as @ cs @ d \<longrightarrow> cs \<noteq> [] \<longrightarrow> eval (render True (as @ cs)) = Inl NotExist"
        "WithinRoot root' (JoinPath (r # bs))" by auto
      have "IsAbs r" using assms(1) s(3) render_abs by blast
      then have "IsAbs (JoinPath (r # bs))" by (simp add: JoinPath_names)
      with s(5) root' have "below root' (JoinPath (r # bs))" by (simp add: WithinRoot_below)
      with s p 3(1) show ?thesis by blast
    qed
    with a show ?thesis by blast
  qed
qed

theorem EvalWithinRoot_contained_witness:
  "EvalWithinRoot (\<lambda>q. if q = ''/srv'' then Inr ''/data'' else Inl NotExist) None ''/srv'' ''/srv/new/file''
     = Some (Inr ''/srv/new/file'') \<and>
   (\<exists>answer. EvalWithinRoot (\<lambda>q. if q = ''/srv'' then Inr ''/data'' else Inl NotExist) None ''/srv'' ''/srv/new/file''
     = Some answer)"
proof -
  have run: "EvalWithinRoot (\<lambda>q. if q = ''/srv'' then Inr ''/data'' else Inl NotExist) None ''/srv'' ''/srv/new/file''
     = Some (Inr ''/srv/new/file'')" by code_simp
  have "\<forall>q r. IsAbs q \<longrightarrow> (if q = ''/srv'' then Inr ''/data'' else Inl NotExist) = Inr r \<longrightarrow> IsAbs r"
    by (auto simp: IsAbs_def HasPrefix_def split: if_splits)
  moreover have "IsAbs ''/srv''" by (simp add: IsAbs_def HasPrefix_def)
  ultimately show ?thesis
    using EvalWithinRoot_contained [of "\<lambda>q. if q = ''/srv'' then Inr ''/data'' else Inl NotExist"
        "''/srv''" None "''/srv/new/file''"]
    unfolding run by auto
qed

section \<open>Sealing with the secret key\<close>

text \<open>AES-GCM with a fixed nonce length enters as \<open>seal\<close> and \<open>open\<close>; \<open>None\<close> is an error. The
  ciphertext is stored after its nonce.\<close>

definition keyBytes :: nat where "keyBytes = 32"
definition nonce_size :: nat where "nonce_size = 12"

definition Encrypt ::
  "(string \<Rightarrow> string \<Rightarrow> string \<Rightarrow> string) \<Rightarrow> (string \<Rightarrow> bool) \<Rightarrow> string option \<Rightarrow> string \<Rightarrow> string \<Rightarrow> string option" where
  "Encrypt seal key_ok nonce key plaintext =
     (if \<not> key_ok key then None
      else case nonce of None \<Rightarrow> None | Some n \<Rightarrow> Some (n @ seal key n plaintext))"

definition Decrypt ::
  "(string \<Rightarrow> string \<Rightarrow> string \<Rightarrow> string option) \<Rightarrow> (string \<Rightarrow> bool) \<Rightarrow> string \<Rightarrow> string \<Rightarrow> string option" where
  "Decrypt opn key_ok key data =
     (if \<not> key_ok key then None
      else if length data < nonce_size then None
      else opn key (take nonce_size data) (drop nonce_size data))"

lemma Decrypt_Encrypt:
  assumes "\<And>k n p. opn k n (seal k n p) = Some p" "length nonce = nonce_size"
    "Encrypt seal key_ok (Some nonce) key pt = Some data"
  shows "Decrypt opn key_ok key data = Some pt"
  using assms by (auto simp: Encrypt_def Decrypt_def split: if_splits)

end
