(* ===== verification/Archive.thy ===== *)
theory Archive
  imports FileTree Sandbox
begin

text \<open>
  Archive extraction (\<open>source/internal/files/archive.go\<close>): format detection, entry paths, the
  symbolic-link check, the size and count limits, and the loops over zip and tar entries, on the
  file tree of \<open>FileTree\<close>. The decoders of the zip, tar and compression libraries enter as the
  list of entries they yield.
\<close>

section \<open>Limits and formats\<close>

record limits =
  MaxBytes :: int
  MaxFiles :: int
  FreeSpaceReserve :: int

datatype arch_error =
    ErrTraversal | ErrAbsolute | ErrUnsafeLink | ErrTooLarge | ErrTooMany | ErrUnsupported
  | ErrDiskSpace | ErrIO

definition bytes :: "nat list \<Rightarrow> string" where "bytes = map char_of"

definition format_suffixes :: "(string \<times> string) list" where
  "format_suffixes = [(''.zip'', ''zip''), (''.tar'', ''tar''), (''.tar.gz'', ''tar.gz''),
     (''.tgz'', ''tar.gz''), (''.tar.xz'', ''tar.xz''), (''.tar.zst'', ''tar.zst''),
     (''.7z'', ''7z''), (''.rar'', ''rar'')]"

text \<open>\<open>head\<close> is what the first eight bytes hold (fewer in a short file), \<open>magic\<close> the five bytes at
  offset 257 if they could be read. Go ranges over the suffix map in any order: \<open>order\<close> is it.\<close>

definition DetectFormat ::
  "(string \<times> string) list \<Rightarrow> string \<Rightarrow> string option \<Rightarrow> string \<Rightarrow> arch_error + string" where
  "DetectFormat order hd8 magic path =
     (let n = length hd8 in
      if 4 \<le> n \<and> HasPrefix hd8 ''PK'' then Inr ''zip''
      else if 2 \<le> n \<and> HasPrefix hd8 (bytes [0x1f, 0x8b]) then Inr ''tar.gz''
      else if 6 \<le> n \<and> take 6 hd8 = bytes [0xfd, 0x37, 0x7a, 0x58, 0x5a, 0] then Inr ''tar.xz''
      else if 4 \<le> n \<and> HasPrefix hd8 (bytes [0x28, 0xb5, 0x2f, 0xfd]) then Inr ''tar.zst''
      else if 6 \<le> n \<and> take 6 hd8 = bytes [0x37, 0x7a, 0xbc, 0xaf, 0x27, 0x1c] then Inr ''7z''
      else if (7 \<le> n \<and> take 7 hd8 = bytes [0x52, 0x61, 0x72, 0x21, 0x1a, 0x07, 0]) \<or>
              (8 \<le> n \<and> take 8 hd8 = bytes [0x52, 0x61, 0x72, 0x21, 0x1a, 0x07, 1, 0])
        then Inr ''rar''
      else if magic = Some ''ustar'' then Inr ''tar''
      else case List.find (\<lambda>(ext, f). HasSuffix (ToLower path) ext) order of
        Some (ext, f) \<Rightarrow> Inr f
      | None \<Rightarrow> Inl ErrUnsupported)"

section \<open>Entry paths\<close>

definition replace_backslash :: "string \<Rightarrow> string" where
  "replace_backslash = map (\<lambda>c. if c = CHR 0x5C then slash else c)"

definition safeEntryPath :: "string \<Rightarrow> string \<Rightarrow> arch_error + string" where
  "safeEntryPath dest name0 =
     (let name = replace_backslash name0 in
      if name = [] then Inl ErrTraversal
      else if HasPrefix name ''/'' \<or> IsAbs name \<or> (2 \<le> length name \<and> name ! 1 = CHR '':'')
        then Inl ErrAbsolute
      else let clean = Clean name in
        if clean = ''..'' \<or> HasPrefix clean ''../'' then Inl ErrTraversal
        else let out = JoinPath [dest, clean] in
          case Rel dest out of
            None \<Rightarrow> Inl ErrTraversal
          | Some rel \<Rightarrow> if rel = ''..'' \<or> HasPrefix rel ''../'' then Inl ErrTraversal else Inr out)"

lemma safeEntryPath_result:
  assumes "IsAbs dest" "safeEntryPath dest name = Inr p"
  shows "\<exists>r. p = render True (names dest @ r) \<and> list_all good_name (names dest @ r)"
proof -
  let ?clean = "Clean (replace_backslash name)"
  have out: "p = JoinPath [dest, ?clean]" "\<exists>rel. Rel dest p = Some rel \<and> \<not> escapes rel"
    using assms(2) by (auto simp: safeEntryPath_def Let_def escapes_def split: if_splits option.splits)
  have j: "p = render True (joined_names dest [?clean])" using JoinPath_names [OF assms(1)] out(1) by simp
  have a: "IsAbs p" by (simp add: j)
  obtain rel where r: "Rel dest p = Some rel" "escapes rel \<longleftrightarrow> \<not> (\<exists>r. names p = names dest @ r)"
    using Rel_abs [OF assms(1) a] by blast
  with out(2) obtain t where "names p = names dest @ t" by auto
  moreover have "names p = joined_names dest [?clean]" by (simp add: j names_render joined_names_good)
  ultimately show ?thesis using j joined_names_good [of dest "[?clean]"] by metis
qed

interpretation entry_paths: path_sandbox safeEntryPath
proof
  fix root x p assume a: "IsAbs root" "safeEntryPath root x = Inr p"
  then obtain r where r: "p = render True (names root @ r)" "list_all good_name (names root @ r)"
    using safeEntryPath_result by blast
  show "IsAbs p" by (simp add: r(1))
  with r show "Clean p = p" by (simp add: Clean_abs names_render)
  show "below root p" using r by (simp add: below_def names_render)
qed

section \<open>Space\<close>

text \<open>\<open>free\<close> is what \<open>FreeSpace\<close> reports, zero when it is unavailable.\<close>

definition checkSpace :: "int \<Rightarrow> int \<Rightarrow> limits \<Rightarrow> arch_error option" where
  "checkSpace free incoming lim =
     (if FreeSpaceReserve lim \<le> 0 then None
      else if free = 0 then None
      else if free < wrap64 (FreeSpaceReserve lim + incoming) then Some ErrDiskSpace
      else None)"

section \<open>Writing\<close>

definition safeSymlink :: "string \<Rightarrow> string \<Rightarrow> string \<Rightarrow> fs \<Rightarrow> arch_error option \<times> fs" where
  "safeSymlink dest linkPath target fs =
     (if IsAbs target then (Some ErrUnsafeLink, fs)
      else let resolved = JoinPath [Dir linkPath, target] in
        case Rel dest (Clean resolved) of
          None \<Rightarrow> (Some ErrUnsafeLink, fs)
        | Some rel \<Rightarrow>
            if rel = ''..'' \<or> HasPrefix rel ''../'' then (Some ErrUnsafeLink, fs)
            else case MkdirAll (names (Dir linkPath)) fs of
              (False, fs1) \<Rightarrow> (Some ErrIO, fs1)
            | (True, fs1) \<Rightarrow>
                (case Symlink target (names linkPath) (snd (Remove (names linkPath) fs1)) of
                   (False, fs2) \<Rightarrow> (Some ErrIO, fs2)
                 | (True, fs2) \<Rightarrow> (None, fs2)))"

text \<open>\<open>size\<close> bytes come from the reader, which then ends well or fails (\<open>read_ok\<close>). The result is
  the bytes copied, the error and the tree.\<close>

definition writeLimited ::
  "string list \<Rightarrow> nat \<Rightarrow> bool \<Rightarrow> int \<Rightarrow> fs \<Rightarrow> int \<times> arch_error option \<times> fs" where
  "writeLimited p sz read_ok remaining fs =
     (if remaining \<le> 0 then (0, Some ErrTooLarge, fs)
      else let n = min (int sz) (max 0 (wrap64 (remaining + 1))) in
        case write_file p (nat n) fs of
          (False, fs1) \<Rightarrow> (0, Some ErrIO, fs1)
        | (True, fs1) \<Rightarrow>
            if remaining < n then (n, Some ErrTooLarge, snd (Remove p fs1))
            else if \<not> read_ok then (n, Some ErrIO, fs1)
            else (n, None, fs1))"

section \<open>Zip\<close>

record zip_entry =
  z_name :: string
  z_symlink :: bool
  z_dir :: bool
  z_open :: bool
  z_content :: string
  z_read :: bool

record xstate =
  x_fs :: fs
  x_total :: int
  x_count :: int

definition zip_step :: "string \<Rightarrow> limits \<Rightarrow> zip_entry \<Rightarrow> xstate \<Rightarrow> arch_error option \<times> xstate" where
  "zip_step dest lim f st0 =
     (let st = st0\<lparr>x_count := x_count st0 + 1\<rparr> in
      if 0 < MaxFiles lim \<and> MaxFiles lim < x_count st then (Some ErrTooMany, st)
      else case safeEntryPath dest (z_name f) of
        Inl e \<Rightarrow> (Some e, st)
      | Inr out \<Rightarrow>
          if z_symlink f then
            (if \<not> z_open f \<or> \<not> z_read f then (Some ErrIO, st)
             else case safeSymlink dest out (take 4096 (z_content f)) (x_fs st) of
                    (e, fs) \<Rightarrow> (e, st\<lparr>x_fs := fs\<rparr>))
          else if z_dir f then
            (case MkdirAll (names out) (x_fs st) of
               (ok, fs) \<Rightarrow> (if ok then None else Some ErrIO, st\<lparr>x_fs := fs\<rparr>))
          else
            (case MkdirAll (names (Dir out)) (x_fs st) of
               (False, fs) \<Rightarrow> (Some ErrIO, st\<lparr>x_fs := fs\<rparr>)
             | (True, fs) \<Rightarrow>
                 if \<not> z_open f then (Some ErrIO, st\<lparr>x_fs := fs\<rparr>)
                 else case writeLimited (names out) (length (z_content f)) (z_read f)
                        (MaxBytes lim - x_total st) fs of
                   (n, e, fs') \<Rightarrow> (e, st\<lparr>x_fs := fs', x_total := x_total st + n\<rparr>)))"

fun extract_loop :: "('a \<Rightarrow> xstate \<Rightarrow> arch_error option \<times> xstate) \<Rightarrow> 'a list \<Rightarrow> xstate
   \<Rightarrow> arch_error option \<times> xstate" where
  "extract_loop step [] st = (None, st)"
| "extract_loop step (f # fs) st =
     (case step f st of (Some e, st') \<Rightarrow> (Some e, st') | (None, st') \<Rightarrow> extract_loop step fs st')"

definition extractZip ::
  "string \<Rightarrow> limits \<Rightarrow> zip_entry list \<Rightarrow> fs \<Rightarrow> arch_error option \<times> xstate" where
  "extractZip dest lim es fs =
     extract_loop (zip_step dest lim) es \<lparr>x_fs = fs, x_total = 0, x_count = 0\<rparr>"

section \<open>Tar\<close>

datatype tar_type = TypeDir | TypeSymlink | TypeLink | TypeReg | TypeOther

record tar_entry =
  t_name :: string
  t_type :: tar_type
  t_link :: string
  t_size :: nat
  t_read :: bool

definition tar_step :: "string \<Rightarrow> limits \<Rightarrow> tar_entry \<Rightarrow> xstate \<Rightarrow> arch_error option \<times> xstate" where
  "tar_step dest lim h st0 =
     (let st = st0\<lparr>x_count := x_count st0 + 1\<rparr> in
      if 0 < MaxFiles lim \<and> MaxFiles lim < x_count st then (Some ErrTooMany, st)
      else case safeEntryPath dest (t_name h) of
        Inl e \<Rightarrow> (Some e, st)
      | Inr out \<Rightarrow>
         (case t_type h of
            TypeDir \<Rightarrow>
              (case MkdirAll (names out) (x_fs st) of
                 (ok, fs) \<Rightarrow> (if ok then None else Some ErrIO, st\<lparr>x_fs := fs\<rparr>))
          | TypeSymlink \<Rightarrow>
              (case safeSymlink dest out (t_link h) (x_fs st) of (e, fs) \<Rightarrow> (e, st\<lparr>x_fs := fs\<rparr>))
          | TypeLink \<Rightarrow>
              (case safeEntryPath dest (t_link h) of
                 Inl e \<Rightarrow> (Some e, st)
               | Inr targetOut \<Rightarrow>
                   (case MkdirAll (names (Dir out)) (x_fs st) of
                      (False, fs) \<Rightarrow> (Some ErrIO, st\<lparr>x_fs := fs\<rparr>)
                    | (True, fs) \<Rightarrow>
                        (case HardLink (names targetOut) (names out) fs of
                           (ok, fs') \<Rightarrow> (if ok then None else Some ErrIO, st\<lparr>x_fs := fs'\<rparr>))))
          | TypeReg \<Rightarrow>
              (case MkdirAll (names (Dir out)) (x_fs st) of
                 (False, fs) \<Rightarrow> (Some ErrIO, st\<lparr>x_fs := fs\<rparr>)
               | (True, fs) \<Rightarrow>
                   (case writeLimited (names out) (t_size h) (t_read h)
                          (MaxBytes lim - x_total st) fs of
                      (n, e, fs') \<Rightarrow> (e, st\<lparr>x_fs := fs', x_total := x_total st + n\<rparr>)))
          | TypeOther \<Rightarrow> (None, st)))"

text \<open>\<open>ends_well\<close> is false when the reader fails after the entries instead of ending.\<close>

definition extractTarStream ::
  "string \<Rightarrow> limits \<Rightarrow> tar_entry list \<Rightarrow> bool \<Rightarrow> fs \<Rightarrow> arch_error option \<times> xstate" where
  "extractTarStream dest lim hs ends_well fs =
     (case extract_loop (tar_step dest lim) hs \<lparr>x_fs = fs, x_total = 0, x_count = 0\<rparr> of
        (None, st) \<Rightarrow> (if ends_well then None else Some ErrIO, st)
      | r \<Rightarrow> r)"

section \<open>Extract\<close>

datatype archive = ZipEntries "zip_entry list" | TarEntries "tar_entry list" bool | Unreadable

text \<open>\<open>decode\<close> is what the library of the detected format makes of the archive, \<open>src_size\<close> its size
  if known, \<open>free\<close> the space on the destination.\<close>

definition Extract ::
  "arch_error + string \<Rightarrow> (string \<Rightarrow> archive) \<Rightarrow> int option \<Rightarrow> int \<Rightarrow> string \<Rightarrow> limits \<Rightarrow> fs
   \<Rightarrow> arch_error option \<times> fs" where
  "Extract format decode src_size free dest lim fs =
     (case format of
        Inl e \<Rightarrow> (Some e, fs)
      | Inr fmt \<Rightarrow>
         (case MkdirAll (names dest) fs of
            (False, fs1) \<Rightarrow> (Some ErrIO, fs1)
          | (True, fs1) \<Rightarrow>
             (case (case src_size of None \<Rightarrow> None | Some k \<Rightarrow> checkSpace free k lim) of
                Some e \<Rightarrow> (Some e, fs1)
              | None \<Rightarrow>
                  if fmt \<in> {''zip'', ''tar'', ''tar.gz'', ''tar.zst''} then
                    (case decode fmt of
                       ZipEntries es \<Rightarrow>
                         (case extractZip dest lim es fs1 of (e, st) \<Rightarrow> (e, x_fs st))
                     | TarEntries hs ok \<Rightarrow>
                         (case extractTarStream dest lim hs ok fs1 of (e, st) \<Rightarrow> (e, x_fs st))
                     | Unreadable \<Rightarrow> (Some ErrIO, fs1))
                  else (Some ErrUnsupported, fs1))))"


section \<open>Extraction without symbolic links stays inside\<close>

lemma names_Dir_below:
  assumes "list_all good_name (d @ r)"
  shows "names (Dir (render True (d @ r))) = (if r = [] then butlast d else d @ butlast r)"
proof (cases "d @ r" rule: rev_cases)
  case Nil then show ?thesis using root_dir by (simp add: names_render)
next
  case (snoc ns n)
  then have "butlast (d @ r) = ns" by simp
  moreover have "names (Dir (render True (d @ r))) = ns"
    using last_name(1) [of ns n] assms snoc by (simp add: names_render)
  ultimately show ?thesis by (auto simp: butlast_append)
qed

lemma MkdirAll_existing:
  assumes "list_all good_name d" "real_dir d fs" shows "MkdirAll (butlast d) fs = (True, fs)"
proof -
  have "under (butlast d) d" by (cases d rule: rev_cases) (simp_all add: under_def)
  then have "real_dir (butlast d) fs" using assms(2) under_trans by (auto simp: real_dir_def)
  moreover have "list_all good_name (butlast d)" using assms(1) by (cases d rule: rev_cases) simp_all
  ultimately show ?thesis using mkdir_all_real [of "[]" "butlast d" fs "[]"] by (simp add: MkdirAll_def)
qed

lemma MkdirAll_parent:
  assumes "list_all good_name (d @ r)" "link_free d fs" "real_dir d fs"
    "MkdirAll (names (Dir (render True (d @ r)))) fs = (b, fs')"
  shows "confined d fs fs' \<and> keeps_dirs fs fs'"
proof (cases "r = []")
  case True
  with assms names_Dir_below [OF assms(1)] MkdirAll_existing [of d fs] show ?thesis
    by (simp add: confined_def)
next
  case False
  then have "list_all good_name (d @ butlast r)" using assms(1) by (cases r rule: rev_cases) simp_all
  with False MkdirAll_confined [OF this assms(2,3)] assms(4) names_Dir_below [OF assms(1)]
  show ?thesis by simp
qed

lemma writeLimited_confined:
  assumes "list_all good_name (d @ r)" "link_free d fs"
    "writeLimited (d @ r) sz read_ok remaining fs = (n, e, fs')"
  shows "confined d fs fs' \<and> keeps_dirs fs fs'"
proof -
  define k where "k = nat (min (int sz) (max 0 (wrap64 (remaining + 1))))"
  obtain b fs1 where w: "write_file (d @ r) k fs = (b, fs1)" by fastforce
  show ?thesis
  proof (cases "b \<and> 0 < remaining")
    case False
    have "fs' = fs"
      using assms(3) w False by (auto simp: writeLimited_def Let_def k_def write_file_def
          split: option.splits if_splits)
    with assms(2) show ?thesis by (simp add: confined_def)
  next
    case True
    have q: "lookup fs True (d @ r) = Some (d @ r)" "fs_get fs (d @ r) \<noteq> Some NDir"
      using w True lookup_plain [OF assms(1,2)] by (auto simp: write_file_def split: option.splits if_splits)
    have ne: "d @ r \<noteq> []" using q(2) by (auto simp: fs_get_def)
    from write_file_confined [OF assms(1,2) ne w] have c1: "confined d fs fs1" .
    then have lf: "link_free d fs1" by (simp add: confined_def)
    obtain b2 fs2 where rm: "Remove (d @ r) fs1 = (b2, fs2)" by fastforce
    have c2: "confined d fs1 fs2" using Remove_confined [OF assms(1) lf rm] .
    have k1: "keeps_dirs fs fs1" using write_file_dirs [OF w] .
    have "keeps_dirs fs fs2"
    proof (cases "lookup fs1 False (d @ r)")
      case None with rm k1 show ?thesis by (simp add: Remove_def)
    next
      case (Some p)
      from lookup_plain [OF assms(1) lf Some] have p: "p = d @ r" .
      have "fs2 = fs1 \<or> fs2 = fs_del (d @ r) fs1" using rm Some p by (auto simp: Remove_def split: if_splits)
      with k1 q(2) ne show ?thesis by (auto simp: keeps_dirs_def fs_get_del)
    qed
    moreover have "fs' = fs1 \<or> fs' = fs2"
      using assms(3) w True rm by (auto simp: writeLimited_def Let_def k_def split: if_splits)
    ultimately show ?thesis using c1 confined_trans [OF c1 c2] k1 by auto
  qed
qed

text \<open>The state of an extraction that has stayed inside \<open>d\<close>.\<close>

definition inside :: "string list \<Rightarrow> fs \<Rightarrow> fs \<Rightarrow> bool" where
  "inside d fs0 fs \<longleftrightarrow> confined d fs0 fs \<and> real_dir d fs"

lemma inside_next: "inside d fs0 fs \<Longrightarrow> confined d fs fs' \<and> keeps_dirs fs fs' \<Longrightarrow> inside d fs0 fs'"
  using confined_trans real_dir_kept unfolding inside_def by blast

lemma inside_link_free: "inside d fs0 fs \<Longrightarrow> link_free d fs"
  by (simp add: inside_def confined_def)

lemma inside_mkdir:
  assumes "inside d fs0 fs" "list_all good_name (d @ r)" "MkdirAll (d @ r) fs = (b, fs')"
  shows "inside d fs0 fs'"
  using inside_next [OF assms(1) MkdirAll_confined [OF assms(2) inside_link_free [OF assms(1)] _ assms(3)]]
    assms(1) by (simp add: inside_def)

lemma inside_parent:
  assumes "inside d fs0 fs" "list_all good_name (d @ r)"
    "MkdirAll (names (Dir (render True (d @ r)))) fs = (b, fs')"
  shows "inside d fs0 fs'"
  using inside_next [OF assms(1) MkdirAll_parent [OF assms(2) inside_link_free [OF assms(1)] _ assms(3)]]
    assms(1) by (simp add: inside_def)

lemma inside_write:
  assumes "inside d fs0 fs" "list_all good_name (d @ r)"
    "writeLimited (d @ r) sz ok rem fs = (n, e, fs')"
  shows "inside d fs0 fs'"
  using inside_next [OF assms(1) writeLimited_confined [OF assms(2) inside_link_free [OF assms(1)] assms(3)]] .

lemma zip_step_inside:
  assumes "IsAbs dest" "\<not> z_symlink f" "inside (names dest) fs0 (x_fs st)" "zip_step dest lim f st = (e, st')"
  shows "inside (names dest) fs0 (x_fs st')"
proof (cases "safeEntryPath dest (z_name f)")
  case (Inl err) with assms show ?thesis by (auto simp: zip_step_def Let_def split: if_splits)
next
  case (Inr out)
  from safeEntryPath_result [OF assms(1) Inr] obtain r where
    r: "out = render True (names dest @ r)" "list_all good_name (names dest @ r)" by blast
  obtain b1 fs1 where m1: "MkdirAll (names dest @ r) (x_fs st) = (b1, fs1)" by fastforce
  obtain b2 fs2 where m2: "MkdirAll (names (Dir (render True (names dest @ r)))) (x_fs st) = (b2, fs2)"
    by fastforce
  obtain n e3 fs3 where w: "writeLimited (names dest @ r) (length (z_content f)) (z_read f)
      (MaxBytes lim - x_total st) fs2 = (n, e3, fs3)" by (metis surj_pair)
  have i1: "inside (names dest) fs0 fs1" using inside_mkdir [OF assms(3) r(2) m1] .
  have i2: "inside (names dest) fs0 fs2" using inside_parent [OF assms(3) r(2) m2] .
  have i3: "inside (names dest) fs0 fs3" using inside_write [OF i2 r(2) w] .
  have "x_fs st' \<in> {x_fs st, fs1, fs2, fs3}"
    using assms(2,4) Inr r m1 m2 w
    by (auto simp: zip_step_def Let_def names_render split: if_splits prod.splits bool.splits)
  with assms(3) i1 i2 i3 show ?thesis by auto
qed


lemma HardLink_confined:
  assumes "list_all good_name (d @ r)" "list_all good_name (d @ s)" "link_free d fs"
    "HardLink (d @ s) (d @ r) fs = (b, fs')"
  shows "confined d fs fs' \<and> keeps_dirs fs fs'"
proof (cases "b")
  case False with assms show ?thesis
    by (auto simp: HardLink_def confined_def split: option.splits node.splits if_splits)
next
  case True
  then obtain q n p where h: "lookup fs False (d @ s) = Some q" "fs_get fs q = Some n" "n \<noteq> NDir"
      "lookup fs False (d @ r) = Some p" "fs_get fs p = None" "fs' = fs_put p n fs"
    using assms(4) by (auto simp: HardLink_def split: option.splits node.splits if_splits)
  from lookup_plain [OF assms(2,3) h(1)] lookup_plain [OF assms(1,3) h(4)]
  have qp: "q = d @ s" "p = d @ r" by simp_all
  have "n \<noteq> NLink t" for t using assms(3) h(2) qp by (auto simp: link_free_def)
  moreover have "p \<noteq> []" using h(5) by (auto simp: fs_get_def)
  ultimately show ?thesis using confined_put [OF assms(3), of r n] keeps_dirs_put [of p fs n] h qp by auto
qed

lemma tar_step_inside:
  assumes "IsAbs dest" "t_type h \<noteq> TypeSymlink" "inside (names dest) fs0 (x_fs st)"
    "tar_step dest lim h st = (e, st')"
  shows "inside (names dest) fs0 (x_fs st')"
proof (cases "safeEntryPath dest (t_name h)")
  case (Inl err) with assms show ?thesis by (auto simp: tar_step_def Let_def split: if_splits)
next
  case (Inr out)
  from safeEntryPath_result [OF assms(1) Inr] obtain r where
    r: "out = render True (names dest @ r)" "list_all good_name (names dest @ r)" by blast
  obtain b1 fs1 where m1: "MkdirAll (names dest @ r) (x_fs st) = (b1, fs1)" by fastforce
  obtain b2 fs2 where m2: "MkdirAll (names (Dir (render True (names dest @ r)))) (x_fs st) = (b2, fs2)"
    by fastforce
  obtain n e3 fs3 where w: "writeLimited (names dest @ r) (t_size h) (t_read h)
      (MaxBytes lim - x_total st) fs2 = (n, e3, fs3)" by (metis surj_pair)
  have i1: "inside (names dest) fs0 fs1" using inside_mkdir [OF assms(3) r(2) m1] .
  have i2: "inside (names dest) fs0 fs2" using inside_parent [OF assms(3) r(2) m2] .
  have i3: "inside (names dest) fs0 fs3" using inside_write [OF i2 r(2) w] .
  have link: "inside (names dest) fs0 fs4"
    if "safeEntryPath dest (t_link h) = Inr to" "HardLink (names to) (names dest @ r) fs2 = (ok, fs4)" for to ok fs4
  proof -
    from safeEntryPath_result [OF assms(1) that(1)] obtain s where
      "to = render True (names dest @ s)" "list_all good_name (names dest @ s)" by blast
    with HardLink_confined [OF r(2) this(2) inside_link_free [OF i2]] that(2) inside_next [OF i2]
    show ?thesis by (simp add: names_render)
  qed
  show ?thesis
  proof (cases "t_type h")
    case TypeLink
    have "x_fs st' \<in> {x_fs st, fs2} \<or> (\<exists>to ok. safeEntryPath dest (t_link h) = Inr to \<and>
        HardLink (names to) (names dest @ r) fs2 = (ok, x_fs st'))"
      using assms(4) Inr r m2 TypeLink
      by (auto simp: tar_step_def Let_def names_render split: if_splits prod.splits bool.splits sum.splits)
    with assms(3) i2 link show ?thesis by auto
  next
    case TypeReg
    have "x_fs st' \<in> {x_fs st, fs2, fs3}"
      using assms(4) Inr r m2 w TypeReg
      by (auto simp: tar_step_def Let_def names_render split: if_splits prod.splits bool.splits)
    with assms(3) i2 i3 show ?thesis by auto
  next
    case TypeDir
    have "x_fs st' \<in> {x_fs st, fs1}"
      using assms(4) Inr r m1 TypeDir by (auto simp: tar_step_def Let_def names_render split: if_splits)
    with assms(3) i1 show ?thesis by auto
  qed (use assms Inr in \<open>auto simp: tar_step_def Let_def split: if_splits\<close>)
qed

lemma extract_loop_keeps:
  assumes "extract_loop step es st = (e, st')" "P st"
    "\<And>f s e s'. f \<in> set es \<Longrightarrow> P s \<Longrightarrow> step f s = (e, s') \<Longrightarrow> P s'"
  shows "P st'"
  using assms
proof (induction es arbitrary: st)
  case (Cons f es)
  obtain e1 st1 where s: "step f st = (e1, st1)" by fastforce
  with Cons.prems have p: "P st1" by (meson list.set_intros(1))
  show ?case
  proof (cases e1)
    case None
    with Cons.prems(1) s have "extract_loop step es st1 = (e, st')" by simp
    with Cons.IH [OF this p] Cons.prems(3) show ?thesis by (meson list.set_intros(2))
  next
    case (Some x) with Cons.prems(1) s p show ?thesis by simp
  qed
qed simp

text \<open>C17. Extracting a zip or tar archive without symbolic links, whatever its entry names, sizes and
  hard links, into a directory without links changes nothing outside that directory, also when
  it fails half-way.\<close>

theorem extraction_confined:
  assumes "IsAbs dest" "real_dir (names dest) fs" "link_free (names dest) fs"
    "list_all (\<lambda>f. \<not> z_symlink f) es" "list_all (\<lambda>h. t_type h \<noteq> TypeSymlink) hs"
    "\<not> under (names dest) p"
  shows "fs_get (x_fs (snd (extractZip dest lim es fs))) p = fs_get fs p \<and>
    fs_get (x_fs (snd (extractTarStream dest lim hs ok fs))) p = fs_get fs p"
proof -
  let ?d = "names dest"
  let ?st = "\<lparr>x_fs = fs, x_total = 0, x_count = 0\<rparr>"
  have i: "inside ?d fs (x_fs ?st)" using assms(2,3) by (simp add: inside_def confined_def)
  obtain e st where z: "extractZip dest lim es fs = (e, st)" by fastforce
  have "inside ?d fs (x_fs st)"
    by (rule extract_loop_keeps [OF z [unfolded extractZip_def], where P = "\<lambda>s. inside ?d fs (x_fs s)", OF i])
      (use assms(4) zip_step_inside [OF assms(1)] in \<open>auto simp: list_all_iff\<close>)
  moreover obtain e' st' where t: "extract_loop (tar_step dest lim) hs ?st = (e', st')" by fastforce
  have "inside ?d fs (x_fs st')"
    by (rule extract_loop_keeps [OF t, where P = "\<lambda>s. inside ?d fs (x_fs s)", OF i])
      (use assms(5) tar_step_inside [OF assms(1)] in \<open>auto simp: list_all_iff\<close>)
  moreover have "x_fs (snd (extractTarStream dest lim hs ok fs)) = x_fs st'"
    using t by (auto simp: extractTarStream_def split: option.splits)
  ultimately show ?thesis
    using z assms(6) by (simp add: inside_def confined_def same_outside_def)
qed

section \<open>Limits hold\<close>

lemma writeLimited_count:
  assumes "writeLimited p sz ok remaining fs = (n, e, fs')"
  shows "0 \<le> n \<and> n \<le> max 0 remaining + 1 \<and> (e = None \<longrightarrow> n \<le> remaining)"
proof -
  have "wrap64 (remaining + 1) \<le> remaining + 1" if "0 < remaining"
  proof -
    have "(remaining + 1 + 9223372036854775808) mod 18446744073709551616 \<le> remaining + 1 + 9223372036854775808"
      using that by (intro zmod_le_nonneg_dividend) simp
    then show ?thesis by (simp add: wrap64_def)
  qed
  with assms show ?thesis
    by (auto simp: writeLimited_def Let_def split: if_splits prod.splits bool.splits)
qed

text \<open>What both kinds of step do to the counters.\<close>

definition counted :: "limits \<Rightarrow> xstate \<Rightarrow> arch_error option \<Rightarrow> xstate \<Rightarrow> bool" where
  "counted lim st e st' \<longleftrightarrow>
     x_count st' = x_count st + 1 \<and> x_total st \<le> x_total st' \<and>
     (e = None \<longrightarrow> x_total st' \<le> max (x_total st) (MaxBytes lim) \<and>
        (0 < MaxFiles lim \<longrightarrow> x_count st' \<le> MaxFiles lim)) \<and>
     x_total st' \<le> max (x_total st) (MaxBytes lim) + 1"

lemma zip_step_counted: "zip_step dest lim f st = (e, st') \<Longrightarrow> counted lim st e st'"
  by (auto simp: zip_step_def counted_def Let_def split: if_splits sum.splits prod.splits bool.splits
      dest!: writeLimited_count)

lemma tar_step_counted:
  assumes "tar_step dest lim h st = (e, st')" shows "counted lim st e st'"
proof (cases "t_type h")
  case TypeReg
  with assms show ?thesis
    by (auto simp: tar_step_def counted_def Let_def split: if_splits sum.splits prod.splits bool.splits
        dest!: writeLimited_count)
qed (use assms in \<open>auto simp: tar_step_def counted_def Let_def
      split: if_splits sum.splits prod.splits bool.splits\<close>)

lemma extract_loop_counted:
  assumes "extract_loop step es st = (e, st')" "\<And>f s e s'. step f s = (e, s') \<Longrightarrow> counted lim s e s'"
  shows "x_total st' \<le> max (x_total st) (MaxBytes lim) + 1 \<and>
    (e = None \<longrightarrow> x_total st' \<le> max (x_total st) (MaxBytes lim) \<and>
       x_count st' = x_count st + int (length es) \<and>
       (0 < MaxFiles lim \<and> es \<noteq> [] \<longrightarrow> x_count st' \<le> MaxFiles lim))"
  using assms(1)
proof (induction es arbitrary: st)
  case (Cons f es)
  obtain e1 st1 where s: "step f st = (e1, st1)" by fastforce
  note c = assms(2) [OF s, unfolded counted_def]
  show ?case
  proof (cases e1)
    case (Some x) with Cons.prems s c show ?thesis by auto
  next
    case None
    with Cons.prems s have "extract_loop step es st1 = (e, st')" by simp
    from Cons.IH [OF this] c None Cons.prems s show ?thesis by (cases es) auto
  qed
qed auto

text \<open>The bytes held by the files of a tree, and how the operations change them.\<close>

definition node_bytes :: "node option \<Rightarrow> int" where
  "node_bytes n = (case n of Some (NFile k) \<Rightarrow> int k | _ \<Rightarrow> 0)"

definition tree_bytes :: "fs \<Rightarrow> int" where
  "tree_bytes fs = (\<Sum>p\<in>fst ` set fs. node_bytes (fs_get fs p))"

lemma node_bytes_nonneg [simp]: "0 \<le> node_bytes n"
  by (auto simp: node_bytes_def split: option.splits node.splits)

lemma tree_bytes_del:
  assumes "p \<noteq> []" shows "tree_bytes (fs_del p fs) = tree_bytes fs - node_bytes (fs_get fs p)"
proof -
  have keys: "fst ` set (fs_del p fs) = fst ` set fs - {p}" by (auto simp: fs_del_def)
  have "tree_bytes (fs_del p fs) = (\<Sum>q\<in>fst ` set fs - {p}. node_bytes (fs_get fs q))"
    unfolding tree_bytes_def keys using assms by (intro sum.cong) (auto simp: fs_get_del)
  moreover have "node_bytes (fs_get fs p) = 0" if "p \<notin> fst ` set fs"
    using that assms by (simp add: fs_get_def node_bytes_def map_of_eq_None_iff [THEN iffD2])
  ultimately show ?thesis by (cases "p \<in> fst ` set fs") (simp_all add: tree_bytes_def sum_diff1)
qed

lemma tree_bytes_put:
  assumes "p \<noteq> []"
  shows "tree_bytes (fs_put p n fs) = tree_bytes fs - node_bytes (fs_get fs p) + node_bytes (Some n)"
proof -
  have keys: "fst ` set (fs_put p n fs) = insert p (fst ` set (fs_del p fs))" by (auto simp: fs_put_def)
  have "tree_bytes (fs_put p n fs) = node_bytes (Some n) +
      (\<Sum>q\<in>fst ` set (fs_del p fs). node_bytes (fs_get (fs_put p n fs) q))"
    unfolding tree_bytes_def keys by (subst sum.insert) (auto simp: fs_del_def fs_get_put assms)
  also have "(\<Sum>q\<in>fst ` set (fs_del p fs). node_bytes (fs_get (fs_put p n fs) q)) = tree_bytes (fs_del p fs)"
    unfolding tree_bytes_def by (intro sum.cong) (auto simp: fs_del_def fs_get_put fs_get_del [unfolded fs_del_def] assms)
  finally show ?thesis by (simp add: tree_bytes_del assms)
qed

lemma fs_get_nonroot: "fs_get fs p \<noteq> Some NDir \<Longrightarrow> p \<noteq> []"
  by (auto simp: fs_get_def)

lemma tree_bytes_put_le:
  "fs_get fs p \<noteq> Some NDir \<Longrightarrow> tree_bytes (fs_put p n fs) \<le> tree_bytes fs + node_bytes (Some n)"
  by (simp add: tree_bytes_put fs_get_nonroot)

lemma write_file_bytes: "write_file p k fs = (ok, fs') \<Longrightarrow> tree_bytes fs' \<le> tree_bytes fs + int k"
  using tree_bytes_put_le [of fs _ "NFile k"]
  by (auto simp: write_file_def node_bytes_def split: option.splits if_splits)

lemma Remove_bytes: "Remove p fs = (ok, fs') \<Longrightarrow> tree_bytes fs' \<le> tree_bytes fs"
  by (auto simp: Remove_def tree_bytes_del split: option.splits if_splits)

lemma Symlink_bytes: "Symlink t p fs = (ok, fs') \<Longrightarrow> tree_bytes fs' \<le> tree_bytes fs"
  using tree_bytes_put_le [of fs _ "NLink t"]
  by (auto simp: Symlink_def node_bytes_def split: option.splits if_splits)

lemma mkdir_all_bytes: "mkdir_all fs pre cs = (ok, fs') \<Longrightarrow> tree_bytes fs' \<le> tree_bytes fs"
proof (induction fs pre cs rule: mkdir_all.induct)
  case (2 fs pre c cs)
  have put: "tree_bytes (fs_put q NDir fs) \<le> tree_bytes fs" if "fs_get fs q = None" for q
    using that tree_bytes_put_le [of fs q NDir] by (simp add: node_bytes_def)
  show ?case
  proof (cases "Stat fs (pre @ [c])")
    case (Some n)
    with "2.prems" "2.IH"(2) [OF Some] show ?thesis by (cases n) auto
  next
    case None
    show ?thesis
    proof (cases "\<exists>q. lookup fs False (pre @ [c]) = Some q \<and> fs_get fs q = None")
      case True
      then obtain q where q: "lookup fs False (pre @ [c]) = Some q" "fs_get fs q = None" by blast
      with "2.prems" None have "mkdir_all (fs_put q NDir fs) (pre @ [c]) cs = (ok, fs')" by simp
      from "2.IH"(1) [OF None q this] put [OF q(2)] show ?thesis by simp
    next
      case False
      with "2.prems" None show ?thesis by (auto split: option.splits if_splits)
    qed
  qed
qed simp

lemma safeSymlink_bytes:
  assumes "safeSymlink dest p t fs = (e, fs')" shows "tree_bytes fs' \<le> tree_bytes fs"
proof -
  obtain b1 fs1 where m: "MkdirAll (names (Dir p)) fs = (b1, fs1)" by fastforce
  obtain b2 fs2 where d: "Remove (names p) fs1 = (b2, fs2)" by fastforce
  obtain b3 fs3 where l: "Symlink t (names p) fs2 = (b3, fs3)" by fastforce
  have "tree_bytes fs1 \<le> tree_bytes fs" using m unfolding MkdirAll_def by (rule mkdir_all_bytes)
  with Remove_bytes [OF d] Symlink_bytes [OF l] assms m d l show ?thesis
    by (auto simp: safeSymlink_def Let_def split: if_splits option.splits bool.splits)
qed

lemma writeLimited_bytes:
  assumes "writeLimited p sz ok remaining fs = (n, e, fs')" shows "tree_bytes fs' \<le> tree_bytes fs + n"
proof (cases "remaining \<le> 0")
  case False
  define k where "k = min (int sz) (max 0 (wrap64 (remaining + 1)))"
  obtain b fs1 where w: "write_file p (nat k) fs = (b, fs1)" by fastforce
  obtain b' fs2 where d: "Remove p fs1 = (b', fs2)" by fastforce
  have "\<not> b \<Longrightarrow> fs1 = fs" using w by (auto simp: write_file_def split: option.splits if_splits)
  moreover have "0 \<le> k" by (simp add: k_def)
  ultimately show ?thesis
    using write_file_bytes [OF w] Remove_bytes [OF d] assms False
    by (cases b) (auto simp: writeLimited_def Let_def k_def [symmetric] w d split: if_splits)
qed (use assms in \<open>simp add: writeLimited_def\<close>)

text \<open>The tree never grows by more than the counter does. A hard link is a second name of the same
  bytes, which this tree would count again; entries of this kind are left out of the measure.\<close>

definition metered :: "xstate \<Rightarrow> xstate \<Rightarrow> bool" where
  "metered st st' \<longleftrightarrow> tree_bytes (x_fs st') - tree_bytes (x_fs st) \<le> x_total st' - x_total st"

lemma zip_step_metered: "zip_step dest lim f st = (e, st') \<Longrightarrow> metered st st'"
  by (fastforce simp: zip_step_def metered_def Let_def MkdirAll_def
      split: if_splits sum.splits prod.splits bool.splits
      dest: writeLimited_bytes safeSymlink_bytes mkdir_all_bytes)

lemma tar_step_metered:
  assumes "tar_step dest lim h st = (e, st')" "t_type h \<noteq> TypeLink" shows "metered st st'"
proof (cases "t_type h")
  case TypeReg
  with assms(1) show ?thesis
    by (fastforce simp: tar_step_def metered_def Let_def MkdirAll_def
        split: if_splits sum.splits prod.splits bool.splits dest: writeLimited_bytes mkdir_all_bytes)
next
  case TypeDir
  with assms(1) show ?thesis
    by (auto simp: tar_step_def metered_def Let_def MkdirAll_def
        split: if_splits sum.splits prod.splits bool.splits dest: mkdir_all_bytes)
next
  case TypeSymlink
  with assms(1) show ?thesis
    by (auto simp: tar_step_def metered_def Let_def
        split: if_splits sum.splits prod.splits bool.splits dest: safeSymlink_bytes)
qed (use assms in \<open>auto simp: tar_step_def metered_def Let_def split: if_splits sum.splits\<close>)

lemma extract_loop_metered:
  assumes "extract_loop step es st = (e, st')" "\<And>f s e s'. f \<in> set es \<Longrightarrow> step f s = (e, s') \<Longrightarrow> metered s s'"
  shows "metered st st'"
  using assms
proof (induction es arbitrary: st)
  case (Cons f es)
  obtain e1 st1 where s: "step f st = (e1, st1)" by fastforce
  have m: "metered st st1" by (rule Cons.prems(2) [OF _ s]) simp
  show ?case
  proof (cases e1)
    case None
    with Cons.prems(1) s have "extract_loop step es st1 = (e, st')" by simp
    then have "metered st1 st'" by (rule Cons.IH) (rule Cons.prems(2), simp_all)
    with m show ?thesis by (simp add: metered_def)
  qed (use Cons.prems(1) s m in simp)
qed (simp add: metered_def)

text \<open>C18. Extraction is bounded: whatever the archive holds, it adds at most one byte more than the
  size limit to the files of the tree before it stops; and when it succeeds it has added at most
  the limit, from at most as many entries as the limit on entries allows, where one is set.
  For a tar archive the bytes are bounded when it holds no hard links (which add names, not
  bytes, but are separate files in this model); the limits on entries holds for all.\<close>

theorem extraction_bounded:
  assumes "0 \<le> MaxBytes lim"
  shows "tree_bytes (x_fs (snd (extractZip dest lim es fs))) \<le> tree_bytes fs + MaxBytes lim + 1 \<and>
    (fst (extractZip dest lim es fs) = None \<longrightarrow>
       tree_bytes (x_fs (snd (extractZip dest lim es fs))) \<le> tree_bytes fs + MaxBytes lim \<and>
       (0 < MaxFiles lim \<longrightarrow> int (length es) \<le> MaxFiles lim)) \<and>
    ((\<forall>h\<in>set hs. t_type h \<noteq> TypeLink) \<longrightarrow>
       tree_bytes (x_fs (snd (extractTarStream dest lim hs ok fs))) \<le> tree_bytes fs + MaxBytes lim + 1 \<and>
       (fst (extractTarStream dest lim hs ok fs) = None \<longrightarrow>
          tree_bytes (x_fs (snd (extractTarStream dest lim hs ok fs))) \<le> tree_bytes fs + MaxBytes lim)) \<and>
    (fst (extractTarStream dest lim hs ok fs) = None \<longrightarrow>
       0 < MaxFiles lim \<longrightarrow> int (length hs) \<le> MaxFiles lim)"
proof -
  let ?st = "\<lparr>x_fs = fs, x_total = 0, x_count = 0\<rparr>"
  obtain e st where z: "extract_loop (zip_step dest lim) es ?st = (e, st)" by fastforce
  obtain e' st' where t: "extract_loop (tar_step dest lim) hs ?st = (e', st')" by fastforce
  have Z: "x_total st \<le> MaxBytes lim + 1 \<and> (e = None \<longrightarrow> x_total st \<le> MaxBytes lim \<and>
      (0 < MaxFiles lim \<longrightarrow> int (length es) \<le> MaxFiles lim))"
    using extract_loop_counted [of "zip_step dest lim", OF z, of lim] zip_step_counted assms
    by (cases "es = []") auto
  have T: "x_total st' \<le> MaxBytes lim + 1 \<and> (e' = None \<longrightarrow> x_total st' \<le> MaxBytes lim \<and>
      (0 < MaxFiles lim \<longrightarrow> int (length hs) \<le> MaxFiles lim))"
    using extract_loop_counted [of "tar_step dest lim", OF t, of lim] tar_step_counted assms
    by (cases "hs = []") auto
  have "metered ?st st" using zip_step_metered by (rule extract_loop_metered [OF z])
  moreover have "metered ?st st'" if "\<forall>h\<in>set hs. t_type h \<noteq> TypeLink"
    using tar_step_metered that by (intro extract_loop_metered [OF t]) blast
  ultimately show ?thesis
    using Z T by (auto simp: extractZip_def extractTarStream_def z t metered_def split: option.splits)
qed

section \<open>Symbolic links can lead outside\<close>

text \<open>Three entries that each pass the lexical checks: a link to the directory itself, a link made
  through it that points up from there, and a file written through that one.\<close>

definition link_entry :: "string \<Rightarrow> string \<Rightarrow> zip_entry" where
  "link_entry n t = \<lparr>z_name = n, z_symlink = True, z_dir = False, z_open = True, z_content = t, z_read = True\<rparr>"

definition file_entry :: "string \<Rightarrow> string \<Rightarrow> zip_entry" where
  "file_entry n c = \<lparr>z_name = n, z_symlink = False, z_dir = False, z_open = True, z_content = c, z_read = True\<rparr>"

definition escape_zip :: "zip_entry list" where
  "escape_zip = [link_entry ''x'' ''.'', link_entry ''x/y'' ''..'', file_entry ''y/evil'' ''pwned'']"

definition staging_tree :: fs where
  "staging_tree = [([''srv''], NDir), ([''srv'', ''stage''], NDir)]"

text \<open>An archive with symbolic links can write outside its destination: extracting these three
  entries into \<open>/srv/stage\<close> succeeds and creates the file \<open>/srv/evil\<close>.\<close>

lemma symlink_chain_escapes:
  "let lim = \<lparr>MaxBytes = 1000, MaxFiles = 10, FreeSpaceReserve = 0\<rparr>;
       r = extractZip ''/srv/stage'' lim escape_zip staging_tree
   in fst r = None \<and> fs_get staging_tree [''srv'', ''evil''] = None \<and>
      fs_get (x_fs (snd r)) [''srv'', ''evil''] = Some (NFile 5) \<and>
      \<not> under (names ''/srv/stage'') [''srv'', ''evil'']"
  by code_simp

theorem extraction_confined_witness:
  "fs_get (x_fs (snd (extractZip ''/srv/stage'' \<lparr>MaxBytes = 1000, MaxFiles = 10, FreeSpaceReserve = 0\<rparr>
     [file_entry ''a/../../b'' ''x'', file_entry ''ok/file'' ''data''] staging_tree))) [''srv'', ''b''] = None"
proof -
  have d: "IsAbs ''/srv/stage''" "names ''/srv/stage'' = [''srv'', ''stage'']" by code_simp+
  have "fs_get staging_tree a = Some NDir" if "under a [''srv'', ''stage'']" for a
  proof -
    from that have "a = [] \<or> a = [''srv''] \<or> a = [''srv'', ''stage'']"
      by (cases a rule: remdups_adj.cases) (auto simp: under_def take_Cons' split: if_splits)
    then show ?thesis by (auto simp: fs_get_def staging_tree_def)
  qed
  then have "real_dir (names ''/srv/stage'') staging_tree" by (simp add: real_dir_def d)
  moreover have "link_free (names ''/srv/stage'') staging_tree"
    by (auto simp: link_free_def fs_get_def staging_tree_def split: if_splits)
  ultimately show ?thesis
    using extraction_confined [OF d(1), of staging_tree
        "[file_entry ''a/../../b'' ''x'', file_entry ''ok/file'' ''data'']" "[]" "[''srv'', ''b'']"
        "\<lparr>MaxBytes = 1000, MaxFiles = 10, FreeSpaceReserve = 0\<rparr>" True]
    by (simp add: file_entry_def under_def d) (simp add: fs_get_def staging_tree_def)
qed

text \<open>Ten bytes against a limit of three: four are written, and removed again.\<close>

theorem extraction_bounded_witness:
  "tree_bytes (x_fs (snd (extractZip ''/srv/stage'' \<lparr>MaxBytes = 3, MaxFiles = 10, FreeSpaceReserve = 0\<rparr>
     [file_entry ''ok'' ''ab'', file_entry ''big'' ''many bytes''] staging_tree))) \<le> 4 \<and>
   fst (extractZip ''/srv/stage'' \<lparr>MaxBytes = 3, MaxFiles = 10, FreeSpaceReserve = 0\<rparr>
     [file_entry ''ok'' ''ab''] staging_tree) = None \<and>
   tree_bytes (x_fs (snd (extractZip ''/srv/stage'' \<lparr>MaxBytes = 3, MaxFiles = 10, FreeSpaceReserve = 0\<rparr>
     [file_entry ''ok'' ''ab''] staging_tree))) = 2"
proof -
  have "fst (extractZip ''/srv/stage'' \<lparr>MaxBytes = 3, MaxFiles = 10, FreeSpaceReserve = 0\<rparr>
     [file_entry ''ok'' ''ab''] staging_tree) = None \<and>
   tree_bytes (x_fs (snd (extractZip ''/srv/stage'' \<lparr>MaxBytes = 3, MaxFiles = 10, FreeSpaceReserve = 0\<rparr>
     [file_entry ''ok'' ''ab''] staging_tree))) = 2 \<and> tree_bytes staging_tree = 0" by code_simp
  then show ?thesis
    using extraction_bounded [of "\<lparr>MaxBytes = 3, MaxFiles = 10, FreeSpaceReserve = 0\<rparr>" "''/srv/stage''"
      "[file_entry ''ok'' ''ab'', file_entry ''big'' ''many bytes'']" staging_tree "[]" True]
    by simp
qed

end
