(* ===== verification/GoTime.thy ===== *)
theory GoTime
  imports GoStrings
begin

text \<open>
  The part of Go's \<open>time\<close> package the scheduler uses. An instant is its nanoseconds since 1970
  UTC. A location is an initial offset from UTC and its transitions, each the second it starts
  at and the new offset; the time zone database that gives it is not part of the program. Day
  numbers count from 1 January of year 1, a Monday.
\<close>

section \<open>Calendar\<close>

definition is_leap :: "int \<Rightarrow> bool" where
  "is_leap y \<longleftrightarrow> y mod 4 = 0 \<and> (y mod 100 \<noteq> 0 \<or> y mod 400 = 0)"

definition days_before_year :: "int \<Rightarrow> int" where
  "days_before_year y = 365 * (y - 1) + (y - 1) div 4 - (y - 1) div 100 + (y - 1) div 400"

definition month_days :: "int \<Rightarrow> int \<Rightarrow> int" where
  "month_days y m =
     (if m = 2 then (if is_leap y then 29 else 28)
      else if m \<in> {4, 6, 9, 11} then 30 else 31)"

fun days_before_month :: "int \<Rightarrow> nat \<Rightarrow> int" where
  "days_before_month y 0 = 0"
| "days_before_month y (Suc k) = days_before_month y k + month_days y (int k + 1)"

text \<open>The day number of a date; the month is 1 to 12, the day may be out of its range.\<close>

definition day_number :: "int \<Rightarrow> int \<Rightarrow> int \<Rightarrow> int" where
  "day_number y m d = days_before_year y + days_before_month y (nat (m - 1)) + d - 1"

text \<open>The year, month and day of a day number from 0: the year is searched from below.\<close>

function year_from :: "int \<Rightarrow> int \<Rightarrow> int" where
  "year_from n y = (if 1 \<le> y \<and> days_before_year (y + 1) \<le> n then year_from n (y + 1) else y)"
  by auto
termination
proof (relation "measure (\<lambda>(n, y). nat (n + 1 - y))", goal_cases)
  case (2 n y)
  then have "y div 100 \<le> y div 4" "0 \<le> y div 400"
    using zdiv_mono2 [of y 4 100] by (simp_all add: pos_imp_zdiv_nonneg_iff)
  with 2 have "365 * y \<le> n" by (simp add: days_before_year_def)
  with 2 show ?case by simp
qed simp

declare year_from.simps [simp del]

definition year_of :: "int \<Rightarrow> int" where "year_of n = year_from n (max 1 (n div 366 + 1))"

fun month_from :: "int \<Rightarrow> nat \<Rightarrow> int \<Rightarrow> nat \<Rightarrow> int \<times> int" where
  "month_from y 0 d k = (int k + 1, d + 1)"
| "month_from y (Suc j) d k =
     (let l = month_days y (int k + 1) in if d < l then (int k + 1, d + 1) else month_from y j (d - l) (Suc k))"

definition date_of :: "int \<Rightarrow> int \<times> int \<times> int" where
  "date_of n = (let y = year_of n; (m, d) = month_from y 11 (n - days_before_year y) 0 in (y, m, d))"

lemma div_pred:
  fixes y k :: int
  assumes "0 < k" shows "y div k = (y - 1) div k + (if y mod k = 0 then 1 else 0)"
proof (cases "y mod k = 0")
  case True
  have "y - 1 = k * (y div k - 1) + (k - 1)" using True mult_div_mod_eq [of k y] by (simp add: algebra_simps)
  then have "(y - 1) div k = y div k - 1"
    by (rule int_div_pos_eq) (use assms in simp_all)
  with True show ?thesis by simp
next
  case False
  then have "0 < y mod k" using assms by (simp add: order_less_le)
  moreover have "y - 1 = k * (y div k) + (y mod k - 1)" by simp
  ultimately have "(y - 1) div k = y div k"
    using int_div_pos_eq [of "y - 1" k "y div k" "y mod k - 1"] pos_mod_bound [OF assms, of y] by simp
  with False show ?thesis by simp
qed

lemma leap_count:
  fixes d :: int
  assumes "b \<longrightarrow> a" "c \<longrightarrow> b"
  shows "d + 365 + (if a then 1 else 0) - (if b then 1 else 0) + (if c then 1 else 0) =
    d + (if a \<and> (\<not> b \<or> c) then 366 else 365)"
  by (cases a; cases b; cases c) (use assms in simp_all)

lemma leap_step: "days_before_year (y + 1) = days_before_year y + (if is_leap y then 366 else 365)"
proof -
  have d: "y mod 100 = 0 \<longrightarrow> y mod 4 = 0" "y mod 400 = 0 \<longrightarrow> y mod 100 = 0"
    unfolding mod_eq_0_iff_dvd using dvd_trans [of "4::int" 100 y] dvd_trans [of "100::int" 400 y] by simp_all
  have "days_before_year (y + 1) = 365 * y + y div 4 - y div 100 + y div 400"
    by (simp add: days_before_year_def)
  also have "\<dots> = days_before_year y + 365 + (if y mod 4 = 0 then 1 else 0) -
      (if y mod 100 = 0 then 1 else 0) + (if y mod 400 = 0 then 1 else 0)"
    unfolding days_before_year_def
    by (subst div_pred [of 4 y], simp, subst div_pred [of 100 y], simp, subst div_pred [of 400 y], simp)
      (simp only: algebra_simps)
  also have "\<dots> = days_before_year y + (if is_leap y then 366 else 365)"
    unfolding is_leap_def by (rule leap_count [OF d])
  finally show ?thesis .
qed

lemma month_days_range: "28 \<le> month_days y m" "month_days y m \<le> 31"
  by (simp_all add: month_days_def)

lemma year_days: "days_before_month y 12 = (if is_leap y then 366 else 365)"
  by (simp add: month_days_def numeral_eq_Suc)

lemma year_from_bounds:
  "1 \<le> y \<Longrightarrow> days_before_year y \<le> n \<Longrightarrow>
   1 \<le> year_from n y \<and> days_before_year (year_from n y) \<le> n \<and> n < days_before_year (year_from n y + 1)"
proof (induction n y rule: year_from.induct)
  case (1 n y)
  show ?case
  proof (cases "days_before_year (y + 1) \<le> n")
    case True
    with 1 have "year_from n y = year_from n (y + 1)" by (subst year_from.simps) simp
    with 1 True show ?thesis by simp
  next
    case False
    then have "year_from n y = y" by (subst year_from.simps) simp
    with 1 False show ?thesis by simp
  qed
qed

lemma days_before_year_upper: "1 \<le> y \<Longrightarrow> days_before_year y \<le> 366 * (y - 1)"
proof -
  assume "1 \<le> y"
  have "(y - 1) div 4 \<le> (y - 1)" "(y - 1) div 400 \<le> (y - 1) div 100"
    using \<open>1 \<le> y\<close> zdiv_mono2 [of "y - 1" 1 4] zdiv_mono2 [of "y - 1" 100 400] by simp_all
  then show ?thesis by (simp add: days_before_year_def)
qed

lemma year_of_bounds:
  assumes "0 \<le> n"
  shows "1 \<le> year_of n" "days_before_year (year_of n) \<le> n" "n < days_before_year (year_of n + 1)"
proof -
  have "0 \<le> n div 366" using assms by (simp add: pos_imp_zdiv_nonneg_iff)
  then have y: "max 1 (n div 366 + 1) = n div 366 + 1" by simp
  have "366 * (n div 366) \<le> n" by (simp add: minus_mod_eq_mult_div [symmetric])
  then have "days_before_year (n div 366 + 1) \<le> n"
    using days_before_year_upper [of "n div 366 + 1"] \<open>0 \<le> n div 366\<close> by simp
  from year_from_bounds [OF _ this] \<open>0 \<le> n div 366\<close>
  show "1 \<le> year_of n" "days_before_year (year_of n) \<le> n" "n < days_before_year (year_of n + 1)"
    unfolding year_of_def y by simp_all
qed

lemma month_from_sound:
  assumes "0 \<le> d" "d < days_before_month y (k + Suc j) - days_before_month y k" "month_from y j d k = (m, dd)"
  shows "1 \<le> m \<and> int k + 1 \<le> m \<and> m \<le> int (k + j) + 1 \<and> 1 \<le> dd \<and> dd \<le> month_days y m \<and>
    days_before_month y (nat (m - 1)) + dd - 1 = days_before_month y k + d"
  using assms
proof (induction y j d k rule: month_from.induct)
  case (2 y j d k)
  show ?case
  proof (cases "d < month_days y (int k + 1)")
    case False
    with 2(1) [OF refl False] 2(2-4) show ?thesis by simp
  qed (use 2 in auto)
qed auto

text \<open>The date of a day number is the one with that day number.\<close>

lemma date_of_sound:
  assumes "0 \<le> n" "date_of n = (y, m, d)"
  shows "day_number y m d = n \<and> 1 \<le> m \<and> m \<le> 12 \<and> 1 \<le> d \<and> d \<le> month_days y m"
proof -
  note b = year_of_bounds [OF assms(1)]
  have y: "y = year_of n" and md: "month_from y 11 (n - days_before_year y) 0 = (m, d)"
    using assms(2) by (auto simp: date_of_def Let_def split: prod.splits)
  have "n - days_before_year y < days_before_month y 12"
    using b(3) leap_step [of y] year_days [of y] unfolding y by simp
  then have "n - days_before_year y < days_before_month y (0 + Suc 11) - days_before_month y 0" by simp
  from month_from_sound [OF _ this md] b(2) y show ?thesis by (simp add: day_number_def)
qed

section \<open>Instants and locations\<close>

definition ns :: int where "ns = 1000000000"

record location =
  z_initial :: int
  z_changes :: "(int \<times> int) list"

definition UTC :: location where "UTC = \<lparr>z_initial = 0, z_changes = []\<rparr>"

text \<open>The offset at a second, with the first second it holds from and the first it no longer holds
  at; \<open>None\<close> is no bound.\<close>

fun zone_from :: "int \<Rightarrow> int option \<Rightarrow> (int \<times> int) list \<Rightarrow> int \<Rightarrow> int \<times> int option \<times> int option" where
  "zone_from off start [] t = (off, start, None)"
| "zone_from off start ((s, o2) # rest) t =
     (if t < s then (off, start, Some s) else zone_from o2 (Some s) rest t)"

definition zone_lookup :: "location \<Rightarrow> int \<Rightarrow> int \<times> int option \<times> int option" where
  "zone_lookup z t = zone_from (z_initial z) None (z_changes z) t"

definition offset_at :: "location \<Rightarrow> int \<Rightarrow> int" where "offset_at z t = fst (zone_lookup z t)"

text \<open>The seconds a clock on the wall has counted since the start of year 1, and its fields.\<close>

definition epoch_days :: int where "epoch_days = 719162"

definition wall :: "location \<Rightarrow> int \<Rightarrow> int" where
  "wall z t = (let s = t div ns in s + offset_at z s + epoch_days * 86400)"

definition wall_day :: "location \<Rightarrow> int \<Rightarrow> int" where "wall_day z t = wall z t div 86400"
definition wall_hour :: "location \<Rightarrow> int \<Rightarrow> int" where "wall_hour z t = wall z t mod 86400 div 3600"
definition wall_minute :: "location \<Rightarrow> int \<Rightarrow> int" where "wall_minute z t = wall z t mod 3600 div 60"
definition wall_second :: "location \<Rightarrow> int \<Rightarrow> int" where "wall_second z t = wall z t mod 60"
definition weekday_of :: "int \<Rightarrow> int" where "weekday_of n = (n + 1) mod 7"
definition Weekday :: "location \<Rightarrow> int \<Rightarrow> int" where "Weekday z t = weekday_of (wall_day z t)"

text \<open>\<open>time.Date\<close>: the month and the clock fields may be out of range. The offset is looked up as if
  the fields were UTC and, where that guess is not in its own period, again.\<close>

definition unix_of_wall :: "location \<Rightarrow> int \<Rightarrow> int" where
  "unix_of_wall z u =
     (case zone_lookup z u of
        (off, start, fin) \<Rightarrow>
          if off = 0 then u
          else let utc = u - off in
            if (case start of None \<Rightarrow> False | Some s \<Rightarrow> utc < s) \<or>
               (case fin of None \<Rightarrow> False | Some e \<Rightarrow> e \<le> utc)
            then u - offset_at z utc
            else utc)"

definition DateSecs :: "location \<Rightarrow> int \<Rightarrow> int \<Rightarrow> int \<Rightarrow> int \<Rightarrow> int \<Rightarrow> int \<Rightarrow> int" where
  "DateSecs z y mo d h mi s =
     (let y' = y + (mo - 1) div 12; m' = (mo - 1) mod 12 + 1 in
      unix_of_wall z ((day_number y' m' d - epoch_days) * 86400 + h * 3600 + mi * 60 + s))"

definition Date :: "location \<Rightarrow> int \<Rightarrow> int \<Rightarrow> int \<Rightarrow> int \<Rightarrow> int \<Rightarrow> int \<Rightarrow> int \<Rightarrow> int" where
  "Date z y mo d h mi s n = DateSecs z y mo d h mi s * ns + n"

definition AddDate :: "location \<Rightarrow> int \<Rightarrow> int \<Rightarrow> int \<Rightarrow> int \<Rightarrow> int" where
  "AddDate z dy dm dd t =
     (case date_of (wall_day z t) of
        (y, m, d) \<Rightarrow> Date z (y + dy) (m + dm) (d + dd) (wall_hour z t) (wall_minute z t)
                       (wall_second z t) (t mod ns))"

text \<open>\<open>Truncate\<close> to a minute counts from the start of year 1, a whole number of minutes before 1970.\<close>

definition truncate_minute :: "int \<Rightarrow> int" where
  "truncate_minute t = t div (60 * ns) * (60 * ns)"

section \<open>Locations with a fixed offset\<close>

lemma fixed_lookup [simp]:
  "z_changes z = [] \<Longrightarrow> zone_lookup z t = (z_initial z, None, None)"
  "z_changes z = [] \<Longrightarrow> offset_at z t = z_initial z"
  by (simp_all add: zone_lookup_def offset_at_def)

lemma fixed_unix: "z_changes z = [] \<Longrightarrow> unix_of_wall z u = u - z_initial z"
  by (simp add: unix_of_wall_def Let_def)

lemma fixed_wall:
  "z_changes z = [] \<Longrightarrow> wall z t = t div ns + z_initial z + epoch_days * 86400"
  by (simp add: wall_def Let_def)

lemma clock_split:
  fixes w :: int
  shows "w = w div 86400 * 86400 + w mod 86400 div 3600 * 3600 + w mod 3600 div 60 * 60 + w mod 60"
proof -
  have d: "w mod 86400 mod 3600 = w mod 3600" "w mod 3600 mod 60 = w mod 60"
    by (simp_all add: mod_mod_cancel)
  have "w div 86400 * 86400 + w mod 86400 = w" by (rule div_mult_mod_eq)
  moreover have "w mod 86400 div 3600 * 3600 + w mod 3600 = w mod 86400"
    using div_mult_mod_eq [of "w mod 86400" 3600] unfolding d .
  moreover have "w mod 3600 div 60 * 60 + w mod 60 = w mod 3600"
    using div_mult_mod_eq [of "w mod 3600" 60] unfolding d .
  ultimately show ?thesis by (metis add.assoc)
qed

lemma wall_fields:
  "wall z t = wall_day z t * 86400 + wall_hour z t * 3600 + wall_minute z t * 60 + wall_second z t"
  unfolding wall_day_def wall_hour_def wall_minute_def wall_second_def by (rule clock_split)

lemma ns_split: "t = t div ns * ns + t mod ns"
  by (simp add: ns_def)

text \<open>In a fixed offset the fields of a date name the instant they were made from.\<close>

lemma fixed_Date:
  assumes "z_changes z = []" "1 \<le> m" "m \<le> 12"
  shows "Date z y m d h mi s n =
    ((day_number y m d - epoch_days) * 86400 + h * 3600 + mi * 60 + s - z_initial z) * ns + n"
proof -
  have "(m - 1) div 12 = 0" "(m - 1) mod 12 + 1 = m" using assms by simp_all
  then show ?thesis unfolding Date_def DateSecs_def Let_def using fixed_unix [OF assms(1)] by simp
qed

lemma fixed_next_day:
  assumes "z_changes z = []" "0 \<le> wall_day z t"
  shows "AddDate z 0 0 k t = t + k * 86400 * ns"
proof -
  obtain y m d where D: "date_of (wall_day z t) = (y, m, d)" by (metis surj_pair)
  note s = date_of_sound [OF assms(2) D]
  have "day_number y m (d + k) = wall_day z t + k" using s by (simp add: day_number_def)
  then have "AddDate z 0 0 k t = ((wall_day z t + k - epoch_days) * 86400 + wall_hour z t * 3600 +
      wall_minute z t * 60 + wall_second z t - z_initial z) * ns + t mod ns"
    using s by (simp add: AddDate_def D fixed_Date [OF assms(1)])
  also have "(wall_day z t + k - epoch_days) * 86400 + wall_hour z t * 3600 + wall_minute z t * 60 +
      wall_second z t - z_initial z = t div ns + k * 86400"
    using wall_fields [of z t] fixed_wall [OF assms(1), of t] by (simp add: algebra_simps)
  also have "(t div ns + k * 86400) * ns + t mod ns = t + k * 86400 * ns"
    using ns_split [of t] by (simp add: distrib_right)
  finally show ?thesis .
qed

text \<open>The instant of a time of day on the wall date of another instant.\<close>

lemma fixed_on_day:
  assumes "z_changes z = []" "0 \<le> wall_day z a" "date_of (wall_day z a) = (y, m, d)"
  shows "Date z y m d h mi s 0 =
    ((wall_day z a - epoch_days) * 86400 + h * 3600 + mi * 60 + s - z_initial z) * ns"
  using date_of_sound [OF assms(2,3)] by (simp add: fixed_Date [OF assms(1)])

section \<open>The next instant of a residue class\<close>

text \<open>The specification of a periodic schedule: the first instant after \<open>a\<close> that is \<open>c\<close> modulo the
  period.\<close>

definition next_congruent :: "int \<Rightarrow> int \<Rightarrow> int \<Rightarrow> int" where
  "next_congruent P c a = a + P - (a - c) mod P"

lemma next_congruent:
  assumes "0 < P"
  shows "a < next_congruent P c a" "next_congruent P c a \<le> a + P"
    "next_congruent P c a mod P = c mod P"
    "a < t \<Longrightarrow> t mod P = c mod P \<Longrightarrow> next_congruent P c a \<le> t"
proof -
  define r where "r = (a - c) mod P"
  have r: "0 \<le> r" "r < P" using assms by (simp_all add: r_def)
  then show "a < next_congruent P c a" "next_congruent P c a \<le> a + P"
    by (simp_all add: next_congruent_def r_def)
  have e: "next_congruent P c a - c = P * ((a - c) div P + 1)"
    using minus_mod_eq_mult_div [of "a - c" P] by (simp add: next_congruent_def algebra_simps)
  then show "next_congruent P c a mod P = c mod P"
    by (metis diff_add_cancel mod_mult_self4 add.commute mult.commute)
  assume t: "a < t" "t mod P = c mod P"
  then obtain k where k: "t = c + P * k" by (metis mod_eqE mod_eq_dvd_iff dvdE diff_add_cancel add.commute)
  have "(a - c) div P < k"
  proof (rule ccontr)
    assume "\<not> (a - c) div P < k"
    then have "P * k \<le> P * ((a - c) div P)" using assms by (intro mult_left_mono) auto
    also have "\<dots> \<le> a - c" using r minus_mod_eq_mult_div [of "a - c" P] by (simp add: r_def)
    finally show False using t(1) k by simp
  qed
  then have "P * ((a - c) div P + 1) \<le> P * k" using assms by (intro mult_left_mono) auto
  with e k show "next_congruent P c a \<le> t" by simp
qed

lemma next_congruent_unique:
  assumes "0 < P" "a < t" "t \<le> a + P" "t mod P = c mod P"
  shows "t = next_congruent P c a"
proof -
  note n = next_congruent [OF assms(1), where a = a and c = c]
  have le: "next_congruent P c a \<le> t" using next_congruent(4) [OF assms(1)] assms(2,4) by blast
  have "P dvd t - next_congruent P c a"
    using assms(4) n(3) by (simp add: mod_eq_dvd_iff [symmetric])
  then obtain k where k: "t - next_congruent P c a = P * k" by (elim dvdE)
  have "0 \<le> P * k" "P * k < P * 1" using le n(1) assms(3) k by linarith+
  with assms(1) have "k = 0" by (simp only: zero_le_mult_iff mult_less_cancel_left_pos) simp
  with k show ?thesis by simp
qed

end
