(* ===== verification/Schedule.thy ===== *)
theory Schedule
  imports GoTime
begin

text \<open>
  The next run of a schedule (\<open>NextRun\<close>, \<open>nextCron\<close> and \<open>cronField\<close> of
  \<open>source/internal/scheduler/scheduler.go\<close>). Loops that step a date through a location are
  partial functions: the outer option of a result is \<open>None\<close> if the code does not return. Inside
  it an error, no further run (the zero time), or the instant of the next run.
\<close>

section \<open>Schedules\<close>

text \<open>The payload is the decoded JSON text of the row; a step of a sequence has an offset in seconds.\<close>

record seq_step =
  st_offset :: int
  st_action :: string
  st_payload :: string

record payload =
  pl_command :: string
  pl_message :: string
  pl_type :: string
  pl_steps :: "seq_step list"

record schedule =
  sch_id :: int
  sch_instance :: int
  sch_name :: string
  sch_enabled :: bool
  sch_timezone :: string
  sch_type :: string
  sch_expr :: string
  sch_action :: string
  sch_payload :: payload
  sch_offline :: string
  sch_missed :: string
  sch_conflict :: string
  sch_next :: "int option"
  sch_last_run :: "int option"
  sch_last_result :: string

text \<open>The zero value of the type.\<close>

definition zero_schedule :: schedule where
  "zero_schedule = \<lparr>sch_id = 0, sch_instance = 0, sch_name = [], sch_enabled = False, sch_timezone = [],
     sch_type = [], sch_expr = [], sch_action = [],
     sch_payload = \<lparr>pl_command = [], pl_message = [], pl_type = [], pl_steps = []\<rparr>,
     sch_offline = [], sch_missed = [], sch_conflict = [], sch_next = None, sch_last_run = None,
     sch_last_result = []\<rparr>"

definition schedule_of :: "string \<Rightarrow> string \<Rightarrow> schedule" where
  "schedule_of ty expr = zero_schedule\<lparr>sch_timezone := ''UTC'', sch_type := ty, sch_expr := expr\<rparr>"

lemma schedule_of [simp]:
  "sch_timezone (schedule_of ty expr) = ''UTC''" "sch_type (schedule_of ty expr) = ty"
  "sch_expr (schedule_of ty expr) = expr"
  by (simp_all add: schedule_of_def)

datatype sched_error =
    BadOnce | BadHourly | BadTime | BadWeekly | BadWeekday | BadMonthly | BadDay | BadInterval
  | BadCron | BadField | NoMatch | UnknownType

section \<open>Clock expressions\<close>

definition in_range :: "int \<Rightarrow> int \<Rightarrow> int \<Rightarrow> bool" where
  "in_range lo hi v \<longleftrightarrow> lo \<le> v \<and> v \<le> hi"

definition parseHMS :: "string \<Rightarrow> sched_error + (int \<times> int \<times> int)" where
  "parseHMS value =
     (let ps = Split CHR '':'' (TrimSpace value) in
      if length ps \<noteq> 2 \<and> length ps \<noteq> 3 then Inl BadTime
      else case (Atoi (ps ! 0), Atoi (ps ! 1), if length ps = 3 then Atoi (ps ! 2) else Some 0) of
        (Some hh, Some mm, Some sec) \<Rightarrow>
          if in_range 0 23 hh \<and> in_range 0 59 mm \<and> in_range 0 59 sec then Inr (hh, mm, sec)
          else Inl BadTime
      | _ \<Rightarrow> Inl BadTime)"

definition parseHourly :: "string \<Rightarrow> sched_error + (int \<times> int)" where
  "parseHourly value =
     (let ps = Split CHR '':'' (TrimSpace value) in
      if length ps = 1 then
        (case Atoi (ps ! 0) of
           None \<Rightarrow> Inl BadHourly
         | Some m \<Rightarrow> if in_range 0 59 m then Inr (m, 0) else Inl BadHourly)
      else if length ps \<noteq> 2 then Inl BadHourly
      else case (Atoi (ps ! 0), Atoi (ps ! 1)) of
        (Some m, Some s) \<Rightarrow> if in_range 0 59 m \<and> in_range 0 59 s then Inr (m, s) else Inl BadHourly
      | _ \<Rightarrow> Inl BadHourly)"

definition weekdays :: "(string \<times> int) list" where
  "weekdays = [(''SUN'', 0), (''MON'', 1), (''TUE'', 2), (''WED'', 3), (''THU'', 4), (''FRI'', 5), (''SAT'', 6)]"

section \<open>Dates of a single run\<close>

text \<open>Go's layouts: a field of two digits (one is enough for the hour), a literal character, and the
  space, which stands for any number of spaces.\<close>

definition getnum :: "bool \<Rightarrow> string \<Rightarrow> (int \<times> string) option" where
  "getnum fixed s =
     (case s of
        [] \<Rightarrow> None
      | c # cs \<Rightarrow>
          if \<not> is_digit c then None
          else (case cs of
                  d # ds \<Rightarrow> if is_digit d then Some (10 * digit_val c + digit_val d, ds)
                            else if fixed then None else Some (digit_val c, cs)
                | [] \<Rightarrow> if fixed then None else Some (digit_val c, [])))"

definition literal :: "char \<Rightarrow> string \<Rightarrow> string option" where
  "literal c s = (case s of [] \<Rightarrow> None | d # ds \<Rightarrow> if d = c then Some ds else None)"

definition literal_space :: "string \<Rightarrow> string option" where
  "literal_space s =
     (if s \<noteq> [] \<and> hd s \<noteq> CHR '' '' then None else Some (dropWhile (\<lambda>c. c = CHR '' '') s))"

definition getfield :: "bool \<Rightarrow> int \<Rightarrow> int \<Rightarrow> string \<Rightarrow> (int \<times> string) option" where
  "getfield fixed lo hi s =
     (case getnum fixed s of
        None \<Rightarrow> None
      | Some (v, r) \<Rightarrow> if in_range lo hi v then Some (v, r) else None)"

definition getyear :: "string \<Rightarrow> (int \<times> string) option" where
  "getyear s =
     (if length s < 4 \<or> \<not> list_all is_digit (take 4 s) then None
      else Some (digits_value (take 4 s), drop 4 s))"

text \<open>A fraction after the seconds is accepted although the layout has none; nine digits count.\<close>

definition getfraction :: "string \<Rightarrow> int \<times> string" where
  "getfraction s =
     (case s of
        c # d # ds \<Rightarrow>
          if (c = CHR ''.'' \<or> c = CHR '','') \<and> is_digit d
          then let digits = takeWhile is_digit (d # ds); k = take 9 digits
               in (digits_value k * 10 ^ (9 - length k), dropWhile is_digit (d # ds))
          else (0, s)
      | _ \<Rightarrow> (0, s))"

definition parse_layout :: "bool \<Rightarrow> location \<Rightarrow> string \<Rightarrow> int option" where
  "parse_layout with_seconds z s =
     do { (y, s) \<leftarrow> getyear s;
          s \<leftarrow> literal CHR ''-'' s;
          (mo, s) \<leftarrow> getfield True 1 12 s;
          s \<leftarrow> literal CHR ''-'' s;
          (d, s) \<leftarrow> getnum True s;
          s \<leftarrow> literal_space s;
          (h, s) \<leftarrow> getfield False 0 23 s;
          s \<leftarrow> literal CHR '':'' s;
          (mi, s) \<leftarrow> getfield True 0 59 s;
          (sec, n, s) \<leftarrow> (if with_seconds
             then do { s \<leftarrow> literal CHR '':'' s; (sec, s) \<leftarrow> getfield True 0 59 s;
                       let (n, s) = getfraction s; Some (sec, n, s) }
             else Some (0, 0, s));
          if s \<noteq> [] \<or> d < 1 \<or> month_days y mo < d then None else Some (Date z y mo d h mi sec n) }"

definition parse_once :: "location \<Rightarrow> string \<Rightarrow> int option" where
  "parse_once z s = (case parse_layout True z s of Some t \<Rightarrow> Some t | None \<Rightarrow> parse_layout False z s)"

section \<open>The loops\<close>

function hourly_loop :: "int \<Rightarrow> int \<Rightarrow> int" where
  "hourly_loop a t = (if \<not> a < t then hourly_loop a (t + 3600 * ns) else t)"
  by auto
termination by (relation "measure (\<lambda>(a, t). nat (a + 1 - t))") (auto simp: ns_def)

declare hourly_loop.simps [simp del]

partial_function (option) daily_loop :: "location \<Rightarrow> int \<Rightarrow> int \<Rightarrow> int option" where
  "daily_loop z a t = (if \<not> a < t then daily_loop z a (AddDate z 0 0 1 t) else Some t)"

partial_function (option) weekly_loop :: "location \<Rightarrow> int \<Rightarrow> int \<Rightarrow> int \<Rightarrow> int option" where
  "weekly_loop z wd a t =
     (if Weekday z t \<noteq> wd \<or> \<not> a < t then weekly_loop z wd a (AddDate z 0 0 1 t) else Some t)"

definition Day :: "location \<Rightarrow> int \<Rightarrow> int" where "Day z t = snd (snd (date_of (wall_day z t)))"

partial_function (option) monthly_loop ::
  "location \<Rightarrow> int \<Rightarrow> int \<Rightarrow> int \<Rightarrow> int \<Rightarrow> int \<Rightarrow> int \<Rightarrow> int option" where
  "monthly_loop z dd hh mm sec a t =
     (if \<not> a < t \<or> Day z t \<noteq> dd
      then (case date_of (wall_day z t) of
              (y, m, d) \<Rightarrow> monthly_loop z dd hh mm sec a (Date z y (m + 1) dd hh mm sec 0))
      else Some t)"

section \<open>Cron\<close>

text \<open>The values of one element of a field; the counter is a Go \<open>int\<close>, which wraps.\<close>

partial_function (option) cron_values :: "int \<Rightarrow> int \<Rightarrow> int \<Rightarrow> int list \<Rightarrow> int list option" where
  "cron_values step fin v acc =
     (if v \<le> fin then cron_values step fin (wrap64 (v + step)) (acc @ [v]) else Some acc)"

definition cron_range :: "string \<Rightarrow> int \<Rightarrow> int \<Rightarrow> sched_error + (int \<times> int)" where
  "cron_range part lo hi =
     (if part = ''*'' then Inr (lo, hi)
      else case Cut CHR ''-'' part of
        Some (a, b) \<Rightarrow>
          (case (Atoi a, Atoi b) of (Some x, Some y) \<Rightarrow> Inr (x, y) | _ \<Rightarrow> Inl BadField)
      | None \<Rightarrow> (case Atoi part of Some v \<Rightarrow> Inr (v, v) | None \<Rightarrow> Inl BadField))"

definition cron_step :: "string \<Rightarrow> sched_error + (int \<times> string)" where
  "cron_step part =
     (case Cut CHR ''/'' part of
        None \<Rightarrow> Inr (1, part)
      | Some (base, st) \<Rightarrow>
          (case Atoi st of
             None \<Rightarrow> Inl BadField
           | Some step \<Rightarrow> if step < 1 then Inl BadField else Inr (step, base)))"

definition cron_part :: "string \<Rightarrow> int \<Rightarrow> int \<Rightarrow> (sched_error + int list) option" where
  "cron_part part0 lo hi =
     (case cron_step part0 of
        Inl e \<Rightarrow> Some (Inl e)
      | Inr (step, part) \<Rightarrow>
         (case cron_range part lo hi of
            Inl e \<Rightarrow> Some (Inl e)
          | Inr (start, fin) \<Rightarrow>
              if start < lo \<or> hi < fin \<or> fin < start then Some (Inl BadField)
              else map_option Inr (cron_values step fin start [])))"

fun cron_parts :: "string list \<Rightarrow> int \<Rightarrow> int \<Rightarrow> (sched_error + int list) option" where
  "cron_parts [] lo hi = Some (Inr [])"
| "cron_parts (p # ps) lo hi =
     (case cron_part p lo hi of
        None \<Rightarrow> None
      | Some (Inl e) \<Rightarrow> Some (Inl e)
      | Some (Inr vs) \<Rightarrow> map_option (map_sum id (\<lambda>ws. vs @ ws)) (cron_parts ps lo hi))"

definition cronField :: "string \<Rightarrow> int \<Rightarrow> int \<Rightarrow> (sched_error + int list) option" where
  "cronField f lo hi = cron_parts (Split CHR '','' f) lo hi"

record cron =
  cr_mins :: "int list"
  cr_hours :: "int list"
  cr_doms :: "int list"
  cr_mons :: "int list"
  cr_dows :: "int list"

definition Month :: "location \<Rightarrow> int \<Rightarrow> int" where "Month z t = fst (snd (date_of (wall_day z t)))"

definition cron_matches :: "location \<Rightarrow> cron \<Rightarrow> int \<Rightarrow> bool" where
  "cron_matches z c t \<longleftrightarrow>
     Month z t \<in> set (cr_mons c) \<and> Day z t \<in> set (cr_doms c) \<and> Weekday z t \<in> set (cr_dows c) \<and>
     wall_hour z t \<in> set (cr_hours c) \<and> wall_minute z t \<in> set (cr_mins c)"

function cron_loop :: "location \<Rightarrow> cron \<Rightarrow> int \<Rightarrow> int \<Rightarrow> int option" where
  "cron_loop z c lim t =
     (if t < lim then (if cron_matches z c t then Some t else cron_loop z c lim (t + 60 * ns)) else None)"
  by auto
termination by (relation "measure (\<lambda>(z, c, lim, t). nat (lim - t))") (auto simp: ns_def)

declare cron_loop.simps [simp del]

definition parse_cron :: "string \<Rightarrow> (sched_error + cron) option" where
  "parse_cron expr =
     (case Fields expr of
        [fm, fh, fd, fmo, fw] \<Rightarrow>
          do { mins \<leftarrow> cronField fm 0 59;
               hours \<leftarrow> cronField fh 0 23;
               doms \<leftarrow> cronField fd 1 31;
               mons \<leftarrow> cronField fmo 1 12;
               dows \<leftarrow> cronField fw 0 6;
               Some (rbind mins (\<lambda>mins. rbind hours (\<lambda>hours. rbind doms (\<lambda>doms.
                 rbind mons (\<lambda>mons. rbind dows (\<lambda>dows.
                   Inr \<lparr>cr_mins = mins, cr_hours = hours, cr_doms = doms, cr_mons = mons, cr_dows = dows\<rparr>)))))) }
      | _ \<Rightarrow> Some (Inl BadCron))"

definition nextCron :: "location \<Rightarrow> string \<Rightarrow> int \<Rightarrow> (sched_error + int option) option" where
  "nextCron z expr a =
     map_option (\<lambda>r. rbind r (\<lambda>c.
       case cron_loop z c (AddDate z 2 0 0 a) (truncate_minute a + 60 * ns) of
         None \<Rightarrow> Inl NoMatch
       | Some t \<Rightarrow> Inr (Some t)))
     (parse_cron expr)"

section \<open>NextRun\<close>

definition run_at :: "int option \<Rightarrow> (sched_error + int option) option" where
  "run_at r = map_option (\<lambda>t. Inr (Some t)) r"

definition NextRun ::
  "(string \<Rightarrow> location option) \<Rightarrow> schedule \<Rightarrow> int \<Rightarrow> (sched_error + int option) option" where
  "NextRun zones s a =
     (let z = (case zones (sch_timezone s) of Some z \<Rightarrow> z | None \<Rightarrow> UTC);
          expr = TrimSpace (sch_expr s);
          ty = sch_type s in
      case date_of (wall_day z a) of
        (y, m, d) \<Rightarrow>
        if ty = ''once'' then
          (case parse_once z expr of
             None \<Rightarrow> Some (Inl BadOnce)
           | Some t \<Rightarrow> Some (Inr (if a < t then Some t else None)))
        else if ty = ''hourly'' then
          (case parseHourly expr of
             Inl e \<Rightarrow> Some (Inl e)
           | Inr (mi, sec) \<Rightarrow>
               Some (Inr (Some (hourly_loop a (Date z y m d (wall_hour z a) mi sec 0)))))
        else if ty = ''daily'' then
          (case parseHMS expr of
             Inl e \<Rightarrow> Some (Inl e)
           | Inr (hh, mm, sec) \<Rightarrow> run_at (daily_loop z a (Date z y m d hh mm sec 0)))
        else if ty = ''weekly'' then
          (case Fields expr of
             [day, clock] \<Rightarrow>
               (case map_of weekdays (ToUpper day) of
                  None \<Rightarrow> Some (Inl BadWeekday)
                | Some wd \<Rightarrow>
                   (case parseHMS clock of
                      Inl e \<Rightarrow> Some (Inl e)
                    | Inr (hh, mm, sec) \<Rightarrow> run_at (weekly_loop z wd a (Date z y m d hh mm sec 0))))
           | _ \<Rightarrow> Some (Inl BadWeekly))
        else if ty = ''monthly'' then
          (case Fields expr of
             [day, clock] \<Rightarrow>
               (case Atoi day of
                  None \<Rightarrow> Some (Inl BadDay)
                | Some dd \<Rightarrow>
                    if \<not> in_range 1 31 dd then Some (Inl BadDay)
                    else (case parseHMS clock of
                      Inl e \<Rightarrow> Some (Inl e)
                    | Inr (hh, mm, sec) \<Rightarrow>
                        run_at (monthly_loop z dd hh mm sec a (Date z y m dd hh mm sec 0))))
           | _ \<Rightarrow> Some (Inl BadMonthly))
        else if ty = ''fixed_interval'' then
          (case Atoi expr of
             None \<Rightarrow> Some (Inl BadInterval)
           | Some sec \<Rightarrow>
               if sec < 60 then Some (Inl BadInterval)
               else Some (Inr (Some (a + wrap64 (sec * ns)))))
        else if ty = ''advanced_cron'' then nextCron z expr a
        else Some (Inl UnknownType))"

end
