(* ===== verification/SchedulerRun.thy ===== *)
theory SchedulerRun
  imports Schedule "HOL-Library.List_Lexorder" "HOL-Library.Char_ord"
begin

text \<open>
  The stored schedules, the once-a-second tick and the execution of an action (the rest of
  \<open>source/internal/scheduler/scheduler.go\<close> and the schedule handlers of
  \<open>source/internal/app/handlers_manage.go\<close>). Times in the database are whole seconds, as their text
  form has no fraction; times in the program are nanoseconds. An outer \<open>None\<close> says the code does
  not return. The display name of a schedule orders the list; its description, creator and time
  stamps are read by nothing and left out, as is the JSON text of a payload.
\<close>

section \<open>Tables\<close>

datatype act_error =
    ExecutorError string | Rejected | Cancelled | UnknownAction string | InStep string act_error

datatype run_detail = Note string | Failure act_error | StartFailure act_error

record sched_run =
  run_schedule :: int
  run_key :: "int \<times> int"
  run_planned :: int
  run_started :: "int option"
  run_finished :: "int option"
  run_status :: string
  run_detail :: run_detail

record sched_db =
  sd_instances :: "int list"
  sd_schedules :: "schedule list"
  sd_runs :: "sched_run list"

definition run_statuses :: "string list" where
  "run_statuses = [''queued'', ''running'', ''succeeded'', ''partially_succeeded'', ''failed'',
                   ''skipped'', ''cancelled'']"

text \<open>The CHECK constraints of a row of \<open>schedules\<close>.\<close>

definition schedule_row_ok :: "schedule \<Rightarrow> bool" where
  "schedule_row_ok s \<longleftrightarrow>
     sch_type s \<in> {''once'', ''hourly'', ''daily'', ''weekly'', ''monthly'', ''fixed_interval'', ''advanced_cron''} \<and>
     sch_action s \<in> {''start_server'', ''stop_server'', ''restart_server'', ''send_console_command'',
                     ''broadcast_message'', ''save_all'', ''create_backup'', ''sequence''} \<and>
     sch_offline s \<in> {''skip_when_offline'', ''wait_until_online'', ''start_then_execute''} \<and>
     sch_missed s \<in> {''skip_missed_run'', ''run_once_after_startup''} \<and>
     sch_conflict s \<in> {''skip'', ''retry_later''}"

definition lease_key :: "schedule \<Rightarrow> int \<Rightarrow> int \<times> int" where
  "lease_key s planned = (sch_id s, planned div ns)"

text \<open>An INSERT into \<open>schedule_runs\<close> needs its schedule, a free key and a legal status.\<close>

definition insert_run :: "sched_run \<Rightarrow> sched_db \<Rightarrow> sched_db option" where
  "insert_run r db =
     (if list_ex (\<lambda>s. sch_id s = run_schedule r) (sd_schedules db) \<and>
         \<not> list_ex (\<lambda>q. run_key q = run_key r) (sd_runs db) \<and> run_status r \<in> set run_statuses
      then Some (db\<lparr>sd_runs := sd_runs db @ [r]\<rparr>) else None)"

text \<open>An UPDATE of the row of a key that violates the CHECK on the status changes nothing.\<close>

definition update_run :: "int \<times> int \<Rightarrow> (sched_run \<Rightarrow> sched_run) \<Rightarrow> sched_db \<Rightarrow> sched_db" where
  "update_run k f db =
     (if list_all (\<lambda>r. run_key r = k \<longrightarrow> run_status (f r) \<in> set run_statuses) (sd_runs db)
      then db\<lparr>sd_runs := map (\<lambda>r. if run_key r = k then f r else r) (sd_runs db)\<rparr> else db)"

definition update_schedule :: "int \<Rightarrow> (schedule \<Rightarrow> schedule) \<Rightarrow> sched_db \<Rightarrow> sched_db" where
  "update_schedule i f db =
     db\<lparr>sd_schedules := map (\<lambda>s. if sch_id s = i then f s else s) (sd_schedules db)\<rparr>"

section \<open>Store\<close>

datatype store_error = BadSchedule sched_error | Constraint

definition stored_next :: "int option \<Rightarrow> int option" where
  "stored_next n = map_option (\<lambda>t. t div ns) n"

definition defStr :: "string \<Rightarrow> string \<Rightarrow> string" where
  "defStr v d = (if v = [] then d else v)"

definition Create ::
  "(string \<Rightarrow> location option) \<Rightarrow> schedule \<Rightarrow> int \<Rightarrow> sched_db \<Rightarrow> (store_error + schedule \<times> sched_db) option" where
  "Create zones s nw db =
     (case NextRun zones s nw of
        None \<Rightarrow> None
      | Some (Inl e) \<Rightarrow> Some (Inl (BadSchedule e))
      | Some (Inr next) \<Rightarrow>
          (let i = fold max (map sch_id (sd_schedules db)) 0 + 1;
               row = s\<lparr>sch_id := i, sch_next := stored_next next,
                       sch_offline := defStr (sch_offline s) ''skip_when_offline'',
                       sch_missed := defStr (sch_missed s) ''skip_missed_run'',
                       sch_conflict := defStr (sch_conflict s) ''skip'',
                       sch_last_run := None, sch_last_result := []\<rparr>
           in if schedule_row_ok row \<and> sch_instance row \<in> set (sd_instances db)
              then Some (Inr (s\<lparr>sch_id := i, sch_next := stored_next next\<rparr>,
                              db\<lparr>sd_schedules := sd_schedules db @ [row]\<rparr>))
              else Some (Inl Constraint)))"

definition Update ::
  "(string \<Rightarrow> location option) \<Rightarrow> schedule \<Rightarrow> int \<Rightarrow> sched_db \<Rightarrow> (store_error + sched_db) option" where
  "Update zones s nw db =
     (case NextRun zones s nw of
        None \<Rightarrow> None
      | Some (Inl e) \<Rightarrow> Some (Inl (BadSchedule e))
      | Some (Inr next) \<Rightarrow>
          (if list_ex (\<lambda>r. sch_id r = sch_id s) (sd_schedules db) \<and> \<not> schedule_row_ok s
           then Some (Inl Constraint)
           else Some (Inr (update_schedule (sch_id s)
             (\<lambda>r. s\<lparr>sch_instance := sch_instance r, sch_next := stored_next next,
                    sch_last_run := sch_last_run r, sch_last_result := sch_last_result r\<rparr>) db))))"

definition Delete :: "int \<Rightarrow> sched_db \<Rightarrow> sched_db" where
  "Delete i db =
     db\<lparr>sd_schedules := filter (\<lambda>s. sch_id s \<noteq> i) (sd_schedules db),
        sd_runs := filter (\<lambda>r. run_schedule r \<noteq> i) (sd_runs db)\<rparr>"

definition Get :: "int \<Rightarrow> sched_db \<Rightarrow> schedule option" where
  "Get i db = List.find (\<lambda>s. sch_id s = i) (sd_schedules db)"

definition List_schedules :: "int \<Rightarrow> sched_db \<Rightarrow> schedule list" where
  "List_schedules inst db =
     sort_key sch_name (if 0 < inst then filter (\<lambda>s. sch_instance s = inst) (sd_schedules db) else sd_schedules db)"

definition RunHistory :: "int \<Rightarrow> nat \<Rightarrow> sched_db \<Rightarrow> sched_run list" where
  "RunHistory i lim db =
     take lim (rev (sort_key run_planned (filter (\<lambda>r. run_schedule r = i) (sd_runs db))))"

section \<open>Leases, advancing, the tick\<close>

definition lease :: "schedule \<Rightarrow> int \<Rightarrow> sched_db \<Rightarrow> sched_db \<times> bool" where
  "lease s planned db =
     (case insert_run \<lparr>run_schedule = sch_id s, run_key = lease_key s planned, run_planned = planned div ns,
         run_started = None, run_finished = None, run_status = ''queued'', run_detail = Note []\<rparr> db of
        None \<Rightarrow> (db, False)
      | Some db' \<Rightarrow> (db', True))"

definition advance :: "(string \<Rightarrow> location option) \<Rightarrow> schedule \<Rightarrow> int \<Rightarrow> sched_db \<Rightarrow> sched_db option" where
  "advance zones s a db =
     (case NextRun zones s a of
        None \<Rightarrow> None
      | Some r \<Rightarrow>
          (let next = (case r of Inl _ \<Rightarrow> None | Inr n \<Rightarrow> stored_next n)
           in Some (update_schedule (sch_id s) (\<lambda>x. x\<lparr>sch_next := next\<rparr>) db)))"

definition recordRun :: "schedule \<Rightarrow> int \<Rightarrow> string \<Rightarrow> run_detail \<Rightarrow> int \<Rightarrow> sched_db \<Rightarrow> sched_db" where
  "recordRun s planned status detail nw db =
     (let k = lease_key s planned;
          db = (case insert_run \<lparr>run_schedule = sch_id s, run_key = k, run_planned = planned div ns,
                  run_started = None, run_finished = None, run_status = status, run_detail = detail\<rparr> db of
                  None \<Rightarrow> db | Some db' \<Rightarrow> db');
          db = update_run k (\<lambda>r. r\<lparr>run_status := status, run_detail := detail, run_finished := Some (nw div ns)\<rparr>) db
      in update_schedule (sch_id s) (\<lambda>x. x\<lparr>sch_last_run := Some (nw div ns), sch_last_result := status\<rparr>) db)"

text \<open>A schedule is due when it is enabled and its stored time is not after now.\<close>

definition due :: "int \<Rightarrow> schedule \<Rightarrow> bool" where
  "due nw s \<longleftrightarrow> sch_enabled s \<and> (case sch_next s of None \<Rightarrow> False | Some k \<Rightarrow> k * ns \<le> nw)"

definition planned_of :: "schedule \<Rightarrow> int" where
  "planned_of s = the (sch_next s) * ns"

type_synonym launches = "(schedule \<times> int) list"

definition tick_one ::
  "(string \<Rightarrow> location option) \<Rightarrow> int \<Rightarrow> schedule \<Rightarrow> sched_db \<times> launches \<Rightarrow> (sched_db \<times> launches) option" where
  "tick_one zones nw s st =
     (if \<not> due nw s then Some st
      else let (db, started) = st;
               (db, leased) = lease s (planned_of s) db;
               started = (if leased then started @ [(s, planned_of s)] else started)
           in map_option (\<lambda>db. (db, started)) (advance zones s nw db))"

fun opt_fold :: "('a \<Rightarrow> 's \<Rightarrow> 's option) \<Rightarrow> 'a list \<Rightarrow> 's \<Rightarrow> 's option" where
  "opt_fold f [] s = Some s"
| "opt_fold f (x # xs) s = (case f x s of None \<Rightarrow> None | Some s' \<Rightarrow> opt_fold f xs s')"

definition tick :: "(string \<Rightarrow> location option) \<Rightarrow> int \<Rightarrow> sched_db \<Rightarrow> (sched_db \<times> launches) option" where
  "tick zones nw db = opt_fold (tick_one zones nw) (List_schedules 0 db) (db, [])"

definition missed_one ::
  "(string \<Rightarrow> location option) \<Rightarrow> int \<Rightarrow> schedule \<Rightarrow> sched_db \<times> launches \<Rightarrow> (sched_db \<times> launches) option" where
  "missed_one zones nw s st =
     (if \<not> due nw s then Some st
      else let (db, started) = st;
               (db, started) =
                 (if sch_missed s = ''run_once_after_startup'' then (db, started @ [(s, planned_of s)])
                  else (recordRun s (planned_of s) ''skipped'' (Note ''missed while Bonghos was not running'') nw db,
                        started))
           in map_option (\<lambda>db. (db, started)) (advance zones s nw db))"

definition handleMissed :: "(string \<Rightarrow> location option) \<Rightarrow> int \<Rightarrow> sched_db \<Rightarrow> (sched_db \<times> launches) option" where
  "handleMissed zones nw db = opt_fold (missed_one zones nw) (List_schedules 0 db) (db, [])"

section \<open>Actions\<close>

text \<open>The calls an action makes of the running system. What they answer, and when, is the
  executor's.\<close>

datatype call =
    StartServer | StopServer | RestartServer | SendCmd string | Broadcast string | SaveAll
  | CreateBackup int string

record executor =
  ex_busy :: "int \<Rightarrow> bool"
  ex_online :: "int \<Rightarrow> bool"
  ex_call :: "call \<Rightarrow> int \<Rightarrow> string option \<times> int"

text \<open>A run of an action: the error, the time it ends, and its calls with the times they start.\<close>

type_synonym act_run = "act_error option \<times> int \<times> (int \<times> call) list"

definition safeConsoleCommand :: "string \<Rightarrow> bool" where
  "safeConsoleCommand cmd \<longleftrightarrow>
     (let cmd = TrimSpace cmd in \<not> (cmd = [] \<or> ContainsAny cmd [CHR 10, CHR 13]))"

definition perform :: "executor \<Rightarrow> call \<Rightarrow> int \<Rightarrow> act_run" where
  "perform x c t = (case ex_call x c t of (e, d) \<Rightarrow> (map_option ExecutorError e, t + d, [(t, c)]))"

definition runSimple :: "executor \<Rightarrow> string \<Rightarrow> int \<Rightarrow> payload \<Rightarrow> int \<Rightarrow> act_run" where
  "runSimple x action inst p t =
     (if action = ''start_server'' then perform x StartServer t
      else if action = ''stop_server'' then perform x StopServer t
      else if action = ''restart_server'' then perform x RestartServer t
      else if action = ''send_console_command'' then
        (if \<not> safeConsoleCommand (pl_command p) then (Some Rejected, t, [])
         else perform x (SendCmd (pl_command p)) t)
      else if action = ''broadcast_message'' then perform x (Broadcast (pl_message p)) t
      else if action = ''save_all'' then perform x SaveAll t
      else if action = ''create_backup'' then
        perform x (CreateBackup inst (if pl_type p = [] then ''full_server'' else pl_type p)) t
      else (Some (UnknownAction action), t, []))"

text \<open>Waiting for the time of a step ends early when the context is cancelled.\<close>

definition wait_until :: "int option \<Rightarrow> int \<Rightarrow> int \<Rightarrow> int + int" where
  "wait_until cancel target t =
     (if target \<le> t then Inr t
      else case cancel of
        Some c \<Rightarrow> if c < target then Inl (max t c) else Inr target
      | None \<Rightarrow> Inr target)"

text \<open>The payload of a step carries no steps, so a sequence in a sequence does nothing.\<close>

definition run_step :: "executor \<Rightarrow> int \<Rightarrow> seq_step \<Rightarrow> int \<Rightarrow> act_run" where
  "run_step x inst st t =
     (if st_action st = ''sequence'' then (None, t, [])
      else runSimple x (st_action st) inst
        \<lparr>pl_command = st_payload st, pl_message = st_payload st, pl_type = st_payload st, pl_steps = []\<rparr> t)"

fun run_steps :: "executor \<Rightarrow> int \<Rightarrow> int \<Rightarrow> int option \<Rightarrow> seq_step list \<Rightarrow> int \<Rightarrow> act_run" where
  "run_steps x inst planned cancel [] t = (None, t, [])"
| "run_steps x inst planned cancel (st # sts) t =
     (case wait_until cancel (planned + wrap64 (st_offset st * ns)) t of
        Inl t' \<Rightarrow> (Some Cancelled, t', [])
      | Inr t' \<Rightarrow>
          (case run_step x inst st t' of
             (Some e, u, cs) \<Rightarrow> (Some (InStep (st_action st) e), u, cs)
           | (None, u, cs) \<Rightarrow>
               (case run_steps x inst planned cancel sts u of (e, v, ds) \<Rightarrow> (e, v, cs @ ds))))"

definition runAction :: "executor \<Rightarrow> schedule \<Rightarrow> int \<Rightarrow> int option \<Rightarrow> int \<Rightarrow> act_run" where
  "runAction x s planned cancel t =
     (if sch_action s = ''sequence''
      then run_steps x (sch_instance s) planned cancel (pl_steps (sch_payload s)) t
      else runSimple x (sch_action s) (sch_instance s) (sch_payload s) t)"

section \<open>Execution\<close>

definition RunNow :: "executor \<Rightarrow> schedule \<Rightarrow> int \<Rightarrow> sched_db \<Rightarrow> sched_db \<times> (int \<times> call) list" where
  "RunNow x s nw db =
     (case runAction x s nw None nw of
        (Some e, t, cs) \<Rightarrow> (recordRun s nw ''failed'' (Failure e) t db, cs)
      | (None, t, cs) \<Rightarrow> (recordRun s nw ''success'' (Note ''manual run'') t db, cs))"

definition needsOnline :: "string \<Rightarrow> bool" where
  "needsOnline action \<longleftrightarrow> action \<in> {''send_console_command'', ''broadcast_message'', ''save_all''}"

function wait_online :: "executor \<Rightarrow> int \<Rightarrow> int \<Rightarrow> int" where
  "wait_online x deadline t =
     (if \<not> ex_online x t \<and> t < deadline then wait_online x deadline (t + 10 * ns) else t)"
  by auto
termination by (relation "measure (\<lambda>(x, d, t). nat (d - t))") (auto simp: ns_def)

declare wait_online.simps [simp del]

text \<open>The offline policy: the time the action may start and the calls made for it, or the reason it
  does not.\<close>

definition offline_policy ::
  "executor \<Rightarrow> schedule \<Rightarrow> int \<Rightarrow> (string \<times> run_detail) option \<times> int \<times> (int \<times> call) list" where
  "offline_policy x s t =
     (if \<not> (needsOnline (sch_action s) \<and> \<not> ex_online x t) then (None, t, [])
      else if sch_offline s = ''start_then_execute'' then
        (case perform x StartServer t of
           (Some e, u, cs) \<Rightarrow> (Some (''failed'', StartFailure e), u, cs)
         | (None, u, cs) \<Rightarrow> (None, u, cs))
      else if sch_offline s = ''wait_until_online'' then
        (let u = wait_online x (t + 600 * ns) t in
         if ex_online x u then (None, u, [])
         else (Some (''skipped'', Note ''server did not come online in time''), u, []))
      else (Some (''skipped'', Note ''server offline''), t, []))"

text \<open>The third component is the time of a retry.\<close>

definition execute ::
  "executor \<Rightarrow> schedule \<Rightarrow> int \<Rightarrow> int option \<Rightarrow> int \<Rightarrow> sched_db \<Rightarrow> sched_db \<times> (int \<times> call) list \<times> int option" where
  "execute x s planned cancel t db =
     (let db = update_run (lease_key s planned)
                 (\<lambda>r. r\<lparr>run_status := ''running'', run_started := Some (t div ns)\<rparr>) db in
      if ex_busy x t \<and> sch_action s \<noteq> ''create_backup'' then
        (if sch_conflict s = ''retry_later''
         then (recordRun s planned ''queued'' (Note ''conflict: will retry'') t db, [], Some (t + 120 * ns))
         else (recordRun s planned ''skipped'' (Note ''conflicting operation in progress'') t db, [], None))
      else case offline_policy x s t of
        (Some (status, detail), u, cs) \<Rightarrow> (recordRun s planned status detail u db, cs, None)
      | (None, u, cs) \<Rightarrow>
          (case runAction x s planned cancel u of
             (Some e, v, ds) \<Rightarrow> (recordRun s planned ''failed'' (Failure e) v db, cs @ ds, None)
           | (None, v, ds) \<Rightarrow> (recordRun s planned ''succeeded'' (Note []) v db, cs @ ds, None)))"

section \<open>Handlers\<close>

datatype sched_request_error =
    NoInstance | InvalidRequest | NameRequired | UnknownTimezone | Refused store_error | ScheduleNotFound

text \<open>The request body is its decoding; \<open>None\<close> is one that does not decode.\<close>

definition decodeSchedule ::
  "(string \<Rightarrow> location option) \<Rightarrow> int \<Rightarrow> schedule option \<Rightarrow> (sched_request_error + schedule) option" where
  "decodeSchedule zones nw body =
     (case body of
        None \<Rightarrow> Some (Inl InvalidRequest)
      | Some s \<Rightarrow>
          (if TrimSpace (sch_name s) = [] then Some (Inl NameRequired)
           else if zones (defStr (sch_timezone s) ''UTC'') = None then Some (Inl UnknownTimezone)
           else case NextRun zones s nw of
             None \<Rightarrow> None
           | Some (Inl e) \<Rightarrow> Some (Inl (Refused (BadSchedule e)))
           | Some (Inr _) \<Rightarrow> Some (Inr s)))"

definition handleScheduleCreate ::
  "(string \<Rightarrow> location option) \<Rightarrow> int \<Rightarrow> int option \<Rightarrow> schedule option \<Rightarrow> sched_db \<Rightarrow>
   (sched_request_error + schedule \<times> sched_db) option" where
  "handleScheduleCreate zones nw active body db =
     (case active of
        None \<Rightarrow> Some (Inl NoInstance)
      | Some inst \<Rightarrow>
         (case decodeSchedule zones nw body of
            None \<Rightarrow> None
          | Some (Inl e) \<Rightarrow> Some (Inl e)
          | Some (Inr s) \<Rightarrow>
              map_option (map_sum Refused id) (Create zones (s\<lparr>sch_instance := inst\<rparr>) nw db)))"

definition handleScheduleUpdate ::
  "(string \<Rightarrow> location option) \<Rightarrow> int \<Rightarrow> int \<Rightarrow> schedule option \<Rightarrow> sched_db \<Rightarrow>
   (sched_request_error + sched_db) option" where
  "handleScheduleUpdate zones nw i body db =
     (case Get i db of
        None \<Rightarrow> Some (Inl ScheduleNotFound)
      | Some existing \<Rightarrow>
         (case decodeSchedule zones nw body of
            None \<Rightarrow> None
          | Some (Inl e) \<Rightarrow> Some (Inl e)
          | Some (Inr s) \<Rightarrow>
              map_option (map_sum Refused id)
                (Update zones (s\<lparr>sch_id := sch_id existing, sch_instance := sch_instance existing\<rparr>) nw db)))"

definition handleScheduleDelete :: "int \<Rightarrow> sched_db \<Rightarrow> sched_db" where
  "handleScheduleDelete i db = Delete i db"

definition handleScheduleRunNow ::
  "executor \<Rightarrow> int \<Rightarrow> int \<Rightarrow> sched_db \<Rightarrow> sched_request_error + sched_db \<times> (int \<times> call) list" where
  "handleScheduleRunNow x i nw db =
     (case Get i db of None \<Rightarrow> Inl ScheduleNotFound | Some s \<Rightarrow> Inr (RunNow x s nw db))"

end
