(* ===== verification/ScheduleProperties.thy ===== *)
theory ScheduleProperties
  imports Schedule
begin

text \<open>
  What \<open>NextRun\<close> computes: it always moves forward; in a location with a fixed offset the hourly,
  daily and weekly loops end in the closed form of the first instant of a residue class; a cron
  field denotes the set its syntax says, and a cron expression the first matching minute.
\<close>

section \<open>Every next run is later\<close>

lemma hourly_loop_later: "a < hourly_loop a t"
  by (induction a t rule: hourly_loop.induct) (subst hourly_loop.simps, simp)

lemma daily_loop_later: "daily_loop z a t = Some u \<Longrightarrow> a < u"
  by (rule daily_loop.raw_induct [of "\<lambda>z a t u. a < u"]) (auto split: if_splits)

lemma weekly_loop_later: "weekly_loop z wd a t = Some u \<Longrightarrow> a < u \<and> Weekday z u = wd"
  by (rule weekly_loop.raw_induct [of "\<lambda>z wd a t u. a < u \<and> Weekday z u = wd"]) (auto split: if_splits)

lemma monthly_loop_later: "monthly_loop z dd hh mm sec a t = Some u \<Longrightarrow> a < u \<and> Day z u = dd"
  by (rule monthly_loop.raw_induct [of "\<lambda>z dd hh mm sec a t u. a < u \<and> Day z u = dd"])
    (auto split: if_splits prod.splits)

lemma truncate_minute_bounds:
  "truncate_minute t \<le> t" "t < truncate_minute t + 60 * ns" "truncate_minute t mod (60 * ns) = 0"
proof -
  have "0 < 60 * ns" by (simp add: ns_def)
  then have r: "0 \<le> t mod (60 * ns)" "t mod (60 * ns) < 60 * ns" by simp_all
  have "truncate_minute t = t - t mod (60 * ns)"
    by (simp add: truncate_minute_def minus_mod_eq_div_mult)
  with r show "truncate_minute t \<le> t" "t < truncate_minute t + 60 * ns" by simp_all
  show "truncate_minute t mod (60 * ns) = 0" by (simp add: truncate_minute_def)
qed

text \<open>The scan answers with the first match on its grid, or has seen the limit.\<close>

lemma cron_loop_first:
  "(case cron_loop z c lim t of
      Some u \<Rightarrow> t \<le> u \<and> u < lim \<and> (60 * ns) dvd (u - t) \<and> cron_matches z c u \<and>
        (\<forall>v. t \<le> v \<and> v < u \<and> (60 * ns) dvd (v - t) \<longrightarrow> \<not> cron_matches z c v)
    | None \<Rightarrow> (\<forall>v. t \<le> v \<and> v < lim \<and> (60 * ns) dvd (v - t) \<longrightarrow> \<not> cron_matches z c v))"
proof (induction z c lim t rule: cron_loop.induct)
  case (1 z c lim t)
  have nxt: "t + 60 * ns \<le> v \<and> (60 * ns) dvd (v - (t + 60 * ns))"
    if "t \<le> v" "v \<noteq> t" "(60 * ns) dvd (v - t)" for v
  proof -
    from that have "60 * ns \<le> v - t" by (intro zdvd_imp_le) auto
    moreover have "(60 * ns) dvd (v - t - 60 * ns)" using that(3) by (rule dvd_diff) simp
    ultimately show ?thesis by (simp add: algebra_simps)
  qed
  have bck: "(60 * ns) dvd (v - t)" if "(60 * ns) dvd (v - (t + 60 * ns))" for v
    using dvd_add [OF that dvd_refl] by (simp add: algebra_simps)
  show ?case
  proof (cases "t < lim \<and> \<not> cron_matches z c t")
    case True
    then have e: "cron_loop z c lim t = cron_loop z c lim (t + 60 * ns)" by (subst cron_loop.simps) simp
    have "0 < ns" by (simp add: ns_def)
    with 1 True show ?thesis unfolding e using nxt bck
      by (cases "cron_loop z c lim (t + 60 * ns)") (simp, metis, simp, smt (verit))
  next
    case False
    then show ?thesis by (subst cron_loop.simps) (auto simp: cron_loop.simps [of z c lim t])
  qed
qed

text \<open>The minutes after an instant are the grid the scan walks.\<close>

lemma grid_from:
  fixes P :: int
  assumes "0 < P" "b mod P = 0" "b \<le> a" "a < b + P"
  shows "a < v \<and> v mod P = 0 \<longleftrightarrow> b + P \<le> v \<and> P dvd (v - (b + P))"
proof -
  have g: "P dvd b + P" using assms(2) by (simp add: mod_eq_0_iff_dvd)
  have "P dvd (v - (b + P))" if "P dvd v" using dvd_diff [OF that g] .
  moreover have "P dvd v" if "P dvd (v - (b + P))" using dvd_add [OF that g] by simp
  ultimately have m: "v mod P = 0 \<longleftrightarrow> P dvd (v - (b + P))" by (auto simp only: mod_eq_0_iff_dvd)
  have "b + P \<le> v" if "a < v" "v mod P = 0"
  proof -
    from that(2) assms(2) have "P dvd v - b" by (intro dvd_diff) (simp_all only: mod_eq_0_iff_dvd)
    moreover have "0 < v - b" using that(1) assms(3) by simp
    ultimately have "P \<le> v - b" by (rule zdvd_imp_le)
    then show ?thesis by simp
  qed
  with m assms(4) show ?thesis by auto
qed

lemma minute_grid:
  "a < v \<and> v mod (60 * ns) = 0 \<longleftrightarrow>
   truncate_minute a + 60 * ns \<le> v \<and> (60 * ns) dvd (v - (truncate_minute a + 60 * ns))"
  by (rule grid_from) (use truncate_minute_bounds [of a] in \<open>simp_all add: ns_def\<close>)

lemma nextCron_later: "nextCron z expr a = Some (Inr (Some t)) \<Longrightarrow> a < t"
  using cron_loop_first [where z = z and lim = "AddDate z 2 0 0 a" and t = "truncate_minute a + 60 * ns"] truncate_minute_bounds(2) [of a]
  by (fastforce simp: nextCron_def split: option.splits)

section \<open>Fields of a cron expression\<close>

text \<open>What an element of a field denotes: the values of its range that are whole steps from its
  start.\<close>

definition cron_item :: "string \<Rightarrow> int \<Rightarrow> int \<Rightarrow> int \<Rightarrow> bool" where
  "cron_item p lo hi v \<longleftrightarrow>
     (case cron_step p of
        Inl _ \<Rightarrow> False
      | Inr (step, part) \<Rightarrow>
         (case cron_range part lo hi of
            Inl _ \<Rightarrow> False
          | Inr (start, fin) \<Rightarrow> start \<le> v \<and> v \<le> fin \<and> step dvd (v - start)))"

text \<open>No step leads past the largest integer.\<close>

definition small_steps :: "string \<Rightarrow> int \<Rightarrow> bool" where
  "small_steps f hi \<longleftrightarrow>
     list_all (\<lambda>p. case cron_step p of Inl _ \<Rightarrow> True | Inr (step, _) \<Rightarrow> hi + step \<le> max_int64) (Split CHR '','' f)"

lemma cron_step_pos: "cron_step p = Inr (step, part) \<Longrightarrow> 1 \<le> step"
  by (auto simp: cron_step_def split: option.splits prod.splits if_splits)

lemma cron_values_spec:
  "1 \<le> step \<Longrightarrow> fin + step \<le> max_int64 \<Longrightarrow> min_int64 \<le> v \<Longrightarrow>
   \<exists>ws. cron_values step fin v acc = Some (acc @ ws) \<and> set ws = {u. v \<le> u \<and> u \<le> fin \<and> step dvd (u - v)}"
proof (induction "nat (fin + 1 - v)" arbitrary: v acc rule: less_induct)
  case less
  show ?case
  proof (cases "v \<le> fin")
    case True
    with less.prems have w: "wrap64 (v + step) = v + step" by (intro wrap64_id) auto
    with less True obtain ws where
      e: "cron_values step fin (v + step) (acc @ [v]) = Some ((acc @ [v]) @ ws)" and
      ws: "set ws = {u. v + step \<le> u \<and> u \<le> fin \<and> step dvd (u - (v + step))}"
      using less.hyps [of "v + step" "acc @ [v]"] by auto
    have "{u. v \<le> u \<and> u \<le> fin \<and> step dvd (u - v)} = insert v (set ws)"
    proof -
      have "u = v \<or> v + step \<le> u" if "v \<le> u" "step dvd (u - v)" for u
        using that less.prems(1) zdvd_imp_le [of step "u - v"] by (cases "u = v") auto
      moreover have "step dvd (u - v) \<longleftrightarrow> step dvd (u - (v + step))" for u
        using dvd_diff [of step "u - v" step] dvd_add [of step "u - (v + step)" step] by (auto simp: algebra_simps)
      ultimately show ?thesis using True less.prems(1) unfolding ws by force
    qed
    with e w True show ?thesis 
      by (subst cron_values.simps) (intro exI [of _ "v # ws"], simp)
  next
    case False
    then show ?thesis by (subst cron_values.simps) auto
  qed
qed

lemma cron_part_spec:
  assumes "min_int64 \<le> lo" "\<And>step part. cron_step p = Inr (step, part) \<Longrightarrow> hi + step \<le> max_int64"
  shows "\<exists>r. cron_part p lo hi = Some r \<and>
    (\<forall>vs. r = Inr vs \<longrightarrow> set vs = {v. cron_item p lo hi v} \<and> (\<forall>v\<in>set vs. lo \<le> v \<and> v \<le> hi))"
proof (cases "cron_step p")
  case (Inr sp)
  obtain step part where sp: "cron_step p = Inr (step, part)" using Inr by (cases sp) auto
  show ?thesis
  proof (cases "cron_range part lo hi")
    case (Inr se)
    obtain start fin where se: "cron_range part lo hi = Inr (start, fin)" using Inr by (cases se) auto
    show ?thesis
    proof (cases "start < lo \<or> hi < fin \<or> fin < start")
      case False
      with cron_values_spec [of step fin start "[]"] cron_step_pos [OF sp] assms(1) assms(2) [OF sp]
      obtain ws where "cron_values step fin start [] = Some ws"
        "set ws = {u. start \<le> u \<and> u \<le> fin \<and> step dvd (u - start)}" by auto
      with False sp se show ?thesis by (auto simp: cron_part_def cron_item_def)
    qed (simp add: cron_part_def sp se)
  qed (simp add: cron_part_def sp)
qed (simp add: cron_part_def)

lemma cron_parts_spec:
  assumes "min_int64 \<le> lo"
    and "\<forall>p\<in>set ps. \<forall>step part. cron_step p = Inr (step, part) \<longrightarrow> hi + step \<le> max_int64"
  shows "\<exists>r. cron_parts ps lo hi = Some r \<and>
    (\<forall>vs. r = Inr vs \<longrightarrow> set vs = {v. \<exists>p\<in>set ps. cron_item p lo hi v} \<and> (\<forall>v\<in>set vs. lo \<le> v \<and> v \<le> hi))"
  using assms(2)
proof (induction ps)
  case (Cons p ps)
  then obtain r where r: "cron_parts ps lo hi = Some r"
    "\<forall>vs. r = Inr vs \<longrightarrow> set vs = {v. \<exists>p\<in>set ps. cron_item p lo hi v} \<and> (\<forall>v\<in>set vs. lo \<le> v \<and> v \<le> hi)"
    by auto
  obtain q where q: "cron_part p lo hi = Some q"
    "\<forall>vs. q = Inr vs \<longrightarrow> set vs = {v. cron_item p lo hi v} \<and> (\<forall>v\<in>set vs. lo \<le> v \<and> v \<le> hi)"
    using cron_part_spec [of lo p hi] assms(1) Cons.prems by auto
  show ?case
  proof (cases q)
    case (Inr vs)
    with q r show ?thesis by (cases r) auto
  qed (simp add: q)
qed simp

text \<open>A cron field denotes the union of its elements, each the values of its range at whole steps
  from its start, all of them in the field's bounds; \<open>cronField\<close> always answers. The steps must not
  lead past the largest integer.\<close>

lemma cron_field_values:
  assumes "min_int64 \<le> lo" "small_steps f hi"
  shows "\<exists>r. cronField f lo hi = Some r \<and>
    (\<forall>vs. r = Inr vs \<longrightarrow> set vs = {v. \<exists>p\<in>set (Split CHR '','' f). cron_item p lo hi v} \<and>
      (\<forall>v\<in>set vs. lo \<le> v \<and> v \<le> hi))"
  unfolding cronField_def using assms(2)
  by (intro cron_parts_spec [OF assms(1)]) (auto simp: small_steps_def list_all_iff)

lemma cron_field_values_witness:
  "\<exists>r. cronField ''5,10-30/7'' 0 59 = Some r \<and> (\<forall>vs. r = Inr vs \<longrightarrow> (\<forall>v\<in>set vs. 0 \<le> v \<and> v \<le> 59))"
proof -
  have "small_steps ''5,10-30/7'' 59" by code_simp
  from cron_field_values [OF _ this, of 0] show ?thesis by (auto simp: min_int64_def)
qed

lemma cron_example: "cronField ''5,10-30/7'' 0 59 = Some (Inr [5, 10, 17, 24])"
proof -
  have "Split CHR '','' ''5,10-30/7'' = [''5'', ''10-30/7'']" by code_simp
  moreover have "cron_step ''5'' = Inr (1, ''5'')" "cron_step ''10-30/7'' = Inr (7, ''10-30'')" by code_simp+
  moreover have "cron_range ''5'' 0 59 = Inr (5, 5)" "cron_range ''10-30'' 0 59 = Inr (10, 30)" by code_simp+
  ultimately show ?thesis by (simp add: cronField_def cron_part_def cron_values.simps wrap64_def)
qed

text \<open>A step near the largest integer wraps around to minutes nobody named.\<close>

lemma cron_step_wraps:
  "cronField ''2/9223372036854775807'' 0 59 = Some (Inr [2, - 9223372036854775807, 0])"
proof -
  have "Split CHR '','' ''2/9223372036854775807'' = [''2/9223372036854775807'']" by code_simp
  moreover have "cron_step ''2/9223372036854775807'' = Inr (9223372036854775807, ''2'')" by code_simp
  moreover have "cron_range ''2'' 0 59 = Inr (2, 2)" by code_simp
  ultimately show ?thesis by (simp add: cronField_def cron_part_def cron_values.simps wrap64_def)
qed

text \<open>C20. A cron expression that parses names the first matching whole minute after the given instant,
  and the error only where none of the next two years' minutes matches; in any location.\<close>

theorem next_cron_first:
  assumes "parse_cron expr = Some (Inr c)"
  shows "(\<exists>t. nextCron z expr a = Some (Inr (Some t)) \<and> a < t \<and> t < AddDate z 2 0 0 a \<and>
      t mod (60 * ns) = 0 \<and> cron_matches z c t \<and>
      (\<forall>v. a < v \<and> v < t \<and> v mod (60 * ns) = 0 \<longrightarrow> \<not> cron_matches z c v)) \<or>
    (nextCron z expr a = Some (Inl NoMatch) \<and>
      (\<forall>v. a < v \<and> v < AddDate z 2 0 0 a \<and> v mod (60 * ns) = 0 \<longrightarrow> \<not> cron_matches z c v))"
proof -
  define t0 where "t0 = truncate_minute a + 60 * ns"
  define lim where "lim = AddDate z 2 0 0 a"
  note g = minute_grid [of a, folded t0_def]
  note f = cron_loop_first [where z = z and c = c and lim = lim and t = t0]
  have n: "nextCron z expr a = Some (case cron_loop z c lim t0 of None \<Rightarrow> Inl NoMatch | Some t \<Rightarrow> Inr (Some t))"
    by (simp add: nextCron_def assms t0_def lim_def)
  show ?thesis
  proof (cases "cron_loop z c lim t0")
    case None
    from f have "\<forall>v. t0 \<le> v \<and> v < lim \<and> (60 * ns) dvd (v - t0) \<longrightarrow> \<not> cron_matches z c v"
      unfolding None option.case .
    then have "\<forall>v. a < v \<and> v < lim \<and> v mod (60 * ns) = 0 \<longrightarrow> \<not> cron_matches z c v"
      by (intro allI impI) (use g in metis)
    moreover have "nextCron z expr a = Some (Inl NoMatch)" using n None by (simp only: option.case)
    ultimately show ?thesis unfolding lim_def by (intro disjI2 conjI)
  next
    case (Some u)
    from f have u: "t0 \<le> u \<and> u < lim \<and> (60 * ns) dvd (u - t0) \<and> cron_matches z c u \<and>
        (\<forall>v. t0 \<le> v \<and> v < u \<and> (60 * ns) dvd (v - t0) \<longrightarrow> \<not> cron_matches z c v)"
      unfolding Some option.case .
    then have none: "\<forall>v. a < v \<and> v < u \<and> v mod (60 * ns) = 0 \<longrightarrow> \<not> cron_matches z c v"
      by (intro allI impI) (use g in metis)
    have grid: "a < u" "u mod (60 * ns) = 0" using g [of u] u by satx+
    have lt: "u < AddDate z 2 0 0 a" and match: "cron_matches z c u" using u unfolding lim_def by satx+
    have r: "nextCron z expr a = Some (Inr (Some u))" using n Some by (simp only: option.case)
    show ?thesis
      by (rule disjI1, rule exI, rule conjI [OF r conjI [OF grid(1) conjI [OF lt conjI [OF grid(2) conjI [OF match none]]]]])
  qed
qed

section \<open>The loops in a location with a fixed offset\<close>

abbreviation day :: int where "day \<equiv> 86400 * ns"

lemma day_pos: "0 < day" "0 < ns"
  by (simp_all add: ns_def)

lemma whole_seconds: "a div ns * ns \<le> a"
  using day_pos by (simp add: minus_mod_eq_div_mult [symmetric])

lemma next_congruent_cong: "c mod P = d mod P \<Longrightarrow> next_congruent P c a = next_congruent P d a"
  unfolding next_congruent_def by (metis mod_diff_cong)

lemma next_congruent_start:
  assumes "0 < P" "t \<le> a + P"
  shows "t \<le> next_congruent P t a" "\<exists>k\<ge>0. next_congruent P t a = t + k * P"
proof -
  note n = next_congruent [OF assms(1), where c = t and a = a]
  show le: "t \<le> next_congruent P t a"
  proof (cases "a < t")
    case True
    then show ?thesis using next_congruent_unique [OF assms(1) True assms(2) refl] by simp
  qed (use n(1) in simp)
  from n(3) have "P dvd next_congruent P t a - t" by (simp only: mod_eq_dvd_iff)
  then obtain k where k: "next_congruent P t a - t = P * k" by (elim dvdE)
  with le assms(1) have "0 \<le> k" by (metis diff_ge_0_iff_ge zero_le_mult_iff not_less)
  with k show "\<exists>k\<ge>0. next_congruent P t a = t + k * P" by (intro exI [of _ k]) (simp add: algebra_simps)
qed

lemma hourly_loop_closed: "t \<le> a + 3600 * ns \<Longrightarrow> hourly_loop a t = next_congruent (3600 * ns) t a"
proof (induction a t rule: hourly_loop.induct)
  case (1 a t)
  show ?case
  proof (cases "a < t")
    case True
    then show ?thesis using next_congruent_unique [of "3600 * ns" a t t] 1(2) day_pos
      by (subst hourly_loop.simps) simp
  next
    case False
    then have "hourly_loop a t = next_congruent (3600 * ns) (t + 3600 * ns) a"
      using 1 by (subst hourly_loop.simps) simp
    then show ?thesis using next_congruent_cong [of "t + 3600 * ns" "3600 * ns" t a] by simp
  qed
qed

lemma later_day: "z_changes z = [] \<Longrightarrow> 0 \<le> k \<Longrightarrow> wall_day z (t + k * day) = wall_day z t + k"
proof -
  assume z: "z_changes z = []"
  have "(t + k * day) div ns = t div ns + k * 86400"
    using div_mult_self1 [of ns t "k * 86400"] day_pos by (simp add: algebra_simps)
  then have "wall z (t + k * day) = wall z t + k * 86400" by (simp add: fixed_wall [OF z])
  then show ?thesis by (simp add: wall_day_def)
qed

lemma daily_loop_closed:
  assumes "z_changes z = []"
  shows "0 \<le> wall_day z t \<Longrightarrow> t \<le> a + day \<Longrightarrow> daily_loop z a t = Some (next_congruent day t a)"
proof (induction "nat (a + 1 - t)" arbitrary: t rule: less_induct)
  case less
  show ?case
  proof (cases "a < t")
    case True
    then show ?thesis using next_congruent_unique [of day a t t] less.prems day_pos
      by (subst daily_loop.simps) simp
  next
    case False
    have n: "AddDate z 0 0 1 t = t + day" using fixed_next_day [OF assms less.prems(1), of 1] by simp
    have "daily_loop z a (t + day) = Some (next_congruent day (t + day) a)"
      using less.hyps [of "t + day"] less.prems later_day [OF assms, of 1 t] False day_pos by simp
    with False n show ?thesis using next_congruent_cong [of "t + day" day t a]
      by (subst daily_loop.simps) simp
  qed
qed

lemma later_weekday:
  "z_changes z = [] \<Longrightarrow> 0 \<le> k \<Longrightarrow> Weekday z (t + k * day) = (Weekday z t + k) mod 7"
  unfolding Weekday_def weekday_of_def
  by (subst later_day, assumption+) (simp add: mod_add_right_eq ac_simps)

lemma next_congruent_coarser:
  assumes "0 < P" "0 < Q" "P dvd Q" "c mod P = t mod P" "t \<le> a + P"
  shows "t \<le> next_congruent Q c a"
proof (cases "a < t")
  case True
  note n = next_congruent [OF assms(2), where c = c and a = a]
  from n(3) have "next_congruent Q c a mod P = t mod P"
    using mod_mod_cancel [OF assms(3)] assms(4) by metis
  then have "next_congruent P t a \<le> next_congruent Q c a" using next_congruent(4) [OF assms(1) n(1)] by simp
  then show ?thesis using next_congruent_unique [OF assms(1) True assms(5) refl] by simp
next
  case False
  then show ?thesis using next_congruent(1) [OF assms(2), of a c] by simp
qed

text \<open>The day the weekday is due, from the day of \<open>t\<close>; the same for every day of the loop.\<close>

definition due_weekday :: "location \<Rightarrow> int \<Rightarrow> int \<Rightarrow> int" where
  "due_weekday z wd t = t + (wd - Weekday z t) * day"

lemma due_weekday_step:
  assumes "z_changes z = []"
  shows "due_weekday z wd (t + day) mod (7 * day) = due_weekday z wd t mod (7 * day)"
proof -
  have "0 \<le> Weekday z t \<and> Weekday z t < 7" by (simp add: Weekday_def weekday_of_def)
  moreover have "Weekday z (t + day) = (Weekday z t + 1) mod 7" using later_weekday [OF assms, of 1 t] by simp
  ultimately consider "Weekday z (t + day) = Weekday z t + 1" | "Weekday z (t + day) = Weekday z t - 6"
    by (cases "Weekday z t = 6") auto
  then show ?thesis
  proof cases
    case 2
    then have "due_weekday z wd (t + day) = due_weekday z wd t + 7 * day"
      by (simp only: due_weekday_def) (simp add: algebra_simps)
    then show ?thesis by simp
  next
    case 1
    have "due_weekday z wd (t + day) = due_weekday z wd t"
      by (simp only: due_weekday_def 1) (simp add: algebra_simps)
    then show ?thesis by simp
  qed
qed

lemma weekly_loop_closed:
  assumes z: "z_changes z = []" and wd: "0 \<le> wd" "wd < 7"
  shows "0 \<le> wall_day z t \<Longrightarrow> t \<le> next_congruent (7 * day) (due_weekday z wd t) a \<Longrightarrow>
    weekly_loop z wd a t = Some (next_congruent (7 * day) (due_weekday z wd t) a)"
proof (induction "nat (next_congruent (7 * day) (due_weekday z wd t) a - t)" arbitrary: t rule: less_induct)
  case less
  define g where "g = next_congruent (7 * day) (due_weekday z wd t) a"
  have P: "0 < 7 * day" using day_pos by simp
  have W: "0 \<le> Weekday z t" "Weekday z t < 7" by (simp_all add: Weekday_def weekday_of_def)
  note n = next_congruent [OF P, where c = "due_weekday z wd t" and a = a, folded g_def]
  show ?case
  proof (cases "Weekday z t = wd \<and> a < t")
    case True
    then have "due_weekday z wd t = t" by (simp add: due_weekday_def)
    with next_congruent_unique [OF P, of a t t] True less.prems(2) n(2) g_def have "t = g" by simp
    with True show ?thesis unfolding g_def by (subst weekly_loop.simps) simp
  next
    case False
    from n(3) have "7 * day dvd g - due_weekday z wd t" by (simp only: mod_eq_dvd_iff)
    then obtain k where "g - due_weekday z wd t = 7 * day * k" by (elim dvdE)
    then have k: "g = t + (wd - Weekday z t + 7 * k) * day" by (simp add: due_weekday_def algebra_simps)
    have "wd - Weekday z t + 7 * k \<noteq> 0"
    proof
      assume 0: "wd - Weekday z t + 7 * k = 0"
      then have "k = 0" using wd W by presburger
      with 0 k n(1) False show False by simp
    qed
    moreover have "0 \<le> (wd - Weekday z t + 7 * k) * day" using k less.prems(2) g_def by simp
    then have "0 \<le> wd - Weekday z t + 7 * k" using day_pos by (simp only: zero_le_mult_iff) simp
    ultimately have "1 * day \<le> (wd - Weekday z t + 7 * k) * day"
      using day_pos by (intro mult_right_mono) simp_all
    then have le: "t + day \<le> g" using k by simp
    have same: "next_congruent (7 * day) (due_weekday z wd (t + day)) a = g"
      unfolding g_def by (rule next_congruent_cong [OF due_weekday_step [OF z]])
    have "nat (g - (t + day)) < nat (g - t)" using le day_pos by simp
    moreover have "0 \<le> wall_day z (t + day)" using later_day [OF z, of 1 t] less.prems(1) by simp
    ultimately have "weekly_loop z wd a (t + day) = Some g"
      using less.hyps [of "t + day", unfolded same, folded g_def] le by blast
    moreover have "AddDate z 0 0 1 t = t + day" using fixed_next_day [OF z less.prems(1), of 1] by simp
    ultimately show ?thesis using False unfolding g_def by (subst weekly_loop.simps) simp
  qed
qed

section \<open>The closed forms\<close>

lemma parseHMS_range:
  "parseHMS e = Inr (hh, mm, sec) \<Longrightarrow> 0 \<le> hh \<and> hh < 24 \<and> 0 \<le> mm \<and> mm < 60 \<and> 0 \<le> sec \<and> sec < 60"
  by (auto simp: parseHMS_def Let_def in_range_def split: if_splits option.splits)

lemma parseHourly_range: "parseHourly e = Inr (mi, sec) \<Longrightarrow> 0 \<le> mi \<and> mi < 60 \<and> 0 \<le> sec \<and> sec < 60"
  by (auto simp: parseHourly_def Let_def in_range_def split: if_splits option.splits)

lemma weekday_range: "map_of weekdays d = Some wd \<Longrightarrow> 0 \<le> wd \<and> wd < 7"
  by (auto simp: weekdays_def split: if_splits)

text \<open>The instant of a second of the day of \<open>a\<close>.\<close>

definition on_day :: "location \<Rightarrow> int \<Rightarrow> int \<Rightarrow> int" where
  "on_day z a c = ((wall_day z a - epoch_days) * 86400 + c - z_initial z) * ns"

lemma on_day:
  assumes "z_changes z = []" "0 \<le> c" "c < 86400"
  shows "wall_day z (on_day z a c) = wall_day z a" "Weekday z (on_day z a c) = Weekday z a"
    "on_day z a c \<le> a + day"
proof -
  have "wall z (on_day z a c) = wall_day z a * 86400 + c"
    using day_pos(2) by (simp add: fixed_wall [OF assms(1)] on_day_def algebra_simps)
  then show w: "wall_day z (on_day z a c) = wall_day z a"
    using assms(2,3) by (simp add: wall_day_def)
  then show "Weekday z (on_day z a c) = Weekday z a" by (simp add: Weekday_def)
  have "wall_day z a * 86400 \<le> wall z a" by (simp add: wall_day_def minus_mod_eq_div_mult [symmetric])
  then have "(wall_day z a - epoch_days) * 86400 + c - z_initial z \<le> a div ns + 86400"
    using assms(3) by (simp add: fixed_wall [OF assms(1)])
  then have "on_day z a c \<le> (a div ns + 86400) * ns"
    unfolding on_day_def using day_pos by (intro mult_right_mono) simp_all
  also have "\<dots> \<le> a + day" using whole_seconds [of a] by (simp add: algebra_simps)
  finally show "on_day z a c \<le> a + day" .
qed

text \<open>The day of \<open>a\<close> does not matter for the residue: days since 1970, a Thursday.\<close>

lemma on_day_residue:
  "on_day z a c mod day = (c - z_initial z) * ns mod day"
  "due_weekday z wd (on_day z a c) mod (7 * day) = ((wd - Weekday z (on_day z a c) + wall_day z a - epoch_days) * day + (c - z_initial z) * ns) mod (7 * day)"
proof -
  have e: "on_day z a c = (c - z_initial z) * ns + (wall_day z a - epoch_days) * day"
    by (simp add: on_day_def algebra_simps)
  show "on_day z a c mod day = (c - z_initial z) * ns mod day" unfolding e by (rule mod_mult_self1)
  show "due_weekday z wd (on_day z a c) mod (7 * day) = ((wd - Weekday z (on_day z a c) + wall_day z a - epoch_days) * day +
      (c - z_initial z) * ns) mod (7 * day)"
    unfolding due_weekday_def by (rule arg_cong [of _ _ "\<lambda>x. x mod (7 * day)"]) (simp add: on_day_def algebra_simps)
qed

lemma due_residue:
  assumes "z_changes z = []" "0 \<le> c" "c < 86400"
  shows "due_weekday z wd (on_day z a c) mod (7 * day) =
    ((wd - 4) * day + (c - z_initial z) * ns) mod (7 * day)"
proof -
  have w: "Weekday z (on_day z a c) = (wall_day z a + 1) mod 7"
    using on_day(2) [OF assms] by (simp add: Weekday_def weekday_of_def)
  define q where "q = (wall_day z a + 1) div 7"
  define r where "r = (wall_day z a + 1) mod 7"
  have "wall_day z a + 1 = 7 * q + r" by (simp add: q_def r_def)
  then have "wd - Weekday z (on_day z a c) + wall_day z a - epoch_days = wd - 4 + 7 * (q - 102737)"
    unfolding w r_def [symmetric] epoch_days_def by simp
  then have "(wd - Weekday z (on_day z a c) + wall_day z a - epoch_days) * day + (c - z_initial z) * ns =
      ((wd - 4) * day + (c - z_initial z) * ns) + (q - 102737) * (7 * day)"
    by (simp only:) (simp add: algebra_simps)
  then show ?thesis unfolding on_day_residue(2) by (simp only: mod_mult_self1)
qed

lemma hour_start:
  assumes "z_changes z = []" "c < 3600"
  shows "on_day z a (wall_hour z a * 3600 + c) \<le> a + 3600 * ns"
proof -
  have "0 \<le> wall_minute z a * 60" "0 \<le> wall_second z a"
    by (simp_all add: wall_minute_def wall_second_def pos_imp_zdiv_nonneg_iff)
  then have "(wall_day z a - epoch_days) * 86400 + (wall_hour z a * 3600 + c) - z_initial z \<le> a div ns + 3600"
    using wall_fields [of z a] fixed_wall [OF assms(1), of a] assms(2) by simp
  then have "on_day z a (wall_hour z a * 3600 + c) \<le> (a div ns + 3600) * ns"
    unfolding on_day_def using day_pos by (intro mult_right_mono) simp_all
  also have "\<dots> \<le> a + 3600 * ns"
    using whole_seconds [of a] by (simp add: algebra_simps)
  finally show ?thesis .
qed

lemma hour_residue:
  "on_day z a (wall_hour z a * 3600 + c) mod (3600 * ns) = (c - z_initial z) * ns mod (3600 * ns)"
proof -
  have "on_day z a (wall_hour z a * 3600 + c) =
      (c - z_initial z) * ns + ((wall_day z a - epoch_days) * 24 + wall_hour z a) * (3600 * ns)"
    by (simp add: on_day_def algebra_simps)
  then show ?thesis by (simp only: mod_mult_self1)
qed

lemma on_day_Date:
  assumes "z_changes z = []" "0 \<le> wall_day z a" "date_of (wall_day z a) = (y, m, d)"
  shows "Date z y m d h mi sec 0 = on_day z a (h * 3600 + mi * 60 + sec)"
  unfolding on_day_def fixed_on_day [OF assms] by (simp add: algebra_simps)

lemma clock_range: "parseHMS e = Inr (hh, mm, sec) \<Longrightarrow> 0 \<le> hh * 3600 + mm * 60 + sec \<and> hh * 3600 + mm * 60 + sec < 86400"
  using parseHMS_range [of e hh mm sec] by simp

lemma hourly_next:
  assumes "z_changes z = []" "0 \<le> wall_day z a" "date_of (wall_day z a) = (y, m, d)"
    "parseHourly e = Inr (mi, sec)"
  shows "hourly_loop a (Date z y m d (wall_hour z a) mi sec 0) =
    next_congruent (3600 * ns) ((mi * 60 + sec - z_initial z) * ns) a"
proof -
  from parseHourly_range [OF assms(4)] have "mi * 60 + sec < 3600" by simp
  with hourly_loop_closed [OF hour_start [OF assms(1)]] show ?thesis
    using next_congruent_cong [OF hour_residue] by (simp add: on_day_Date [OF assms(1-3)] add.assoc)
qed

lemma daily_next:
  assumes "z_changes z = []" "0 \<le> wall_day z a" "date_of (wall_day z a) = (y, m, d)"
    "parseHMS e = Inr (hh, mm, sec)"
  shows "daily_loop z a (Date z y m d hh mm sec 0) =
    Some (next_congruent day ((hh * 3600 + mm * 60 + sec - z_initial z) * ns) a)"
  unfolding on_day_Date [OF assms(1-3)]
  using daily_loop_closed [OF assms(1)] on_day [OF assms(1)] clock_range [OF assms(4)] assms(2)
    next_congruent_cong [OF on_day_residue(1)] by simp

lemma weekly_next:
  assumes "z_changes z = []" "0 \<le> wall_day z a" "date_of (wall_day z a) = (y, m, d)"
    "parseHMS e = Inr (hh, mm, sec)" "map_of weekdays dd = Some wd"
  shows "weekly_loop z wd a (Date z y m d hh mm sec 0) =
    Some (next_congruent (7 * day) ((wd - 4) * day + (hh * 3600 + mm * 60 + sec - z_initial z) * ns) a)"
proof -
  define t where "t = on_day z a (hh * 3600 + mm * 60 + sec)"
  note c = clock_range [OF assms(4)]
  have same: "next_congruent (7 * day) (due_weekday z wd t) a =
      next_congruent (7 * day) ((wd - 4) * day + (hh * 3600 + mm * 60 + sec - z_initial z) * ns) a"
    unfolding t_def by (rule next_congruent_cong, rule due_residue) (use assms(1) c in simp_all)
  have "due_weekday z wd t mod day = t mod day" by (simp only: due_weekday_def mod_mult_self1)
  moreover have "t \<le> a + day" using on_day(3) [OF assms(1)] c t_def by simp
  ultimately have le: "t \<le> next_congruent (7 * day) (due_weekday z wd t) a"
    using day_pos by (intro next_congruent_coarser [where P = day]) simp_all
  have "0 \<le> wall_day z t" unfolding t_def using on_day(1) [OF assms(1)] c assms(2) by simp
  with weekday_range [OF assms(5)] have "weekly_loop z wd a t = Some (next_congruent (7 * day) (due_weekday z wd t) a)"
    by (intro weekly_loop_closed [OF assms(1) _ _ _ le]) simp_all
  then have "weekly_loop z wd a t =
      Some (next_congruent (7 * day) ((wd - 4) * day + (hh * 3600 + mm * 60 + sec - z_initial z) * ns) a)"
    by (simp only: same)
  then show ?thesis unfolding on_day_Date [OF assms(1-3)] t_def .
qed

text \<open>C19. In a location with a fixed offset the hourly, daily and weekly runs are the first instants
  after the given one at which the wall clock shows the minute and second, the time of day, or
  the time of day on the weekday that the expression names: the loops over calendar dates end,
  and end in the next instant of a residue class.\<close>

theorem next_run_closed_form:
  assumes "zones (sch_timezone s) = Some z" "z_changes z = []" "0 \<le> wall_day z a"
  shows "(\<forall>mi sec. sch_type s = ''hourly'' \<and> parseHourly (TrimSpace (sch_expr s)) = Inr (mi, sec) \<longrightarrow>
      NextRun zones s a = Some (Inr (Some (next_congruent (3600 * ns) ((mi * 60 + sec - z_initial z) * ns) a)))) \<and>
    (\<forall>hh mm sec. sch_type s = ''daily'' \<and> parseHMS (TrimSpace (sch_expr s)) = Inr (hh, mm, sec) \<longrightarrow>
      NextRun zones s a = Some (Inr (Some
        (next_congruent day ((hh * 3600 + mm * 60 + sec - z_initial z) * ns) a)))) \<and>
    (\<forall>d clock wd hh mm sec. sch_type s = ''weekly'' \<and> Fields (TrimSpace (sch_expr s)) = [d, clock] \<and>
        map_of weekdays (ToUpper d) = Some wd \<and> parseHMS clock = Inr (hh, mm, sec) \<longrightarrow>
      NextRun zones s a = Some (Inr (Some
        (next_congruent (7 * day) ((wd - 4) * day + (hh * 3600 + mm * 60 + sec - z_initial z) * ns) a))))"
proof -
  obtain y m d where D: "date_of (wall_day z a) = (y, m, d)" by (metis surj_pair)
  note next_run = hourly_next [OF assms(2,3) D] daily_next [OF assms(2,3) D] weekly_next [OF assms(2,3) D]
  show ?thesis
  proof (intro conjI allI impI; elim conjE)
    fix mi sec assume "sch_type s = ''hourly''" and p: "parseHourly (TrimSpace (sch_expr s)) = Inr (mi, sec)"
    then show "NextRun zones s a = Some (Inr (Some (next_congruent (3600 * ns) ((mi * 60 + sec - z_initial z) * ns) a)))"
      using next_run(1) [OF p] by (simp add: NextRun_def D assms(1))
  next
    fix hh mm sec assume "sch_type s = ''daily''" and p: "parseHMS (TrimSpace (sch_expr s)) = Inr (hh, mm, sec)"
    then show "NextRun zones s a = Some (Inr (Some
        (next_congruent day ((hh * 3600 + mm * 60 + sec - z_initial z) * ns) a)))"
      using next_run(2) [OF p] by (simp add: NextRun_def D assms(1) run_at_def)
  next
    fix d clock wd hh mm sec
    assume "sch_type s = ''weekly''" "Fields (TrimSpace (sch_expr s)) = [d, clock]"
      and w: "map_of weekdays (ToUpper d) = Some wd" and p: "parseHMS clock = Inr (hh, mm, sec)"
    then show "NextRun zones s a = Some (Inr (Some
        (next_congruent (7 * day) ((wd - 4) * day + (hh * 3600 + mm * 60 + sec - z_initial z) * ns) a)))"
      using next_run(3) [OF p w] by (simp add: NextRun_def D assms(1) run_at_def)
  qed
qed

lemma next_run_closed_form_witness:
  "NextRun (\<lambda>_. Some UTC) (schedule_of ''daily'' ''04:00'') 0 =
    Some (Inr (Some (14400 * ns)))"
proof -
  have e: "parseHMS (TrimSpace ''04:00'') = Inr (4, 0, 0)" by code_simp
  have w: "0 \<le> wall_day UTC 0" "z_changes UTC = []" by code_simp+
  have "next_congruent day ((4 * 3600 + 0 * 60 + 0 - z_initial UTC) * ns) 0 = 14400 * ns" by code_simp
  with e w show ?thesis
    using next_run_closed_form [of "\<lambda>_. Some UTC" "schedule_of ''daily'' ''04:00''" UTC 0,
      THEN conjunct2, THEN conjunct1, rule_format, of 4 0 0] by (simp only: schedule_of)
qed

section \<open>Every schedule moves forward\<close>

text \<open>Whatever the type, the time zone and the expression, the next run is later than the instant
  it is asked for; for a fixed interval as long as its nanoseconds fit in 64 bits.\<close>

lemma next_run_is_later:
  assumes "NextRun zones s a = Some (Inr (Some t))"
    and "\<forall>sec. sch_type s = ''fixed_interval'' \<and> Atoi (TrimSpace (sch_expr s)) = Some sec \<longrightarrow> sec * ns \<le> max_int64"
  shows "a < t"
proof -
  obtain z where z: "(case zones (sch_timezone s) of Some z \<Rightarrow> z | None \<Rightarrow> UTC) = z" by blast
  obtain y m d where D: "date_of (wall_day z a) = (y, m, d)" by (metis surj_pair)
  note run = assms(1) [unfolded NextRun_def Let_def z D prod.case run_at_def]
  have w: "wrap64 (sec * ns) = sec * ns" if "60 \<le> sec" "sec * ns \<le> max_int64" for sec
    using that by (intro wrap64_id) (simp_all add: min_int64_def ns_def)
  consider "sch_type s = ''once''" | "sch_type s = ''hourly''" | "sch_type s = ''daily''"
    | "sch_type s = ''weekly''" | "sch_type s = ''monthly''" | "sch_type s = ''fixed_interval''"
    | "sch_type s = ''advanced_cron''" using run by (auto split: if_splits)
  then show ?thesis
  proof cases
    case 1 with run show ?thesis by (simp split: option.splits if_splits)
  next
    case 2 with run show ?thesis by (auto simp: hourly_loop_later split: sum.splits)
  next
    case 3 with run show ?thesis by (auto dest: daily_loop_later split: sum.splits)
  next
    case 4 with run show ?thesis
      by (auto dest: weekly_loop_later split: sum.splits list.splits option.splits)
  next
    case 5 with run show ?thesis
      by (auto dest: monthly_loop_later split: sum.splits list.splits option.splits if_splits)
  next
    case 6
    with run obtain sec where "Atoi (TrimSpace (sch_expr s)) = Some sec" "60 \<le> sec" "t = a + wrap64 (sec * ns)"
      by (auto split: option.splits if_splits)
    with 6 assms(2) w show ?thesis by (simp add: ns_def)
  next
    case 7 with run show ?thesis by (auto dest: nextCron_later)
  qed
qed

lemma next_run_is_later_witness:
  "NextRun (\<lambda>_. None) (schedule_of ''fixed_interval'' ''90'') 7 =
    Some (Inr (Some 90000000007)) \<and> (7::int) < 90000000007"
proof -
  have a: "Atoi (TrimSpace ''90'') = Some 90" by code_simp
  then have r: "NextRun (\<lambda>_. None) (schedule_of ''fixed_interval'' ''90'') 7 = Some (Inr (Some 90000000007))"
    by (simp add: NextRun_def ns_def wrap64_def split: prod.splits)
  show ?thesis using next_run_is_later [OF r] a r by (simp add: ns_def max_int64_def)
qed

text \<open>An interval of three centuries wraps around: the next run is in the past.\<close>

lemma long_interval_wraps:
  "NextRun (\<lambda>_. None) (schedule_of ''fixed_interval'' ''9300000000'') 0 =
    Some (Inr (Some (- 9146744073709551616)))"
proof -
  have "Atoi (TrimSpace ''9300000000'') = Some 9300000000" by code_simp
  then show ?thesis by (simp add: NextRun_def ns_def wrap64_def split: prod.splits)
qed

lemma next_cron_first_witness:
  "(\<exists>t. nextCron UTC ''*/30 4 * * 1'' 0 = Some (Inr (Some t)) \<and> 0 < t) \<or>
   nextCron UTC ''*/30 4 * * 1'' 0 = Some (Inl NoMatch)"
proof -
  have f: "Fields ''*/30 4 * * 1'' = [''*/30'', ''4'', ''*'', ''*'', ''1'']" by code_simp
  have s: "Split CHR '','' ''*/30'' = [''*/30'']" "Split CHR '','' ''4'' = [''4'']"
    "Split CHR '','' ''*'' = [''*'']" "Split CHR '','' ''1'' = [''1'']" by code_simp+
  have st: "cron_step ''*/30'' = Inr (30, ''*'')" "cron_step ''4'' = Inr (1, ''4'')"
    "cron_step ''*'' = Inr (1, ''*'')" "cron_step ''1'' = Inr (1, ''1'')" by code_simp+
  have r: "cron_range ''4'' 0 23 = Inr (4, 4)" "cron_range ''1'' 0 6 = Inr (1, 1)"
    "cron_range ''*'' 0 59 = Inr (0, 59)" "cron_range ''*'' 1 31 = Inr (1, 31)"
    "cron_range ''*'' 1 12 = Inr (1, 12)" by code_simp+
  have "\<exists>c. parse_cron ''*/30 4 * * 1'' = Some (Inr c)"
    by (simp add: parse_cron_def f cronField_def s cron_part_def st r cron_values.simps wrap64_def)
  then obtain c where "parse_cron ''*/30 4 * * 1'' = Some (Inr c)" by blast
  from next_cron_first [OF this, where z = UTC and a = 0] show ?thesis by blast
qed

section \<open>The last days of a month\<close>

text \<open>A monthly schedule on day 31 that ran on 31 January 2026 runs next on 31 August: the loop
  takes 31 February for 3 March, then goes on from March, so that 31 March, May and July, which
  all exist, are passed over.\<close>

lemma monthly_skips_months:
  "NextRun (\<lambda>_. Some UTC) (schedule_of ''monthly'' ''31 04:00'') (1769832000 * ns) =
    Some (Inr (Some (1788148800 * ns))) \<and>
   Date UTC 2026 8 31 4 0 0 0 = 1788148800 * ns \<and>
   1769832000 * ns < Date UTC 2026 3 31 4 0 0 0 \<and> Date UTC 2026 3 31 4 0 0 0 < 1788148800 * ns \<and>
   Day UTC (Date UTC 2026 3 31 4 0 0 0) = 31 \<and> wall_hour UTC (Date UTC 2026 3 31 4 0 0 0) = 4"
proof -
  have p: "Fields (TrimSpace ''31 04:00'') = [''31'', ''04:00'']" "Atoi ''31'' = Some 31"
    "parseHMS ''04:00'' = Inr (4, 0, 0)" by code_simp+
  have d: "date_of (wall_day UTC (1769832000 * ns)) = (2026, 1, 31)" by code_simp
  have t: "Date UTC 2026 1 31 4 0 0 0 = 1769832000 * ns" "Date UTC 2026 2 31 4 0 0 0 = 1772510400 * ns"
    "Date UTC 2026 4 31 4 0 0 0 = 1777608000 * ns" "Date UTC 2026 6 31 4 0 0 0 = 1782878400 * ns"
    "Date UTC 2026 8 31 4 0 0 0 = 1788148800 * ns" by code_simp+
  have w: "date_of (wall_day UTC (1772510400 * ns)) = (2026, 3, 3)"
    "date_of (wall_day UTC (1777608000 * ns)) = (2026, 5, 1)"
    "date_of (wall_day UTC (1782878400 * ns)) = (2026, 7, 1)"
    "date_of (wall_day UTC (1788148800 * ns)) = (2026, 8, 31)" by code_simp+
  have "monthly_loop UTC 31 4 0 0 (1769832000 * ns) (1769832000 * ns) = Some (1788148800 * ns)"
    by (simp add: monthly_loop.simps d t w Day_def)
      (simp add: ns_def)
  then show ?thesis
    by (intro conjI) (simp add: NextRun_def d p t in_range_def run_at_def, code_simp+)
qed

end
