(* ===== verification/SchedulerProperties.thy ===== *)
theory SchedulerProperties
  imports SchedulerRun ScheduleProperties
begin

text \<open>
  The scheduler: a planned time is launched by the tick at most once, nothing stays due after a
  tick, policies keep actions from a server that cannot take them, and what the history shows.
\<close>

section \<open>Rows of the run table\<close>

definition run_keys :: "sched_db \<Rightarrow> (int \<times> int) set" where
  "run_keys db = run_key ` set (sd_runs db)"

lemma insert_run_Some:
  "insert_run r db = Some db' \<Longrightarrow>
   run_key r \<notin> run_keys db \<and> run_keys db' = insert (run_key r) (run_keys db) \<and> sd_schedules db' = sd_schedules db"
  by (auto simp: insert_run_def run_keys_def list_ex_iff split: if_splits)

lemma update_run_keys [simp]:
  assumes "\<And>r. run_key (f r) = run_key r"
  shows "run_keys (update_run k f db) = run_keys db"
proof -
  have "run_key ` (\<lambda>r. if run_key r = k then f r else r) ` set (sd_runs db) = run_key ` set (sd_runs db)"
    unfolding image_image by (rule image_cong) (simp_all add: assms)
  then show ?thesis by (simp add: update_run_def run_keys_def)
qed

lemma update_run_schedules [simp]: "sd_schedules (update_run k f db) = sd_schedules db"
  by (simp add: update_run_def)

lemma update_schedule_keys [simp]:
  "run_keys (update_schedule i f db) = run_keys db" "sd_runs (update_schedule i f db) = sd_runs db"
  by (simp_all add: update_schedule_def run_keys_def)

lemma recordRun_keys: "run_keys db \<subseteq> run_keys (recordRun s planned status detail nw db)"
  by (auto simp: recordRun_def Let_def dest: insert_run_Some split: option.splits)

lemma execute_keys: "execute x s planned cancel t db = (db', cs, re) \<Longrightarrow> run_keys db \<subseteq> run_keys db'"
proof -
  define db0 where "db0 = update_run (lease_key s planned)
    (\<lambda>r. r\<lparr>run_status := ''running'', run_started := Some (t div ns)\<rparr>) db"
  have k: "run_keys db0 = run_keys db" unfolding db0_def by simp
  assume "execute x s planned cancel t db = (db', cs, re)"
  then obtain st d u where "db' = recordRun s planned st d u db0"
    unfolding execute_def Let_def db0_def [symmetric]
    by (auto split: if_splits option.splits prod.splits)
  with recordRun_keys k show ?thesis by blast
qed

lemma advance_keys: "advance zones s a db = Some db' \<Longrightarrow> run_keys db' = run_keys db"
  by (auto simp: advance_def Let_def split: option.splits)

section \<open>One launch per planned time\<close>

text \<open>What happens to the schedule tables while the program runs: ticks of any number of processes
  at any times, executions that record their outcome, edits of schedules. Deleting a schedule
  deletes its runs with it and is left out.\<close>

datatype sched_event =
    ETick int
  | EExecute executor schedule int "int option" int
  | ERunNow executor schedule int
  | ECreate schedule int
  | EUpdate schedule int

definition sched_event_step ::
  "(string \<Rightarrow> location option) \<Rightarrow> sched_db \<times> launches \<Rightarrow> sched_event \<Rightarrow> sched_db \<times> launches" where
  "sched_event_step zones st e =
     (let (db, started) = st in
      case e of
        ETick nw \<Rightarrow>
          (case tick zones nw db of None \<Rightarrow> st | Some (db', fresh) \<Rightarrow> (db', started @ fresh))
      | EExecute x s planned cancel t \<Rightarrow> (fst (execute x s planned cancel t db), started)
      | ERunNow x s nw \<Rightarrow> (fst (RunNow x s nw db), started)
      | ECreate s nw \<Rightarrow> (case Create zones s nw db of Some (Inr (_, db')) \<Rightarrow> (db', started) | _ \<Rightarrow> st)
      | EUpdate s nw \<Rightarrow> (case Update zones s nw db of Some (Inr db') \<Rightarrow> (db', started) | _ \<Rightarrow> st))"

definition launch_keys :: "launches \<Rightarrow> (int \<times> int) list" where
  "launch_keys l = map (\<lambda>(s, p). lease_key s p) l"

lemma launch_keys_append [simp]: "launch_keys (l @ l') = launch_keys l @ launch_keys l'"
  by (simp add: launch_keys_def)

definition launched_once :: "sched_db \<times> launches \<Rightarrow> bool" where
  "launched_once st \<longleftrightarrow> distinct (launch_keys (snd st)) \<and> set (launch_keys (snd st)) \<subseteq> run_keys (fst st)"

lemma lease_cases:
  "lease s planned db = (db', ok) \<Longrightarrow>
   (ok \<longrightarrow> lease_key s planned \<notin> run_keys db \<and> run_keys db' = insert (lease_key s planned) (run_keys db)) \<and>
   (\<not> ok \<longrightarrow> db' = db)"
  by (auto simp: lease_def dest: insert_run_Some split: option.splits)

text \<open>A tick adds launches whose keys were free before it and are taken after it.\<close>

definition fresh_launches :: "sched_db \<Rightarrow> sched_db \<times> launches \<Rightarrow> bool" where
  "fresh_launches db0 st \<longleftrightarrow>
     distinct (launch_keys (snd st)) \<and> set (launch_keys (snd st)) \<inter> run_keys db0 = {} \<and>
     run_keys (fst st) = run_keys db0 \<union> set (launch_keys (snd st))"

lemma tick_one_fresh:
  assumes "tick_one zones nw s st = Some st'" "fresh_launches db0 st"
  shows "fresh_launches db0 st'"
proof (cases "due nw s")
  case True
  obtain db l where st: "st = (db, l)" by (cases st)
  obtain db1 ok where L: "lease s (planned_of s) db = (db1, ok)" by (cases "lease s (planned_of s) db")
  from assms(1) True st L obtain db2 where A: "advance zones s nw db1 = Some db2" and
    st': "st' = (db2, if ok then l @ [(s, planned_of s)] else l)"
    by (auto simp: tick_one_def Let_def split: if_splits)
  from assms(2) lease_cases [OF L] advance_keys [OF A] show ?thesis
    unfolding st st' fresh_launches_def launch_keys_def by (cases ok) auto
qed (use assms in \<open>simp add: tick_one_def\<close>)

lemma opt_fold_preserves:
  assumes "opt_fold f xs s = Some s'" "P s" "\<And>x s s'. x \<in> set xs \<Longrightarrow> f x s = Some s' \<Longrightarrow> P s \<Longrightarrow> P s'"
  shows "P s'"
  using assms by (induction f xs s rule: opt_fold.induct) (auto split: option.splits)

lemma tick_fresh: "tick zones nw db = Some st \<Longrightarrow> fresh_launches db st"
  unfolding tick_def
  by (erule opt_fold_preserves) (auto simp: fresh_launches_def [of db "(db, [])"] launch_keys_def intro: tick_one_fresh)

interpretation launches: invariant_machine "sched_event_step zones" launched_once for zones
proof
  fix st e assume inv: "launched_once st"
  obtain db l where st: "st = (db, l)" by (cases st)
  show "launched_once (sched_event_step zones st e)"
  proof (cases e)
    case (ETick nw)
    show ?thesis
    proof (cases "tick zones nw db")
      case (Some r)
      obtain db' fresh where r: "r = (db', fresh)" by (cases r)
      from tick_fresh [OF Some] inv have "launched_once (db', l @ fresh)"
        unfolding r st fresh_launches_def launched_once_def by auto
      with Some r st ETick show ?thesis by (simp add: sched_event_step_def)
    qed (use inv st ETick in \<open>simp add: sched_event_step_def\<close>)
  next
    case (EExecute x s planned cancel t)
    obtain db' cs re where X: "execute x s planned cancel t db = (db', cs, re)"
      by (metis prod.exhaust)
    from execute_keys [OF X] inv X EExecute st show ?thesis
      by (auto simp: sched_event_step_def launched_once_def)
  next
    case (ERunNow x s nw)
    have "\<exists>st d u. fst (RunNow x s nw db) = recordRun s nw st d u db"
      by (auto simp: RunNow_def split: prod.splits option.splits)
    with recordRun_keys have "run_keys db \<subseteq> run_keys (fst (RunNow x s nw db))" by metis
    with inv ERunNow st show ?thesis by (auto simp: sched_event_step_def launched_once_def)
  next
    case (ECreate s nw)
    have "run_keys db' = run_keys db" if "Create zones s nw db = Some (Inr (x, db'))" for x db'
      using that by (auto simp: Create_def Let_def run_keys_def split: option.splits sum.splits if_splits)
    with inv ECreate st show ?thesis
      by (auto simp: sched_event_step_def launched_once_def split: option.splits sum.splits)
  next
    case (EUpdate s nw)
    have "run_keys db' = run_keys db" if "Update zones s nw db = Some (Inr db')" for db'
      using that by (auto simp: Update_def split: option.splits sum.splits if_splits)
    with inv EUpdate st show ?thesis
      by (auto simp: sched_event_step_def launched_once_def split: option.splits sum.splits)
  qed
qed

text \<open>C21. However often and by how many processes the due schedules are polled, whatever finishes,
  fails or is edited between, no schedule is launched twice for the same planned second.\<close>

theorem launched_at_most_once:
  "distinct (launch_keys (snd (foldl (sched_event_step zones) (db, []) es)))"
proof -
  have "launched_once (db, [])" by (simp add: launched_once_def launch_keys_def)
  from launches.run_keeps [OF this] show ?thesis unfolding launched_once_def by blast
qed

section \<open>Nothing stays due\<close>

lemma Date_whole: "Date z y mo d h mi s 0 mod ns = 0"
  by (simp add: Date_def)

lemma AddDate_sub: "AddDate z dy dm dd t mod ns = t mod ns"
  by (simp add: AddDate_def Date_def split: prod.splits)

lemma hourly_loop_whole: "t mod ns = 0 \<Longrightarrow> hourly_loop a t mod ns = 0"
proof (induction a t rule: hourly_loop.induct)
  case (1 a t)
  then show ?case by (subst hourly_loop.simps) simp
qed

lemma daily_loop_whole: "daily_loop z a t = Some u \<Longrightarrow> u mod ns = t mod ns"
  by (rule daily_loop.raw_induct [of "\<lambda>z a t u. u mod ns = t mod ns"])
    (auto simp: AddDate_sub split: if_splits)

lemma weekly_loop_whole: "weekly_loop z wd a t = Some u \<Longrightarrow> u mod ns = t mod ns"
  by (rule weekly_loop.raw_induct [of "\<lambda>z wd a t u. u mod ns = t mod ns"])
    (auto simp: AddDate_sub split: if_splits)

lemma monthly_loop_whole: "monthly_loop z dd hh mm sec a t = Some u \<Longrightarrow> t mod ns = 0 \<longrightarrow> u mod ns = 0"
  by (rule monthly_loop.raw_induct [of "\<lambda>z dd hh mm sec a t u. t mod ns = 0 \<longrightarrow> u mod ns = 0"])
    (auto simp: Date_whole split: if_splits prod.splits)

lemma minute_whole: "u mod (60 * ns) = 0 \<Longrightarrow> u mod ns = 0"
  by (metis dvd_triv_right mod_mod_cancel mod_0)

lemma nextCron_whole:
  assumes "nextCron z expr a = Some (Inr (Some t))" shows "a < t \<and> t mod ns = 0"
proof -
  from assms obtain c where u: "cron_loop z c (AddDate z 2 0 0 a) (truncate_minute a + 60 * ns) = Some t"
    by (auto simp: nextCron_def split: option.splits)
  from cron_loop_first [where z = z and c = c and lim = "AddDate z 2 0 0 a" and t = "truncate_minute a + 60 * ns"]
  have "truncate_minute a + 60 * ns \<le> t" "(60 * ns) dvd (t - (truncate_minute a + 60 * ns))"
    unfolding u option.case by blast+
  with minute_grid [of a t] have "a < t \<and> t mod (60 * ns) = 0" by satx
  then show ?thesis using minute_whole [of t] by simp
qed

text \<open>The schedules whose next run lies after the instant asked for also at the whole second at which
  it is stored: all but single runs at a fraction of a second and intervals that overflow.\<close>

definition stored_later :: "(string \<Rightarrow> location option) \<Rightarrow> schedule \<Rightarrow> bool" where
  "stored_later zones s \<longleftrightarrow>
     (sch_type s = ''once'' \<longrightarrow>
      (case parse_once (case zones (sch_timezone s) of Some z \<Rightarrow> z | None \<Rightarrow> UTC) (TrimSpace (sch_expr s)) of
         None \<Rightarrow> True | Some t \<Rightarrow> t mod ns = 0)) \<and>
     (sch_type s = ''fixed_interval'' \<longrightarrow>
      (case Atoi (TrimSpace (sch_expr s)) of None \<Rightarrow> True | Some sec \<Rightarrow> sec * ns \<le> max_int64))"

lemma whole_later: "nw < t \<Longrightarrow> t mod ns = 0 \<Longrightarrow> nw < t div ns * ns"
  by (simp add: minus_mod_eq_div_mult [symmetric])

lemma next_run_whole:
  assumes "NextRun zones s a = Some (Inr (Some t))" "stored_later zones s"
  shows "a < t div ns * ns"
proof -
  obtain z where z: "(case zones (sch_timezone s) of Some z \<Rightarrow> z | None \<Rightarrow> UTC) = z" by blast
  obtain y m d where D: "date_of (wall_day z a) = (y, m, d)" by (metis surj_pair)
  note run = assms(1) [unfolded NextRun_def Let_def z D prod.case run_at_def]
  consider "sch_type s = ''once''" | "sch_type s = ''hourly''" | "sch_type s = ''daily''"
    | "sch_type s = ''weekly''" | "sch_type s = ''monthly''" | "sch_type s = ''fixed_interval''"
    | "sch_type s = ''advanced_cron''" using run by (auto split: if_splits)
  then show ?thesis
  proof cases
    case 1
    with run obtain u where "parse_once z (TrimSpace (sch_expr s)) = Some u" "a < u" "t = u"
      by (auto split: option.splits if_splits)
    with 1 assms(2) z show ?thesis by (intro whole_later) (simp_all add: stored_later_def)
  next
    case 2 with run show ?thesis
      by (auto intro!: whole_later hourly_loop_whole hourly_loop_later simp: Date_whole split: sum.splits)
  next
    case 3 with run show ?thesis
      by (auto intro!: whole_later dest: daily_loop_later daily_loop_whole simp: Date_whole split: sum.splits)
  next
    case 4 with run show ?thesis
      by (auto intro!: whole_later dest: weekly_loop_later weekly_loop_whole simp: Date_whole
          split: sum.splits list.splits option.splits)
  next
    case 5 with run show ?thesis
      by (auto intro!: whole_later dest: monthly_loop_later monthly_loop_whole simp: Date_whole
          split: sum.splits list.splits option.splits if_splits)
  next
    case 6
    with run obtain sec where sec: "Atoi (TrimSpace (sch_expr s)) = Some sec" "60 \<le> sec" "t = a + wrap64 (sec * ns)"
      by (auto split: option.splits if_splits)
    with 6 assms(2) have "wrap64 (sec * ns) = sec * ns"
      by (intro wrap64_id) (simp_all add: stored_later_def min_int64_def ns_def)
    with sec have "a + 60 * ns \<le> t" by (simp add: ns_def)
    moreover have "t div ns * ns = t - t mod ns" by (simp add: minus_mod_eq_div_mult)
    moreover have "t mod ns < ns" by (simp add: ns_def)
    moreover have "0 < ns" by (simp add: ns_def)
    ultimately show ?thesis by linarith
  next
    case 7 with run show ?thesis by (auto intro!: whole_later dest: nextCron_whole)
  qed
qed

lemma lease_schedules: "lease s p db = (db', ok) \<Longrightarrow> sd_schedules db' = sd_schedules db"
  by (auto simp: lease_def dest: insert_run_Some split: option.splits)

text \<open>Two rows that differ in their next run only.\<close>

definition same_plan :: "schedule \<Rightarrow> schedule \<Rightarrow> bool" where
  "same_plan r s \<longleftrightarrow> r\<lparr>sch_next := None\<rparr> = s\<lparr>sch_next := None\<rparr>"

lemma same_plan_refl [simp]: "same_plan s s" by (simp add: same_plan_def)

lemma same_plan_next: "same_plan (x\<lparr>sch_next := n\<rparr>) s \<longleftrightarrow> same_plan x s" by (simp add: same_plan_def)

lemma same_plan_fields:
  assumes "same_plan r s"
  shows "sch_id r = sch_id s" "stored_later zones r = stored_later zones s"
  using arg_cong [OF assms [unfolded same_plan_def], of sch_id]
    arg_cong [OF assms [unfolded same_plan_def], of sch_type]
    arg_cong [OF assms [unfolded same_plan_def], of sch_expr]
    arg_cong [OF assms [unfolded same_plan_def], of sch_timezone]
  by (simp_all add: stored_later_def)

text \<open>While the tick goes through the rows \<open>xs\<close> it read: every row is one of those read, up to the
  next run, and is still to come or not due (or one of the exceptions).\<close>

definition settled :: "(string \<Rightarrow> location option) \<Rightarrow> int \<Rightarrow> schedule list \<Rightarrow> schedule list \<Rightarrow> sched_db \<Rightarrow> bool" where
  "settled zones nw read xs db \<longleftrightarrow>
     (\<forall>r\<in>set (sd_schedules db). (\<exists>s\<in>set read. same_plan r s) \<and>
        (r \<in> set xs \<or> (stored_later zones r \<longrightarrow> \<not> due nw r)))"

lemma advance_settled:
  assumes A: "advance zones s nw db = Some db'" and inv: "settled zones nw read (s # xs) db"
    and "distinct (map sch_id read)" "s \<in> set read"
  shows "settled zones nw read xs db'"
  unfolding settled_def
proof
  fix r assume "r \<in> set (sd_schedules db')"
  from A obtain res where N: "NextRun zones s nw = Some res" and
    db': "db' = update_schedule (sch_id s) (\<lambda>x. x\<lparr>sch_next := (case res of Inl _ \<Rightarrow> None | Inr n \<Rightarrow> stored_next n)\<rparr>) db"
    by (auto simp: advance_def Let_def split: option.splits)
  define nx where "nx = (case res of Inl _ \<Rightarrow> None | Inr n \<Rightarrow> stored_next n)"
  have later: "nw < k * ns" if "nx = Some k" "stored_later zones s" for k
    using that N next_run_whole [OF _ that(2)]
    by (auto simp: nx_def stored_next_def split: sum.splits)
  from \<open>r \<in> _\<close> obtain x where x: "x \<in> set (sd_schedules db)"
    "r = (if sch_id x = sch_id s then x\<lparr>sch_next := nx\<rparr> else x)"
    unfolding db' nx_def [symmetric] update_schedule_def by auto
  with inv obtain s0 where s0: "s0 \<in> set read" "same_plan x s0" unfolding settled_def by blast
  show "(\<exists>s\<in>set read. same_plan r s) \<and> (r \<in> set xs \<or> (stored_later zones r \<longrightarrow> \<not> due nw r))"
  proof (cases "sch_id x = sch_id s")
    case True
    with s0 assms(3,4) have "s0 = s"
      using same_plan_fields(1) [OF s0(2)] by (metis distinct_map inj_onD)
    with s0 x(2) True have p: "same_plan r s" by (simp add: same_plan_next)
    have "\<not> due nw r" if "stored_later zones r"
      using later same_plan_fields(2) [OF p] that x(2) True by (auto simp: due_def split: option.splits)
    with p assms(4) show ?thesis by blast
  next
    case False
    with x inv s0 show ?thesis by (auto simp: settled_def)
  qed
qed

lemma tick_fold_settled:
  assumes "opt_fold (tick_one zones nw) xs st = Some st'" "settled zones nw read xs (fst st)"
    "distinct (map sch_id read)" "set xs \<subseteq> set read"
  shows "settled zones nw read [] (fst st')"
  using assms
proof (induction xs arbitrary: st)
  case (Cons s xs)
  obtain db l where st: "st = (db, l)" by (cases st)
  from Cons.prems(1) obtain st1 where T: "tick_one zones nw s st = Some st1" and
    rest: "opt_fold (tick_one zones nw) xs st1 = Some st'" by (auto split: option.splits)
  have "settled zones nw read xs (fst st1)"
  proof (cases "due nw s")
    case True
    obtain db1 ok where L: "lease s (planned_of s) db = (db1, ok)" by (cases "lease s (planned_of s) db")
    from T True st L have A: "advance zones s nw db1 = Some (fst st1)"
      by (auto simp: tick_one_def Let_def)
    have "settled zones nw read (s # xs) db1"
      using Cons.prems(2) lease_schedules [OF L] st by (simp add: settled_def)
    with advance_settled [OF A _ Cons.prems(3)] Cons.prems(4) show ?thesis by simp
  next
    case False
    with T Cons.prems(2) show ?thesis by (auto simp: tick_one_def settled_def)
  qed
  with Cons rest show ?case by simp
qed (simp add: settled_def)

text \<open>C22. When a tick returns, no schedule is still due at the instant it looked at: every schedule
  it found due has moved past that instant or has no next run. The only schedules that may stay
  due are single runs at a fraction of a second, which the stored time loses, and intervals of
  more seconds than fit in the nanoseconds of a 64-bit integer.\<close>

theorem nothing_due_after_tick:
  assumes "tick zones nw db = Some (db', started)" "distinct (map sch_id (sd_schedules db))"
  shows "\<forall>s\<in>set (sd_schedules db'). stored_later zones s \<longrightarrow> \<not> due nw s"
proof -
  have read: "set (List_schedules 0 db) = set (sd_schedules db)" by (simp add: List_schedules_def)
  have "settled zones nw (sd_schedules db) [] (fst (db', started))"
    by (rule tick_fold_settled [OF assms(1) [unfolded tick_def]])
       (auto simp: settled_def read assms(2) intro: same_plan_refl)
  then show ?thesis by (simp add: settled_def)
qed

lemma nothing_due_after_tick_witness:
  "\<exists>db' started. tick (\<lambda>_. None) (5 * ns)
      \<lparr>sd_instances = [1], sd_schedules = [(schedule_of ''fixed_interval'' ''90'')\<lparr>sch_id := 4,
         sch_enabled := True, sch_next := Some 2\<rparr>], sd_runs = []\<rparr> = Some (db', started) \<and>
    length started = 1 \<and> filter (due (5 * ns)) (sd_schedules db') = []"
proof -
  define s where "s = (schedule_of ''fixed_interval'' ''90'')\<lparr>sch_id := 4, sch_enabled := True, sch_next := Some 2\<rparr>"
  define db where "db = \<lparr>sd_instances = [1], sd_schedules = [s], sd_runs = []\<rparr>"
  have a: "Atoi (TrimSpace ''90'') = Some 90" by code_simp
  have f: "sch_type s = ''fixed_interval''" "sch_expr s = ''90''" "sch_id s = 4" "sch_enabled s" "sch_next s = Some 2"
    by (simp_all add: s_def schedule_of_def)
  have n: "NextRun (\<lambda>_. None) s (5 * ns) = Some (Inr (Some (95 * ns)))"
    by (simp add: NextRun_def f a ns_def wrap64_def split: prod.splits)
  have d: "due (5 * ns) s" by (simp add: due_def f ns_def)
  have l: "List_schedules 0 db = [s]" by (simp add: List_schedules_def db_def)
  have ds: "sd_schedules db = [s]" and q: "95 * ns div ns = 95" by (simp_all add: db_def ns_def)
  obtain db' started where t: "tick (\<lambda>_. None) (5 * ns) db = Some (db', started)" "length started = 1"
    and adv: "sd_schedules db' = [s\<lparr>sch_next := Some 95\<rparr>]"
  proof -
    have "lease s (planned_of s) db = (db\<lparr>sd_runs := [\<lparr>run_schedule = 4, run_key = (4, 2), run_planned = 2,
        run_started = None, run_finished = None, run_status = ''queued'', run_detail = Note []\<rparr>]\<rparr>, True)"
      by (simp add: lease_def insert_run_def db_def f run_statuses_def planned_of_def lease_key_def ns_def)
    then show ?thesis using that
      by (simp add: tick_def l tick_one_def d Let_def advance_def n update_schedule_def ds stored_next_def q f)
  qed
  have "stored_later (\<lambda>_. None) (s\<lparr>sch_next := Some 95\<rparr>)"
    using a by (simp add: stored_later_def f ns_def max_int64_def)
  with nothing_due_after_tick [OF t(1)] adv have "filter (due (5 * ns)) (sd_schedules db') = []"
    by (simp add: db_def)
  with t show ?thesis unfolding db_def s_def by blast
qed

section \<open>Policies of an execution\<close>


lemma wait_online_ge: "t \<le> wait_online x d t"
proof (induction x d t rule: wait_online.induct)
  case (1 x d t)
  then show ?case by (subst wait_online.simps) (auto simp: ns_def)
qed

lemma wait_online_bound: "wait_online x d t < max (t + 1) (d + 10 * ns)"
proof (induction x d t rule: wait_online.induct)
  case (1 x d t)
  then show ?case by (subst wait_online.simps) (auto simp: ns_def)
qed






text \<open>The steps of a sequence reach a server that is never online, whatever its offline policy.\<close>

lemma sequence_ignores_offline_policy:
  assumes "sch_action s = ''sequence''"
    "pl_steps (sch_payload s) = [\<lparr>st_offset = 0, st_action = ''save_all'', st_payload = p\<rparr>]"
    "\<forall>t. \<not> ex_online x t \<and> \<not> ex_busy x t"
  shows "fst (snd (execute x s t None t db)) = [(t, SaveAll)]"
  using assms
  by (auto simp: execute_def Let_def offline_policy_def needsOnline_def runAction_def run_step_def
      runSimple_def perform_def wait_until_def wrap64_def split: option.splits prod.splits)


section \<open>The history\<close>

text \<open>A manual run that fails is in the history under the second it started; one that succeeds
  leaves no trace there: its status \<open>success\<close> violates the constraint of the table, so that the
  row is neither inserted nor updated, and only the schedule's last result says it ran.\<close>

lemma manual_run_not_recorded:
  assumes "s \<in> set (sd_schedules db)" "lease_key s nw \<notin> run_keys db" "runAction x s nw None nw = (e, t, cs)"
  shows "(e = None \<longrightarrow> sd_runs (fst (RunNow x s nw db)) = sd_runs db \<and>
      (\<forall>r\<in>set (sd_schedules (fst (RunNow x s nw db))). sch_id r = sch_id s \<longrightarrow> sch_last_result r = ''success'')) \<and>
    (e \<noteq> None \<longrightarrow> lease_key s nw \<in> run_keys (fst (RunNow x s nw db)))"
proof (cases e)
  case None
  have u: "update_run (lease_key s nw) f db = db" for f
  proof -
    have "\<forall>r\<in>set (sd_runs db). run_key r \<noteq> lease_key s nw"
      using assms(2) unfolding run_keys_def by (metis imageI)
    then show ?thesis by (auto simp: update_run_def list_all_iff intro!: map_idI sched_db.equality)
  qed
  have i: "insert_run r db = None" if "run_status r = ''success''" for r
    using that by (simp add: insert_run_def run_statuses_def)
  show ?thesis unfolding RunNow_def assms(3) None
    by (simp add: recordRun_def Let_def i u) (auto simp: update_schedule_def)
next
  case (Some err)
  have "\<exists>db'. insert_run r db = Some db'"
    if "run_schedule r = sch_id s" "run_key r = lease_key s nw" "run_status r = ''failed''" for r
  proof -
    have "\<not> list_ex (\<lambda>q. run_key q = run_key r) (sd_runs db)"
      using assms(2) that(2) unfolding run_keys_def list_ex_iff by (metis imageI)
    moreover have "list_ex (\<lambda>x. sch_id x = run_schedule r) (sd_schedules db)"
      using assms(1) that(1) unfolding list_ex_iff by auto
    ultimately show ?thesis using that(3) by (simp add: insert_run_def run_statuses_def)
  qed
  then obtain db' where d: "insert_run \<lparr>run_schedule = sch_id s, run_key = lease_key s nw, run_planned = nw div ns,
      run_started = None, run_finished = None, run_status = ''failed'', run_detail = Failure err\<rparr> db = Some db'" by fastforce
  with insert_run_Some [OF d] show ?thesis unfolding RunNow_def assms(3) Some
    by (simp add: recordRun_def Let_def)
qed

definition quiet_server :: executor where
  "quiet_server = \<lparr>ex_busy = (\<lambda>_. False), ex_online = (\<lambda>t. ns < t), ex_call = (\<lambda>_ _. (None, ns))\<rparr>"

definition saving :: schedule where
  "saving = (schedule_of ''daily'' ''04:00'')\<lparr>sch_id := 4, sch_action := ''save_all'', sch_offline := ''start_then_execute''\<rparr>"

lemma saving_fields [simp]:
  "sch_id saving = 4" "sch_action saving = ''save_all''" "sch_offline saving = ''start_then_execute''"
  by (simp_all add: saving_def)


lemma manual_run_not_recorded_witness:
  "sd_runs (fst (RunNow quiet_server saving 0 \<lparr>sd_instances = [], sd_schedules = [saving], sd_runs = []\<rparr>)) = []"
proof -
  have r: "runAction quiet_server saving 0 None 0 = (None, ns, [(0, SaveAll)])"
    by (simp add: quiet_server_def perform_def runAction_def runSimple_def)
  show ?thesis
    using manual_run_not_recorded [of saving "\<lparr>sd_instances = [], sd_schedules = [saving], sd_runs = []\<rparr>", OF _ _ r]
    by (simp add: run_keys_def)
qed

section \<open>Sequences\<close>

definition timed :: "executor \<Rightarrow> bool" where
  "timed x \<longleftrightarrow> (\<forall>c t. 0 \<le> snd (ex_call x c t))"

lemma run_step_times:
  "timed x \<Longrightarrow> run_step x inst st t = (e, u, cs) \<Longrightarrow> t \<le> u \<and> (\<forall>(\<tau>, c)\<in>set cs. \<tau> = t) \<and> length cs \<le> 1"
  by (auto simp: run_step_def runSimple_def perform_def timed_def split: if_splits prod.splits) (metis snd_conv)+

text \<open>A step starts no earlier than its offset says, than the steps before it and than the planned
  time the sequence starts at: a negative offset, meant to run before it, cannot.\<close>

lemma run_steps_times:
  "timed x \<Longrightarrow> run_steps x inst planned cancel sts t = (e, u, cs) \<Longrightarrow>
   t \<le> u \<and> sorted (map fst cs) \<and>
   (\<forall>(\<tau>, c)\<in>set cs. t \<le> \<tau> \<and> \<tau> \<le> u \<and> (\<exists>st\<in>set sts. planned + wrap64 (st_offset st * ns) \<le> \<tau>))"
proof (induction sts arbitrary: t e u cs)
  case (Cons st sts)
  show ?case
  proof (cases "wait_until cancel (planned + wrap64 (st_offset st * ns)) t")
    case (Inl t')
    with Cons.prems show ?thesis by (auto simp: wait_until_def split: if_splits option.splits)
  next
    case (Inr t')
    then have t': "t \<le> t'" "planned + wrap64 (st_offset st * ns) \<le> t'"
      by (auto simp: wait_until_def split: if_splits option.splits)
    obtain e1 u1 cs1 where S: "run_step x inst st t' = (e1, u1, cs1)" by (metis prod.exhaust)
    note one = run_step_times [OF Cons.prems(1) S]
    have s1: "sorted (map fst cs1)" using one by (cases cs1) auto
    show ?thesis
    proof (cases e1)
      case None
      obtain e2 u2 cs2 where R: "run_steps x inst planned cancel sts u1 = (e2, u2, cs2)" by (metis prod.exhaust)
      note IH = Cons.IH [OF Cons.prems(1) R]
      have "u = u2" "cs = cs1 @ cs2" using Cons.prems(2) Inr S R None by auto
      with IH one s1 t' show ?thesis by (fastforce simp: sorted_append)
    next
      case (Some err)
      with Cons.prems(2) Inr S have "u = u1" "cs = cs1" by auto
      with one s1 t' show ?thesis by fastforce
    qed
  qed
qed auto

end
