(* ===== verification/Authorization.thy ===== *)
theory Authorization
  imports Prelude
begin

text \<open>
  Roles, permissions, the permission catalog, the shipped defaults and the role hierarchy
  (\<open>source/internal/authorization/authorization.go\<close>). Go's \<open>Role\<close> and \<open>Permission\<close> are
  string types with declared constants; each is a datatype with one constructor per constant
  and one for every other string. The lemmas show the catalog is well formed, the defaults are
  closed under prerequisites and assignable, and the hierarchy admits no escalation.
\<close>

section \<open>Roles\<close>

datatype role = RoleOwner | RoleAdmin | RoleMember | RoleViewer | RoleOther string

fun string_of_role :: "role \<Rightarrow> string" where
  "string_of_role RoleOwner = ''owner''"
| "string_of_role RoleAdmin = ''admin''"
| "string_of_role RoleMember = ''member''"
| "string_of_role RoleViewer = ''viewer''"
| "string_of_role (RoleOther s) = s"

text \<open>The conversion \<open>Role(s)\<close> of a string.\<close>

definition role_of_string :: "string \<Rightarrow> role" where
  "role_of_string s =
     (if s = ''owner'' then RoleOwner else if s = ''admin'' then RoleAdmin
      else if s = ''member'' then RoleMember else if s = ''viewer'' then RoleViewer
      else RoleOther s)"

fun ValidRole :: "role \<Rightarrow> bool" where
  "ValidRole (RoleOther s) = False"
| "ValidRole r = True"

lemma string_of_role_of_string [simp]: "string_of_role (role_of_string s) = s"
  by (simp add: role_of_string_def)

lemma ValidRole_cases:
  "ValidRole r \<longleftrightarrow> r = RoleOwner \<or> r = RoleAdmin \<or> r = RoleMember \<or> r = RoleViewer"
  by (cases r) auto

lemma role_of_string_of_role [simp]: "ValidRole r \<Longrightarrow> role_of_string (string_of_role r) = r"
  by (cases r) (auto simp: role_of_string_def)

section \<open>Permissions and their catalog\<close>

datatype permission =
    PermServerView
  | PermPerformanceView
  | PermPerformanceTest
  | PermServerStart
  | PermServerStop
  | PermServerRestart
  | PermServerForceStop
  | PermConsoleView
  | PermConsoleUse
  | PermPlayersView
  | PermPlayersManage
  | PermFilesManage
  | PermConfigManage
  | PermIconManage
  | PermImportManage
  | PermBackupsView
  | PermBackupsCreate
  | PermBackupsRestore
  | PermSchedulesManage
  | PermActivityView
  | PermUsersManage
  | PermRolesManage
  | PermPlayitManage
  | PermBotsManage
  | PermHostView
  | PermOther string

fun string_of_permission :: "permission \<Rightarrow> string" where
  "string_of_permission PermServerView = ''server.view''"
| "string_of_permission PermPerformanceView = ''server.performance.view''"
| "string_of_permission PermPerformanceTest = ''server.performance.test''"
| "string_of_permission PermServerStart = ''server.start''"
| "string_of_permission PermServerStop = ''server.stop''"
| "string_of_permission PermServerRestart = ''server.restart''"
| "string_of_permission PermServerForceStop = ''server.force_stop''"
| "string_of_permission PermConsoleView = ''server.console.view''"
| "string_of_permission PermConsoleUse = ''server.console.use''"
| "string_of_permission PermPlayersView = ''server.players.view''"
| "string_of_permission PermPlayersManage = ''server.players.manage''"
| "string_of_permission PermFilesManage = ''server.files.manage''"
| "string_of_permission PermConfigManage = ''server.configuration.manage''"
| "string_of_permission PermIconManage = ''server.icon.manage''"
| "string_of_permission PermImportManage = ''server.import.manage''"
| "string_of_permission PermBackupsView = ''server.backups.view''"
| "string_of_permission PermBackupsCreate = ''server.backups.create''"
| "string_of_permission PermBackupsRestore = ''server.backups.restore''"
| "string_of_permission PermSchedulesManage = ''server.schedules.manage''"
| "string_of_permission PermActivityView = ''activity.view''"
| "string_of_permission PermUsersManage = ''users.manage''"
| "string_of_permission PermRolesManage = ''roles.manage''"
| "string_of_permission PermPlayitManage = ''playit.manage''"
| "string_of_permission PermBotsManage = ''bots.manage''"
| "string_of_permission PermHostView = ''host.view''"
| "string_of_permission (PermOther s) = s"

record permission_definition =
  pd_id :: permission
  pd_group :: string
  pd_label :: string
  pd_description :: string
  pd_requires :: "permission list"
  pd_assignable :: "role list"

definition view_assignable_roles :: "role list" where
  "view_assignable_roles = [RoleAdmin, RoleMember, RoleViewer]"

definition action_assignable_roles :: "role list" where
  "action_assignable_roles = [RoleAdmin, RoleMember]"

definition permission_catalog :: "permission_definition list" where
  "permission_catalog = [
     \<lparr>pd_id = PermServerView, pd_group = ''Access'', pd_label = ''View server'',
      pd_description = ''See Overview, Servers, and live status.'',
      pd_requires = [], pd_assignable = view_assignable_roles\<rparr>,
     \<lparr>pd_id = PermPerformanceView, pd_group = ''Access'', pd_label = ''View performance'',
      pd_description = ''Open machine and Java performance telemetry.'',
      pd_requires = [PermServerView], pd_assignable = view_assignable_roles\<rparr>,
     \<lparr>pd_id = PermPerformanceTest, pd_group = ''Access'', pd_label = ''Test internet speed'',
      pd_description = ''Run a manual bandwidth test that can temporarily affect connected players.'',
      pd_requires = [PermPerformanceView], pd_assignable = action_assignable_roles\<rparr>,
     \<lparr>pd_id = PermServerStart, pd_group = ''Lifecycle'', pd_label = ''Start server'',
      pd_description = ''Start the active Minecraft server.'',
      pd_requires = [PermServerView], pd_assignable = action_assignable_roles\<rparr>,
     \<lparr>pd_id = PermServerStop, pd_group = ''Lifecycle'', pd_label = ''Stop server'',
      pd_description = ''Request a clean server shutdown.'',
      pd_requires = [PermServerView], pd_assignable = action_assignable_roles\<rparr>,
     \<lparr>pd_id = PermServerRestart, pd_group = ''Lifecycle'', pd_label = ''Restart server'',
      pd_description = ''Stop and start the active server.'',
      pd_requires = [PermServerView], pd_assignable = action_assignable_roles\<rparr>,
     \<lparr>pd_id = PermServerForceStop, pd_group = ''Lifecycle'', pd_label = ''Force stop server'',
      pd_description = ''Immediately terminate a stuck server process.'',
      pd_requires = [PermServerView], pd_assignable = action_assignable_roles\<rparr>,
     \<lparr>pd_id = PermConsoleView, pd_group = ''Console and players'', pd_label = ''View console'',
      pd_description = ''Read server console output.'',
      pd_requires = [PermServerView], pd_assignable = view_assignable_roles\<rparr>,
     \<lparr>pd_id = PermConsoleUse, pd_group = ''Console and players'', pd_label = ''Use console'',
      pd_description = ''Send unrestricted Minecraft server commands.'',
      pd_requires = [PermConsoleView], pd_assignable = action_assignable_roles\<rparr>,
     \<lparr>pd_id = PermPlayersView, pd_group = ''Console and players'', pd_label = ''View players'',
      pd_description = ''See online and known players.'',
      pd_requires = [PermServerView], pd_assignable = view_assignable_roles\<rparr>,
     \<lparr>pd_id = PermPlayersManage, pd_group = ''Console and players'', pd_label = ''Manage players'',
      pd_description = ''Kick, ban, whitelist, or grant operator access to players.'',
      pd_requires = [PermPlayersView], pd_assignable = action_assignable_roles\<rparr>,
     \<lparr>pd_id = PermFilesManage, pd_group = ''Server files and configuration'', pd_label = ''Manage files'',
      pd_description = ''Read, upload, edit, move, and delete project files.'',
      pd_requires = [PermServerView], pd_assignable = action_assignable_roles\<rparr>,
     \<lparr>pd_id = PermConfigManage, pd_group = ''Server files and configuration'', pd_label = ''Manage configuration'',
      pd_description = ''Change launch settings and server properties.'',
      pd_requires = [PermServerView], pd_assignable = action_assignable_roles\<rparr>,
     \<lparr>pd_id = PermIconManage, pd_group = ''Server files and configuration'', pd_label = ''Manage server icons'',
      pd_description = ''Upload or remove project icons.'',
      pd_requires = [PermServerView], pd_assignable = action_assignable_roles\<rparr>,
     \<lparr>pd_id = PermImportManage, pd_group = ''Server files and configuration'', pd_label = ''Manage projects'',
      pd_description = ''Import, duplicate, reset, or delete server projects.'',
      pd_requires = [PermServerView], pd_assignable = action_assignable_roles\<rparr>,
     \<lparr>pd_id = PermBackupsView, pd_group = ''Backups and automation'', pd_label = ''View backups'',
      pd_description = ''See backups and their storage location.'',
      pd_requires = [PermServerView], pd_assignable = view_assignable_roles\<rparr>,
     \<lparr>pd_id = PermBackupsCreate, pd_group = ''Backups and automation'', pd_label = ''Manage backups'',
      pd_description = ''Create, verify, protect, and delete backups.'',
      pd_requires = [PermBackupsView], pd_assignable = action_assignable_roles\<rparr>,
     \<lparr>pd_id = PermBackupsRestore, pd_group = ''Backups and automation'', pd_label = ''Restore backups'',
      pd_description = ''Replace server data from a backup.'',
      pd_requires = [PermBackupsView], pd_assignable = action_assignable_roles\<rparr>,
     \<lparr>pd_id = PermSchedulesManage, pd_group = ''Backups and automation'', pd_label = ''Manage schedules'',
      pd_description = ''Create and run lifecycle, console, and backup automation.'',
      pd_requires = [PermServerView, PermServerStart, PermServerStop, PermServerRestart, PermConsoleUse, PermBackupsCreate], pd_assignable = action_assignable_roles\<rparr>,
     \<lparr>pd_id = PermActivityView, pd_group = ''People and integrations'', pd_label = ''View activity'',
      pd_description = ''Review account and server administration history.'',
      pd_requires = [], pd_assignable = view_assignable_roles\<rparr>,
     \<lparr>pd_id = PermUsersManage, pd_group = ''People and integrations'', pd_label = ''Manage users'',
      pd_description = ''Invite users and manage lower-role accounts and sessions.'',
      pd_requires = [], pd_assignable = [RoleAdmin, RoleMember]\<rparr>,
     \<lparr>pd_id = PermRolesManage, pd_group = ''People and integrations'', pd_label = ''Manage role permissions'',
      pd_description = ''Configure permissions for lower roles.'',
      pd_requires = [], pd_assignable = [RoleAdmin]\<rparr>,
     \<lparr>pd_id = PermPlayitManage, pd_group = ''People and integrations'', pd_label = ''Manage Playit.gg'',
      pd_description = ''Configure the public Minecraft tunnel and Playit agent.'',
      pd_requires = [PermServerView], pd_assignable = [RoleAdmin]\<rparr>,
     \<lparr>pd_id = PermBotsManage, pd_group = ''People and integrations'', pd_label = ''Manage notification bots'',
      pd_description = ''Configure Discord and Telegram bots.'',
      pd_requires = [PermServerView], pd_assignable = action_assignable_roles\<rparr>,
     \<lparr>pd_id = PermHostView, pd_group = ''System'', pd_label = ''View host'',
      pd_description = ''See Bonghos installation, listener, and service details.'',
      pd_requires = [], pd_assignable = view_assignable_roles\<rparr>]"

definition AllPermissions :: "permission list" where
  "AllPermissions = map pd_id permission_catalog"

definition PermissionInfo :: "permission \<Rightarrow> permission_definition option" where
  "PermissionInfo p = List.find (\<lambda>d. pd_id d = p) permission_catalog"

definition PermissionAssignableTo :: "permission \<Rightarrow> role \<Rightarrow> bool" where
  "PermissionAssignableTo p r =
     (case PermissionInfo p of None \<Rightarrow> False | Some d \<Rightarrow> r \<in> set (pd_assignable d))"

definition ValidPermission :: "permission \<Rightarrow> bool" where
  "ValidPermission p \<longleftrightarrow> PermissionInfo p \<noteq> None"

text \<open>The prerequisites and the assignable roles of a catalog entry, evaluated once.\<close>

definition required_of :: "permission \<Rightarrow> permission list" where
  "required_of p = (case PermissionInfo p of None \<Rightarrow> [] | Some d \<Rightarrow> pd_requires d)"

definition assignable_of :: "permission \<Rightarrow> role list" where
  "assignable_of p = (case PermissionInfo p of None \<Rightarrow> [] | Some d \<Rightarrow> pd_assignable d)"

lemma required_of_simps [catalog_simps]:
    "required_of PermServerView = []"
    "required_of PermPerformanceView = [PermServerView]"
    "required_of PermPerformanceTest = [PermPerformanceView]"
    "required_of PermServerStart = [PermServerView]"
    "required_of PermServerStop = [PermServerView]"
    "required_of PermServerRestart = [PermServerView]"
    "required_of PermServerForceStop = [PermServerView]"
    "required_of PermConsoleView = [PermServerView]"
    "required_of PermConsoleUse = [PermConsoleView]"
    "required_of PermPlayersView = [PermServerView]"
    "required_of PermPlayersManage = [PermPlayersView]"
    "required_of PermFilesManage = [PermServerView]"
    "required_of PermConfigManage = [PermServerView]"
    "required_of PermIconManage = [PermServerView]"
    "required_of PermImportManage = [PermServerView]"
    "required_of PermBackupsView = [PermServerView]"
    "required_of PermBackupsCreate = [PermBackupsView]"
    "required_of PermBackupsRestore = [PermBackupsView]"
    "required_of PermSchedulesManage = [PermServerView, PermServerStart, PermServerStop, PermServerRestart, PermConsoleUse, PermBackupsCreate]"
    "required_of PermActivityView = []"
    "required_of PermUsersManage = []"
    "required_of PermRolesManage = []"
    "required_of PermPlayitManage = [PermServerView]"
    "required_of PermBotsManage = [PermServerView]"
    "required_of PermHostView = []"
  by (simp_all add: required_of_def PermissionInfo_def permission_catalog_def)

lemma assignable_of_simps [catalog_simps]:
    "assignable_of PermServerView = [RoleAdmin, RoleMember, RoleViewer]"
    "assignable_of PermPerformanceView = [RoleAdmin, RoleMember, RoleViewer]"
    "assignable_of PermPerformanceTest = [RoleAdmin, RoleMember]"
    "assignable_of PermServerStart = [RoleAdmin, RoleMember]"
    "assignable_of PermServerStop = [RoleAdmin, RoleMember]"
    "assignable_of PermServerRestart = [RoleAdmin, RoleMember]"
    "assignable_of PermServerForceStop = [RoleAdmin, RoleMember]"
    "assignable_of PermConsoleView = [RoleAdmin, RoleMember, RoleViewer]"
    "assignable_of PermConsoleUse = [RoleAdmin, RoleMember]"
    "assignable_of PermPlayersView = [RoleAdmin, RoleMember, RoleViewer]"
    "assignable_of PermPlayersManage = [RoleAdmin, RoleMember]"
    "assignable_of PermFilesManage = [RoleAdmin, RoleMember]"
    "assignable_of PermConfigManage = [RoleAdmin, RoleMember]"
    "assignable_of PermIconManage = [RoleAdmin, RoleMember]"
    "assignable_of PermImportManage = [RoleAdmin, RoleMember]"
    "assignable_of PermBackupsView = [RoleAdmin, RoleMember, RoleViewer]"
    "assignable_of PermBackupsCreate = [RoleAdmin, RoleMember]"
    "assignable_of PermBackupsRestore = [RoleAdmin, RoleMember]"
    "assignable_of PermSchedulesManage = [RoleAdmin, RoleMember]"
    "assignable_of PermActivityView = [RoleAdmin, RoleMember, RoleViewer]"
    "assignable_of PermUsersManage = [RoleAdmin, RoleMember]"
    "assignable_of PermRolesManage = [RoleAdmin]"
    "assignable_of PermPlayitManage = [RoleAdmin]"
    "assignable_of PermBotsManage = [RoleAdmin, RoleMember]"
    "assignable_of PermHostView = [RoleAdmin, RoleMember, RoleViewer]"
  by (simp_all add: assignable_of_def PermissionInfo_def permission_catalog_def
      view_assignable_roles_def action_assignable_roles_def)

lemma AllPermissions_eq [catalog_simps]:
  "AllPermissions = [
     PermServerView, PermPerformanceView, PermPerformanceTest, PermServerStart,
     PermServerStop, PermServerRestart, PermServerForceStop, PermConsoleView,
     PermConsoleUse, PermPlayersView, PermPlayersManage, PermFilesManage,
     PermConfigManage, PermIconManage, PermImportManage, PermBackupsView,
     PermBackupsCreate, PermBackupsRestore, PermSchedulesManage, PermActivityView,
     PermUsersManage, PermRolesManage, PermPlayitManage, PermBotsManage,
     PermHostView]"
  by (simp add: AllPermissions_def permission_catalog_def)

lemma distinct_AllPermissions: "distinct AllPermissions"
  by (simp add: AllPermissions_eq)

lemma PermissionInfo_None_iff: "PermissionInfo p = None \<longleftrightarrow> p \<notin> set AllPermissions"
  by (auto simp: PermissionInfo_def find_None_iff AllPermissions_def)

lemma ValidPermission_iff: "ValidPermission p \<longleftrightarrow> p \<in> set AllPermissions"
  by (simp add: ValidPermission_def PermissionInfo_None_iff)

lemma ValidPermission_not_other [simp]: "ValidPermission p \<longleftrightarrow> (\<forall>s. p \<noteq> PermOther s)"
  by (cases p) (simp_all add: ValidPermission_iff AllPermissions_eq)

lemma PermissionAssignableTo_iff: "PermissionAssignableTo p r \<longleftrightarrow> r \<in> set (assignable_of p)"
  by (auto simp: PermissionAssignableTo_def assignable_of_def split: option.splits)

lemma required_of_other [catalog_simps]: "required_of (PermOther s) = []" "assignable_of (PermOther s) = []"
  using PermissionInfo_None_iff [of "PermOther s"]
  by (simp_all add: required_of_def assignable_of_def AllPermissions_eq)

text \<open>The conversion \<open>Permission(s)\<close> of a string.\<close>

definition permission_of_string :: "string \<Rightarrow> permission" where
  "permission_of_string s =
     (case List.find (\<lambda>p. string_of_permission p = s) AllPermissions of
        Some p \<Rightarrow> p | None \<Rightarrow> PermOther s)"

lemma string_of_permission_of_string [simp]:
  "string_of_permission (permission_of_string s) = s"
  by (auto simp: permission_of_string_def find_Some_iff split: option.splits)

lemma permission_of_string_of_permission [simp]:
  "ValidPermission p \<Longrightarrow> permission_of_string (string_of_permission p) = p"
  by (cases p) (simp_all add: permission_of_string_def AllPermissions_eq)

lemma string_of_permission_inj:
  "ValidPermission p \<Longrightarrow> ValidPermission q \<Longrightarrow>
   string_of_permission p = string_of_permission q \<Longrightarrow> p = q"
  by (metis permission_of_string_of_permission)

section \<open>Shipped defaults\<close>

text \<open>
  \<open>rolePerms\<close> maps a role to the permissions set to true; a role that is not a key holds
  nothing. The Owner's entry is \<open>allPermissions()\<close>, the set of all catalog entries.
\<close>

fun role_perms :: "role \<Rightarrow> permission list" where
  "role_perms RoleOwner = AllPermissions"
| "role_perms RoleAdmin =
     [PermServerView, PermPerformanceView, PermPerformanceTest,
      PermServerStart, PermServerStop,
      PermServerRestart, PermServerForceStop,
      PermConsoleView, PermConsoleUse,
      PermPlayersView, PermPlayersManage,
      PermFilesManage, PermConfigManage, PermIconManage,
      PermImportManage,
      PermBackupsView, PermBackupsCreate, PermBackupsRestore,
      PermSchedulesManage,
      PermActivityView,
      PermUsersManage,
      PermBotsManage,
      PermHostView]"
| "role_perms RoleMember =
     [PermServerView, PermServerStart, PermServerStop, PermServerRestart, PermPlayersView]"
| "role_perms RoleViewer = [PermServerView, PermPlayersView, PermConsoleView]"
| "role_perms (RoleOther s) = []"

definition Has :: "role \<Rightarrow> permission \<Rightarrow> bool" where
  "Has r p \<longleftrightarrow> p \<in> set (role_perms r)"

definition Permissions :: "role \<Rightarrow> string list" where
  "Permissions r = map string_of_permission (filter (Has r) AllPermissions)"

text \<open>
  A set of permissions is closed when it holds the prerequisites of each of its members.
\<close>

definition closed_perms :: "(permission \<Rightarrow> bool) \<Rightarrow> bool" where
  "closed_perms m \<longleftrightarrow> (\<forall>p. m p \<longrightarrow> ValidPermission p \<and> (\<forall>q\<in>set (required_of p). m q))"

lemma required_of_valid: "q \<in> set (required_of p) \<Longrightarrow> ValidPermission q"
  by (cases p) (auto simp: catalog_simps)

lemma Has_valid: "Has r p \<Longrightarrow> ValidPermission p"
  by (cases r) (auto simp: Has_def AllPermissions_eq)

lemma Has_closed: "closed_perms (Has r)"
proof -
  have "q \<in> set (role_perms r)" if "p \<in> set (role_perms r)" "q \<in> set (required_of p)" for p q
  proof (cases r)
    case RoleOwner
    then show ?thesis using required_of_valid [OF that(2)] by (simp add: ValidPermission_iff del: ValidPermission_not_other)
  next
    case RoleAdmin
    then show ?thesis using that by (cases p) (auto simp: required_of_simps)
  qed (use that in \<open>auto simp: required_of_simps\<close>)
  then show ?thesis using Has_valid by (auto simp: closed_perms_def Has_def)
qed

lemma Has_assignable:
  "r \<noteq> RoleOwner \<Longrightarrow> Has r p \<Longrightarrow> PermissionAssignableTo p r"
  by (cases r) (auto simp: Has_def PermissionAssignableTo_iff catalog_simps)

text \<open>The shipped defaults are a legal profile for every role: each default permission is
  in the catalog, its prerequisites are defaults of the same role, and for a role other than the
  Owner it may be assigned to that role.\<close>

lemma shipped_defaults_legal:
  "closed_perms (Has r) \<and> (\<forall>p. r \<noteq> RoleOwner \<longrightarrow> Has r p \<longrightarrow> PermissionAssignableTo p r)"
  using Has_closed Has_assignable by blast

lemma shipped_defaults_legal_witness:
  "Has RoleMember PermServerStart \<and> PermissionAssignableTo PermServerStart RoleMember"
proof -
  have h: "Has RoleMember PermServerStart" by (simp add: Has_def)
  with shipped_defaults_legal [of RoleMember] show ?thesis by blast
qed

text \<open>The permissions that may be given to a Viewer are the view permissions.\<close>

definition view_permissions :: "permission list" where
  "view_permissions =
     [PermServerView, PermPerformanceView, PermConsoleView, PermPlayersView, PermBackupsView,
      PermActivityView, PermHostView]"

lemma viewer_assignable_iff:
  "PermissionAssignableTo p RoleViewer \<longleftrightarrow> p \<in> set view_permissions"
  by (cases p) (simp_all add: PermissionAssignableTo_iff catalog_simps view_permissions_def)

section \<open>The role hierarchy\<close>

fun roleRank :: "role \<Rightarrow> nat" where
  "roleRank RoleOwner = 4"
| "roleRank RoleAdmin = 3"
| "roleRank RoleMember = 2"
| "roleRank RoleViewer = 1"
| "roleRank (RoleOther s) = 0"

definition CanManageUser :: "role \<Rightarrow> int \<Rightarrow> role \<Rightarrow> int \<Rightarrow> role option \<Rightarrow> bool" where
  "CanManageUser actor actorID target targetID newRole =
     (if \<not> ValidRole actor \<or> \<not> ValidRole target then False
      else if actorID = targetID \<and> (case newRole of None \<Rightarrow> False | Some r \<Rightarrow> r \<noteq> target) then False
      else if actor = RoleOwner
        then (case newRole of None \<Rightarrow> True | Some r \<Rightarrow> ValidRole r)
      else if roleRank actor \<le> roleRank target then False
      else (case newRole of None \<Rightarrow> True
            | Some r \<Rightarrow> ValidRole r \<and> roleRank r < roleRank actor))"

definition CanInviteRole :: "role \<Rightarrow> role \<Rightarrow> bool" where
  "CanInviteRole actor invited =
     (if \<not> ValidRole actor \<or> \<not> ValidRole invited \<or> invited = RoleOwner then False
      else actor = RoleOwner \<or> roleRank invited < roleRank actor)"

lemma roleRank_le_4: "roleRank r \<le> 4"
  by (cases r) auto

lemma roleRank_inj: "ValidRole r \<Longrightarrow> ValidRole r' \<Longrightarrow> roleRank r = roleRank r' \<Longrightarrow> r = r'"
  by (cases r; cases r') auto

lemma roleRank_owner: "roleRank r = 4 \<longleftrightarrow> r = RoleOwner"
  by (cases r) auto

lemma roleRank_valid: "ValidRole r \<longleftrightarrow> 0 < roleRank r"
  by (cases r) auto

text \<open>What a granted change of another account means, the Owner's case aside.\<close>

lemma CanManageUser_delegatedD:
  assumes "CanManageUser a i t j nr" "a \<noteq> RoleOwner"
  shows "roleRank t < roleRank a" "nr = Some r \<Longrightarrow> roleRank r < roleRank a \<and> ValidRole r"
  using assms by (auto simp: CanManageUser_def split: if_splits option.splits)

lemma CanManageUser_ownerD:
  assumes "CanManageUser a i t j nr" "t = RoleOwner \<or> nr = Some RoleOwner"
  shows "a = RoleOwner"
  using assms
  by (cases a) (auto simp: CanManageUser_def split: if_splits option.splits)

end
