(* ===== verification/RolePermissions.thy ===== *)
theory RolePermissions
  imports Authorization
begin

text \<open>
  The persisted role profiles and their editor
  (\<open>source/internal/app/role_permissions.go\<close>): loading a profile from the two tables,
  pruning it to a set closed under prerequisites, validating a requested profile, and the
  update handler with its optimistic revision check, its escalation guard and its transaction.
  A failing database call is part of the model: \<open>fails\<close> says which calls return an error.
\<close>

section \<open>Tables and states\<close>

record role_permission_state =
  rp_perms :: "permission \<Rightarrow> bool"
  rp_revision :: int
  rp_customized :: bool
  rp_exists :: bool

text \<open>
  A row of \<open>role_permission_profiles\<close> (customized, revision, updated by) and the rows of
  \<open>role_permissions\<close> of one role, as pairs of the permission text and the allowed flag.
\<close>

type_synonym profile_row = "int \<times> int \<times> int"
type_synonym permission_rows = "(string \<times> int) list"

record perm_db =
  db_profiles :: "string \<Rightarrow> profile_row option"
  db_rows :: "string \<Rightarrow> permission_rows"
  db_users :: "(int \<times> string) list"

datatype load_phase = LoadCheck | LoadTarget | LoadActor | LoadPayload

datatype db_call =
    ProfileSelect load_phase string
  | RowsSelect load_phase string
  | TxBegin
  | TxRollback
  | ProfileWrite
  | RowsDelete
  | RowInsert string
  | UsersSelect
  | TxCommit

datatype rp_error = InvalidRole | DbFailed db_call

definition defaultRolePermissionState :: "role \<Rightarrow> role_permission_state" where
  "defaultRolePermissionState r =
     \<lparr>rp_perms = (\<lambda>p. p \<in> set AllPermissions \<and> Has r p),
      rp_revision = 0, rp_customized = False, rp_exists = False\<rparr>"

lemma default_perms [simp]: "rp_perms (defaultRolePermissionState r) = Has r"
  using Has_valid by (auto simp: defaultRolePermissionState_def fun_eq_iff ValidPermission_iff
      simp del: ValidPermission_not_other)

section \<open>Pruning to a closed set\<close>

text \<open>
  The body of the inner loop of \<open>enforcePermissionDependencies\<close> for one key of the map, one
  pass over the map, and the outer loop that repeats passes until one changes nothing. Go
  ranges over a map in an unspecified order that may differ between passes: \<open>ord k\<close> is the
  order of pass \<open>k\<close>.
\<close>

definition enforce_one :: "permission \<Rightarrow> (permission \<Rightarrow> bool) \<Rightarrow> (permission \<Rightarrow> bool) \<times> bool" where
  "enforce_one p m =
     (if \<not> m p then (m, False)
      else case PermissionInfo p of
        None \<Rightarrow> (m(p := False), True)
      | Some d \<Rightarrow>
          if list_all m (pd_requires d) then (m, False) else (m(p := False), True))"

fun enforce_pass :: "permission list \<Rightarrow> (permission \<Rightarrow> bool) \<Rightarrow> (permission \<Rightarrow> bool) \<times> bool" where
  "enforce_pass [] m = (m, False)"
| "enforce_pass (p # ps) m =
     (let (m1, c1) = enforce_one p m; (m2, c2) = enforce_pass ps m1 in (m2, c1 \<or> c2))"

fun enforce_loop ::
  "nat \<Rightarrow> (nat \<Rightarrow> permission list) \<Rightarrow> nat \<Rightarrow> (permission \<Rightarrow> bool) \<Rightarrow> (permission \<Rightarrow> bool) option" where
  "enforce_loop 0 ord k m = None"
| "enforce_loop (Suc n) ord k m =
     (let (m', changed) = enforce_pass (ord k) m
      in if changed then enforce_loop n ord (Suc k) m' else Some m')"

text \<open>One pass clears at least one key when it reports a change, so one more pass than there
  are keys is enough.\<close>

definition enforcePermissionDependencies ::
  "(nat \<Rightarrow> permission list) \<Rightarrow> (permission \<Rightarrow> bool) \<Rightarrow> (permission \<Rightarrow> bool) option" where
  "enforcePermissionDependencies ord m = enforce_loop (Suc (length AllPermissions)) ord 0 m"

definition map_order :: "(nat \<Rightarrow> permission list) \<Rightarrow> bool" where
  "map_order ord \<longleftrightarrow> (\<forall>k. set (ord k) = set AllPermissions)"

lemma enforce_one_le: "enforce_one p m = (m', c) \<Longrightarrow> m' q \<Longrightarrow> m q"
  by (auto simp: enforce_one_def split: if_splits option.splits)

lemma enforce_one_unchanged: "enforce_one p m = (m', False) \<Longrightarrow> m' = m"
  by (auto simp: enforce_one_def split: if_splits option.splits)

lemma enforce_one_changed: "enforce_one p m = (m', True) \<Longrightarrow> m p \<and> \<not> m' p"
  by (auto simp: enforce_one_def split: if_splits option.splits)

lemma enforce_one_keeps_closed:
  assumes "enforce_one p m = (m', c)" "closed_perms s" "\<And>q. s q \<Longrightarrow> m q" "s q"
  shows "m' q"
proof (cases "q = p")
  case True
  with assms(2,4) have "ValidPermission p" and req: "\<forall>q\<in>set (required_of p). s q"
    by (auto simp: closed_perms_def simp del: ValidPermission_not_other)
  then obtain d where "PermissionInfo p = Some d" "required_of p = pd_requires d"
    by (auto simp: ValidPermission_def required_of_def simp del: ValidPermission_not_other)
  with True assms(1,3,4) req show ?thesis
    by (auto simp: enforce_one_def list_all_iff split: if_splits)
next
  case False
  with assms show ?thesis
    by (auto simp: enforce_one_def split: if_splits option.splits)
qed

lemma enforce_pass_le: "enforce_pass ps m = (m', c) \<Longrightarrow> m' q \<Longrightarrow> m q"
  by (induction ps arbitrary: m m' c)
     (auto simp: Let_def split: prod.splits dest: enforce_one_le)

lemma enforce_pass_keeps_closed:
  "enforce_pass ps m = (m', c) \<Longrightarrow> closed_perms s \<Longrightarrow> (\<And>q. s q \<Longrightarrow> m q) \<Longrightarrow> s q \<Longrightarrow> m' q"
proof (induction ps arbitrary: m m' c q)
  case Nil
  then show ?case by simp
next
  case (Cons p ps)
  obtain m1 c1 where one: "enforce_one p m = (m1, c1)" by fastforce
  obtain m2 c2 where rest: "enforce_pass ps m1 = (m2, c2)" by fastforce
  have "s r \<Longrightarrow> m1 r" for r
    using enforce_one_keeps_closed [OF one Cons.prems(2,3)] by blast
  then have "m2 q" using Cons.IH [OF rest Cons.prems(2)] Cons.prems(4) by blast
  with one rest Cons.prems(1) show ?case by simp
qed

lemma enforce_pass_unchanged:
  "enforce_pass ps m = (m', False) \<Longrightarrow> m' = m \<and> (\<forall>p\<in>set ps. enforce_one p m = (m, False))"
  by (induction ps arbitrary: m m')
     (auto simp: Let_def split: prod.splits dest: enforce_one_unchanged)

lemma enforce_pass_changed:
  "enforce_pass ps m = (m', True) \<Longrightarrow> \<exists>p\<in>set ps. m p \<and> \<not> m' p"
proof (induction ps arbitrary: m m')
  case Nil
  then show ?case by simp
next
  case (Cons p ps)
  obtain m1 c1 where one: "enforce_one p m = (m1, c1)" by fastforce
  obtain m2 c2 where rest: "enforce_pass ps m1 = (m2, c2)" by fastforce
  from one rest Cons.prems have eq: "m' = m2" "c1 \<or> c2" by auto
  show ?case
  proof (cases c1)
    case True
    with one enforce_one_changed [of p m m1] have "m p \<and> \<not> m1 p" by simp
    with rest eq show ?thesis using enforce_pass_le by (metis list.set_intros(1))
  next
    case False
    with one enforce_one_unchanged [of p m m1] have "m1 = m" by simp
    with False rest eq Cons.IH [of m m2] show ?thesis by auto
  qed
qed


text \<open>The number of keys still allowed bounds the number of passes.\<close>

definition allowed_count :: "(permission \<Rightarrow> bool) \<Rightarrow> nat" where
  "allowed_count m = length (filter m AllPermissions)"

lemma allowed_count_pass:
  assumes "enforce_pass ps m = (m', True)" "set ps = set AllPermissions"
  shows "allowed_count m' < allowed_count m"
proof -
  have count: "allowed_count n = card {p \<in> set AllPermissions. n p}" for n
    unfolding allowed_count_def using distinct_AllPermissions
    by (metis distinct_card distinct_filter set_filter)
  obtain p where p: "p \<in> set AllPermissions" "m p" "\<not> m' p"
    using enforce_pass_changed [OF assms(1)] assms(2) by auto
  moreover have "{p \<in> set AllPermissions. m' p} \<subseteq> {p \<in> set AllPermissions. m p}"
    using enforce_pass_le [OF assms(1)] by auto
  ultimately have "{p \<in> set AllPermissions. m' p} \<subset> {p \<in> set AllPermissions. m p}" by blast
  then show ?thesis unfolding count by (intro psubset_card_mono) auto
qed

lemma enforce_loop_enough:
  "map_order ord \<Longrightarrow> allowed_count m < n \<Longrightarrow> enforce_loop n ord k m \<noteq> None"
proof (induction n arbitrary: k m)
  case 0
  then show ?case by simp
next
  case (Suc n)
  obtain m' c where pass: "enforce_pass (ord k) m = (m', c)" by fastforce
  show ?case
  proof (cases c)
    case True
    with pass Suc.prems have "allowed_count m' < n"
      using allowed_count_pass [of "ord k" m m'] by (auto simp: map_order_def)
    with Suc.IH [OF Suc.prems(1)] pass True show ?thesis by simp
  next
    case False
    with pass show ?thesis by simp
  qed
qed

lemma enforce_loop_result:
  assumes "map_order ord" "enforce_loop n ord k m = Some m'"
    and "\<And>p. m p \<Longrightarrow> p \<in> set AllPermissions"
  shows "closed_perms m' \<and> (\<forall>p. m' p \<longrightarrow> m p) \<and>
    (\<forall>s. closed_perms s \<longrightarrow> (\<forall>p. s p \<longrightarrow> m p) \<longrightarrow> (\<forall>p. s p \<longrightarrow> m' p))"
  using assms(2,3)
proof (induction n arbitrary: k m)
  case 0
  then show ?case by simp
next
  case (Suc n)
  obtain m1 c where pass: "enforce_pass (ord k) m = (m1, c)" by fastforce
  show ?case
  proof (cases c)
    case True
    have m1: "m1 p \<Longrightarrow> p \<in> set AllPermissions" for p
      using enforce_pass_le [OF pass] Suc.prems(2) by blast
    from pass True Suc.prems(1) have "enforce_loop n ord (Suc k) m1 = Some m'" by simp
    note IH = Suc.IH [OF this m1]
    have le: "m' p \<Longrightarrow> m p" for p
      using IH enforce_pass_le [OF pass, of p] by blast
    have "m' p" if "closed_perms s" "\<forall>p. s p \<longrightarrow> m p" "s p" for s p
    proof -
      have "\<forall>p. s p \<longrightarrow> m1 p"
        using enforce_pass_keeps_closed [OF pass that(1)] that(2) by blast
      then show ?thesis using IH that(1,3) by metis
    qed
    with IH le show ?thesis by simp
  next
    case False
    with pass Suc.prems(1) have m': "m' = m1" by simp
    from pass False have unch: "m1 = m" "\<forall>p\<in>set (ord k). enforce_one p m = (m, False)"
      using enforce_pass_unchanged [of "ord k" m m1] by simp_all
    have "ValidPermission p \<and> (\<forall>q\<in>set (required_of p). m q)" if "m p" for p
    proof -
      from that Suc.prems(2) assms(1) unch(2) have one: "enforce_one p m = (m, False)"
        by (simp add: map_order_def)
      from that one obtain d where "PermissionInfo p = Some d" "list_all m (pd_requires d)"
        by (auto simp: enforce_one_def split: if_splits option.splits)
      then show ?thesis by (simp add: ValidPermission_def required_of_def list_all_iff
            del: ValidPermission_not_other)
    qed
    then show ?thesis using m' unch(1) by (simp add: closed_perms_def)
  qed
qed

lemma allowed_count_le: "allowed_count m \<le> length AllPermissions"
  by (simp add: allowed_count_def)

text \<open>C1. Pruning a profile terminates, and whatever order Go iterates the map in, its result
  is the same: the largest closed set of permissions inside the given one.\<close>

theorem enforcePermissionDependencies_greatest:
  assumes "map_order ord" "\<And>p. m p \<Longrightarrow> p \<in> set AllPermissions"
  shows "\<exists>m'. enforcePermissionDependencies ord m = Some m' \<and> closed_perms m' \<and>
    (\<forall>p. m' p \<longrightarrow> m p) \<and>
    (\<forall>s. closed_perms s \<longrightarrow> (\<forall>p. s p \<longrightarrow> m p) \<longrightarrow> (\<forall>p. s p \<longrightarrow> m' p))"
proof -
  have "enforcePermissionDependencies ord m \<noteq> None"
    unfolding enforcePermissionDependencies_def
    using enforce_loop_enough [OF assms(1)] allowed_count_le le_imp_less_Suc by blast
  then obtain m' where m': "enforcePermissionDependencies ord m = Some m'" by blast
  from enforce_loop_result [OF assms(1) this [unfolded enforcePermissionDependencies_def] assms(2)]
  show ?thesis using m' by blast
qed

theorem enforcePermissionDependencies_greatest_witness:
  "\<exists>m'. enforcePermissionDependencies (\<lambda>_. rev AllPermissions) (\<lambda>p. p = PermConsoleUse) = Some m'
     \<and> closed_perms m'"
proof -
  have "map_order (\<lambda>_. rev AllPermissions)" by (simp add: map_order_def)
  moreover have "\<And>p. p = PermConsoleUse \<Longrightarrow> p \<in> set AllPermissions"
    by (simp add: AllPermissions_eq)
  ultimately show ?thesis
    using enforcePermissionDependencies_greatest [of "\<lambda>_. rev AllPermissions" "\<lambda>p. p = PermConsoleUse"]
    by blast
qed


section \<open>Loading a profile\<close>

text \<open>The pruning call made while loading; that it never runs out of passes is
  \<open>pruned_greatest\<close> below.\<close>

definition pruned :: "(permission \<Rightarrow> bool) \<Rightarrow> permission \<Rightarrow> bool" where
  "pruned m = (case enforcePermissionDependencies (\<lambda>_. AllPermissions) m of
      Some m' \<Rightarrow> m' | None \<Rightarrow> (\<lambda>_. False))"

definition apply_row :: "role \<Rightarrow> (permission \<Rightarrow> bool) \<Rightarrow> string \<times> int \<Rightarrow> permission \<Rightarrow> bool" where
  "apply_row r m row =
     (let p = permission_of_string (fst row)
      in if ValidPermission p \<and> PermissionAssignableTo p r then m(p := snd row \<noteq> 0) else m)"

definition loadRolePermissionState ::
  "(db_call \<Rightarrow> bool) \<Rightarrow> load_phase \<Rightarrow> perm_db \<Rightarrow> role \<Rightarrow> rp_error + role_permission_state" where
  "loadRolePermissionState fails ph db r =
     (let state = defaultRolePermissionState r; key = string_of_role r in
      if r = RoleOwner then Inr state
      else if \<not> ValidRole r then Inl InvalidRole
      else if fails (ProfileSelect ph key) then Inl (DbFailed (ProfileSelect ph key))
      else case db_profiles db key of
        None \<Rightarrow> Inr state
      | Some (customized, revision, updated_by) \<Rightarrow>
          let state = state\<lparr>rp_revision := revision, rp_exists := True,
                            rp_customized := (customized \<noteq> 0)\<rparr> in
          if \<not> rp_customized state then Inr state
          else if fails (RowsSelect ph key) then Inl (DbFailed (RowsSelect ph key))
          else Inr (state\<lparr>rp_perms :=
                 pruned (foldl (apply_row r) (\<lambda>_. False) (db_rows db key))\<rparr>))"

definition permissionList :: "role_permission_state \<Rightarrow> string list" where
  "permissionList st = map string_of_permission (filter (rp_perms st) AllPermissions)"

definition hasPermission :: "(db_call \<Rightarrow> bool) \<Rightarrow> perm_db \<Rightarrow> role \<Rightarrow> permission \<Rightarrow> bool" where
  "hasPermission fails db r p =
     (if \<not> ValidPermission p then False
      else case loadRolePermissionState fails LoadCheck db r of
        Inl e \<Rightarrow> False | Inr st \<Rightarrow> rp_perms st p)"

definition permissions :: "(db_call \<Rightarrow> bool) \<Rightarrow> perm_db \<Rightarrow> role \<Rightarrow> string list" where
  "permissions fails db r =
     (case loadRolePermissionState fails LoadCheck db r of
        Inl e \<Rightarrow> [] | Inr st \<Rightarrow> permissionList st)"

definition rolePermissionRevision :: "(db_call \<Rightarrow> bool) \<Rightarrow> perm_db \<Rightarrow> role \<Rightarrow> rp_error + int" where
  "rolePermissionRevision fails db r =
     rbind (loadRolePermissionState fails LoadCheck db r) (\<lambda>st. Inr (rp_revision st))"

lemma pruned_greatest:
  assumes "\<And>p. m p \<Longrightarrow> p \<in> set AllPermissions"
  shows "closed_perms (pruned m) \<and> (\<forall>p. pruned m p \<longrightarrow> m p) \<and>
    (\<forall>s. closed_perms s \<longrightarrow> (\<forall>p. s p \<longrightarrow> m p) \<longrightarrow> (\<forall>p. s p \<longrightarrow> pruned m p))"
proof -
  have ord: "map_order (\<lambda>_. AllPermissions)" by (simp add: map_order_def)
  have "enforcePermissionDependencies (\<lambda>_. AllPermissions) m \<noteq> None"
    unfolding enforcePermissionDependencies_def
    using enforce_loop_enough [OF ord] allowed_count_le le_imp_less_Suc by blast
  then obtain m' where m': "enforcePermissionDependencies (\<lambda>_. AllPermissions) m = Some m'" by blast
  from enforce_loop_result [OF ord this [unfolded enforcePermissionDependencies_def] assms]
  show ?thesis using m' by (simp add: pruned_def)
qed

lemma pruned_closed_id:
  assumes "closed_perms m" shows "pruned m = m"
proof -
  have "m p \<Longrightarrow> p \<in> set AllPermissions" for p
    using assms by (auto simp: closed_perms_def ValidPermission_iff simp del: ValidPermission_not_other)
  from pruned_greatest [OF this] assms show ?thesis by (auto simp: fun_eq_iff)
qed

definition assignable_perms :: "role \<Rightarrow> (permission \<Rightarrow> bool) \<Rightarrow> bool" where
  "assignable_perms r m \<longleftrightarrow> (\<forall>p. m p \<longrightarrow> ValidPermission p \<and> PermissionAssignableTo p r)"

lemma apply_row_assignable: "assignable_perms r m \<Longrightarrow> assignable_perms r (apply_row r m row)"
  by (simp add: assignable_perms_def apply_row_def Let_def del: ValidPermission_not_other)

lemma foldl_apply_row_legal: "assignable_perms r (foldl (apply_row r) (\<lambda>_. False) rows)"
  by (rule foldl_preserves [where P = "assignable_perms r"])
     (simp add: assignable_perms_def, rule apply_row_assignable)

lemma loaded_legal:
  assumes "loadRolePermissionState fails ph db r = Inr st"
  shows "closed_perms (rp_perms st) \<and>
    (\<forall>p. r \<noteq> RoleOwner \<longrightarrow> rp_perms st p \<longrightarrow> PermissionAssignableTo p r)"
proof -
  define rows where "rows = foldl (apply_row r) (\<lambda>_. False) (db_rows db (string_of_role r))"
  have legal: "rows p \<Longrightarrow> ValidPermission p \<and> PermissionAssignableTo p r" for p
    using foldl_apply_row_legal [of r] by (simp add: rows_def assignable_perms_def del: ValidPermission_not_other)
  then have "closed_perms (pruned rows)" "pruned rows p \<Longrightarrow> rows p" for p
    using pruned_greatest [of rows] by (simp_all add: ValidPermission_iff del: ValidPermission_not_other)
  with legal have p: "closed_perms (pruned rows) \<and>
      (\<forall>p. r \<noteq> RoleOwner \<longrightarrow> pruned rows p \<longrightarrow> PermissionAssignableTo p r)" by blast
  from assms have "rp_perms st = Has r \<or> rp_perms st = pruned rows"
    by (auto simp: loadRolePermissionState_def Let_def rows_def split: if_splits option.splits)
  then show ?thesis using p Has_closed Has_assignable by fastforce
qed

text \<open>C2. Whatever the tables hold, a profile that loads is legal: closed under prerequisites
  and, for a role other than the Owner, made of permissions that may be assigned to it.\<close>

theorem loaded_profile_legal:
  assumes "loadRolePermissionState fails ph db r = Inr st" "rp_perms st p"
  shows "ValidPermission p \<and> (\<forall>q\<in>set (required_of p). rp_perms st q) \<and>
    (r = RoleOwner \<or> PermissionAssignableTo p r)"
  using loaded_legal [OF assms(1)] assms(2) by (auto simp: closed_perms_def simp del: ValidPermission_not_other)

text \<open>A Viewer is structurally read-only: no contents of the tables make the check of
  a permission other than a view permission succeed for the Viewer role.\<close>

lemma viewer_read_only:
  "hasPermission fails db RoleViewer p \<Longrightarrow> p \<in> set view_permissions"
  using loaded_legal [of fails LoadCheck db RoleViewer]
  by (auto simp: hasPermission_def viewer_assignable_iff
      split: if_splits sum.splits simp del: ValidPermission_not_other)


theorem loaded_profile_legal_witness:
  "\<exists>st. loadRolePermissionState (\<lambda>_. False) LoadCheck
     \<lparr>db_profiles = (\<lambda>_. None), db_rows = (\<lambda>_. []), db_users = []\<rparr> RoleMember = Inr st \<and>
   rp_perms st PermServerStart \<and> rp_perms st PermServerView"
proof -
  let ?db = "\<lparr>db_profiles = (\<lambda>_. None), db_rows = (\<lambda>_. []), db_users = []\<rparr>"
  let ?st = "defaultRolePermissionState RoleMember"
  have load: "loadRolePermissionState (\<lambda>_. False) LoadCheck ?db RoleMember = Inr ?st"
    by (simp add: loadRolePermissionState_def)
  have p: "rp_perms ?st PermServerStart" by (simp add: Has_def)
  from loaded_profile_legal [OF load p] have "rp_perms ?st PermServerView"
    by (simp add: catalog_simps)
  with load p show ?thesis by blast
qed

lemma viewer_read_only_witness:
  "hasPermission (\<lambda>_. False) \<lparr>db_profiles = (\<lambda>_. None), db_rows = (\<lambda>_. []), db_users = []\<rparr>
     RoleViewer PermConsoleView \<and> PermConsoleView \<in> set view_permissions"
proof -
  have h: "hasPermission (\<lambda>_. False) \<lparr>db_profiles = (\<lambda>_. None), db_rows = (\<lambda>_. []), db_users = []\<rparr>
     RoleViewer PermConsoleView"
    by (simp add: hasPermission_def loadRolePermissionState_def Has_def)
  with viewer_read_only [OF h] show ?thesis by blast
qed

end
