(* ===== verification/Accounts.thy ===== *)
theory Accounts
  imports Authorization GoStrings
begin

text \<open>
  The account store (\<open>source/internal/auth/store.go\<close>) over the tables of
  \<open>source/migrations/0001_initial.sql\<close>: users, recovery codes, sessions, invitations and login
  attempts. Times are nanoseconds; a stored RFC 3339 timestamp keeps whole seconds and compares
  as its number of seconds. Cryptography enters as a record of functions, random values as
  arguments, failing database calls as \<open>fails\<close>.
\<close>

section \<open>Tables\<close>

record user =
  u_id :: int
  u_name :: string
  u_hash :: string
  u_enc :: string
  u_role :: role
  u_disabled :: bool

record recovery_code =
  rc_user :: int
  rc_hash :: string
  rc_used :: bool

record session =
  s_id :: string
  s_user :: int
  s_expires :: int
  s_revoked :: bool

record invitation =
  i_id :: int
  i_hash :: string
  i_role :: role
  i_created_by :: int
  i_expires :: int
  i_used_by :: "int option"
  i_revoked :: bool

record attempt =
  at_ident :: string
  at_time :: int
  at_success :: bool

text \<open>\<open>other_refs\<close> are the user ids that operations, schedules and backups refer to; like the
  two references of an invitation they have no delete action, so they block a deletion.\<close>

record account_db =
  users :: "user list"
  recovery_codes :: "recovery_code list"
  sessions :: "session list"
  invitations :: "invitation list"
  attempts :: "attempt list"
  other_refs :: "int list"

datatype acc_error =
    InvalidInput | LastOwner | UsernameTaken | RateLimited | InvalidCredentials
  | InvitationInvalid | InvitationUsed | NoRows | ForeignKey | CallFailed

datatype acc_call =
    SelectUser | SelectRole | CountOwners | UpdateUser | UpdateSessions | DeleteRow
  | InsertUser | InsertCodes | InsertSession | InsertInvitation | SelectInvitation
  | UpdateInvitation | UpdateCodes | SelectCodes | SelectSession
  | InsertAttempt | PruneAttempts | CountAttempts

text \<open>The cryptographic functions of \<open>crypto.go\<close> and \<open>security.go\<close> the store calls, the last
  with the store's secret key.\<close>

record crypto =
  verify_password :: "string \<Rightarrow> string \<Rightarrow> bool"
  verify_totp :: "string \<Rightarrow> string \<Rightarrow> int \<Rightarrow> bool"
  hash_token :: "string \<Rightarrow> string"
  decrypt :: "string \<Rightarrow> string option"

definition stamp :: "int \<Rightarrow> int" where "stamp t = t div 1000000000"

definition second :: int where "second = 1000000000"

section \<open>Names and passwords\<close>

definition NormalizeUsername :: "string \<Rightarrow> string" where
  "NormalizeUsername u = ToLower (TrimSpace u)"

definition username_char :: "char \<Rightarrow> bool" where
  "username_char c \<longleftrightarrow>
     (let n = of_char c :: nat in
      (97 \<le> n \<and> n \<le> 122) \<or> (65 \<le> n \<and> n \<le> 90) \<or> (48 \<le> n \<and> n \<le> 57) \<or>
      c = CHR ''_'' \<or> c = CHR ''-'' \<or> c = CHR ''.'')"

definition ValidateUsername :: "string \<Rightarrow> bool" where
  "ValidateUsername u =
     (let u = TrimSpace u in
      if length u < 3 \<or> 32 < length u then False else list_all username_char u)"

definition ValidatePassword :: "string \<Rightarrow> bool" where
  "ValidatePassword p = (if length p < 10 then False else if 256 < length p then False else True)"

section \<open>Users\<close>

text \<open>User names are unique without regard to ASCII case, the collation \<open>NOCASE\<close>.\<close>

definition same_name :: "string \<Rightarrow> string \<Rightarrow> bool" where
  "same_name a b \<longleftrightarrow> ToLower a = ToLower b"

definition next_user_id :: "account_db \<Rightarrow> int" where
  "next_user_id db = foldl max 0 (map u_id (users db)) + 1"

text \<open>The two inserts run in one transaction. \<open>material\<close> is the password hash, the encrypted
  TOTP secret and the recovery codes, \<open>None\<close> when one of them could not be produced.\<close>

definition CreateUser ::
  "(acc_call \<Rightarrow> bool) \<Rightarrow> crypto \<Rightarrow> (string \<times> string \<times> string list) option \<Rightarrow> string \<Rightarrow> string \<Rightarrow> role
   \<Rightarrow> account_db \<Rightarrow> acc_error + (user \<times> string list \<times> account_db)" where
  "CreateUser fails cr material username password r db =
     (if \<not> ValidateUsername username then Inl InvalidInput
      else if \<not> ValidatePassword password then Inl InvalidInput
      else if \<not> ValidRole r then Inl InvalidInput
      else case material of
        None \<Rightarrow> Inl CallFailed
      | Some (hash, enc, codes) \<Rightarrow>
          if list_ex (\<lambda>u. same_name (u_name u) username) (users db) then Inl UsernameTaken
          else if fails InsertUser \<or> fails InsertCodes then Inl CallFailed
          else let u = \<lparr>u_id = next_user_id db, u_name = username, u_hash = hash, u_enc = enc,
                        u_role = r, u_disabled = False\<rparr>
               in Inr (u, codes,
                    db\<lparr>users := users db @ [u],
                       recovery_codes := recovery_codes db @
                         map (\<lambda>c. \<lparr>rc_user = u_id u, rc_hash = hash_token cr c, rc_used = False\<rparr>) codes\<rparr>))"

definition UserByID :: "(acc_call \<Rightarrow> bool) \<Rightarrow> int \<Rightarrow> account_db \<Rightarrow> acc_error + user" where
  "UserByID fails i db =
     (if fails SelectUser then Inl CallFailed
      else case List.find (\<lambda>u. u_id u = i) (users db) of None \<Rightarrow> Inl NoRows | Some u \<Rightarrow> Inr u)"

definition UserByName :: "(acc_call \<Rightarrow> bool) \<Rightarrow> string \<Rightarrow> account_db \<Rightarrow> acc_error + user" where
  "UserByName fails n db =
     (if fails SelectUser then Inl CallFailed
      else case List.find (\<lambda>u. same_name (u_name u) n) (users db) of
        None \<Rightarrow> Inl NoRows | Some u \<Rightarrow> Inr u)"

definition ListUsers :: "(acc_call \<Rightarrow> bool) \<Rightarrow> account_db \<Rightarrow> acc_error + user list" where
  "ListUsers fails db =
     (if fails SelectUser then Inl CallFailed else Inr (sort_key u_id (users db)))"

definition active_owner :: "user \<Rightarrow> bool" where
  "active_owner u \<longleftrightarrow> u_role u = RoleOwner \<and> \<not> u_disabled u"

definition countActiveOwners :: "account_db \<Rightarrow> nat" where
  "countActiveOwners db = length (filter active_owner (users db))"

text \<open>\<open>None\<close> is the nil error.\<close>

definition guardLastOwner :: "(acc_call \<Rightarrow> bool) \<Rightarrow> int \<Rightarrow> account_db \<Rightarrow> acc_error option" where
  "guardLastOwner fails i db =
     (if fails SelectRole then Some CallFailed
      else case List.find (\<lambda>u. u_id u = i) (users db) of
        None \<Rightarrow> Some NoRows
      | Some u \<Rightarrow>
          if u_role u \<noteq> RoleOwner \<or> u_disabled u then None
          else if fails CountOwners then Some CallFailed
          else if countActiveOwners db \<le> 1 then Some LastOwner
          else None)"

definition update_user :: "int \<Rightarrow> (user \<Rightarrow> user) \<Rightarrow> account_db \<Rightarrow> account_db" where
  "update_user i f db = db\<lparr>users := map (\<lambda>u. if u_id u = i then f u else u) (users db)\<rparr>"

definition SetRole ::
  "(acc_call \<Rightarrow> bool) \<Rightarrow> int \<Rightarrow> role \<Rightarrow> account_db \<Rightarrow> acc_error option \<times> account_db" where
  "SetRole fails i r db =
     (if \<not> ValidRole r then (Some InvalidInput, db)
      else case (if r \<noteq> RoleOwner then guardLastOwner fails i db else None) of
        Some e \<Rightarrow> (Some e, db)
      | None \<Rightarrow> if fails UpdateUser then (Some CallFailed, db)
                else (None, update_user i (\<lambda>u. u\<lparr>u_role := r\<rparr>) db))"

definition RevokeAllSessions ::
  "(acc_call \<Rightarrow> bool) \<Rightarrow> int \<Rightarrow> account_db \<Rightarrow> acc_error option \<times> account_db" where
  "RevokeAllSessions fails i db =
     (if fails UpdateSessions then (Some CallFailed, db)
      else (None, db\<lparr>sessions :=
             map (\<lambda>s. if s_user s = i then s\<lparr>s_revoked := True\<rparr> else s) (sessions db)\<rparr>))"

definition SetDisabled ::
  "(acc_call \<Rightarrow> bool) \<Rightarrow> int \<Rightarrow> bool \<Rightarrow> account_db \<Rightarrow> acc_error option \<times> account_db" where
  "SetDisabled fails i disabled db =
     (case (if disabled then guardLastOwner fails i db else None) of
        Some e \<Rightarrow> (Some e, db)
      | None \<Rightarrow>
          if fails UpdateUser then (Some CallFailed, db)
          else let db' = update_user i (\<lambda>u. u\<lparr>u_disabled := disabled\<rparr>) db
               in if disabled then RevokeAllSessions fails i db' else (None, db'))"

text \<open>The delete statement: sessions and recovery codes of the user go with it; a row that
  refers to the user without a delete action makes the statement fail.\<close>

definition referenced :: "int \<Rightarrow> account_db \<Rightarrow> bool" where
  "referenced i db \<longleftrightarrow>
     list_ex (\<lambda>v. i_created_by v = i \<or> i_used_by v = Some i) (invitations db) \<or>
     i \<in> set (other_refs db)"

definition DeleteUser ::
  "(acc_call \<Rightarrow> bool) \<Rightarrow> int \<Rightarrow> account_db \<Rightarrow> acc_error option \<times> account_db" where
  "DeleteUser fails i db =
     (case guardLastOwner fails i db of
        Some e \<Rightarrow> (Some e, db)
      | None \<Rightarrow>
          if fails DeleteRow then (Some CallFailed, db)
          else if referenced i db then (Some ForeignKey, db)
          else (None, db\<lparr>users := filter (\<lambda>u. u_id u \<noteq> i) (users db),
                         sessions := filter (\<lambda>s. s_user s \<noteq> i) (sessions db),
                         recovery_codes := filter (\<lambda>c. rc_user c \<noteq> i) (recovery_codes db)\<rparr>))"

definition ResetPassword ::
  "(acc_call \<Rightarrow> bool) \<Rightarrow> string option \<Rightarrow> int \<Rightarrow> string \<Rightarrow> account_db \<Rightarrow> acc_error option \<times> account_db" where
  "ResetPassword fails newHash i newPassword db =
     (if \<not> ValidatePassword newPassword then (Some InvalidInput, db)
      else case newHash of
        None \<Rightarrow> (Some CallFailed, db)
      | Some h \<Rightarrow> if fails UpdateUser then (Some CallFailed, db)
                  else (None, update_user i (\<lambda>u. u\<lparr>u_hash := h\<rparr>) db))"

definition TOTPSecretFor ::
  "(acc_call \<Rightarrow> bool) \<Rightarrow> crypto \<Rightarrow> int \<Rightarrow> account_db \<Rightarrow> acc_error + string" where
  "TOTPSecretFor fails cr i db =
     rbind (UserByID fails i db) (\<lambda>u.
       case decrypt cr (u_enc u) of None \<Rightarrow> Inl CallFailed | Some pt \<Rightarrow> Inr pt)"


section \<open>Rate limiting\<close>

definition rateWindow :: int where "rateWindow = 10 * 60 * second"
definition rateMaxFails :: nat where "rateMaxFails = 8"

text \<open>Errors of the two statements are ignored by the code.\<close>

definition recordAttempt ::
  "(acc_call \<Rightarrow> bool) \<Rightarrow> int \<Rightarrow> string \<Rightarrow> bool \<Rightarrow> account_db \<Rightarrow> account_db" where
  "recordAttempt fails now identifier success db =
     (let db1 = (if fails InsertAttempt then db
                 else db\<lparr>attempts := attempts db @
                   [\<lparr>at_ident = identifier, at_time = stamp now, at_success = success\<rparr>]\<rparr>)
      in if fails PruneAttempts then db1
         else db1\<lparr>attempts := filter (\<lambda>a. \<not> at_time a < stamp (now - 24 * 3600 * second)) (attempts db1)\<rparr>)"

definition recent_fails :: "account_db \<Rightarrow> string \<Rightarrow> int \<Rightarrow> nat" where
  "recent_fails db ident since =
     length (filter (\<lambda>a. at_ident a = ident \<and> \<not> at_success a \<and> since < at_time a) (attempts db))"

definition rateLimited :: "(acc_call \<Rightarrow> bool) \<Rightarrow> int \<Rightarrow> string list \<Rightarrow> account_db \<Rightarrow> bool" where
  "rateLimited fails now identifiers db =
     (let since = stamp (now - rateWindow) in
      list_ex (\<lambda>i. rateMaxFails \<le> (if fails CountAttempts then 0 else recent_fails db i since)) identifiers)"

section \<open>Recovery codes and login\<close>

definition recovery_matches :: "crypto \<Rightarrow> int \<Rightarrow> string \<Rightarrow> recovery_code \<Rightarrow> bool" where
  "recovery_matches cr i code c \<longleftrightarrow> rc_user c = i \<and> rc_hash c = hash_token cr code \<and> \<not> rc_used c"

definition recoveryCodeAvailable ::
  "(acc_call \<Rightarrow> bool) \<Rightarrow> crypto \<Rightarrow> int \<Rightarrow> string \<Rightarrow> account_db \<Rightarrow> bool" where
  "recoveryCodeAvailable fails cr i code db =
     (let code = ToLower (TrimSpace code) in
      if length code < 8 then False
      else \<not> fails SelectCodes \<and> list_ex (recovery_matches cr i code) (recovery_codes db))"

definition consumeRecoveryCode ::
  "(acc_call \<Rightarrow> bool) \<Rightarrow> crypto \<Rightarrow> int \<Rightarrow> string \<Rightarrow> account_db \<Rightarrow> bool \<times> account_db" where
  "consumeRecoveryCode fails cr i code db =
     (let code = ToLower (TrimSpace code) in
      if length code < 8 then (False, db)
      else if fails UpdateCodes then (False, db)
      else (length (filter (recovery_matches cr i code) (recovery_codes db)) = 1,
            db\<lparr>recovery_codes := map (\<lambda>c. if recovery_matches cr i code c then c\<lparr>rc_used := True\<rparr> else c)
                 (recovery_codes db)\<rparr>))"

text \<open>The identifiers attempts are counted under.\<close>

definition user_ident :: "string \<Rightarrow> string" where "user_ident username = ''u:'' @ NormalizeUsername username"
definition ip_ident :: "string \<Rightarrow> string" where "ip_ident addr = ''ip:'' @ addr"

definition login_fail ::
  "(acc_call \<Rightarrow> bool) \<Rightarrow> int \<Rightarrow> string \<Rightarrow> string \<Rightarrow> account_db \<Rightarrow> (acc_error + user) \<times> account_db" where
  "login_fail fails now username remoteAddr db =
     (Inl InvalidCredentials,
      recordAttempt fails now (ip_ident remoteAddr) False
        (recordAttempt fails now (user_ident username) False db))"

text \<open>\<open>Login\<close> after the rate limit has been passed.\<close>

definition login_checked ::
  "(acc_call \<Rightarrow> bool) \<Rightarrow> crypto \<Rightarrow> int \<Rightarrow> string \<Rightarrow> string \<Rightarrow> string \<Rightarrow> string \<Rightarrow> account_db
   \<Rightarrow> (acc_error + user) \<times> account_db" where
  "login_checked fails cr now username password code remoteAddr db =
     (case UserByName fails username db of
        Inl NoRows \<Rightarrow> login_fail fails now username remoteAddr db
      | Inl e \<Rightarrow> (Inl e, db)
      | Inr u \<Rightarrow>
          let passOK = verify_password cr password (u_hash u);
              totpOK = (case decrypt cr (u_enc u) of
                          Some secret \<Rightarrow> verify_totp cr secret code now
                        | None \<Rightarrow> False);
              recoveryOK = (if totpOK then False else recoveryCodeAvailable fails cr (u_id u) code db);
              codeOK = (if totpOK then True else recoveryOK)
          in if \<not> passOK \<or> \<not> codeOK \<or> u_disabled u
             then login_fail fails now username remoteAddr db
             else if recoveryOK
             then (case consumeRecoveryCode fails cr (u_id u) code db of
                     (False, db') \<Rightarrow> login_fail fails now username remoteAddr db'
                   | (True, db') \<Rightarrow> (Inr u, recordAttempt fails now (user_ident username) True db'))
             else (Inr u, recordAttempt fails now (user_ident username) True db))"

definition Login ::
  "(acc_call \<Rightarrow> bool) \<Rightarrow> crypto \<Rightarrow> int \<Rightarrow> string \<Rightarrow> string \<Rightarrow> string \<Rightarrow> string \<Rightarrow> account_db
   \<Rightarrow> (acc_error + user) \<times> account_db" where
  "Login fails cr now username password code remoteAddr db =
     (if rateLimited fails now [user_ident username, ip_ident remoteAddr] db
      then (Inl RateLimited, db)
      else login_checked fails cr now username password code remoteAddr db)"

section \<open>Sessions\<close>

text \<open>\<open>tok\<close> is the fresh random token, \<open>ttl\<close> the store's session lifetime.\<close>

definition CreateSession ::
  "(acc_call \<Rightarrow> bool) \<Rightarrow> crypto \<Rightarrow> int \<Rightarrow> int \<Rightarrow> string option \<Rightarrow> int \<Rightarrow> account_db
   \<Rightarrow> acc_error + (string \<times> account_db)" where
  "CreateSession fails cr now ttl tok userID db =
     (case tok of
        None \<Rightarrow> Inl CallFailed
      | Some t \<Rightarrow>
          if fails InsertSession \<or> hash_token cr t \<in> set (map s_id (sessions db)) \<or>
             userID \<notin> set (map u_id (users db))
          then Inl CallFailed
          else Inr (t, db\<lparr>sessions := sessions db @
                 [\<lparr>s_id = hash_token cr t, s_user = userID,
                   s_expires = stamp (now + ttl), s_revoked = False\<rparr>]\<rparr>))"

definition ValidateSession ::
  "(acc_call \<Rightarrow> bool) \<Rightarrow> crypto \<Rightarrow> int \<Rightarrow> string \<Rightarrow> account_db \<Rightarrow> acc_error + user" where
  "ValidateSession fails cr now token db =
     (if token = [] then Inl InvalidCredentials
      else if fails SelectSession then Inl InvalidCredentials
      else case List.find (\<lambda>s. s_id s = hash_token cr token) (sessions db) of
        None \<Rightarrow> Inl InvalidCredentials
      | Some s \<Rightarrow>
          if s_revoked s \<or> s_expires s * second < now then Inl InvalidCredentials
          else case UserByID fails (s_user s) db of
            Inl e \<Rightarrow> Inl InvalidCredentials
          | Inr u \<Rightarrow> if u_disabled u then Inl InvalidCredentials else Inr u)"

definition RevokeSession ::
  "(acc_call \<Rightarrow> bool) \<Rightarrow> crypto \<Rightarrow> string \<Rightarrow> account_db \<Rightarrow> acc_error option \<times> account_db" where
  "RevokeSession fails cr token db =
     (if fails UpdateSessions then (Some CallFailed, db)
      else (None, db\<lparr>sessions :=
             map (\<lambda>s. if s_id s = hash_token cr token then s\<lparr>s_revoked := True\<rparr> else s) (sessions db)\<rparr>))"

section \<open>Invitations\<close>

definition CreateInvitation ::
  "(acc_call \<Rightarrow> bool) \<Rightarrow> crypto \<Rightarrow> int \<Rightarrow> string option \<Rightarrow> int \<Rightarrow> role \<Rightarrow> int \<Rightarrow> account_db
   \<Rightarrow> acc_error + (string \<times> account_db)" where
  "CreateInvitation fails cr now tok createdBy r ttl db =
     (if r = RoleOwner then Inl InvalidInput
      else if \<not> ValidRole r then Inl InvalidInput
      else case tok of
        None \<Rightarrow> Inl CallFailed
      | Some t \<Rightarrow>
          if fails InsertInvitation \<or> hash_token cr t \<in> set (map i_hash (invitations db)) \<or>
             createdBy \<notin> set (map u_id (users db))
          then Inl CallFailed
          else Inr (t, db\<lparr>invitations := invitations db @
                 [\<lparr>i_id = foldl max 0 (map i_id (invitations db)) + 1, i_hash = hash_token cr t,
                   i_role = r, i_created_by = createdBy, i_expires = stamp (now + ttl),
                   i_used_by = None, i_revoked = False\<rparr>]\<rparr>))"

definition CheckInvitation ::
  "(acc_call \<Rightarrow> bool) \<Rightarrow> crypto \<Rightarrow> int \<Rightarrow> string \<Rightarrow> account_db \<Rightarrow> acc_error + (role \<times> int)" where
  "CheckInvitation fails cr now token db =
     (if fails SelectInvitation then Inl InvitationInvalid
      else case List.find (\<lambda>v. i_hash v = hash_token cr token) (invitations db) of
        None \<Rightarrow> Inl InvitationInvalid
      | Some v \<Rightarrow>
          if i_revoked v \<or> i_used_by v \<noteq> None \<or> i_expires v * second < now
          then Inl InvitationInvalid
          else Inr (i_role v, i_id v))"

definition claim_invitation :: "int \<Rightarrow> int \<Rightarrow> account_db \<Rightarrow> nat \<times> account_db" where
  "claim_invitation invID userID db =
     (let open_inv = (\<lambda>v. i_id v = invID \<and> i_used_by v = None \<and> \<not> i_revoked v) in
      (length (filter open_inv (invitations db)),
       db\<lparr>invitations := map (\<lambda>v. if open_inv v then v\<lparr>i_used_by := Some userID\<rparr> else v)
            (invitations db)\<rparr>))"

definition ActivateInvitation ::
  "(acc_call \<Rightarrow> bool) \<Rightarrow> crypto \<Rightarrow> int \<Rightarrow> (string \<times> string \<times> string list) option
   \<Rightarrow> string \<Rightarrow> string \<Rightarrow> string \<Rightarrow> string \<Rightarrow> string \<Rightarrow> account_db
   \<Rightarrow> (acc_error + (user \<times> string list)) \<times> account_db" where
  "ActivateInvitation fails cr now material token username password totpSecret totpCode db =
     (case CheckInvitation fails cr now token db of
        Inl e \<Rightarrow> (Inl e, db)
      | Inr (r, invID) \<Rightarrow>
          if \<not> verify_totp cr totpSecret totpCode now then (Inl InvalidCredentials, db)
          else case CreateUser fails cr material username password r db of
            Inl e \<Rightarrow> (Inl e, db)
          | Inr (u, codes, db1) \<Rightarrow>
              if fails UpdateInvitation then (Inl CallFailed, db1)
              else case claim_invitation invID (u_id u) db1 of
                (n, db2) \<Rightarrow>
                  if n \<noteq> 1
                  then (Inl InvitationUsed, if fails DeleteRow then db2 else db2\<lparr>users := filter (\<lambda>v. u_id v \<noteq> u_id u) (users db2),
                          recovery_codes := filter (\<lambda>c. rc_user c \<noteq> u_id u) (recovery_codes db2)\<rparr>)
                  else (Inr (u, codes), db2))"

definition RevokeInvitation ::
  "(acc_call \<Rightarrow> bool) \<Rightarrow> int \<Rightarrow> account_db \<Rightarrow> acc_error option \<times> account_db" where
  "RevokeInvitation fails i db =
     (if fails UpdateInvitation then (Some CallFailed, db)
      else (None, db\<lparr>invitations :=
             map (\<lambda>v. if i_id v = i then v\<lparr>i_revoked := True\<rparr> else v) (invitations db)\<rparr>))"

end
