(* ===== verification/Gateway.thy ===== *)
theory Gateway
  imports RolePermissions Accounts
begin

text \<open>
  The way of a request to its handler (\<open>source/internal/app/http.go\<close>, the route table and the
  websocket checks of \<open>source/internal/app/handlers.go\<close>): the CSRF check, the router, the session,
  role and permission guards. A request is its method, the segments of its clean path, the
  cookies and headers these look at; a response is which guard answered or which handler runs for
  which user. Handlers themselves are named, not run.
\<close>

section \<open>Requests\<close>

record request =
  rq_method :: string
  rq_path :: "string list"
  rq_session :: "string option"
  rq_csrf :: "string option"
  rq_csrf_header :: string
  rq_tls :: bool
  rq_origin :: "(string \<times> string) option"
  rq_host :: string
  rq_remote :: string

text \<open>What the guards read of the running program.\<close>

record gateway =
  gw_account_fails :: "acc_call \<Rightarrow> bool"
  gw_perm_fails :: "db_call \<Rightarrow> bool"
  gw_crypto :: crypto
  gw_now :: int
  gw_accounts :: account_db
  gw_perms :: perm_db

datatype guard = Open | Auth | Owner | Perm permission | AnyPerm "permission list"
datatype segment = Lit string | Wild
datatype route = Route (rt_method: string) (rt_path: "segment list") (rt_guard: guard) (rt_handler: string)

datatype response =
    CsrfFailed | AuthRequired | OwnerRequired | Denied | Frontend | Handled string "user option"

section \<open>Guards\<close>

definition sessionUser :: "gateway \<Rightarrow> request \<Rightarrow> acc_error + user" where
  "sessionUser g rq =
     (case rq_session rq of
        None \<Rightarrow> Inl InvalidCredentials
      | Some v \<Rightarrow>
          if v = [] then Inl InvalidCredentials
          else ValidateSession (gw_account_fails g) (gw_crypto g) (gw_now g) v (gw_accounts g))"

definition allowed :: "gateway \<Rightarrow> role \<Rightarrow> permission \<Rightarrow> bool" where
  "allowed g r p = hasPermission (gw_perm_fails g) (gw_perms g) r p"

definition requireAuth :: "gateway \<Rightarrow> (user \<Rightarrow> response) \<Rightarrow> request \<Rightarrow> response" where
  "requireAuth g next rq = (case sessionUser g rq of Inl _ \<Rightarrow> AuthRequired | Inr u \<Rightarrow> next u)"

definition requireOwner :: "gateway \<Rightarrow> (user \<Rightarrow> response) \<Rightarrow> request \<Rightarrow> response" where
  "requireOwner g next = requireAuth g (\<lambda>u. if u_role u \<noteq> RoleOwner then OwnerRequired else next u)"

definition requirePerm :: "gateway \<Rightarrow> permission \<Rightarrow> (user \<Rightarrow> response) \<Rightarrow> request \<Rightarrow> response" where
  "requirePerm g p next = requireAuth g (\<lambda>u. if \<not> allowed g (u_role u) p then Denied else next u)"

definition requireAnyPerm :: "gateway \<Rightarrow> permission list \<Rightarrow> (user \<Rightarrow> response) \<Rightarrow> request \<Rightarrow> response" where
  "requireAnyPerm g ps next =
     requireAuth g (\<lambda>u. if list_ex (allowed g (u_role u)) ps then next u else Denied)"

fun guarded :: "gateway \<Rightarrow> guard \<Rightarrow> string \<Rightarrow> request \<Rightarrow> response" where
  "guarded g Open h rq = Handled h None"
| "guarded g Auth h rq = requireAuth g (\<lambda>u. Handled h (Some u)) rq"
| "guarded g Owner h rq = requireOwner g (\<lambda>u. Handled h (Some u)) rq"
| "guarded g (Perm p) h rq = requirePerm g p (\<lambda>u. Handled h (Some u)) rq"
| "guarded g (AnyPerm ps) h rq = requireAnyPerm g ps (\<lambda>u. Handled h (Some u)) rq"

section \<open>The route table\<close>

definition session_routes :: "route list" where
  "session_routes =
   [Route ''GET'' [Lit ''api'', Lit ''auth'', Lit ''turnstile''] Open ''handleTurnstilePublic'',
    Route ''POST'' [Lit ''api'', Lit ''auth'', Lit ''login''] Open ''handleLogin'',
    Route ''POST'' [Lit ''api'', Lit ''auth'', Lit ''passkey'', Lit ''begin''] Open ''handleTurnstilePasskeyLoginBegin'',
    Route ''POST'' [Lit ''api'', Lit ''auth'', Lit ''passkey'', Lit ''finish''] Open ''handlePasskeyLoginFinish'',
    Route ''POST'' [Lit ''api'', Lit ''auth'', Lit ''logout''] Auth ''handleLogout'',
    Route ''GET'' [Lit ''api'', Lit ''auth'', Lit ''me''] Auth ''handleMe'',
    Route ''GET'' [Lit ''api'', Lit ''auth'', Lit ''csrf''] Open ''handleCSRF'',
    Route ''GET'' [Lit ''api'', Lit ''invitations'', Wild] Open ''handleInvitationCheck'',
    Route ''POST'' [Lit ''api'', Lit ''invitations'', Wild, Lit ''activate''] Open ''handleInvitationActivate'',
    Route ''POST'' [Lit ''api'', Lit ''invitations'', Wild, Lit ''totp''] Open ''handleInvitationTOTP'',
    Route ''GET'' [Lit ''api'', Lit ''passkeys''] Auth ''handlePasskeyList'',
    Route ''POST'' [Lit ''api'', Lit ''passkeys'', Lit ''register'', Lit ''begin''] Auth ''handlePasskeyRegisterBegin'',
    Route ''POST'' [Lit ''api'', Lit ''passkeys'', Lit ''register'', Lit ''finish''] Auth ''handlePasskeyRegisterFinish'',
    Route ''PATCH'' [Lit ''api'', Lit ''passkeys'', Wild] Auth ''handlePasskeyUpdate'',
    Route ''DELETE'' [Lit ''api'', Lit ''passkeys'', Wild] Auth ''handlePasskeyDelete'',
    Route ''POST'' [Lit ''api'', Lit ''account'', Lit ''reauth'', Lit ''password''] Auth ''handleAccountPasswordReauth'',
    Route ''POST'' [Lit ''api'', Lit ''account'', Lit ''reauth'', Lit ''passkey'', Lit ''begin''] Auth ''handleAccountPasskeyReauthBegin'',
    Route ''POST'' [Lit ''api'', Lit ''account'', Lit ''reauth'', Lit ''passkey'', Lit ''finish''] Auth ''handleAccountPasskeyReauthFinish'',
    Route ''POST'' [Lit ''api'', Lit ''account'', Lit ''password''] Auth ''handleAccountPasswordChange'',
    Route ''POST'' [Lit ''api'', Lit ''account'', Lit ''totp'', Lit ''begin''] Auth ''handleAccountTOTPBegin'',
    Route ''POST'' [Lit ''api'', Lit ''account'', Lit ''totp'', Lit ''finish''] Auth ''handleAccountTOTPFinish'',
    Route ''GET'' [Lit ''api'', Lit ''account'', Lit ''recovery-codes''] Auth ''handleRecoveryCodeList'',
    Route ''POST'' [Lit ''api'', Lit ''account'', Lit ''recovery-codes'', Lit ''regenerate''] Auth ''handleRecoveryCodeRegenerate'']"

definition user_routes :: "route list" where
  "user_routes =
   [Route ''GET'' [Lit ''api'', Lit ''users''] (AnyPerm [PermUsersManage, PermRolesManage]) ''handleUserList'',
    Route ''POST'' [Lit ''api'', Lit ''users'', Lit ''invite''] (Perm PermUsersManage) ''handleUserInvite'',
    Route ''POST'' [Lit ''api'', Lit ''users'', Wild, Lit ''role''] (Perm PermUsersManage) ''handleUserRole'',
    Route ''POST'' [Lit ''api'', Lit ''users'', Wild, Lit ''disable''] (Perm PermUsersManage) ''handleUserDisable'',
    Route ''POST'' [Lit ''api'', Lit ''users'', Wild, Lit ''revoke-sessions''] (Perm PermUsersManage) ''handleUserRevoke'',
    Route ''DELETE'' [Lit ''api'', Lit ''users'', Wild] (Perm PermUsersManage) ''handleUserDelete'',
    Route ''GET'' [Lit ''api'', Lit ''roles'', Lit ''permissions''] (Perm PermRolesManage) ''handleRolePermissions'',
    Route ''PUT'' [Lit ''api'', Lit ''roles'', Wild, Lit ''permissions''] (Perm PermRolesManage) ''handleRolePermissionsUpdate'']"

definition playit_routes :: "route list" where
  "playit_routes =
   [Route ''GET'' [Lit ''api'', Lit ''playit''] (Perm PermPlayitManage) ''handlePlayitGet'',
    Route ''PUT'' [Lit ''api'', Lit ''playit''] (Perm PermPlayitManage) ''handlePlayitUpdate'',
    Route ''POST'' [Lit ''api'', Lit ''playit'', Lit ''claim''] (Perm PermPlayitManage) ''handlePlayitClaimStart'',
    Route ''POST'' [Lit ''api'', Lit ''playit'', Lit ''claim'', Lit ''poll''] (Perm PermPlayitManage) ''handlePlayitClaimPoll'',
    Route ''POST'' [Lit ''api'', Lit ''playit'', Lit ''tunnel''] (Perm PermPlayitManage) ''handlePlayitTunnel'',
    Route ''DELETE'' [Lit ''api'', Lit ''playit'', Lit ''tunnel''] (Perm PermPlayitManage) ''handlePlayitTunnelDelete'',
    Route ''POST'' [Lit ''api'', Lit ''playit'', Lit ''guest-login''] (Perm PermPlayitManage) ''handlePlayitGuestLogin'',
    Route ''POST'' [Lit ''api'', Lit ''playit'', Lit ''refresh''] (Perm PermPlayitManage) ''handlePlayitRefresh'',
    Route ''PUT'' [Lit ''api'', Lit ''playit'', Lit ''agent''] (Perm PermPlayitManage) ''handlePlayitAgentRename'']"

definition bot_routes :: "route list" where
  "bot_routes =
   [Route ''GET'' [Lit ''api'', Lit ''bots''] (Perm PermBotsManage) ''handleBotList'',
    Route ''POST'' [Lit ''api'', Lit ''bots''] (Perm PermBotsManage) ''handleBotCreate'',
    Route ''POST'' [Lit ''api'', Lit ''bots'', Lit ''telegram'', Lit ''discover''] (Perm PermBotsManage) ''handleBotTelegramDiscover'',
    Route ''PATCH'' [Lit ''api'', Lit ''bots'', Wild] (Perm PermBotsManage) ''handleBotUpdate'',
    Route ''DELETE'' [Lit ''api'', Lit ''bots'', Wild] (Perm PermBotsManage) ''handleBotDelete'',
    Route ''POST'' [Lit ''api'', Lit ''bots'', Wild, Lit ''test''] (Perm PermBotsManage) ''handleBotTest'',
    Route ''GET'' [Lit ''api'', Lit ''bots'', Wild, Lit ''invite''] (Perm PermBotsManage) ''handleBotInvite'',
    Route ''POST'' [Lit ''api'', Lit ''bots'', Wild, Lit ''telegram'', Lit ''discover''] (Perm PermBotsManage) ''handleBotTelegramDiscoverExisting'',
    Route ''GET'' [Lit ''api'', Lit ''bots'', Wild, Lit ''telegram'', Lit ''destinations'', Wild, Lit ''photo''] (Perm PermBotsManage) ''handleBotTelegramGroupPhoto'']"

definition server_routes :: "route list" where
  "server_routes =
   [Route ''GET'' [Lit ''api'', Lit ''servers''] (Perm PermServerView) ''handleServerList'',
    Route ''POST'' [Lit ''api'', Lit ''servers''] (Perm PermImportManage) ''handleServerCreate'',
    Route ''GET'' [Lit ''api'', Lit ''servers'', Wild] (Perm PermServerView) ''handleServerGet'',
    Route ''PATCH'' [Lit ''api'', Lit ''servers'', Wild] (Perm PermConfigManage) ''handleServerUpdate'',
    Route ''DELETE'' [Lit ''api'', Lit ''servers'', Wild] (Perm PermImportManage) ''handleServerDelete'',
    Route ''POST'' [Lit ''api'', Lit ''servers'', Wild, Lit ''select''] (Perm PermConfigManage) ''handleServerSelect'',
    Route ''POST'' [Lit ''api'', Lit ''servers'', Wild, Lit ''duplicate''] (Perm PermImportManage) ''handleServerDuplicate'',
    Route ''POST'' [Lit ''api'', Lit ''servers'', Wild, Lit ''world'', Lit ''reset''] (Perm PermConfigManage) ''handleWorldReset'',
    Route ''GET'' [Lit ''api'', Lit ''servers'', Wild, Lit ''world.zip''] (Perm PermFilesManage) ''handleWorldDownload'',
    Route ''GET'' [Lit ''api'', Lit ''servers'', Wild, Lit ''icon''] Auth ''handleIconGet'',
    Route ''POST'' [Lit ''api'', Lit ''servers'', Wild, Lit ''icon''] (Perm PermIconManage) ''handleIconUpload'',
    Route ''DELETE'' [Lit ''api'', Lit ''servers'', Wild, Lit ''icon''] (Perm PermIconManage) ''handleIconDelete'',
    Route ''GET'' [Lit ''api'', Lit ''servers'', Wild, Lit ''detect''] (Perm PermConfigManage) ''handleServerDetect'',
    Route ''POST'' [Lit ''api'', Lit ''servers'', Lit ''slug-preview''] Auth ''handleSlugPreview'']"

definition import_routes :: "route list" where
  "import_routes =
   [Route ''POST'' [Lit ''api'', Lit ''imports'', Lit ''upload''] (Perm PermImportManage) ''handleImportUpload'',
    Route ''POST'' [Lit ''api'', Lit ''imports'', Lit ''upload'', Lit ''start''] (Perm PermImportManage) ''handleImportUploadStart'',
    Route ''PUT'' [Lit ''api'', Lit ''imports'', Lit ''upload'', Wild, Lit ''chunk''] (Perm PermImportManage) ''handleImportUploadChunk'',
    Route ''POST'' [Lit ''api'', Lit ''imports'', Lit ''upload'', Wild, Lit ''finish''] (Perm PermImportManage) ''handleImportUploadFinish'',
    Route ''POST'' [Lit ''api'', Lit ''imports'', Lit ''url''] (Perm PermImportManage) ''handleImportURL'',
    Route ''POST'' [Lit ''api'', Lit ''imports'', Lit ''local-archive''] (Perm PermImportManage) ''handleImportLocal'',
    Route ''POST'' [Lit ''api'', Lit ''imports'', Lit ''existing-directory''] (Perm PermImportManage) ''handleImportExisting'',
    Route ''GET'' [Lit ''api'', Lit ''operations''] (Perm PermServerView) ''handleOperationList'',
    Route ''POST'' [Lit ''api'', Lit ''operations'', Wild, Lit ''cancel''] (Perm PermImportManage) ''handleOperationCancel'']"

definition lifecycle_routes :: "route list" where
  "lifecycle_routes =
   [Route ''POST'' [Lit ''api'', Lit ''server'', Lit ''start''] (Perm PermServerStart) ''handleStart'',
    Route ''POST'' [Lit ''api'', Lit ''server'', Lit ''stop''] (Perm PermServerStop) ''handleStop'',
    Route ''POST'' [Lit ''api'', Lit ''server'', Lit ''restart''] (Perm PermServerRestart) ''handleRestart'',
    Route ''POST'' [Lit ''api'', Lit ''server'', Lit ''force-stop''] (Perm PermServerForceStop) ''handleForceStop'',
    Route ''GET'' [Lit ''api'', Lit ''server'', Lit ''status''] (Perm PermServerView) ''handleStatus'',
    Route ''GET'' [Lit ''api'', Lit ''server'', Lit ''console'', Lit ''history''] (Perm PermConsoleView) ''handleConsoleHistory'',
    Route ''POST'' [Lit ''api'', Lit ''server'', Lit ''command''] (Perm PermConsoleUse) ''handleCommand'']"

definition player_routes :: "route list" where
  "player_routes =
   [Route ''GET'' [Lit ''api'', Lit ''players''] (Perm PermPlayersView) ''handlePlayerList'',
    Route ''GET'' [Lit ''api'', Lit ''players'', Lit ''avatar''] (Perm PermPlayersView) ''handlePlayerAvatar'',
    Route ''POST'' [Lit ''api'', Lit ''players'', Lit ''action''] (Perm PermPlayersManage) ''handlePlayerAction'']"

definition monitoring_routes :: "route list" where
  "monitoring_routes =
   [Route ''GET'' [Lit ''api'', Lit ''metrics''] (Perm PermPerformanceView) ''handleMetrics'',
    Route ''GET'' [Lit ''api'', Lit ''metrics'', Lit ''config''] (Perm PermPerformanceView) ''handleMetricsConfig'',
    Route ''GET'' [Lit ''api'', Lit ''metrics'', Lit ''storage''] (Perm PermPerformanceView) ''handleMetricsStorage'',
    Route ''GET'' [Lit ''api'', Lit ''metrics'', Lit ''internet''] (Perm PermPerformanceView) ''handleMetricsInternet'',
    Route ''POST'' [Lit ''api'', Lit ''metrics'', Lit ''internet'', Lit ''refresh''] (Perm PermPerformanceView) ''handleRefreshMetricsInternet'',
    Route ''POST'' [Lit ''api'', Lit ''metrics'', Lit ''internet'', Lit ''speed-test''] (Perm PermPerformanceTest) ''handleInternetSpeedTest'',
    Route ''GET'' [Lit ''api'', Lit ''overview''] (Perm PermServerView) ''handleOverview'']"

definition file_routes :: "route list" where
  "file_routes =
   [Route ''GET'' [Lit ''api'', Lit ''files''] (Perm PermFilesManage) ''handleFileList'',
    Route ''GET'' [Lit ''api'', Lit ''files'', Lit ''content''] (Perm PermFilesManage) ''handleFileRead'',
    Route ''POST'' [Lit ''api'', Lit ''files'', Lit ''content''] (Perm PermFilesManage) ''handleFileWrite'',
    Route ''POST'' [Lit ''api'', Lit ''files'', Lit ''create''] (Perm PermFilesManage) ''handleFileCreate'',
    Route ''POST'' [Lit ''api'', Lit ''files'', Lit ''mkdir''] (Perm PermFilesManage) ''handleFileMkdir'',
    Route ''POST'' [Lit ''api'', Lit ''files'', Lit ''copy''] (Perm PermFilesManage) ''handleFileCopy'',
    Route ''POST'' [Lit ''api'', Lit ''files'', Lit ''move''] (Perm PermFilesManage) ''handleFileMove'',
    Route ''POST'' [Lit ''api'', Lit ''files'', Lit ''rename''] (Perm PermFilesManage) ''handleFileRename'',
    Route ''POST'' [Lit ''api'', Lit ''files'', Lit ''delete''] (Perm PermFilesManage) ''handleFileDelete'',
    Route ''POST'' [Lit ''api'', Lit ''files'', Lit ''upload''] (Perm PermFilesManage) ''handleFileUpload'',
    Route ''GET'' [Lit ''api'', Lit ''files'', Lit ''preview''] (Perm PermFilesManage) ''handleFilePreview'',
    Route ''GET'' [Lit ''api'', Lit ''files'', Lit ''download''] (Perm PermFilesManage) ''handleFileDownload'']"

definition configuration_routes :: "route list" where
  "configuration_routes =
   [Route ''GET'' [Lit ''api'', Lit ''configuration''] (Perm PermConfigManage) ''handleConfigGet'',
    Route ''POST'' [Lit ''api'', Lit ''configuration'', Lit ''jvm''] (Perm PermConfigManage) ''handleConfigJVM'',
    Route ''POST'' [Lit ''api'', Lit ''configuration'', Lit ''startup-script''] (Perm PermConfigManage) ''handleConfigStartup'',
    Route ''POST'' [Lit ''api'', Lit ''configuration'', Lit ''property''] (Perm PermConfigManage) ''handleConfigProperty'',
    Route ''POST'' [Lit ''api'', Lit ''configuration'', Lit ''eula''] (Perm PermConfigManage) ''handleConfigEULA'',
    Route ''GET'' [Lit ''api'', Lit ''java''] (Perm PermConfigManage) ''handleJavaList'']"

definition backup_routes :: "route list" where
  "backup_routes =
   [Route ''GET'' [Lit ''api'', Lit ''backups''] (Perm PermBackupsView) ''handleBackupList'',
    Route ''GET'' [Lit ''api'', Lit ''backups'', Lit ''storage''] (Perm PermBackupsView) ''handleBackupStorage'',
    Route ''POST'' [Lit ''api'', Lit ''backups''] (Perm PermBackupsCreate) ''handleBackupCreate'',
    Route ''POST'' [Lit ''api'', Lit ''backups'', Wild, Lit ''verify''] (Perm PermBackupsCreate) ''handleBackupVerify'',
    Route ''POST'' [Lit ''api'', Lit ''backups'', Wild, Lit ''restore''] (Perm PermBackupsRestore) ''handleBackupRestore'',
    Route ''POST'' [Lit ''api'', Lit ''backups'', Wild, Lit ''protect''] (Perm PermBackupsCreate) ''handleBackupProtect'',
    Route ''DELETE'' [Lit ''api'', Lit ''backups'', Wild] (Perm PermBackupsCreate) ''handleBackupDelete'']"

definition schedule_routes :: "route list" where
  "schedule_routes =
   [Route ''GET'' [Lit ''api'', Lit ''schedules''] (Perm PermSchedulesManage) ''handleScheduleList'',
    Route ''POST'' [Lit ''api'', Lit ''schedules''] (Perm PermSchedulesManage) ''handleScheduleCreate'',
    Route ''PATCH'' [Lit ''api'', Lit ''schedules'', Wild] (Perm PermSchedulesManage) ''handleScheduleUpdate'',
    Route ''DELETE'' [Lit ''api'', Lit ''schedules'', Wild] (Perm PermSchedulesManage) ''handleScheduleDelete'',
    Route ''POST'' [Lit ''api'', Lit ''schedules'', Wild, Lit ''run''] (Perm PermSchedulesManage) ''handleScheduleRunNow'',
    Route ''GET'' [Lit ''api'', Lit ''schedules'', Wild, Lit ''history''] (Perm PermSchedulesManage) ''handleScheduleHistory'']"

definition activity_routes :: "route list" where
  "activity_routes =
   [Route ''GET'' [Lit ''api'', Lit ''activity''] (Perm PermActivityView) ''handleActivity'',
    Route ''GET'' [Lit ''api'', Lit ''events''] (Perm PermServerView) ''handleEvents'',
    Route ''GET'' [Lit ''api'', Lit ''host''] (Perm PermHostView) ''handleHost'',
    Route ''GET'' [Lit ''api'', Lit ''version''] Open ''handleVersion'',
    Route ''GET'' [Lit ''api'', Lit ''security'', Lit ''turnstile''] Owner ''handleTurnstileSettings'',
    Route ''PUT'' [Lit ''api'', Lit ''security'', Lit ''turnstile''] Owner ''handleTurnstileSettingsUpdate'']"

definition websocket_routes :: "route list" where
  "websocket_routes =
   [Route ''GET'' [Lit ''api'', Lit ''ws''] Open ''handleWS'']"

definition routes :: "route list" where
  "routes =
     session_routes @
     user_routes @
     playit_routes @
     bot_routes @
     server_routes @
     import_routes @
     lifecycle_routes @
     player_routes @
     monitoring_routes @
     file_routes @
     configuration_routes @
     backup_routes @
     schedule_routes @
     activity_routes @
     websocket_routes"

section \<open>Routing\<close>

text \<open>A wildcard matches one segment that is not empty; a GET pattern also serves HEAD. No request
  matches two patterns (shown below), so that the first match is the router's.\<close>

fun path_matches :: "segment list \<Rightarrow> string list \<Rightarrow> bool" where
  "path_matches [] [] = True"
| "path_matches (Lit s # ps) (w # ws) = (s = w \<and> path_matches ps ws)"
| "path_matches (Wild # ps) (w # ws) = (w \<noteq> [] \<and> path_matches ps ws)"
| "path_matches _ _ = False"

definition method_matches :: "string \<Rightarrow> string \<Rightarrow> bool" where
  "method_matches pat meth \<longleftrightarrow> meth = pat \<or> (pat = ''GET'' \<and> meth = ''HEAD'')"

definition route_matches :: "request \<Rightarrow> route \<Rightarrow> bool" where
  "route_matches rq rt \<longleftrightarrow>
     method_matches (rt_method rt) (rq_method rq) \<and> path_matches (rt_path rt) (rq_path rq)"

definition dispatch :: "gateway \<Rightarrow> request \<Rightarrow> response" where
  "dispatch g rq =
     (case List.find (route_matches rq) routes of
        None \<Rightarrow> Frontend
      | Some rt \<Rightarrow> guarded g (rt_guard rt) (rt_handler rt) rq)"

definition safe_methods :: "string list" where
  "safe_methods = [''GET'', ''HEAD'', ''OPTIONS'']"

definition csrfProtect :: "(request \<Rightarrow> response) \<Rightarrow> request \<Rightarrow> response" where
  "csrfProtect next rq =
     (if rq_method rq \<in> set safe_methods then next rq
      else case rq_csrf rq of
        None \<Rightarrow> CsrfFailed
      | Some c \<Rightarrow> if rq_csrf_header rq = [] \<or> c \<noteq> rq_csrf_header rq then CsrfFailed else next rq)"

definition serve_request :: "gateway \<Rightarrow> request \<Rightarrow> response" where
  "serve_request g = csrfProtect (dispatch g)"

section \<open>Cookies\<close>

definition requestUsesHTTPS :: "request \<Rightarrow> bool" where
  "requestUsesHTTPS rq \<longleftrightarrow> rq_tls rq \<or>
     (case rq_origin rq of
        None \<Rightarrow> False
      | Some (scheme, host) \<Rightarrow> scheme = ''https'' \<and> ToLower host = ToLower (rq_host rq))"

text \<open>The token of the response, and the cookie it sets with its Secure attribute.\<close>

definition issueCSRF :: "string \<Rightarrow> request \<Rightarrow> string \<times> (string \<times> bool) option" where
  "issueCSRF fresh rq =
     (let (tok, existing) =
            (case rq_csrf rq of
               Some c \<Rightarrow> if length c = 64 then (c, True) else (fresh, False)
             | None \<Rightarrow> (fresh, False));
          secure = requestUsesHTTPS rq
      in if existing \<and> \<not> secure then (tok, None) else (tok, Some (tok, secure)))"

definition remoteIP :: "string \<Rightarrow> string" where
  "remoteIP addr =
     (let r = dropWhile (\<lambda>c. c \<noteq> CHR '':'') (rev addr)
      in if length r \<le> 1 then addr else rev (List.tl r))"

section \<open>Websocket topics\<close>

definition websocketTopicPermission :: "string \<Rightarrow> permission option" where
  "websocketTopicPermission topic =
     (if topic = ''overview'' \<or> topic = ''servers'' then Some PermServerView
      else if topic = ''overview_performance'' then Some PermPerformanceView
      else if topic = ''performance'' then Some PermPerformanceView
      else if topic = ''console'' then Some PermConsoleView
      else if topic = ''console_use'' then Some PermConsoleUse
      else if topic = ''players'' then Some PermPlayersView
      else if topic = ''backups'' then Some PermBackupsView
      else if topic = ''schedules'' then Some PermSchedulesManage
      else if topic = ''activity'' then Some PermActivityView
      else None)"

definition websocketTopicAllowed :: "gateway \<Rightarrow> role \<Rightarrow> string \<Rightarrow> bool" where
  "websocketTopicAllowed g r topic =
     (case websocketTopicPermission topic of None \<Rightarrow> False | Some p \<Rightarrow> allowed g r p)"

text \<open>The connection of a session: its user, the revision of the role's permissions and the cookie.\<close>

record ws_grant =
  wg_user :: user
  wg_revision :: int
  wg_cookie :: string

definition handleWS :: "gateway \<Rightarrow> request \<Rightarrow> ws_grant option" where
  "handleWS g rq =
     (case sessionUser g rq of
        Inl _ \<Rightarrow> None
      | Inr u \<Rightarrow>
         (case rolePermissionRevision (gw_perm_fails g) (gw_perms g) (u_role u) of
            Inl _ \<Rightarrow> None
          | Inr revision \<Rightarrow> Some \<lparr>wg_user = u, wg_revision = revision,
                             wg_cookie = (case rq_session rq of None \<Rightarrow> [] | Some c \<Rightarrow> c)\<rparr>))"

definition stillAuthorized :: "gateway \<Rightarrow> ws_grant \<Rightarrow> bool" where
  "stillAuthorized g w \<longleftrightarrow> wg_cookie w \<noteq> [] \<and>
     (case ValidateSession (gw_account_fails g) (gw_crypto g) (gw_now g) (wg_cookie w) (gw_accounts g) of
        Inl _ \<Rightarrow> False
      | Inr u \<Rightarrow> u_id u = u_id (wg_user w) \<and> u_role u = u_role (wg_user w) \<and>
          rolePermissionRevision (gw_perm_fails g) (gw_perms g) (u_role u) = Inr (wg_revision w))"

text \<open>The command a console message sends to the server, if any.\<close>

definition onCommand :: "gateway \<Rightarrow> ws_grant \<Rightarrow> string \<Rightarrow> string option" where
  "onCommand g w cmd =
     (if \<not> allowed g (u_role (wg_user w)) PermConsoleUse then None
      else let cmd = TrimSpace cmd in
        if cmd = [] \<or> 1024 < length cmd \<or> ContainsAny cmd [CHR 10, CHR 13] then None else Some cmd)"

section \<open>The table\<close>

text \<open>Two patterns overlap when some path matches both.\<close>

fun overlap :: "segment list \<Rightarrow> segment list \<Rightarrow> bool" where
  "overlap [] [] = True"
| "overlap (Lit a # ps) (Lit b # qs) = (a = b \<and> overlap ps qs)"
| "overlap (Wild # ps) (_ # qs) = overlap ps qs"
| "overlap (_ # ps) (Wild # qs) = overlap ps qs"
| "overlap _ _ = False"

lemma path_matches_overlap: "path_matches ps ws \<Longrightarrow> path_matches qs ws \<Longrightarrow> overlap ps qs"
proof (induction ps ws arbitrary: qs rule: path_matches.induct)
  case (1 qs)
  then show ?case by (cases qs) simp_all
next
  case (2 s ps w ws)
  show ?case
  proof (cases qs)
    case (Cons q qs')
    with 2 show ?thesis by (cases q) auto
  qed (use 2 in simp)
next
  case (3 ps w ws)
  show ?case
  proof (cases qs)
    case (Cons q qs')
    with 3 show ?thesis by (cases q) auto
  qed (use 3 in simp)
qed auto

fun apart :: "segment list list \<Rightarrow> bool" where
  "apart [] = True"
| "apart (p # ps) = (list_all (\<lambda>q. \<not> overlap p q) ps \<and> apart ps)"

text \<open>The patterns of a method, without the \<open>api\<close> they all start with.\<close>

definition patterns :: "string \<Rightarrow> segment list list" where
  "patterns m = map (\<lambda>r. drop 1 (rt_path r)) (filter (\<lambda>r. rt_method r = m) routes)"

definition methods :: "string list" where
  "methods = [''GET'', ''POST'', ''PUT'', ''PATCH'', ''DELETE'']"

lemma get_apart: "apart (patterns ''GET'')"
  by code_simp

lemma post_apart: "apart (patterns ''POST'')"
  by code_simp

lemma methods_apart: "list_all (\<lambda>m. apart (patterns m)) methods"
proof -
  have "apart (patterns ''PUT'')" "apart (patterns ''PATCH'')" "apart (patterns ''DELETE'')" by code_simp+
  with get_apart post_apart show ?thesis by (simp add: methods_def)
qed

lemma routes_shape:
  "list_all (\<lambda>r. rt_method r \<in> set methods \<and> (case rt_path r of [] \<Rightarrow> False | p # ps \<Rightarrow> p = Lit ''api'')) routes"
  by code_simp

text \<open>The router is deterministic: the first match is the only one.\<close>

lemma apart_unique:
  "apart (map f rs) \<Longrightarrow> r \<in> set rs \<Longrightarrow> q \<in> set rs \<Longrightarrow>
   path_matches (f r) ws \<Longrightarrow> path_matches (f q) ws \<Longrightarrow> r = q"
  by (induction rs) (auto simp: list_all_iff dest: path_matches_overlap)

lemma api_tail: "rt_path r = Lit ''api'' # ps \<Longrightarrow> path_matches (rt_path r) ws \<Longrightarrow> path_matches (drop 1 (rt_path r)) (drop 1 ws)"
  by (cases ws) auto

lemma routes_unique:
  assumes "r \<in> set routes" "q \<in> set routes" "route_matches rq r" "route_matches rq q"
  shows "r = q"
proof -
  have shape: "rt_method x \<in> set methods \<and> (\<exists>ps. rt_path x = Lit ''api'' # ps)" if "x \<in> set routes" for x
    using routes_shape that unfolding list_all_iff by (cases "rt_path x") auto
  have "rt_method r = rt_method q"
    using assms(3,4) shape [OF assms(1)] shape [OF assms(2)]
    by (auto simp: route_matches_def method_matches_def methods_def)
  moreover have "apart (patterns (rt_method r))"
    using methods_apart shape [OF assms(1)] by (simp add: list_all_iff)
  moreover have "path_matches (drop 1 (rt_path r)) (drop 1 (rq_path rq))"
    "path_matches (drop 1 (rt_path q)) (drop 1 (rq_path rq))"
    using assms(3,4) shape [OF assms(1)] shape [OF assms(2)] api_tail by (auto simp: route_matches_def)
  ultimately show ?thesis
    using apart_unique [of "\<lambda>r. drop 1 (rt_path r)" "filter (\<lambda>x. rt_method x = rt_method r) routes" r q] assms(1,2)
    unfolding patterns_def by auto
qed

text \<open>What a handler that runs owes to its guard.\<close>

lemma guarded_Handled:
  "guarded g gd h rq = Handled h' u \<Longrightarrow> h' = h \<and>
   (case u of None \<Rightarrow> gd = Open
    | Some v \<Rightarrow> gd \<noteq> Open \<and> sessionUser g rq = Inr v \<and> (gd = Owner \<longrightarrow> u_role v = RoleOwner) \<and>
        (\<forall>p. gd = Perm p \<longrightarrow> allowed g (u_role v) p) \<and>
        (\<forall>ps. gd = AnyPerm ps \<longrightarrow> list_ex (allowed g (u_role v)) ps))"
  by (cases gd)
    (auto simp: requireAuth_def requireOwner_def requirePerm_def requireAnyPerm_def split: sum.splits if_splits)

lemma dispatch_Handled:
  assumes "dispatch g rq = Handled h u"
  shows "\<exists>rt\<in>set routes. route_matches rq rt \<and> rt_handler rt = h \<and> guarded g (rt_guard rt) h rq = Handled h u"
proof -
  from assms obtain rt where f: "List.find (route_matches rq) routes = Some rt" and
    gd: "guarded g (rt_guard rt) (rt_handler rt) rq = Handled h u"
    by (auto simp: dispatch_def split: option.splits)
  from find_SomeD [OF f] guarded_Handled [OF gd] gd show ?thesis by auto
qed

section \<open>Who may reach what\<close>

text \<open>The rights the panel promises, by handler and apart from the route table: what anyone reaches,
  what every signed-in user does with the own account and session (and two harmless reads), what
  only the Owner changes, and the permission each other handler needs. The list of users needs
  either of the two it is under.\<close>

definition open_handlers :: "string list" where
  "open_handlers =
    [''handleTurnstilePublic'', ''handleLogin'', ''handleTurnstilePasskeyLoginBegin'',
     ''handlePasskeyLoginFinish'', ''handleCSRF'', ''handleInvitationCheck'',
     ''handleInvitationActivate'', ''handleInvitationTOTP'', ''handleVersion'', ''handleWS'']"

definition account_handlers :: "string list" where
  "account_handlers =
    [''handleLogout'', ''handleMe'', ''handlePasskeyList'', ''handlePasskeyRegisterBegin'',
     ''handlePasskeyRegisterFinish'', ''handlePasskeyUpdate'', ''handlePasskeyDelete'',
     ''handleAccountPasswordReauth'', ''handleAccountPasskeyReauthBegin'',
     ''handleAccountPasskeyReauthFinish'', ''handleAccountPasswordChange'',
     ''handleAccountTOTPBegin'', ''handleAccountTOTPFinish'', ''handleRecoveryCodeList'',
     ''handleRecoveryCodeRegenerate'', ''handleIconGet'', ''handleSlugPreview'']"

definition owner_handlers :: "string list" where
  "owner_handlers =
    [''handleTurnstileSettings'', ''handleTurnstileSettingsUpdate'']"

definition protected_handlers :: "(permission \<times> string list) list" where
  "protected_handlers =
    [(PermUsersManage,
      [''handleUserList'', ''handleUserInvite'', ''handleUserRole'', ''handleUserDisable'',
       ''handleUserRevoke'', ''handleUserDelete'']),
     (PermRolesManage,
      [''handleUserList'', ''handleRolePermissions'', ''handleRolePermissionsUpdate'']),
     (PermPlayitManage,
      [''handlePlayitGet'', ''handlePlayitUpdate'', ''handlePlayitClaimStart'',
       ''handlePlayitClaimPoll'', ''handlePlayitTunnel'', ''handlePlayitTunnelDelete'',
       ''handlePlayitGuestLogin'', ''handlePlayitRefresh'', ''handlePlayitAgentRename'']),
     (PermBotsManage,
      [''handleBotList'', ''handleBotCreate'', ''handleBotTelegramDiscover'',
       ''handleBotUpdate'', ''handleBotDelete'', ''handleBotTest'', ''handleBotInvite'',
       ''handleBotTelegramDiscoverExisting'', ''handleBotTelegramGroupPhoto'']),
     (PermServerView,
      [''handleServerList'', ''handleServerGet'', ''handleOperationList'', ''handleStatus'',
       ''handleOverview'', ''handleEvents'']),
     (PermImportManage,
      [''handleServerCreate'', ''handleServerDelete'', ''handleServerDuplicate'',
       ''handleImportUpload'', ''handleImportUploadStart'', ''handleImportUploadChunk'',
       ''handleImportUploadFinish'', ''handleImportURL'', ''handleImportLocal'',
       ''handleImportExisting'', ''handleOperationCancel'']),
     (PermConfigManage,
      [''handleServerUpdate'', ''handleServerSelect'', ''handleWorldReset'',
       ''handleServerDetect'', ''handleConfigGet'', ''handleConfigJVM'',
       ''handleConfigStartup'', ''handleConfigProperty'', ''handleConfigEULA'',
       ''handleJavaList'']),
     (PermFilesManage,
      [''handleWorldDownload'', ''handleFileList'', ''handleFileRead'', ''handleFileWrite'',
       ''handleFileCreate'', ''handleFileMkdir'', ''handleFileCopy'', ''handleFileMove'',
       ''handleFileRename'', ''handleFileDelete'', ''handleFileUpload'', ''handleFilePreview'',
       ''handleFileDownload'']),
     (PermIconManage,
      [''handleIconUpload'', ''handleIconDelete'']),
     (PermServerStart,
      [''handleStart'']),
     (PermServerStop,
      [''handleStop'']),
     (PermServerRestart,
      [''handleRestart'']),
     (PermServerForceStop,
      [''handleForceStop'']),
     (PermConsoleView,
      [''handleConsoleHistory'']),
     (PermConsoleUse,
      [''handleCommand'']),
     (PermPlayersView,
      [''handlePlayerList'', ''handlePlayerAvatar'']),
     (PermPlayersManage,
      [''handlePlayerAction'']),
     (PermPerformanceView,
      [''handleMetrics'', ''handleMetricsConfig'', ''handleMetricsStorage'',
       ''handleMetricsInternet'', ''handleRefreshMetricsInternet'']),
     (PermPerformanceTest,
      [''handleInternetSpeedTest'']),
     (PermBackupsView,
      [''handleBackupList'', ''handleBackupStorage'']),
     (PermBackupsCreate,
      [''handleBackupCreate'', ''handleBackupVerify'', ''handleBackupProtect'',
       ''handleBackupDelete'']),
     (PermBackupsRestore,
      [''handleBackupRestore'']),
     (PermSchedulesManage,
      [''handleScheduleList'', ''handleScheduleCreate'', ''handleScheduleUpdate'',
       ''handleScheduleDelete'', ''handleScheduleRunNow'', ''handleScheduleHistory'']),
     (PermActivityView,
      [''handleActivity'']),
     (PermHostView,
      [''handleHost''])]"

definition needs_permission :: "string \<Rightarrow> permission \<Rightarrow> bool" where
  "needs_permission h p \<longleftrightarrow> list_ex (\<lambda>(q, hs). q = p \<and> h \<in> set hs) protected_handlers"

definition entitled :: "gateway \<Rightarrow> string \<Rightarrow> user \<Rightarrow> bool" where
  "entitled g h v \<longleftrightarrow>
     h \<in> set account_handlers \<or>
     (h \<in> set owner_handlers \<and> u_role v = RoleOwner) \<or>
     (\<exists>p. needs_permission h p \<and> allowed g (u_role v) p)"

text \<open>Every route has the guard its handler needs.\<close>

definition route_guarded :: "route \<Rightarrow> bool" where
  "route_guarded rt \<longleftrightarrow>
     (case rt_guard rt of
        Open \<Rightarrow> rt_handler rt \<in> set open_handlers
      | Auth \<Rightarrow> rt_handler rt \<in> set account_handlers
      | Owner \<Rightarrow> rt_handler rt \<in> set owner_handlers
      | Perm p \<Rightarrow> needs_permission (rt_handler rt) p
      | AnyPerm ps \<Rightarrow> list_all (needs_permission (rt_handler rt)) ps)"

lemma routes_guarded: "list_all route_guarded routes"
  by code_simp

text \<open>No handler is in two of the groups, and none but the list of users needs two permissions.\<close>

lemma handlers_distinct:
  "distinct (open_handlers @ account_handlers @ owner_handlers @
     filter (\<lambda>h. h \<noteq> ''handleUserList'') (concat (map snd protected_handlers)))"
  by code_simp

lemma guarded_entitled:
  assumes "rt \<in> set routes" "guarded g (rt_guard rt) (rt_handler rt) rq = Handled h u"
  shows "case u of None \<Rightarrow> h \<in> set open_handlers | Some v \<Rightarrow> sessionUser g rq = Inr v \<and> entitled g h v"
proof -
  have r: "route_guarded rt" using assms(1) routes_guarded by (simp add: list_all_iff)
  from guarded_Handled [OF assms(2)] r show ?thesis
    by (cases "rt_guard rt")
      (auto simp: route_guarded_def entitled_def list_all_iff list_ex_iff split: option.splits)
qed

text \<open>C24. A request that changes state reaches a handler, the frontend or any other guard only with a
  CSRF header that is not empty and equals the cookie; a handler that runs for a user is that of
  the route the request matches and runs for the user its valid session belongs to, and that user
  is entitled to it: it concerns the own account, or the user is the Owner, or the role holds the
  permission the handler needs; and without a session only the sign-in, invitation, Turnstile,
  version, CSRF and websocket handlers run.\<close>

theorem request_guarded:
  "(rq_method rq \<notin> set safe_methods \<and> serve_request g rq \<noteq> CsrfFailed \<longrightarrow>
      rq_csrf_header rq \<noteq> [] \<and> rq_csrf rq = Some (rq_csrf_header rq)) \<and>
   (\<forall>h v. serve_request g rq = Handled h (Some v) \<longrightarrow> sessionUser g rq = Inr v \<and> entitled g h v \<and>
      (\<exists>rt\<in>set routes. route_matches rq rt \<and> rt_handler rt = h)) \<and>
   (\<forall>h. serve_request g rq = Handled h None \<longrightarrow> h \<in> set open_handlers)"
proof (intro conjI)
  show "rq_method rq \<notin> set safe_methods \<and> serve_request g rq \<noteq> CsrfFailed \<longrightarrow>
      rq_csrf_header rq \<noteq> [] \<and> rq_csrf rq = Some (rq_csrf_header rq)"
    by (auto simp: serve_request_def csrfProtect_def split: option.splits if_splits)
next
  have d: "dispatch g rq = Handled h u" if "serve_request g rq = Handled h u" for h u
    using that by (auto simp: serve_request_def csrfProtect_def split: option.splits if_splits)
  have "(case u of None \<Rightarrow> h \<in> set open_handlers | Some v \<Rightarrow> sessionUser g rq = Inr v \<and> entitled g h v) \<and>
      (\<exists>rt\<in>set routes. route_matches rq rt \<and> rt_handler rt = h)"
    if "serve_request g rq = Handled h u" for h u
  proof -
    from dispatch_Handled [OF d [OF that]] obtain rt where rt: "rt \<in> set routes" "route_matches rq rt"
      "rt_handler rt = h" "guarded g (rt_guard rt) h rq = Handled h u" by blast
    from guarded_entitled [of rt g rq h u] rt show ?thesis by blast
  qed
  then show "\<forall>h v. serve_request g rq = Handled h (Some v) \<longrightarrow> sessionUser g rq = Inr v \<and> entitled g h v \<and>
      (\<exists>rt\<in>set routes. route_matches rq rt \<and> rt_handler rt = h)"
    "\<forall>h. serve_request g rq = Handled h None \<longrightarrow> h \<in> set open_handlers" by fastforce+
qed

text \<open>The handlers that change something and that a Viewer reaches: its own session, passkeys and
  credentials, a preview, and the refresh of a measurement.\<close>

definition viewer_mutations :: "string list" where
  "viewer_mutations =
     [''handleLogin'', ''handleTurnstilePasskeyLoginBegin'', ''handlePasskeyLoginFinish'', ''handleInvitationActivate'',
      ''handleInvitationTOTP'', ''handleLogout'', ''handlePasskeyRegisterBegin'', ''handlePasskeyRegisterFinish'',
      ''handlePasskeyUpdate'', ''handlePasskeyDelete'', ''handleAccountPasswordReauth'',
      ''handleAccountPasskeyReauthBegin'', ''handleAccountPasskeyReauthFinish'', ''handleAccountPasswordChange'',
      ''handleAccountTOTPBegin'', ''handleAccountTOTPFinish'', ''handleRecoveryCodeRegenerate'',
      ''handleSlugPreview'', ''handleRefreshMetricsInternet'']"

text \<open>A Viewer is read-only at the door: whatever permissions the database stores for the role, the
  only handlers that a request of a Viewer other than a read reaches are those of its own account
  and a few that change nothing of the server. The whole route table is checked, with the
  permissions a Viewer's profile can hold.\<close>

lemma viewer_reaches_no_mutation:
  assumes "serve_request g rq = Handled h (Some v)" "u_role v = RoleViewer"
    and "rq_method rq \<notin> {''GET'', ''HEAD''}"
  shows "h \<in> set viewer_mutations"
proof -
  have d: "dispatch g rq = Handled h (Some v)"
    using assms(1) by (auto simp: serve_request_def csrfProtect_def split: option.splits if_splits)
  from dispatch_Handled [OF d] obtain rt where rt: "rt \<in> set routes" "route_matches rq rt"
    "rt_handler rt = h" "guarded g (rt_guard rt) h rq = Handled h (Some v)" by blast
  from guarded_Handled [OF rt(4)] have gv: "rt_guard rt \<noteq> Open" "rt_guard rt \<noteq> Owner"
    "\<And>p. rt_guard rt = Perm p \<Longrightarrow> allowed g RoleViewer p"
    using assms(2) by auto
  have m: "rt_method rt \<noteq> ''GET''" using rt(2) assms(3) by (auto simp: route_matches_def method_matches_def)
  have t: "list_all (\<lambda>rt. rt_method rt = ''GET'' \<or> (case rt_guard rt of
      Open \<Rightarrow> True | Owner \<Rightarrow> True | Auth \<Rightarrow> rt_handler rt \<in> set viewer_mutations
    | Perm p \<Rightarrow> p \<notin> set view_permissions \<or> rt_handler rt \<in> set viewer_mutations | AnyPerm ps \<Rightarrow> False)) routes"
    by code_simp
  show ?thesis
  proof (cases "rt_guard rt")
    case (Perm p)
    with gv(3) have "p \<in> set view_permissions" using viewer_read_only by (auto simp: allowed_def)
    with Perm t rt m show ?thesis by (auto simp: list_all_iff)
  qed (use gv t rt m in \<open>force simp: list_all_iff\<close>)+
qed

end
