(* ===== verification/RoleEditor.thy ===== *)
theory RoleEditor
  imports RolePermissions
begin

text \<open>
  The role-permission editor of \<open>source/internal/app/role_permissions.go\<close>: who may edit
  which role, the payload of the read endpoint, the validation of a request, and the update
  handler. The handler's transaction either commits everything or leaves the tables alone;
  \<open>fails\<close> marks the database calls that return an error.
\<close>

section \<open>The two profile tables as one keyed store\<close>

definition get_profile :: "perm_db \<Rightarrow> string \<Rightarrow> profile_row option \<times> permission_rows" where
  "get_profile db k = (db_profiles db k, db_rows db k)"

definition put_profile ::
  "string \<Rightarrow> profile_row option \<times> permission_rows \<Rightarrow> perm_db \<Rightarrow> perm_db" where
  "put_profile k v db =
     db\<lparr>db_profiles := (db_profiles db)(k := fst v), db_rows := (db_rows db)(k := snd v)\<rparr>"

interpretation profiles: keyed_store get_profile put_profile
  by unfold_locales (simp_all add: get_profile_def put_profile_def)

text \<open>Loading a role reads that role's entry and nothing else.\<close>

lemma load_depends_on_entry:
  "get_profile db (string_of_role r) = get_profile db' (string_of_role r) \<Longrightarrow>
   loadRolePermissionState fails ph db r = loadRolePermissionState fails ph db' r"
  by (auto simp: loadRolePermissionState_def get_profile_def Let_def split: option.splits)

section \<open>Who may edit, and the read endpoint\<close>

definition canEditRolePermissions :: "role \<Rightarrow> role \<Rightarrow> bool" where
  "canEditRolePermissions actor target =
     (if target = RoleOwner \<or> \<not> ValidRole target then False
      else if actor = RoleOwner then True
      else actor = RoleAdmin \<and> (target = RoleMember \<or> target = RoleViewer))"

record role_payload =
  rpl_role :: string
  rpl_permissions :: "string list"
  rpl_defaults :: "string list"
  rpl_editable :: bool
  rpl_revision :: int
  rpl_customized :: bool

definition rolePermissionsPayload ::
  "(db_call \<Rightarrow> bool) \<Rightarrow> perm_db \<Rightarrow> role \<Rightarrow> rp_error + (permission_definition list \<times> role_payload list)" where
  "rolePermissionsPayload fails db actor =
     rbind (rfold (\<lambda>acc r.
         rbind (loadRolePermissionState fails LoadPayload db r) (\<lambda>state.
           Inr (acc @ [\<lparr>rpl_role = string_of_role r,
                        rpl_permissions = permissionList state,
                        rpl_defaults = permissionList (defaultRolePermissionState r),
                        rpl_editable = canEditRolePermissions actor r,
                        rpl_revision = rp_revision state,
                        rpl_customized = rp_customized state\<rparr>])))
       [] [RoleOwner, RoleAdmin, RoleMember, RoleViewer])
       (\<lambda>roles. Inr (permission_catalog, roles))"

datatype reply =
    HttpError nat
  | HttpOK "permission_definition list \<times> role_payload list"

definition handleRolePermissions :: "(db_call \<Rightarrow> bool) \<Rightarrow> perm_db \<Rightarrow> role \<Rightarrow> reply" where
  "handleRolePermissions fails db actor =
     (case rolePermissionsPayload fails db actor of Inl e \<Rightarrow> HttpError 500 | Inr p \<Rightarrow> HttpOK p)"

section \<open>Validation of a requested profile\<close>

datatype validation_error =
    UnknownPermission string
  | NotAssignable string
  | MissingPrerequisite permission permission

text \<open>
  The first loop of \<open>validateDesiredPermissions\<close> runs over the request. The second ranges over
  the map it built, in Go's unspecified order; the model visits the keys in the order of the
  request, which decides only which of several missing prerequisites the message names.
\<close>

fun check_requested :: "role \<Rightarrow> string list \<Rightarrow> permission list \<Rightarrow> validation_error + permission list" where
  "check_requested target [] desired = Inr desired"
| "check_requested target (raw # raws) desired =
     (let p = permission_of_string raw in
      if \<not> ValidPermission p then Inl (UnknownPermission raw)
      else if \<not> PermissionAssignableTo p target then Inl (NotAssignable raw)
      else check_requested target raws (desired @ [p]))"

fun check_prerequisites :: "permission list \<Rightarrow> permission list \<Rightarrow> validation_error option" where
  "check_prerequisites desired [] = None"
| "check_prerequisites desired (p # ps) =
     (case List.find (\<lambda>q. q \<notin> set desired) (required_of p) of
        Some q \<Rightarrow> Some (MissingPrerequisite p q)
      | None \<Rightarrow> check_prerequisites desired ps)"

definition validateDesiredPermissions ::
  "role \<Rightarrow> string list \<Rightarrow> validation_error + permission list" where
  "validateDesiredPermissions target requested =
     rbind (check_requested target requested []) (\<lambda>desired.
       case check_prerequisites desired desired of
         Some e \<Rightarrow> Inl e | None \<Rightarrow> Inr desired)"

definition permissionChanges ::
  "(permission \<Rightarrow> bool) \<Rightarrow> (permission \<Rightarrow> bool) \<Rightarrow> string list \<times> string list" where
  "permissionChanges before after =
     (map string_of_permission (filter (\<lambda>p. \<not> before p \<and> after p) AllPermissions),
      map string_of_permission (filter (\<lambda>p. before p \<and> \<not> after p) AllPermissions))"

definition samePermissions :: "(permission \<Rightarrow> bool) \<Rightarrow> (permission \<Rightarrow> bool) \<Rightarrow> bool" where
  "samePermissions left right = list_all (\<lambda>p. left p = right p) AllPermissions"

lemma check_requested_Inr:
  "check_requested t raws acc = Inr desired \<longleftrightarrow>
   desired = acc @ map permission_of_string raws \<and>
   (\<forall>p\<in>set (map permission_of_string raws). ValidPermission p \<and> PermissionAssignableTo p t)"
  by (induction raws arbitrary: acc) (auto simp: Let_def simp del: ValidPermission_not_other)

lemma check_prerequisites_None:
  "check_prerequisites desired ps = None \<longleftrightarrow>
   (\<forall>p\<in>set ps. \<forall>q\<in>set (required_of p). q \<in> set desired)"
  by (induction ps) (auto simp: find_None_iff find_Some_iff split: option.splits)

text \<open>A request is accepted exactly when its set of permissions is legal for the role.\<close>

lemma validate_iff:
  "validateDesiredPermissions t raws = Inr desired \<longleftrightarrow>
   desired = map permission_of_string raws \<and> closed_perms (\<lambda>p. p \<in> set desired) \<and>
   (\<forall>p\<in>set desired. PermissionAssignableTo p t)"
proof -
  let ?d = "map permission_of_string raws"
  have split: "(case c of Some e \<Rightarrow> Inl e | None \<Rightarrow> Inr d) = Inr d' \<longleftrightarrow> c = None \<and> d = d'"
    for c :: "validation_error option" and d d'
    by (cases c) auto
  show ?thesis
    by (auto simp: validateDesiredPermissions_def check_requested_Inr split check_prerequisites_None
        closed_perms_def simp del: ValidPermission_not_other set_map)
qed

section \<open>The update handler\<close>

datatype effect =
    DisconnectUser int
  | AuditRoleChange int string int "string list" "string list"

text \<open>The escalation guard of an actor other than the Owner: its own profile must hold
  \<open>roles.manage\<close>, and a permission it does not hold may stay in the target profile but not
  be added to it. \<open>Some\<close> is the status of the refusal.\<close>

definition grant_guard ::
  "(db_call \<Rightarrow> bool) \<Rightarrow> perm_db \<Rightarrow> role \<Rightarrow> role_permission_state \<Rightarrow> permission list \<Rightarrow> nat option" where
  "grant_guard fails db actor current desired =
     (if actor = RoleOwner then None
      else case loadRolePermissionState fails LoadActor db actor of
        Inl e \<Rightarrow> Some 500
      | Inr actorState \<Rightarrow>
          if \<not> rp_perms actorState PermRolesManage then Some 403
          else if list_ex (\<lambda>p. \<not> rp_perms actorState p \<and> \<not> rp_perms current p) desired
            then Some 403
          else None)"

text \<open>The profile row: an update guarded by the revision, or an insert that does nothing on a
  conflict; either way the number of rows changed must be one.\<close>

definition write_profile_row ::
  "(db_call \<Rightarrow> bool) \<Rightarrow> perm_db \<Rightarrow> string \<Rightarrow> role_permission_state \<Rightarrow> int \<Rightarrow> nat + profile_row" where
  "write_profile_row fails db key current actorID =
     (let nextRevision = wrap64 (rp_revision current + 1); row = (1, nextRevision, actorID) in
      if fails ProfileWrite then Inl 500
      else let changed = (case db_profiles db key of
                 None \<Rightarrow> if rp_exists current then 0 else (1::nat)
               | Some (c, rv, by) \<Rightarrow>
                   if rp_exists current then (if rv = rp_revision current then 1 else 0) else 0)
           in if changed \<noteq> 1 then Inl 409 else Inr row)"

definition snapshot_rows :: "permission list \<Rightarrow> permission_rows" where
  "snapshot_rows desired =
     map (\<lambda>p. (string_of_permission p, if p \<in> set desired then 1 else 0)) AllPermissions"

definition commit_profile ::
  "(db_call \<Rightarrow> bool) \<Rightarrow> perm_db \<Rightarrow> string \<Rightarrow> role_permission_state \<Rightarrow> permission list \<Rightarrow> int
   \<Rightarrow> nat + (perm_db \<times> int list)" where
  "commit_profile fails db key current desired actorID =
     rbind (write_profile_row fails db key current actorID) (\<lambda>row.
       if fails RowsDelete then Inl 500
       else if list_ex (\<lambda>p. fails (RowInsert (string_of_permission p))) AllPermissions then Inl 500
       else if fails UsersSelect then Inl 500
       else if fails TxCommit then Inl 500
       else Inr (put_profile key (Some row, snapshot_rows desired) db,
                 map fst (filter (\<lambda>u. snd u = key) (db_users db))))"

definition payload_reply :: "(db_call \<Rightarrow> bool) \<Rightarrow> perm_db \<Rightarrow> role \<Rightarrow> reply" where
  "payload_reply fails db actor =
     (case rolePermissionsPayload fails db actor of Inl e \<Rightarrow> HttpError 500 | Inr p \<Rightarrow> HttpOK p)"

definition handleRolePermissionsUpdate ::
  "(db_call \<Rightarrow> bool) \<Rightarrow> role \<Rightarrow> int \<Rightarrow> string \<Rightarrow> (string list \<times> int) option \<Rightarrow> perm_db
   \<Rightarrow> reply \<times> perm_db \<times> effect list" where
  "handleRolePermissionsUpdate fails actor actorID path req db =
     (let target = role_of_string path in
      if \<not> canEditRolePermissions actor target then (HttpError 403, db, [])
      else case req of
        None \<Rightarrow> (HttpError 400, db, [])
      | Some (requested, revision) \<Rightarrow>
        if revision < 0 then (HttpError 400, db, [])
        else case validateDesiredPermissions target requested of
          Inl e \<Rightarrow> (HttpError 400, db, [])
        | Inr desired \<Rightarrow>
          if fails TxBegin then (HttpError 500, db, [])
          else case loadRolePermissionState fails LoadTarget db target of
            Inl e \<Rightarrow> (HttpError 500, db, [])
          | Inr current \<Rightarrow>
            if rp_revision current \<noteq> revision then (HttpError 409, db, [])
            else case grant_guard fails db actor current desired of
              Some status \<Rightarrow> (HttpError status, db, [])
            | None \<Rightarrow>
              if samePermissions (rp_perms current) (\<lambda>p. p \<in> set desired)
              then (if fails TxRollback then (HttpError 500, db, [])
                    else (payload_reply fails db actor, db, []))
              else case commit_profile fails db (string_of_role target) current desired actorID of
                Inl status \<Rightarrow> (HttpError status, db, [])
              | Inr (db', userIDs) \<Rightarrow>
                let (granted, revoked) =
                      permissionChanges (rp_perms current) (\<lambda>p. p \<in> set desired)
                in (payload_reply fails db' actor, db',
                    map DisconnectUser userIDs @
                    [AuditRoleChange actorID path (wrap64 (rp_revision current + 1)) granted revoked]))"


section \<open>Facts the properties share\<close>

text \<open>A load that succeeds with some calls failing gives what it gives with none failing.\<close>

lemma load_nofail:
  "loadRolePermissionState fails ph db r = Inr st \<Longrightarrow>
   loadRolePermissionState (\<lambda>_. False) ph' db r = Inr st"
  by (auto simp: loadRolePermissionState_def Let_def split: if_splits option.splits)

lemma load_valid: "loadRolePermissionState fails ph db r = Inr st \<Longrightarrow> ValidRole r"
  by (cases "r = RoleOwner") (auto simp: loadRolePermissionState_def Let_def split: if_splits)

lemma hasPermission_valid: "hasPermission fails db r p \<Longrightarrow> ValidRole r"
  by (auto simp: hasPermission_def split: if_splits sum.splits dest: load_valid)

lemma hasPermission_loaded:
  "loadRolePermissionState fails ph db r = Inr st \<Longrightarrow>
   hasPermission (\<lambda>_. False) db r p = rp_perms st p"
  using loaded_legal [of fails ph db r st]
  by (auto simp: hasPermission_def load_nofail closed_perms_def simp del: ValidPermission_not_other)

lemma load_other:
  "string_of_role r \<noteq> k \<Longrightarrow> loadRolePermissionState fails ph (put_profile k v db) r =
   loadRolePermissionState fails ph db r"
  by (rule load_depends_on_entry) (simp add: profiles.get_put)

lemma foldl_apply_snapshot:
  "distinct ps \<Longrightarrow> set ps \<subseteq> set AllPermissions \<Longrightarrow>
   foldl (apply_row r) m (map (\<lambda>p. (string_of_permission p, if p \<in> D then 1 else 0)) ps) q =
   (if q \<in> set ps \<and> PermissionAssignableTo q r then q \<in> D else m q)"
  by (induction ps arbitrary: m)
     (auto simp: apply_row_def Let_def ValidPermission_iff [symmetric] simp del: ValidPermission_not_other)

lemma load_snapshot:
  assumes "closed_perms (\<lambda>p. p \<in> set desired)"
    and "\<forall>p\<in>set desired. PermissionAssignableTo p r" "ValidRole r" "r \<noteq> RoleOwner"
  shows "loadRolePermissionState (\<lambda>_. False) ph
      (put_profile (string_of_role r) (Some (1, n, i), snapshot_rows desired) db) r =
    Inr \<lparr>rp_perms = (\<lambda>p. p \<in> set desired), rp_revision = n, rp_customized = True, rp_exists = True\<rparr>"
proof -
  have "foldl (apply_row r) (\<lambda>_. False) (snapshot_rows desired) = (\<lambda>p. p \<in> set desired)"
    unfolding snapshot_rows_def using assms
    by (auto simp: fun_eq_iff foldl_apply_snapshot distinct_AllPermissions closed_perms_def
        ValidPermission_iff simp del: ValidPermission_not_other)
  then show ?thesis using assms
    by (simp add: loadRolePermissionState_def put_profile_def pruned_closed_id
        defaultRolePermissionState_def)
qed

text \<open>A request either leaves tables and users alone, or is a committed change.\<close>

definition committed_change ::
  "(db_call \<Rightarrow> bool) \<Rightarrow> role \<Rightarrow> int \<Rightarrow> string \<Rightarrow> (string list \<times> int) option \<Rightarrow> perm_db \<Rightarrow> perm_db
   \<Rightarrow> effect list \<Rightarrow> role_permission_state \<Rightarrow> permission list \<Rightarrow> bool" where
  "committed_change fails actor actorID path req db db' eff current desired \<longleftrightarrow>
     canEditRolePermissions actor (role_of_string path) \<and>
     (\<exists>requested. req = Some (requested, rp_revision current) \<and>
        validateDesiredPermissions (role_of_string path) requested = Inr desired) \<and>
     loadRolePermissionState fails LoadTarget db (role_of_string path) = Inr current \<and>
     grant_guard fails db actor current desired = None \<and>
     \<not> samePermissions (rp_perms current) (\<lambda>p. p \<in> set desired) \<and>
     db' = put_profile path
       (Some (1, wrap64 (rp_revision current + 1), actorID), snapshot_rows desired) db \<and>
     (\<exists>audit. eff = map DisconnectUser (map fst (filter (\<lambda>u. snd u = path) (db_users db))) @ [audit])"

lemma commit_profile_Inr:
  "commit_profile fails db key current desired actorID = Inr (db', ids) \<Longrightarrow>
   db' = put_profile key
     (Some (1, wrap64 (rp_revision current + 1), actorID), snapshot_rows desired) db \<and>
   ids = map fst (filter (\<lambda>u. snd u = key) (db_users db))"
  by (auto simp: commit_profile_def write_profile_row_def Let_def split: if_splits)

lemma update_cases:
  assumes "handleRolePermissionsUpdate fails actor actorID path req db = (rep, db', eff)"
  shows "(db' = db \<and> eff = []) \<or>
    (\<exists>current desired. committed_change fails actor actorID path req db db' eff current desired)"
proof (rule disjCI)
  assume "\<not> (\<exists>current desired. committed_change fails actor actorID path req db db' eff current desired)"
  then show "db' = db \<and> eff = []"
    using assms unfolding handleRolePermissionsUpdate_def Let_def
    by (force split: if_splits option.splits sum.splits prod.splits
        dest!: commit_profile_Inr simp: committed_change_def)
qed


lemma committed_load:
  assumes "committed_change fails actor actorID path req db db' eff current desired"
  shows "loadRolePermissionState (\<lambda>_. False) ph db' (role_of_string path) =
    Inr \<lparr>rp_perms = (\<lambda>p. p \<in> set desired), rp_revision = wrap64 (rp_revision current + 1),
         rp_customized = True, rp_exists = True\<rparr>"
proof -
  let ?t = "role_of_string path"
  from assms have "ValidRole ?t" "?t \<noteq> RoleOwner"
    by (auto simp: committed_change_def canEditRolePermissions_def split: if_splits)
  moreover from assms have "closed_perms (\<lambda>p. p \<in> set desired)"
      "\<forall>p\<in>set desired. PermissionAssignableTo p ?t"
    by (auto simp: committed_change_def validate_iff)
  ultimately show ?thesis
    using assms load_snapshot [of desired ?t ph "wrap64 (rp_revision current + 1)" actorID db]
    by (auto simp: committed_change_def)
qed

lemma closed_outside: "closed_perms m \<Longrightarrow> p \<notin> set AllPermissions \<Longrightarrow> \<not> m p"
  by (auto simp: closed_perms_def ValidPermission_iff simp del: ValidPermission_not_other)

lemma samePermissions_closed:
  assumes "samePermissions m n" "closed_perms m" "closed_perms n" shows "m = n"
proof
  fix p
  show "m p = n p"
    using assms(1) closed_outside [OF assms(2), of p] closed_outside [OF assms(3), of p]
    by (cases "p \<in> set AllPermissions") (auto simp: samePermissions_def list_all_iff)
qed

lemma committed_granted:
  assumes "committed_change fails actor actorID path req db db' eff current desired"
    and "actor \<noteq> RoleOwner" "p \<in> set desired" "\<not> rp_perms current p"
  shows "hasPermission (\<lambda>_. False) db actor p"
proof -
  from assms have guard: "grant_guard fails db actor current desired = None"
    by (simp add: committed_change_def)
  with assms(2) obtain st where st: "loadRolePermissionState fails LoadActor db actor = Inr st"
    by (auto simp: grant_guard_def split: sum.splits)
  with guard assms have "rp_perms st p"
    by (auto simp: grant_guard_def list_ex_iff split: if_splits)
  with st show ?thesis by (simp add: hasPermission_loaded)
qed

lemma wrap64_succ_neq: "min_int64 \<le> n \<Longrightarrow> n \<le> max_int64 \<Longrightarrow> wrap64 (n + 1) \<noteq> n"
  by (cases "n = max_int64") (auto simp: wrap64_def min_int64_def max_int64_def)

section \<open>Properties of the editor\<close>

text \<open>C3. No escalation: whatever an actor other than the Owner submits, any permission that
  some role holds after the request and did not hold before is a permission the actor holds.\<close>

theorem no_escalation:
  assumes "handleRolePermissionsUpdate fails actor actorID path req db = (rep, db', eff)"
    and "actor \<noteq> RoleOwner"
    and "hasPermission (\<lambda>_. False) db' r p" "\<not> hasPermission (\<lambda>_. False) db r p"
  shows "hasPermission (\<lambda>_. False) db actor p"
proof -
  from update_cases [OF assms(1)] assms(3,4) obtain current desired where
    c: "committed_change fails actor actorID path req db db' eff current desired"
    by auto
  have "r = role_of_string path"
  proof (rule ccontr)
    assume "r \<noteq> role_of_string path"
    moreover have "ValidRole r" using assms(3) by (rule hasPermission_valid)
    ultimately have "string_of_role r \<noteq> path" by (metis role_of_string_of_role)
    with c have "hasPermission (\<lambda>_. False) db' r p = hasPermission (\<lambda>_. False) db r p"
      by (auto simp: committed_change_def hasPermission_def load_other)
    with assms(3,4) show False by simp
  qed
  moreover from c have "loadRolePermissionState fails LoadTarget db (role_of_string path) = Inr current"
    by (simp add: committed_change_def)
  ultimately have "p \<in> set desired" "\<not> rp_perms current p"
    using assms(3,4) hasPermission_loaded committed_load [OF c] by force+
  then show ?thesis using committed_granted [OF c assms(2)] by blast
qed

text \<open>C4. Round trip: after an update that was answered with success the role holds exactly the
  requested set, and its profile loads with the next revision (taken at 64 bits) when the update
  was committed, and with the revision of the request when it changed nothing, which is when it
  has no effects and leaves the tables alone.\<close>

theorem update_roundtrip:
  assumes "handleRolePermissionsUpdate fails actor actorID path (Some (requested, revision)) db =
      (HttpOK payload, db', eff)"
  shows "(hasPermission (\<lambda>_. False) db' (role_of_string path) p \<longleftrightarrow>
      p \<in> set (map permission_of_string requested)) \<and>
    (\<exists>st. loadRolePermissionState (\<lambda>_. False) LoadCheck db' (role_of_string path) = Inr st \<and>
       rp_revision st = (if eff = [] then revision else wrap64 (revision + 1))) \<and>
    (eff = [] \<longrightarrow> db' = db)"
proof (cases "db' = db \<and> eff = []")
  case True
  with assms obtain desired current where
    rv: "rp_revision current = revision" and
    v: "validateDesiredPermissions (role_of_string path) requested = Inr desired" and
    l: "loadRolePermissionState fails LoadTarget db (role_of_string path) = Inr current" and
    s: "samePermissions (rp_perms current) (\<lambda>p. p \<in> set desired)"
    by (auto simp: handleRolePermissionsUpdate_def Let_def
        split: if_splits option.splits sum.splits prod.splits)
  from v have d: "desired = map permission_of_string requested" by (simp add: validate_iff)
  from v have cl: "closed_perms (\<lambda>p. p \<in> set desired)" unfolding validate_iff by blast
  have "rp_perms current = (\<lambda>p. p \<in> set desired)"
    using samePermissions_closed [OF s _ cl] loaded_legal [OF l] by blast
  with True d rv hasPermission_loaded [OF l] load_nofail [OF l] show ?thesis by simp
next
  case False
  then obtain current desired where
    c: "committed_change fails actor actorID path (Some (requested, revision)) db db' eff current desired"
    using update_cases [OF assms] by blast
  then have "desired = map permission_of_string requested" "revision = rp_revision current" "eff \<noteq> []"
    by (auto simp: committed_change_def validate_iff)
  with hasPermission_loaded [OF committed_load [OF c]] committed_load [OF c] show ?thesis by simp
qed

text \<open>Lost updates are impossible: once a request with a revision has been committed, every
  later request for that role carrying the same revision is refused and changes nothing.\<close>

lemma stale_revision_refused:
  assumes "handleRolePermissionsUpdate fails actor i path (Some (requested, revision)) db = (rep, db', eff)"
    and "db' \<noteq> db" "revision \<le> max_int64"
    and "handleRolePermissionsUpdate fails' actor' i' path (Some (requested', revision)) db' = (rep', db'', eff')"
  shows "db'' = db' \<and> eff' = [] \<and> (\<exists>status. rep' = HttpError status)"
proof -
  from update_cases [OF assms(1)] assms(2) obtain current desired where
    c: "committed_change fails actor i path (Some (requested, revision)) db db' eff current desired"
    by auto
  then have rev: "revision = rp_revision current" by (auto simp: committed_change_def)
  from assms(1,2) have "0 \<le> revision"
    by (auto simp: handleRolePermissionsUpdate_def Let_def split: if_splits)
  with rev assms(3) have new: "wrap64 (rp_revision current + 1) \<noteq> revision"
    using wrap64_succ_neq [of revision] by (simp add: min_int64_def)
  have "rp_revision st \<noteq> revision"
    if "loadRolePermissionState fails' LoadTarget db' (role_of_string path) = Inr st" for st
    using load_nofail [OF that] committed_load [OF c] new by fastforce
  then show ?thesis using assms(4)
    by (auto simp: handleRolePermissionsUpdate_def Let_def
        split: if_splits option.splits sum.splits prod.splits)
qed

text \<open>A request that changes the tables touches only the named role, which is never the
  Owner and never the actor's own unless the actor is the Owner; the new revision differs from
  the old one, and every user of the role is disconnected. A request that is refused changes
  nothing.\<close>

lemma update_frame:
  assumes "handleRolePermissionsUpdate fails actor actorID path req db = (rep, db', eff)"
  shows "(db' = db \<and> eff = []) \<or>
    (db_users db' = db_users db \<and> path \<noteq> ''owner'' \<and>
     (actor = RoleOwner \<or> path \<noteq> string_of_role actor) \<and>
     (\<forall>k. k \<noteq> path \<longrightarrow> get_profile db' k = get_profile db k) \<and>
     (\<forall>u\<in>set (db_users db). snd u = path \<longrightarrow> DisconnectUser (fst u) \<in> set eff))"
proof (cases "db' = db \<and> eff = []")
  case False
  then obtain current desired where
    c: "committed_change fails actor actorID path req db db' eff current desired"
    using update_cases [OF assms] by blast
  then have edit: "canEditRolePermissions actor (role_of_string path)"
    by (simp add: committed_change_def)
  then have "path \<noteq> ''owner''" "actor = RoleOwner \<or> path \<noteq> string_of_role actor"
    by (auto simp: canEditRolePermissions_def role_of_string_def split: if_splits)
  moreover have "\<forall>k. k \<noteq> path \<longrightarrow> get_profile db' k = get_profile db k"
    using c by (auto simp: committed_change_def profiles.get_put)
  ultimately show ?thesis using c
    by (auto simp: committed_change_def put_profile_def image_iff)
qed simp


section \<open>A concrete edit\<close>

text \<open>
  An Admin whose profile holds \<open>roles.manage\<close> and the performance page gives the latter to
  Members. The properties above are applied to this request.
\<close>

definition sample_db :: perm_db where
  "sample_db = put_profile ''admin''
     (Some (1, 1, 1), snapshot_rows [PermServerView, PermPerformanceView, PermRolesManage])
     \<lparr>db_profiles = (\<lambda>_. None), db_rows = (\<lambda>_. []), db_users = [(7, ''member'')]\<rparr>"

definition sample_request :: "string list" where
  "sample_request = [''server.view'', ''server.performance.view'']"

definition sample_db' :: perm_db where
  "sample_db' = put_profile ''member''
     (Some (1, 1, 2), snapshot_rows [PermServerView, PermPerformanceView]) sample_db"

lemma sample_admin:
  "loadRolePermissionState (\<lambda>_. False) ph sample_db RoleAdmin =
   Inr \<lparr>rp_perms = (\<lambda>p. p \<in> set [PermServerView, PermPerformanceView, PermRolesManage]),
        rp_revision = 1, rp_customized = True, rp_exists = True\<rparr>"
  unfolding sample_db_def
  using load_snapshot [of "[PermServerView, PermPerformanceView, PermRolesManage]" RoleAdmin ph 1 1]
  by (auto simp: closed_perms_def catalog_simps PermissionAssignableTo_iff)

lemma sample_member:
  "loadRolePermissionState (\<lambda>_. False) ph sample_db RoleMember =
   Inr (defaultRolePermissionState RoleMember)"
  by (simp add: sample_db_def loadRolePermissionState_def put_profile_def)

lemma sample_desired:
  "map permission_of_string sample_request = [PermServerView, PermPerformanceView]"
  by (simp add: sample_request_def permission_of_string_def AllPermissions_eq)

lemma sample_valid:
  "validateDesiredPermissions RoleMember sample_request = Inr [PermServerView, PermPerformanceView]"
  unfolding validate_iff sample_desired
  by (auto simp: closed_perms_def catalog_simps PermissionAssignableTo_iff)

lemma load_total: "ValidRole r \<Longrightarrow> \<exists>st. loadRolePermissionState (\<lambda>_. False) ph db r = Inr st"
  by (auto simp: loadRolePermissionState_def Let_def split: option.splits)

lemma payload_total: "\<exists>p. payload_reply (\<lambda>_. False) db actor = HttpOK p"
  using load_total [of RoleOwner LoadPayload db] load_total [of RoleAdmin LoadPayload db]
    load_total [of RoleMember LoadPayload db] load_total [of RoleViewer LoadPayload db]
  by (auto simp: payload_reply_def rolePermissionsPayload_def)

lemma sample_update:
  "\<exists>payload eff. handleRolePermissionsUpdate (\<lambda>_. False) RoleAdmin 2 ''member''
     (Some (sample_request, 0)) sample_db = (HttpOK payload, sample_db', eff)"
proof -
  obtain p where p: "payload_reply (\<lambda>_. False) sample_db' RoleAdmin = HttpOK p"
    using payload_total by blast
  have r: "role_of_string ''member'' = RoleMember" by (simp add: role_of_string_def)
  have row: "db_profiles sample_db ''member'' = None" by (simp add: sample_db_def put_profile_def)
  have same: "\<not> samePermissions (Has RoleMember) (\<lambda>p. p = PermServerView \<or> p = PermPerformanceView)"
    by (simp add: samePermissions_def AllPermissions_eq Has_def)
  have commit: "commit_profile (\<lambda>_. False) sample_db ''member'' (defaultRolePermissionState RoleMember)
      [PermServerView, PermPerformanceView] 2 = Inr (sample_db', [7])"
    by (simp add: commit_profile_def write_profile_row_def row defaultRolePermissionState_def
        list_ex_iff sample_db'_def wrap64_def) (simp add: sample_db_def put_profile_def)
  show ?thesis
    using p same commit
    by (simp add: handleRolePermissionsUpdate_def r canEditRolePermissions_def sample_valid
        sample_member grant_guard_def sample_admin Let_def split: prod.split)
       (simp add: defaultRolePermissionState_def)
qed

lemma sample_member_after:
  "hasPermission (\<lambda>_. False) sample_db' RoleMember p \<longleftrightarrow> p = PermServerView \<or> p = PermPerformanceView"
proof -
  have "loadRolePermissionState (\<lambda>_. False) LoadCheck sample_db' RoleMember =
     Inr \<lparr>rp_perms = (\<lambda>p. p \<in> set [PermServerView, PermPerformanceView]),
          rp_revision = 1, rp_customized = True, rp_exists = True\<rparr>"
    unfolding sample_db'_def
    using load_snapshot [of "[PermServerView, PermPerformanceView]" RoleMember LoadCheck 1 2 sample_db]
    by (auto simp: closed_perms_def catalog_simps PermissionAssignableTo_iff)
  from hasPermission_loaded [OF this] show ?thesis by simp
qed

theorem no_escalation_witness:
  "\<not> hasPermission (\<lambda>_. False) sample_db RoleMember PermPerformanceView \<and>
   hasPermission (\<lambda>_. False) sample_db' RoleMember PermPerformanceView \<and>
   hasPermission (\<lambda>_. False) sample_db RoleAdmin PermPerformanceView"
proof -
  obtain payload eff where h: "handleRolePermissionsUpdate (\<lambda>_. False) RoleAdmin 2 ''member''
     (Some (sample_request, 0)) sample_db = (HttpOK payload, sample_db', eff)"
    using sample_update by blast
  have after: "hasPermission (\<lambda>_. False) sample_db' RoleMember PermPerformanceView"
    by (simp add: sample_member_after)
  have before: "\<not> hasPermission (\<lambda>_. False) sample_db RoleMember PermPerformanceView"
    by (simp add: hasPermission_loaded [OF sample_member] Has_def)
  from no_escalation [OF h _ after before] after before show ?thesis by simp
qed

theorem update_roundtrip_witness:
  "\<exists>payload eff. handleRolePermissionsUpdate (\<lambda>_. False) RoleAdmin 2 ''member''
     (Some (sample_request, 0)) sample_db = (HttpOK payload, sample_db', eff) \<and>
   \<not> hasPermission (\<lambda>_. False) sample_db' (role_of_string ''member'') PermServerStart \<and>
   (\<exists>st. loadRolePermissionState (\<lambda>_. False) LoadCheck sample_db' (role_of_string ''member'') = Inr st \<and>
      rp_revision st = 1)"
proof -
  obtain payload eff where h: "handleRolePermissionsUpdate (\<lambda>_. False) RoleAdmin 2 ''member''
     (Some (sample_request, 0)) sample_db = (HttpOK payload, sample_db', eff)"
    using sample_update by blast
  have "sample_db' \<noteq> sample_db"
    using sample_member_after [of PermPerformanceView]
    by (auto simp: hasPermission_loaded [OF sample_member] Has_def)
  with update_roundtrip [OF h, of PermServerStart] h show ?thesis
    by (auto simp: sample_desired wrap64_def simp del: set_map)
qed

theorem stale_revision_refused_witness:
  "\<exists>rep eff. handleRolePermissionsUpdate (\<lambda>_. False) RoleOwner 1 ''member'' (Some ([], 0)) sample_db' =
     (rep, sample_db', eff) \<and> eff = [] \<and> (\<exists>status. rep = HttpError status)"
proof -
  obtain payload eff where h: "handleRolePermissionsUpdate (\<lambda>_. False) RoleAdmin 2 ''member''
     (Some (sample_request, 0)) sample_db = (HttpOK payload, sample_db', eff)"
    using sample_update by blast
  obtain rep db'' eff' where h': "handleRolePermissionsUpdate (\<lambda>_. False) RoleOwner 1 ''member''
     (Some ([], 0)) sample_db' = (rep, db'', eff')"
    using prod_cases3 by blast
  have "sample_db' \<noteq> sample_db"
    using sample_member_after [of PermPerformanceView]
    by (auto simp: hasPermission_loaded [OF sample_member] Has_def)
  from stale_revision_refused [OF h this _ h'] h' show ?thesis by (simp add: max_int64_def)
qed

lemma update_frame_witness:
  "\<exists>payload eff. handleRolePermissionsUpdate (\<lambda>_. False) RoleAdmin 2 ''member''
     (Some (sample_request, 0)) sample_db = (HttpOK payload, sample_db', eff) \<and>
   get_profile sample_db' ''admin'' = get_profile sample_db ''admin'' \<and> DisconnectUser 7 \<in> set eff"
proof -
  obtain payload eff where h: "handleRolePermissionsUpdate (\<lambda>_. False) RoleAdmin 2 ''member''
     (Some (sample_request, 0)) sample_db = (HttpOK payload, sample_db', eff)"
    using sample_update by blast
  have "sample_db' \<noteq> sample_db"
    using sample_member_after [of PermPerformanceView]
    by (auto simp: hasPermission_loaded [OF sample_member] Has_def)
  moreover have "(7, ''member'') \<in> set (db_users sample_db)"
    by (simp add: sample_db_def put_profile_def)
  ultimately show ?thesis using update_frame [OF h] h by force
qed

end
