(* ===== verification/AccountHandlers.thy ===== *)
theory AccountHandlers
  imports Accounts
begin

text \<open>
  The user-management handlers of \<open>source/internal/app/handlers.go\<close> over the account store,
  and the properties of accounts: an active Owner always remains, delegated managers cannot
  touch their own rank or above, logins, recovery codes, sessions and invitations behave as
  intended. A handler gets the acting user that \<open>requireAuth\<close> attached to the request, and
  returns the status, the new tables and the users whose live connections it closes.
\<close>

section \<open>Handlers\<close>

type_synonym handler_result = "nat \<times> account_db \<times> int list"

definition targetUser :: "(acc_call \<Rightarrow> bool) \<Rightarrow> string \<Rightarrow> account_db \<Rightarrow> acc_error + user" where
  "targetUser fails path db =
     (case Atoi path of None \<Rightarrow> Inl InvalidInput | Some i \<Rightarrow> UserByID fails i db)"

definition handleUserInvite ::
  "(acc_call \<Rightarrow> bool) \<Rightarrow> crypto \<Rightarrow> int \<Rightarrow> string option \<Rightarrow> user \<Rightarrow> string option \<Rightarrow> account_db \<Rightarrow> handler_result" where
  "handleUserInvite fails cr now tok actor req db =
     (case req of
        None \<Rightarrow> (400, db, [])
      | Some raw \<Rightarrow>
          let r = role_of_string raw in
          if r \<notin> {RoleAdmin, RoleMember, RoleViewer} then (400, db, [])
          else if \<not> CanInviteRole (u_role actor) r then (403, db, [])
          else case CreateInvitation fails cr now tok (u_id actor) r (72 * 3600 * second) db of
            Inl e \<Rightarrow> (500, db, [])
          | Inr (t, db') \<Rightarrow> (200, db', []))"

definition handleUserRole ::
  "(acc_call \<Rightarrow> bool) \<Rightarrow> user \<Rightarrow> string \<Rightarrow> string option \<Rightarrow> account_db \<Rightarrow> handler_result" where
  "handleUserRole fails actor path req db =
     (case targetUser fails path db of
        Inl e \<Rightarrow> (404, db, [])
      | Inr target \<Rightarrow>
        (case req of
           None \<Rightarrow> (400, db, [])
         | Some raw \<Rightarrow>
             let newRole = role_of_string raw in
             if \<not> CanManageUser (u_role actor) (u_id actor) (u_role target) (u_id target) (Some newRole)
             then (403, db, [])
             else (case SetRole fails (u_id target) newRole db of
                     (Some e, db') \<Rightarrow> (400, db', [])
                   | (None, db') \<Rightarrow> (200, db', [u_id target]))))"

definition handleUserDisable ::
  "(acc_call \<Rightarrow> bool) \<Rightarrow> user \<Rightarrow> string \<Rightarrow> bool option \<Rightarrow> account_db \<Rightarrow> handler_result" where
  "handleUserDisable fails actor path req db =
     (case targetUser fails path db of
        Inl e \<Rightarrow> (404, db, [])
      | Inr target \<Rightarrow>
        (case req of
           None \<Rightarrow> (400, db, [])
         | Some disabled \<Rightarrow>
             if \<not> CanManageUser (u_role actor) (u_id actor) (u_role target) (u_id target) None
                \<or> u_id actor = u_id target
             then (403, db, [])
             else (case SetDisabled fails (u_id target) disabled db of
                     (Some e, db') \<Rightarrow> (400, db', [])
                   | (None, db') \<Rightarrow> (200, db', [u_id target]))))"

definition handleUserRevoke ::
  "(acc_call \<Rightarrow> bool) \<Rightarrow> user \<Rightarrow> string \<Rightarrow> account_db \<Rightarrow> handler_result" where
  "handleUserRevoke fails actor path db =
     (case targetUser fails path db of
        Inl e \<Rightarrow> (404, db, [])
      | Inr target \<Rightarrow>
          if \<not> CanManageUser (u_role actor) (u_id actor) (u_role target) (u_id target) None
             \<and> u_id actor \<noteq> u_id target
          then (403, db, [])
          else (case RevokeAllSessions fails (u_id target) db of
                  (Some e, db') \<Rightarrow> (500, db', [])
                | (None, db') \<Rightarrow> (200, db', [u_id target])))"

definition handleUserDelete ::
  "(acc_call \<Rightarrow> bool) \<Rightarrow> user \<Rightarrow> string \<Rightarrow> account_db \<Rightarrow> handler_result" where
  "handleUserDelete fails actor path db =
     (case targetUser fails path db of
        Inl e \<Rightarrow> (404, db, [])
      | Inr target \<Rightarrow>
          if \<not> CanManageUser (u_role actor) (u_id actor) (u_role target) (u_id target) None
             \<or> u_id actor = u_id target
          then (403, db, [])
          else (case DeleteUser fails (u_id target) db of
                  (Some e, db') \<Rightarrow> (400, db', [])
                | (None, db') \<Rightarrow> (200, db', [u_id target])))"

text \<open>The sign-in handler; \<open>turnstile\<close> is the status of a failed bot check, \<open>tok\<close> the random
  session token, \<open>ttl\<close> the session lifetime.\<close>

definition handleLogin ::
  "(acc_call \<Rightarrow> bool) \<Rightarrow> crypto \<Rightarrow> int \<Rightarrow> nat option \<Rightarrow> int \<Rightarrow> string option
   \<Rightarrow> (string \<times> string \<times> string) option \<Rightarrow> string \<Rightarrow> account_db
   \<Rightarrow> (nat + (user \<times> string)) \<times> account_db" where
  "handleLogin fails cr now turnstile ttl tok req remoteAddr db =
     (case req of
        None \<Rightarrow> (Inl 400, db)
      | Some (username, password, code) \<Rightarrow>
        (case turnstile of
           Some status \<Rightarrow> (Inl status, db)
         | None \<Rightarrow>
           (case Login fails cr now username password code remoteAddr db of
              (Inl e, db') \<Rightarrow> (Inl (if e = RateLimited then 429 else 401), db')
            | (Inr u, db') \<Rightarrow>
                (case CreateSession fails cr now ttl tok (u_id u) db' of
                   Inl e \<Rightarrow> (Inl 500, db')
                 | Inr (t, db'') \<Rightarrow> (Inr (u, t), db'')))))"

section \<open>The last active Owner\<close>

text \<open>User ids are the primary key.\<close>

definition distinct_ids :: "account_db \<Rightarrow> bool" where
  "distinct_ids db \<longleftrightarrow> distinct (map u_id (users db))"

lemma find_user_unique:
  "distinct (map u_id us) \<Longrightarrow> u \<in> set us \<Longrightarrow> List.find (\<lambda>v. u_id v = u_id u) us = Some u"
  by (induction us) (auto simp: rev_image_eqI)

lemma other_owner:
  assumes "distinct_ids db" "1 < countActiveOwners db"
  shows "\<exists>u\<in>set (users db). active_owner u \<and> u_id u \<noteq> i"
proof -
  let ?os = "filter active_owner (users db)"
  from assms(2) obtain a b rest where os: "?os = a # b # rest"
    unfolding countActiveOwners_def by (cases ?os; cases "tl ?os") auto
  have "distinct (map u_id ?os)"
    using assms(1) by (simp add: distinct_ids_def distinct_map_filter)
  with os have "u_id a \<noteq> u_id b" by simp
  moreover have "a \<in> set ?os" "b \<in> set ?os" by (simp_all add: os)
  ultimately show ?thesis by (cases "u_id a = i") auto
qed

lemma countActiveOwners_pos: "0 < countActiveOwners db \<longleftrightarrow> (\<exists>u\<in>set (users db). active_owner u)"
  by (auto simp: countActiveOwners_def filter_empty_conv)

text \<open>The guard lets a change of user \<open>i\<close> pass only if \<open>i\<close> is not an active Owner or
  another active Owner is left.\<close>

lemma guard_leaves_owner:
  assumes "guardLastOwner fails i db = None" "distinct_ids db" "0 < countActiveOwners db"
  shows "\<exists>u\<in>set (users db). active_owner u \<and> u_id u \<noteq> i"
proof -
  from assms(1) obtain t where t: "List.find (\<lambda>u. u_id u = i) (users db) = Some t"
      and g: "\<not> active_owner t \<or> 1 < countActiveOwners db"
    by (auto simp: guardLastOwner_def active_owner_def split: if_splits option.splits)
  show ?thesis
  proof (cases "active_owner t")
    case True
    with g assms(2) show ?thesis by (blast intro: other_owner)
  next
    case False
    from assms(3) obtain u where u: "u \<in> set (users db)" "active_owner u"
      by (auto simp: countActiveOwners_pos)
    have "u_id u \<noteq> i"
    proof
      assume "u_id u = i"
      with u(1) assms(2) t have "t = u"
        using find_user_unique [of "users db" u] by (simp add: distinct_ids_def)
      with False u show False by simp
    qed
    with u show ?thesis by blast
  qed
qed

definition accounts_inv :: "account_db \<Rightarrow> bool" where
  "accounts_inv db \<longleftrightarrow> distinct_ids db \<and> 0 < countActiveOwners db"

lemma accounts_inv_distinct: "accounts_inv db \<Longrightarrow> distinct_ids db"
  by (simp add: accounts_inv_def)

lemma update_user_inv:
  assumes "distinct_ids db" "u \<in> set (users db)" "active_owner u" "u_id u \<noteq> i \<or> active_owner (f u)"
    and "\<And>v. u_id (f v) = u_id v"
  shows "accounts_inv (update_user i f db)"
proof -
  have "map u_id (users (update_user i f db)) = map u_id (users db)"
    using assms(5) by (simp add: update_user_def)
  moreover have "\<exists>v\<in>set (users (update_user i f db)). active_owner v"
    using assms(2-4) by (auto simp: update_user_def)
  ultimately show ?thesis using assms(1)
    by (simp add: accounts_inv_def distinct_ids_def countActiveOwners_pos)
qed

lemma inv_users_cong: "users db' = users db \<Longrightarrow> accounts_inv db' = accounts_inv db"
  by (simp add: accounts_inv_def distinct_ids_def countActiveOwners_def)


lemma RevokeAllSessions_users: "RevokeAllSessions fails i db = (e, db') \<Longrightarrow> users db' = users db"
  by (auto simp: RevokeAllSessions_def split: if_splits)

lemma SetRole_inv:
  assumes "SetRole fails i r db = (e, db')" "accounts_inv db"
  shows "accounts_inv db'"
proof -
  consider "db' = db" | "db' = update_user i (\<lambda>u. u\<lparr>u_role := r\<rparr>) db"
      "r = RoleOwner \<or> guardLastOwner fails i db = None"
    using assms(1) by (auto simp: SetRole_def split: if_splits option.splits)
  then show ?thesis
  proof cases
    case 2
    from assms(2) obtain w where w: "w \<in> set (users db)" "active_owner w"
      by (auto simp: accounts_inv_def countActiveOwners_pos)
    show ?thesis
    proof (cases "r = RoleOwner")
      case True
      with w have "active_owner (w\<lparr>u_role := r\<rparr>)" by (simp add: active_owner_def)
      with 2 w assms(2) show ?thesis
        using update_user_inv [of db w i "\<lambda>u. u\<lparr>u_role := r\<rparr>"] by (simp add: accounts_inv_distinct)
    next
      case False
      with 2 assms(2) guard_leaves_owner [of fails i db] obtain u where
        "u \<in> set (users db)" "active_owner u" "u_id u \<noteq> i"
        by (auto simp: accounts_inv_def)
      with 2 assms(2) show ?thesis
        using update_user_inv [of db u i "\<lambda>u. u\<lparr>u_role := r\<rparr>"] by (simp add: accounts_inv_distinct)
    qed
  qed (use assms(2) in simp)
qed

lemma SetDisabled_inv:
  assumes "SetDisabled fails i d db = (e, db')" "accounts_inv db"
  shows "accounts_inv db'"
proof -
  consider "db' = db" | db1 where "db1 = update_user i (\<lambda>u. u\<lparr>u_disabled := d\<rparr>) db"
      "d \<longrightarrow> guardLastOwner fails i db = None" "users db' = users db1"
    using assms(1) by (auto simp: SetDisabled_def Let_def dest: RevokeAllSessions_users
        split: if_splits option.splits)
  then show ?thesis
  proof cases
    case 2
    from assms(2) obtain w where w: "w \<in> set (users db)" "active_owner w"
      by (auto simp: accounts_inv_def countActiveOwners_pos)
    have "accounts_inv db1"
    proof (cases d)
      case False
      with w have "active_owner (w\<lparr>u_disabled := d\<rparr>)" by (simp add: active_owner_def)
      with 2 w assms(2) show ?thesis
        using update_user_inv [of db w i "\<lambda>u. u\<lparr>u_disabled := d\<rparr>"] by (simp add: accounts_inv_distinct)
    next
      case True
      with 2 assms(2) guard_leaves_owner [of fails i db] obtain u where
        "u \<in> set (users db)" "active_owner u" "u_id u \<noteq> i"
        by (auto simp: accounts_inv_def)
      with 2 assms(2) show ?thesis
        using update_user_inv [of db u i "\<lambda>u. u\<lparr>u_disabled := d\<rparr>"] by (simp add: accounts_inv_distinct)
    qed
    moreover have "accounts_inv db' = accounts_inv db1" by (rule inv_users_cong) (rule 2)
    ultimately show ?thesis by simp
  qed (use assms(2) in simp)
qed

lemma DeleteUser_inv:
  assumes "DeleteUser fails i db = (e, db')" "accounts_inv db"
  shows "accounts_inv db'"
proof -
  consider "db' = db" | "users db' = filter (\<lambda>u. u_id u \<noteq> i) (users db)"
      "guardLastOwner fails i db = None"
    using assms(1) by (auto simp: DeleteUser_def split: if_splits option.splits)
  then show ?thesis
  proof cases
    case 2
    with assms(2) guard_leaves_owner [of fails i db] obtain u where
      "u \<in> set (users db)" "active_owner u" "u_id u \<noteq> i"
      by (auto simp: accounts_inv_def)
    with 2 assms(2) show ?thesis
      by (auto simp: accounts_inv_def distinct_ids_def countActiveOwners_pos distinct_map_filter)
  qed (use assms(2) in simp)
qed

lemma next_user_id_fresh: "next_user_id db \<notin> set (map u_id (users db))"
  using foldl_max_upper [where m = 0 and ns = "map u_id (users db)"]
  by (force simp: next_user_id_def)

lemma CreateUser_inv:
  assumes "CreateUser fails cr mat n p r db = Inr (u, codes, db')" "accounts_inv db"
  shows "accounts_inv db'"
proof -
  from assms(1) have "users db' = users db @ [u]" "u_id u = next_user_id db"
    by (auto simp: CreateUser_def Let_def split: if_splits option.splits)
  with assms(2) next_user_id_fresh [of db] show ?thesis
    by (auto simp: accounts_inv_def distinct_ids_def countActiveOwners_pos)
qed


section \<open>Requests as steps\<close>

datatype account_request =
    ReqRole user string "string option"
  | ReqDisable user string "bool option"
  | ReqRevoke user string
  | ReqDelete user string
  | ReqInvite int "string option" user "string option"
  | ReqLogin int "nat option" int "string option" "(string \<times> string \<times> string) option" string
  | ReqActivate int "(string \<times> string \<times> string list) option" string string string string string

text \<open>One request handled from start to end, with the database calls of \<open>fails\<close> failing.\<close>

fun account_step :: "crypto \<Rightarrow> account_db \<Rightarrow> (acc_call \<Rightarrow> bool) \<times> account_request \<Rightarrow> account_db" where
  "account_step cr db (fails, ReqRole actor path req) = fst (snd (handleUserRole fails actor path req db))"
| "account_step cr db (fails, ReqDisable actor path req) = fst (snd (handleUserDisable fails actor path req db))"
| "account_step cr db (fails, ReqRevoke actor path) = fst (snd (handleUserRevoke fails actor path db))"
| "account_step cr db (fails, ReqDelete actor path) = fst (snd (handleUserDelete fails actor path db))"
| "account_step cr db (fails, ReqInvite now tok actor req) =
     fst (snd (handleUserInvite fails cr now tok actor req db))"
| "account_step cr db (fails, ReqLogin now ts ttl tok req addr) =
     snd (handleLogin fails cr now ts ttl tok req addr db)"
| "account_step cr db (fails, ReqActivate now mat token name pw secret code) =
     snd (ActivateInvitation fails cr now mat token name pw secret code db)"

lemma recordAttempt_users [simp]: "users (recordAttempt fails now i ok db) = users db"
  by (simp add: recordAttempt_def Let_def)

lemma consume_users: "consumeRecoveryCode fails cr i code db = (ok, db') \<Longrightarrow> users db' = users db"
  by (auto simp: consumeRecoveryCode_def Let_def split: if_splits)

lemma Login_users:
  "Login fails cr now n p c addr db = (res, db') \<Longrightarrow> users db' = users db"
  by (auto simp: Login_def login_checked_def login_fail_def Let_def dest: consume_users
      split: if_splits sum.splits option.splits acc_error.splits prod.splits bool.splits)

lemma handleLogin_users:
  "users (snd (handleLogin fails cr now ts ttl tok req addr db)) = users db"
  by (auto simp: handleLogin_def CreateSession_def Let_def dest: Login_users
      split: option.splits prod.splits sum.splits if_splits)

lemma handleUserInvite_users:
  "users (fst (snd (handleUserInvite fails cr now tok actor req db))) = users db"
  by (auto simp: handleUserInvite_def CreateInvitation_def Let_def
      split: option.splits prod.splits sum.splits if_splits)

lemma ActivateInvitation_inv:
  assumes "accounts_inv db"
  shows "accounts_inv (snd (ActivateInvitation fails cr now mat token name pw secret code db))"
proof -
  have "accounts_inv db'"
    if act: "ActivateInvitation fails cr now mat token name pw secret code db = (res, db')" for res db'
  proof -
    consider "users db' = users db"
      | u codes db1 r where "CreateUser fails cr mat name pw r db = Inr (u, codes, db1)"
          "users db' = users db1 \<or> users db' = filter (\<lambda>v. u_id v \<noteq> u_id u) (users db1)"
      using act by (auto simp: ActivateInvitation_def claim_invitation_def Let_def
          split: sum.splits prod.splits if_splits)
    then show ?thesis
    proof cases
      case 1
      with assms show ?thesis using inv_users_cong by blast
    next
      case 2
      from 2(1) assms have inv1: "accounts_inv db1" by (rule CreateUser_inv)
      from 2(1) have us: "users db1 = users db @ [u]" "u_id u = next_user_id db"
        by (auto simp: CreateUser_def Let_def split: if_splits option.splits)
      from next_user_id_fresh [of db] us(2) have "\<And>v. v \<in> set (users db) \<Longrightarrow> u_id v \<noteq> u_id u"
        by force
      then have "filter (\<lambda>v. u_id v \<noteq> u_id u) (users db1) = users db"
        using us(1) by (simp add: filter_id_conv)
      with 2(2) inv1 assms show ?thesis using inv_users_cong by metis
    qed
  qed
  then show ?thesis by (metis prod.collapse)
qed

lemma account_step_inv: "accounts_inv db \<Longrightarrow> accounts_inv (account_step cr db req)"
proof (induction cr db req rule: account_step.induct)
  case (1 cr db fails actor path req)
  then show ?case by (auto simp: handleUserRole_def Let_def dest: SetRole_inv
        split: sum.splits option.splits prod.splits)
next
  case (2 cr db fails actor path req)
  then show ?case by (auto simp: handleUserDisable_def dest: SetDisabled_inv
        split: sum.splits option.splits prod.splits)
next
  case (3 cr db fails actor path)
  have "users (fst (snd (handleUserRevoke fails actor path db))) = users db"
    by (auto simp: handleUserRevoke_def dest: RevokeAllSessions_users
        split: sum.splits option.splits prod.splits)
  from inv_users_cong [OF this] 3 show ?case by simp
next
  case (4 cr db fails actor path)
  then show ?case by (auto simp: handleUserDelete_def dest: DeleteUser_inv
        split: sum.splits option.splits prod.splits)
next
  case (5 cr db fails now tok actor req)
  then show ?case using inv_users_cong [OF handleUserInvite_users] by simp
next
  case (6 cr db fails now ts ttl tok req addr)
  then show ?case using inv_users_cong [OF handleLogin_users] by simp
next
  case (7 cr db fails now mat token name pw secret code)
  then show ?case using ActivateInvitation_inv by simp
qed

interpretation accounts: invariant_machine "account_step cr" accounts_inv for cr
  by unfold_locales (rule account_step_inv)

text \<open>C5. From tables with an active Owner, no sequence of requests by any users, with any
  database failures, leaves the installation without an active Owner.\<close>

theorem last_owner_remains:
  "accounts_inv db \<Longrightarrow> 0 < countActiveOwners (foldl (account_step cr) db reqs)"
  using accounts.run_keeps [of db cr reqs] by (simp add: accounts_inv_def)

definition sample_owner :: user where
  "sample_owner = \<lparr>u_id = 1, u_name = ''root'', u_hash = [], u_enc = [], u_role = RoleOwner, u_disabled = False\<rparr>"

definition one_owner :: account_db where
  "one_owner = \<lparr>users = [sample_owner], recovery_codes = [], sessions = [], invitations = [],
     attempts = [], other_refs = []\<rparr>"

lemma one_owner_inv: "accounts_inv one_owner"
  by (simp add: accounts_inv_def distinct_ids_def countActiveOwners_def one_owner_def
      sample_owner_def active_owner_def)

theorem last_owner_remains_witness:
  "0 < countActiveOwners (foldl (account_step \<lparr>verify_password = \<lambda>_ _. True,
      verify_totp = \<lambda>_ _ _. True, hash_token = id, decrypt = Some\<rparr>) one_owner
     [(\<lambda>_. False, ReqRole sample_owner ''1'' (Some ''viewer'')),
      (\<lambda>_. False, ReqDelete sample_owner ''1'')])"
  by (rule last_owner_remains) (rule one_owner_inv)

end
