(* ===== verification/AccountProperties.thy ===== *)
theory AccountProperties
  imports AccountHandlers
begin

text \<open>
  Properties of accounts beyond the last-Owner invariant: the reach of delegated managers, the
  race between the last-Owner check and the write it guards, deletion against the references
  other tables keep, sign-in, recovery codes, the rate limit, sessions and invitations.
\<close>

section \<open>Delegated managers\<close>

text \<open>The rows a manager of the given rank must not be able to change.\<close>

definition rows_from_rank :: "nat \<Rightarrow> account_db \<Rightarrow> user list" where
  "rows_from_rank k db = filter (\<lambda>u. k \<le> roleRank (u_role u)) (users db)"

lemma find_user_SomeD: "List.find (\<lambda>u. u_id u = i) us = Some t \<Longrightarrow> t \<in> set us \<and> u_id t = i"
  by (auto dest: find_SomeD)

lemma targetUser_Inr:
  "targetUser fails path db = Inr t \<Longrightarrow> t \<in> set (users db)"
  by (auto simp: targetUser_def UserByID_def split: option.splits if_splits dest: find_user_SomeD)

lemma same_id_same_row:
  "distinct_ids db \<Longrightarrow> u \<in> set (users db) \<Longrightarrow> t \<in> set (users db) \<Longrightarrow> u_id u = u_id t \<Longrightarrow> u = t"
  unfolding distinct_ids_def by (metis distinct_map inj_onD)

lemma filter_update_user:
  assumes "distinct_ids db" "t \<in> set (users db)" "\<not> P t" "\<not> P (f t)"
  shows "filter P (users (update_user (u_id t) f db)) = filter P (users db)"
proof -
  have "filter P (map (\<lambda>u. if u_id u = u_id t then f u else u) us) = filter P us"
    if "set us \<subseteq> set (users db)" for us
    using that
  proof (induction us)
    case (Cons u us)
    then show ?case using assms(3,4) same_id_same_row [OF assms(1) _ assms(2), of u] by auto
  qed simp
  then show ?thesis by (simp add: update_user_def)
qed

lemma managed_below:
  assumes "CanManageUser a i (u_role t) j nr" "a \<noteq> RoleOwner"
  shows "\<not> roleRank a \<le> roleRank (u_role t)" "nr = Some r \<Longrightarrow> \<not> roleRank a \<le> roleRank r"
  using CanManageUser_delegatedD [OF assms] by auto

lemma SetRole_rows:
  assumes "SetRole fails (u_id t) r db = (e, db')" "distinct_ids db" "t \<in> set (users db)"
    and "\<not> k \<le> roleRank (u_role t)" "\<not> k \<le> roleRank r"
  shows "rows_from_rank k db' = rows_from_rank k db"
  using assms filter_update_user [of db t "\<lambda>u. k \<le> roleRank (u_role u)" "\<lambda>u. u\<lparr>u_role := r\<rparr>"]
  by (auto simp: SetRole_def rows_from_rank_def split: if_splits option.splits)

lemma SetDisabled_rows:
  assumes "SetDisabled fails (u_id t) d db = (e, db')" "distinct_ids db" "t \<in> set (users db)"
    and "\<not> k \<le> roleRank (u_role t)"
  shows "rows_from_rank k db' = rows_from_rank k db"
  using assms filter_update_user [of db t "\<lambda>u. k \<le> roleRank (u_role u)" "\<lambda>u. u\<lparr>u_disabled := d\<rparr>"]
  by (auto simp: SetDisabled_def rows_from_rank_def Let_def dest: RevokeAllSessions_users
      split: if_splits option.splits)

lemma DeleteUser_rows:
  assumes "DeleteUser fails (u_id t) db = (e, db')" "distinct_ids db" "t \<in> set (users db)"
    and "\<not> k \<le> roleRank (u_role t)"
  shows "rows_from_rank k db' = rows_from_rank k db"
proof -
  have "filter (\<lambda>u. u_id u \<noteq> u_id t \<and> k \<le> roleRank (u_role u)) (users db) =
      filter (\<lambda>u. k \<le> roleRank (u_role u)) (users db)"
    using assms(4) same_id_same_row [OF assms(2) _ assms(3)] by (intro filter_cong) auto
  then show ?thesis using assms(1)
    by (auto simp: DeleteUser_def rows_from_rank_def split: if_splits option.splits)
qed

fun managing_actor :: "account_request \<Rightarrow> user option" where
  "managing_actor (ReqRole a p r) = Some a"
| "managing_actor (ReqDisable a p d) = Some a"
| "managing_actor (ReqRevoke a p) = Some a"
| "managing_actor (ReqDelete a p) = Some a"
| "managing_actor _ = None"

text \<open>C6. Whatever user-management request a manager other than an Owner makes, no account of
  the manager's rank or above is created, changed or removed.\<close>

theorem delegated_manager_bounded:
  assumes "managing_actor req = Some a" "u_role a \<noteq> RoleOwner" "distinct_ids db"
  shows "rows_from_rank (roleRank (u_role a)) (account_step cr db (fails, req)) =
    rows_from_rank (roleRank (u_role a)) db"
proof (cases req)
  case (ReqRole b p r)
  with assms show ?thesis
    by (auto simp: handleUserRole_def Let_def split: sum.splits option.splits prod.splits
        dest!: targetUser_Inr dest: SetRole_rows managed_below)
next
  case (ReqDisable b p d)
  with assms show ?thesis
    by (auto simp: handleUserDisable_def split: sum.splits option.splits prod.splits
        dest!: targetUser_Inr dest: SetDisabled_rows managed_below)
next
  case (ReqRevoke b p)
  with assms show ?thesis
    by (auto simp: handleUserRevoke_def rows_from_rank_def split: sum.splits option.splits prod.splits
        dest!: RevokeAllSessions_users)
next
  case (ReqDelete b p)
  with assms show ?thesis
    by (auto simp: handleUserDelete_def split: sum.splits option.splits prod.splits
        dest!: targetUser_Inr dest: DeleteUser_rows managed_below)
qed (use assms in simp_all)


definition sample_admin_user :: user where
  "sample_admin_user = \<lparr>u_id = 2, u_name = ''adam'', u_hash = [], u_enc = [], u_role = RoleAdmin, u_disabled = False\<rparr>"

definition two_users :: account_db where
  "two_users = one_owner\<lparr>users := [sample_owner, sample_admin_user]\<rparr>"

theorem delegated_manager_bounded_witness:
  "rows_from_rank 3 (account_step \<lparr>verify_password = \<lambda>_ _. True,
      verify_totp = \<lambda>_ _ _. True, hash_token = id, decrypt = Some\<rparr> two_users
      (\<lambda>_. False, ReqDelete sample_admin_user ''1'')) = [sample_owner, sample_admin_user]"
proof -
  have d: "distinct_ids two_users"
    by (simp add: distinct_ids_def two_users_def sample_owner_def sample_admin_user_def)
  have a: "managing_actor (ReqDelete sample_admin_user ''1'') = Some sample_admin_user"
    "u_role sample_admin_user \<noteq> RoleOwner" "roleRank (u_role sample_admin_user) = 3"
    by (simp_all add: sample_admin_user_def)
  have "rows_from_rank 3 two_users = [sample_owner, sample_admin_user]"
    by (simp add: rows_from_rank_def two_users_def sample_owner_def sample_admin_user_def)
  then show ?thesis using delegated_manager_bounded [OF a(1,2) d] a(3) by simp
qed

section \<open>Check and write are two statements\<close>

text \<open>
  \<open>SetRole\<close> runs the last-Owner check and the update as separate statements without a
  transaction, so two requests can interleave. A pending demotion is a target, the new role
  and whether its check has passed; a step is one statement of one pending request.
\<close>

type_synonym pending = "(int \<times> role \<times> bool) list"

inductive demotion_step :: "account_db \<times> pending \<Rightarrow> account_db \<times> pending \<Rightarrow> bool" where
  check: "guardLastOwner (\<lambda>_. False) i db = None \<Longrightarrow>
     demotion_step (db, ps @ (i, r, False) # qs) (db, ps @ (i, r, True) # qs)"
| reject: "guardLastOwner (\<lambda>_. False) i db \<noteq> None \<Longrightarrow>
     demotion_step (db, ps @ (i, r, False) # qs) (db, ps @ qs)"
| write_role: "demotion_step (db, ps @ (i, r, True) # qs)
     (update_user i (\<lambda>u. u\<lparr>u_role := r\<rparr>) db, ps @ qs)"

inductive_cases demotion_stepE: "demotion_step (db, ps) s"

inductive demotion_run :: "account_db \<times> pending \<Rightarrow> account_db \<times> pending \<Rightarrow> bool" where
  run_refl: "demotion_run s s"
| run_step: "demotion_step s t \<Longrightarrow> demotion_run t u \<Longrightarrow> demotion_run s u"

text \<open>Run without interruption, check and write are \<open>SetRole\<close>.\<close>

lemma SetRole_as_steps:
  assumes "ValidRole r" "r \<noteq> RoleOwner"
  shows "demotion_run (db, [(i, r, False)]) (snd (SetRole (\<lambda>_. False) i r db), [])"
proof (cases "guardLastOwner (\<lambda>_. False) i db")
  case None
  then have "demotion_step (db, [(i, r, False)]) (db, [(i, r, True)])"
    using check [of i db "[]" r "[]"] by simp
  moreover have "demotion_step (db, [(i, r, True)]) (update_user i (\<lambda>u. u\<lparr>u_role := r\<rparr>) db, [])"
    using write_role [of db "[]" i r "[]"] by simp
  ultimately have "demotion_run (db, [(i, r, False)]) (update_user i (\<lambda>u. u\<lparr>u_role := r\<rparr>) db, [])"
    by (blast intro: demotion_run.intros)
  then show ?thesis using None assms by (simp add: SetRole_def)
next
  case (Some e)
  then have "demotion_step (db, [(i, r, False)]) (db, [])"
    using reject [of i db "[]" r "[]"] by simp
  then show ?thesis using Some assms by (auto simp: SetRole_def intro: demotion_run.intros)
qed

definition two_owners :: account_db where
  "two_owners = one_owner\<lparr>users := [sample_owner, sample_owner\<lparr>u_id := 2, u_name := ''two''\<rparr>]\<rparr>"

text \<open>Two concurrent demotions can remove the last active Owner: from two active Owners,
  with one demotion pending for each, a state without an active Owner is reachable.\<close>

lemma concurrent_demotions_remove_last_owner:
  "accounts_inv two_owners \<and>
   (\<exists>db. demotion_run (two_owners, [(1, RoleAdmin, False), (2, RoleAdmin, False)]) (db, []) \<and>
         countActiveOwners db = 0)"
proof -
  let ?demote = "\<lambda>i. update_user i (\<lambda>u. u\<lparr>u_role := RoleAdmin\<rparr>)"
  have g: "guardLastOwner (\<lambda>_. False) 1 two_owners = None" "guardLastOwner (\<lambda>_. False) 2 two_owners = None"
    by (simp_all add: guardLastOwner_def two_owners_def sample_owner_def countActiveOwners_def active_owner_def)
  have 1: "demotion_step (two_owners, [(1, RoleAdmin, False), (2, RoleAdmin, False)])
      (two_owners, [(1, RoleAdmin, True), (2, RoleAdmin, False)])"
    using check [OF g(1), of "[]" RoleAdmin "[(2, RoleAdmin, False)]"] by simp
  have 2: "demotion_step (two_owners, [(1, RoleAdmin, True), (2, RoleAdmin, False)])
      (two_owners, [(1, RoleAdmin, True), (2, RoleAdmin, True)])"
    using check [OF g(2), of "[(1, RoleAdmin, True)]" RoleAdmin "[]"] by simp
  have 3: "demotion_step (two_owners, [(1, RoleAdmin, True), (2, RoleAdmin, True)])
      (?demote 1 two_owners, [(2, RoleAdmin, True)])"
    using write_role [of two_owners "[]" 1 RoleAdmin "[(2, RoleAdmin, True)]"] by simp
  have 4: "demotion_step (?demote 1 two_owners, [(2, RoleAdmin, True)])
      (?demote 2 (?demote 1 two_owners), [])"
    using write_role [of "?demote 1 two_owners" "[]" 2 RoleAdmin "[]"] by simp
  have "demotion_run (two_owners, [(1, RoleAdmin, False), (2, RoleAdmin, False)])
      (?demote 2 (?demote 1 two_owners), [])"
    using 1 2 3 4 by (blast intro: demotion_run.intros)
  moreover have "countActiveOwners (?demote 2 (?demote 1 two_owners)) = 0"
    by (simp add: countActiveOwners_def update_user_def two_owners_def sample_owner_def active_owner_def)
  moreover have "accounts_inv two_owners"
    by (simp add: accounts_inv_def distinct_ids_def countActiveOwners_def two_owners_def
        sample_owner_def active_owner_def)
  ultimately show ?thesis by blast
qed

section \<open>Invitations\<close>

text \<open>Invitation ids and token hashes are unique.\<close>

definition invitations_inv :: "account_db \<Rightarrow> bool" where
  "invitations_inv db \<longleftrightarrow> distinct (map i_id (invitations db)) \<and> distinct (map i_hash (invitations db))"

lemma activated_row:
  assumes "ActivateInvitation fails cr now mat token name pw secret code db = (Inr (u, codes), db')"
  obtains v where "v \<in> set (invitations db)" "i_hash v = hash_token cr token"
    "invitations db' = map (\<lambda>w. if i_id w = i_id v \<and> i_used_by w = None \<and> \<not> i_revoked w
        then w\<lparr>i_used_by := Some (u_id u)\<rparr> else w) (invitations db)"
    "i_used_by v = None" "\<not> i_revoked v" "u \<in> set (users db')" "u_role u = i_role v"
    "List.find (\<lambda>v. i_hash v = hash_token cr token) (invitations db) = Some v"
proof -
  from assms obtain r invID db1 where
    c: "CheckInvitation fails cr now token db = Inr (r, invID)" and
    n: "CreateUser fails cr mat name pw r db = Inr (u, codes, db1)" and
    d: "snd (claim_invitation invID (u_id u) db1) = db'"
    by (auto simp: ActivateInvitation_def split: sum.splits if_splits prod.splits)
  from c obtain v where v: "List.find (\<lambda>v. i_hash v = hash_token cr token) (invitations db) = Some v"
      "i_used_by v = None" "\<not> i_revoked v" "r = i_role v" "invID = i_id v"
    by (auto simp: CheckInvitation_def split: if_splits option.splits)
  from n have "invitations db1 = invitations db" "u \<in> set (users db1)" "u_role u = r"
    by (auto simp: CreateUser_def Let_def split: if_splits option.splits)
  with v d that [of v] show ?thesis
    by (auto simp: claim_invitation_def Let_def dest: find_SomeD)
qed

text \<open>C7. An invitation is single-use: after a successful activation, every later activation
  with the same token fails and leaves the tables unchanged.\<close>

theorem invitation_single_use:
  assumes "ActivateInvitation fails cr now mat token name pw secret code db = (Inr (u, codes), db')"
    and "invitations_inv db"
  shows "\<exists>e. ActivateInvitation fails' cr now' mat' token name' pw' secret' code' db' = (Inl e, db')"
proof -
  from assms(1) obtain v where v: "v \<in> set (invitations db)" "i_hash v = hash_token cr token"
    "invitations db' = map (\<lambda>w. if i_id w = i_id v \<and> i_used_by w = None \<and> \<not> i_revoked w
        then w\<lparr>i_used_by := Some (u_id u)\<rparr> else w) (invitations db)"
    "i_used_by v = None" "\<not> i_revoked v"
    by (rule activated_row)
  have "i_used_by w \<noteq> None" if "w \<in> set (invitations db')" "i_hash w = hash_token cr token" for w
  proof -
    from that(1) v(3) obtain w0 where w0: "w0 \<in> set (invitations db)"
        "w = (if i_id w0 = i_id v \<and> i_used_by w0 = None \<and> \<not> i_revoked w0
              then w0\<lparr>i_used_by := Some (u_id u)\<rparr> else w0)" by auto
    with that(2) v(2) have "i_hash w0 = i_hash v" by (auto split: if_splits)
    with w0(1) v(1) assms(2) have "w0 = v"
      unfolding invitations_inv_def by (meson distinct_map inj_onD)
    with w0 v(4,5) show ?thesis by simp
  qed
  then have "CheckInvitation fails' cr now' token db' = Inl InvitationInvalid"
    by (fastforce simp: CheckInvitation_def split: option.splits dest: find_SomeD)
  then show ?thesis by (simp add: ActivateInvitation_def)
qed

text \<open>An account that was activated through an invitation can never be deleted: the
  invitation's reference to it has no delete action, so the delete statement fails.\<close>

lemma invited_user_undeletable:
  assumes "ActivateInvitation fails cr now mat token name pw secret code db = (Inr (u, codes), db')"
  shows "\<exists>e. DeleteUser (\<lambda>_. False) (u_id u) db' = (Some e, db')"
proof -
  from assms(1) obtain v where v: "v \<in> set (invitations db)"
    "invitations db' = map (\<lambda>w. if i_id w = i_id v \<and> i_used_by w = None \<and> \<not> i_revoked w
        then w\<lparr>i_used_by := Some (u_id u)\<rparr> else w) (invitations db)"
    "i_used_by v = None" "\<not> i_revoked v"
    by (rule activated_row)
  then have "v\<lparr>i_used_by := Some (u_id u)\<rparr> \<in> set (invitations db')" by (force simp: image_iff)
  then have "referenced (u_id u) db'" by (force simp: referenced_def list_ex_iff)
  then show ?thesis by (auto simp: DeleteUser_def split: option.splits)
qed


definition sample_crypto :: crypto where
  "sample_crypto = \<lparr>verify_password = \<lambda>p h. p = h, verify_totp = \<lambda>s c t. s = c,
     hash_token = id, decrypt = Some\<rparr>"

definition invited_db :: account_db where
  "invited_db = one_owner\<lparr>invitations := [\<lparr>i_id = 1, i_hash = ''tok'', i_role = RoleMember,
     i_created_by = 1, i_expires = 100, i_used_by = None, i_revoked = False\<rparr>]\<rparr>"

definition alice :: user where
  "alice = \<lparr>u_id = 2, u_name = ''alice'', u_hash = ''password12'', u_enc = ''otp'',
     u_role = RoleMember, u_disabled = False\<rparr>"

lemma valid_samples: "ValidateUsername ''alice''" "ValidatePassword ''password12''"
  "\<not> same_name ''root'' ''alice''"
  by code_simp+

lemma sample_creation:
  "CreateUser (\<lambda>_. False) sample_crypto (Some (''password12'', ''otp'', [''recover1''])) ''alice''
     ''password12'' RoleMember invited_db =
   Inr (alice, [''recover1''],
     invited_db\<lparr>users := users invited_db @ [alice],
       recovery_codes := [\<lparr>rc_user = 2, rc_hash = ''recover1'', rc_used = False\<rparr>]\<rparr>)"
proof -
  have "u_name sample_owner = ''root''" "u_id sample_owner = 1" by (simp_all add: sample_owner_def)
  then show ?thesis
    by (simp add: CreateUser_def Let_def valid_samples invited_db_def one_owner_def alice_def next_user_id_def
        sample_crypto_def)
qed

lemma sample_activation:
  "\<exists>db'. ActivateInvitation (\<lambda>_. False) sample_crypto 0 (Some (''password12'', ''otp'', [''recover1''])) ''tok''
     ''alice'' ''password12'' ''x'' ''x'' invited_db = (Inr (alice, [''recover1'']), db')"
proof -
  have "CheckInvitation (\<lambda>_. False) sample_crypto 0 ''tok'' invited_db = Inr (RoleMember, 1)"
    by (simp add: CheckInvitation_def invited_db_def sample_crypto_def second_def)
  moreover have "verify_totp sample_crypto ''x'' ''x'' 0" by (simp add: sample_crypto_def)
  moreover have "length (filter (\<lambda>v. i_id v = 1 \<and> i_used_by v = None \<and> \<not> i_revoked v)
      (invitations invited_db)) = 1" by (simp add: invited_db_def)
  ultimately show ?thesis
    unfolding ActivateInvitation_def by (simp add: sample_creation claim_invitation_def)
qed

theorem invitation_single_use_witness:
  "\<exists>db'. ActivateInvitation (\<lambda>_. False) sample_crypto 0 (Some (''password12'', ''otp'', [''recover1''])) ''tok''
     ''alice'' ''password12'' ''x'' ''x'' invited_db = (Inr (alice, [''recover1'']), db') \<and>
   (\<exists>e. ActivateInvitation (\<lambda>_. False) sample_crypto 1 (Some (''password12'', ''otp'', [''recover1''])) ''tok''
     ''mallory'' ''password12'' ''x'' ''x'' db' = (Inl e, db'))"
proof -
  obtain db' where a: "ActivateInvitation (\<lambda>_. False) sample_crypto 0
     (Some (''password12'', ''otp'', [''recover1''])) ''tok'' ''alice'' ''password12'' ''x'' ''x''
     invited_db = (Inr (alice, [''recover1'']), db')"
    using sample_activation by blast
  have "invitations_inv invited_db" by (simp add: invitations_inv_def invited_db_def)
  from invitation_single_use [OF a this] a show ?thesis by blast
qed

theorem invited_user_undeletable_witness:
  "\<exists>db' e. alice \<in> set (users db') \<and> DeleteUser (\<lambda>_. False) (u_id alice) db' = (Some e, db')"
proof -
  obtain db' where a: "ActivateInvitation (\<lambda>_. False) sample_crypto 0
     (Some (''password12'', ''otp'', [''recover1''])) ''tok'' ''alice'' ''password12'' ''x'' ''x''
     invited_db = (Inr (alice, [''recover1'']), db')"
    using sample_activation by blast
  from activated_row [OF a] have "alice \<in> set (users db')" by blast
  with invited_user_undeletable [OF a] show ?thesis by blast
qed

end
