(* ===== verification/LoginProperties.thy ===== *)
theory LoginProperties
  imports AccountProperties
begin

text \<open>
  What signing in guarantees: the factors a successful \<open>Login\<close> has checked, the bound on
  rejected guesses over any interleaving of logins, and the life of a session from
  \<open>CreateSession\<close> to its expiry, its revocation or the disabling of its user.
\<close>

section \<open>A successful login\<close>

lemma UserByName_sound:
  assumes "UserByName fails n db = Inr u"
  shows "u \<in> set (users db)" "same_name (u_name u) n"
  using assms by (auto simp: UserByName_def split: if_splits option.splits dest: find_SomeD)

lemma recordAttempt_frame [simp]:
  "users (recordAttempt fails now i b db) = users db"
  "sessions (recordAttempt fails now i b db) = sessions db"
  "recovery_codes (recordAttempt fails now i b db) = recovery_codes db"
  "invitations (recordAttempt fails now i b db) = invitations db"
  by (simp_all add: recordAttempt_def Let_def)

lemma consume_spent:
  assumes "consumeRecoveryCode fails cr i code db = (True, db')"
  shows "\<not> recoveryCodeAvailable fails' cr i code db'"
    "list_ex (recovery_matches cr i (ToLower (TrimSpace code))) (recovery_codes db)"
proof -
  let ?m = "recovery_matches cr i (ToLower (TrimSpace code))"
  from assms have n: "length (filter ?m (recovery_codes db)) = 1"
    and db': "recovery_codes db' =
      map (\<lambda>c. if ?m c then c\<lparr>rc_used := True\<rparr> else c) (recovery_codes db)"
    by (auto simp: consumeRecoveryCode_def Let_def split: if_splits)
  from n have "filter ?m (recovery_codes db) \<noteq> []" by auto
  then show "list_ex ?m (recovery_codes db)" by (simp add: list_ex_iff filter_empty_conv)
  have "\<not> ?m (if ?m c then c\<lparr>rc_used := True\<rparr> else c)" for c
    by (simp add: recovery_matches_def)
  then have "\<not> list_ex ?m (recovery_codes db')" unfolding db' list_ex_iff set_map by blast
  then show "\<not> recoveryCodeAvailable fails' cr i code db'"
    by (simp add: recoveryCodeAvailable_def Let_def)
qed

text \<open>C8. A login succeeds only for a stored, enabled account, with its password, below the
  rate limit, and with a second factor: a valid TOTP code, or a recovery code that was stored
  unused and that can not be used again afterwards.\<close>

theorem login_sound:
  assumes "Login fails cr now username password code addr db = (Inr u, db')"
  shows "u \<in> set (users db) \<and> same_name (u_name u) username \<and> \<not> u_disabled u \<and>
    verify_password cr password (u_hash u) \<and>
    \<not> rateLimited fails now [user_ident username, ip_ident addr] db \<and>
    ((\<exists>secret. decrypt cr (u_enc u) = Some secret \<and> verify_totp cr secret code now) \<or>
     list_ex (recovery_matches cr (u_id u) (ToLower (TrimSpace code))) (recovery_codes db) \<and>
     \<not> recoveryCodeAvailable (\<lambda>_. False) cr (u_id u) code db')"
proof -
  let ?totp = "\<exists>secret. decrypt cr (u_enc u) = Some secret \<and> verify_totp cr secret code now"
  let ?rec = "list_ex (recovery_matches cr (u_id u) (ToLower (TrimSpace code))) (recovery_codes db) \<and>
     \<not> recoveryCodeAvailable (\<lambda>_. False) cr (u_id u) code db'"
  from assms have rl: "\<not> rateLimited fails now [user_ident username, ip_ident addr] db"
    by (auto simp: Login_def)
  from assms rl have u: "UserByName fails username db = Inr u"
    by (auto simp: Login_def login_checked_def login_fail_def Let_def
        split: sum.splits acc_error.splits if_splits prod.splits bool.splits)
  from assms rl u have ok: "\<not> u_disabled u" "verify_password cr password (u_hash u)"
    by (auto simp: Login_def login_checked_def login_fail_def Let_def split: if_splits)
  have "?totp \<or> ?rec"
  proof (cases ?totp)
    case False
    then have "(case decrypt cr (u_enc u) of Some s \<Rightarrow> verify_totp cr s code now | None \<Rightarrow> False) = False"
      by (auto split: option.splits)
    with assms rl u obtain db1 where c: "consumeRecoveryCode fails cr (u_id u) code db = (True, db1)"
        "db' = recordAttempt fails now (user_ident username) True db1"
      by (auto simp: Login_def login_checked_def login_fail_def Let_def split: if_splits prod.splits bool.splits)
    have "recovery_codes db' = recovery_codes db1" by (simp add: c(2))
    then have "recoveryCodeAvailable (\<lambda>_. False) cr (u_id u) code db' =
        recoveryCodeAvailable (\<lambda>_. False) cr (u_id u) code db1"
      unfolding recoveryCodeAvailable_def by (simp only:)
    with consume_spent [OF c(1)] show ?thesis by simp
  qed simp
  with rl ok UserByName_sound [OF u] show ?thesis by simp
qed


section \<open>Guessing is bounded\<close>

text \<open>
  Logins run concurrently, and the panel takes no lock around one: a login passes the rate limit,
  and what it records of its failure is written later. A login is therefore two steps here, and
  between them other logins take theirs and any other request changes what it likes of the
  database but the attempts. Each login has database calls of its own that fail. \<open>lr_rejected\<close>
  collects the identifiers of the logins rejected for their credentials, with the time; a login
  for which the attempts could not be counted or written is left out of it, since the code
  ignores these two errors (see \<open>limit_fails_open\<close>).
\<close>

record login_try =
  lt_fails :: "acc_call \<Rightarrow> bool"
  lt_name :: string
  lt_password :: string
  lt_code :: string
  lt_addr :: string

datatype login_event =
    Arrive login_try
  | Finish nat
  | OtherRequest account_db

record login_state =
  lr_db :: account_db
  lr_pending :: "login_try list"
  lr_rejected :: "(string \<times> int) list"

definition idents :: "login_try \<Rightarrow> string list" where
  "idents x = [user_ident (lt_name x), ip_ident (lt_addr x)]"

definition attempts_kept :: "login_try \<Rightarrow> bool" where
  "attempts_kept x \<longleftrightarrow> \<not> lt_fails x InsertAttempt \<and> \<not> lt_fails x CountAttempts"

definition finish_try :: "crypto \<Rightarrow> int \<Rightarrow> login_try \<Rightarrow> account_db \<Rightarrow> (acc_error + user) \<times> account_db" where
  "finish_try cr now x db =
     login_checked (lt_fails x) cr now (lt_name x) (lt_password x) (lt_code x) (lt_addr x) db"

definition rejections :: "int \<Rightarrow> login_try \<Rightarrow> acc_error + user \<Rightarrow> (string \<times> int) list" where
  "rejections now x r = (if r = Inl InvalidCredentials \<and> attempts_kept x
     then map (\<lambda>i. (i, stamp now)) (idents x) else [])"

definition without :: "nat \<Rightarrow> 'a list \<Rightarrow> 'a list" where
  "without j xs = take j xs @ drop (Suc j) xs"

fun login_step :: "crypto \<Rightarrow> int \<times> login_event \<Rightarrow> login_state \<Rightarrow> login_state" where
  "login_step cr (now, Arrive x) s =
     (if rateLimited (lt_fails x) now (idents x) (lr_db s) then s
      else s\<lparr>lr_pending := lr_pending s @ [x]\<rparr>)"
| "login_step cr (now, Finish j) s =
     (if j < length (lr_pending s)
      then let x = lr_pending s ! j; (r, db') = finish_try cr now x (lr_db s)
           in s\<lparr>lr_db := db', lr_pending := without j (lr_pending s),
                lr_rejected := lr_rejected s @ rejections now x r\<rparr>
      else s)"
| "login_step cr (now, OtherRequest db') s =
     (if attempts db' = attempts (lr_db s) then s\<lparr>lr_db := db'\<rparr> else s)"

definition login_run :: "crypto \<Rightarrow> (int \<times> login_event) list \<Rightarrow> account_db \<Rightarrow> login_state" where
  "login_run cr evs db = fold (login_step cr) evs \<lparr>lr_db = db, lr_pending = [], lr_rejected = []\<rparr>"

text \<open>\<open>Login\<close> is the two steps one after the other.\<close>

lemma Login_two_steps:
  assumes "Login (lt_fails x) cr now (lt_name x) (lt_password x) (lt_code x) (lt_addr x) db = (r, db')"
  shows "lr_db (login_run cr [(now, Arrive x), (now, Finish 0)] db) = db' \<and>
    lr_pending (login_run cr [(now, Arrive x), (now, Finish 0)] db) = []"
  using assms by (auto simp: login_run_def Login_def finish_try_def idents_def without_def)

definition in_progress :: "string \<Rightarrow> login_try list \<Rightarrow> nat" where
  "in_progress ident xs = length (filter (\<lambda>x. attempts_kept x \<and> ident \<in> set (idents x)) xs)"

definition rejected_since :: "(string \<times> int) list \<Rightarrow> string \<Rightarrow> int \<Rightarrow> nat" where
  "rejected_since h ident since = length (filter (\<lambda>(i, t). i = ident \<and> since < t) h)"

definition window_start :: "int \<Rightarrow> int" where "window_start now = stamp (now - rateWindow)"

text \<open>The attempts table covers the history within the window, which together with what is in
  progress is within the limit.\<close>

definition guesses_inv :: "string \<Rightarrow> nat \<Rightarrow> int \<Rightarrow> login_state \<Rightarrow> bool" where
  "guesses_inv ident k now s \<longleftrightarrow>
     (\<forall>since. window_start now \<le> since \<longrightarrow>
        rejected_since (lr_rejected s) ident since \<le> recent_fails (lr_db s) ident since) \<and>
     rejected_since (lr_rejected s) ident (window_start now) + in_progress ident (lr_pending s)
       < rateMaxFails + k"

lemma stamp_mono: "a \<le> b \<Longrightarrow> stamp a \<le> stamp b"
  by (simp add: stamp_def zdiv_mono1)

lemma window_start_mono: "a \<le> b \<Longrightarrow> window_start a \<le> window_start b"
  by (simp add: window_start_def stamp_mono)

lemma day_before_window: "stamp (now - 24 * 3600 * second) \<le> window_start now"
  by (simp add: window_start_def rateWindow_def second_def stamp_mono)

lemma filter_length_mono: "(\<And>x. P x \<Longrightarrow> Q x) \<Longrightarrow> length (filter P xs) \<le> length (filter Q xs)"
  by (induction xs) (auto simp: le_SucI)

lemma rejected_since_antimono: "a \<le> b \<Longrightarrow> rejected_since h i b \<le> rejected_since h i a"
  unfolding rejected_since_def by (rule filter_length_mono) auto

lemma rejected_since_append [simp]:
  "rejected_since (h @ h') i s = rejected_since h i s + rejected_since h' i s"
  by (simp add: rejected_since_def)

lemma in_progress_append [simp]: "in_progress i (xs @ ys) = in_progress i xs + in_progress i ys"
  by (simp add: in_progress_def)

lemma in_progress_without:
  assumes "j < length xs"
  shows "in_progress i xs = in_progress i (without j xs) + in_progress i [xs ! j]"
proof -
  have "xs = take j xs @ [xs ! j] @ drop (Suc j) xs" using id_take_nth_drop [OF assms] by simp
  then have "in_progress i xs = in_progress i (take j xs @ [xs ! j] @ drop (Suc j) xs)" by simp
  then show ?thesis by (simp only: without_def in_progress_append)
qed

lemma guesses_inv_later: "guesses_inv i k now s \<Longrightarrow> now \<le> now' \<Longrightarrow> guesses_inv i k now' s"
  unfolding guesses_inv_def using window_start_mono rejected_since_antimono
  by (meson add_le_mono1 order_trans le_less_trans)

text \<open>Recording adds one row to its identifier, if it is a failure, and prunes nothing that a
  window still sees.\<close>

lemma recent_fails_record:
  assumes "window_start now \<le> since"
  shows "recent_fails (recordAttempt fails now i b db) ident since = recent_fails db ident since +
     (if \<not> fails InsertAttempt \<and> i = ident \<and> \<not> b \<and> since < stamp now then 1 else 0)"
proof -
  let ?P = "\<lambda>a. at_ident a = ident \<and> \<not> at_success a \<and> since < at_time a"
  define day where "day = stamp (now - 24 * 3600 * second)"
  let ?Q = "\<lambda>a. \<not> at_time a < day"
  have keep: "filter ?P (filter ?Q xs) = filter ?P xs" for xs
    using day_before_window [of now] assms by (induction xs) (auto simp: day_def)
  have "filter ?P (attempts (recordAttempt fails now i b db)) =
      filter ?P (attempts db @ (if fails InsertAttempt then []
        else [\<lparr>at_ident = i, at_time = stamp now, at_success = b\<rparr>]))"
    unfolding recordAttempt_def day_def [symmetric]
    by (cases "fails InsertAttempt"; cases "fails PruneAttempts")
       (simp_all add: keep del: filter_append filter_filter)
  then show ?thesis by (simp add: recent_fails_def)
qed

lemma consume_attempts: "consumeRecoveryCode fails cr i c db = (b, db') \<Longrightarrow> attempts db' = attempts db"
  by (auto simp: consumeRecoveryCode_def Let_def split: if_splits)

lemma recent_fails_attempts: "attempts db' = attempts db \<Longrightarrow> recent_fails db' = recent_fails db"
  by (simp add: recent_fails_def fun_eq_iff)

text \<open>The ways a login that has passed the limit ends.\<close>

lemma login_checked_cases:
  assumes "login_checked fails cr now n p c addr db = (r, db')"
  obtains db0 where "r = Inl InvalidCredentials" "attempts db0 = attempts db"
      "db' = snd (login_fail fails now n addr db0)"
  | db0 where "r \<noteq> Inl InvalidCredentials" "attempts db0 = attempts db"
      "db' = db0 \<or> db' = recordAttempt fails now (user_ident n) True db0"
proof (cases "UserByName fails n db")
  case (Inl e)
  then have "e = NoRows \<or> e = CallFailed" by (auto simp: UserByName_def split: option.splits if_splits)
  then show thesis
  proof
    assume "e = NoRows"
    with assms Inl that(1) [of db] show thesis by (simp add: login_checked_def login_fail_def)
  next
    assume "e = CallFailed"
    with assms Inl have "r = Inl CallFailed" "db' = db" by (simp_all add: login_checked_def)
    with that(2) [of db] show thesis by simp
  qed
next
  case (Inr u)
  obtain b db1 where c: "consumeRecoveryCode fails cr (u_id u) c db = (b, db1)"
    by (meson surj_pair)
  from assms c that(1) [of db] that(1) [of db1] that(2) [of db] that(2) [of db1]
    consume_attempts [OF c] show thesis
    by (cases b) (auto simp: Inr login_checked_def login_fail_def Let_def split: if_splits)
qed

text \<open>Finishing a login keeps the table ahead of the history, and adds to the history no more
  than it takes from what is in progress.\<close>

lemma finish_try_inv:
  assumes "finish_try cr now x db = (r, db')" "window_start now \<le> since"
    "rejected_since h ident since \<le> recent_fails db ident since"
  shows "rejected_since (h @ rejections now x r) ident since \<le> recent_fails db' ident since"
proof -
  have ne: "user_ident a \<noteq> ip_ident b" for a b by (simp add: user_ident_def ip_ident_def)
  from assms(1)[unfolded finish_try_def] show ?thesis
  proof (cases rule: login_checked_cases)
    case (1 db0)
    have "recent_fails db' ident since = recent_fails db ident since +
        (if \<not> lt_fails x InsertAttempt \<and> ident \<in> set (idents x) \<and> since < stamp now then 1 else 0)"
      using ne by (auto simp: 1(3) login_fail_def recent_fails_record [OF assms(2)]
          recent_fails_attempts [OF 1(2)] idents_def)
    then show ?thesis
      using assms(3) ne by (auto simp: rejections_def attempts_kept_def rejected_since_def idents_def)
  next
    case (2 db0)
    then show ?thesis using assms(3)
      by (auto simp: rejections_def recent_fails_record [OF assms(2)] recent_fails_attempts [OF 2(2)]
          rejected_since_def)
  qed
qed

lemma rejections_bounded: "rejected_since (rejections now x r) ident since \<le> in_progress ident [x]"
  by (auto simp: rejections_def rejected_since_def in_progress_def idents_def user_ident_def ip_ident_def)

lemma arrive_below:
  assumes "\<not> rateLimited (lt_fails x) now (idents x) db" "attempts_kept x" "ident \<in> set (idents x)"
  shows "recent_fails db ident (window_start now) < rateMaxFails"
  using assms by (auto simp: rateLimited_def window_start_def Let_def attempts_kept_def list_ex_iff)

lemma login_step_inv:
  assumes inv: "guesses_inv ident k now s"
    and k: "in_progress ident (lr_pending (login_step cr (now, e) s)) \<le> k" "0 < k"
  shows "guesses_inv ident k now (login_step cr (now, e) s)"
proof (cases e)
  case (Arrive x)
  show ?thesis
  proof (cases "rateLimited (lt_fails x) now (idents x) (lr_db s) \<or> in_progress ident [x] = 0")
    case False
    then have "recent_fails (lr_db s) ident (window_start now) < rateMaxFails"
      by (intro arrive_below) (auto simp: in_progress_def split: if_splits)
    moreover from inv have "rejected_since (lr_rejected s) ident (window_start now)
        \<le> recent_fails (lr_db s) ident (window_start now)" by (simp add: guesses_inv_def)
    ultimately have "rejected_since (lr_rejected s) ident (window_start now) < rateMaxFails" by linarith
    moreover from False k have "in_progress ident (lr_pending s) + in_progress ident [x] \<le> k"
      by (simp add: Arrive)
    ultimately show ?thesis using inv False by (simp add: guesses_inv_def Arrive)
  qed (use inv in \<open>auto simp: guesses_inv_def Arrive\<close>)
next
  case (Finish j)
  show ?thesis
  proof (cases "j < length (lr_pending s)")
    case True
    let ?x = "lr_pending s ! j"
    obtain r db' where f: "finish_try cr now ?x (lr_db s) = (r, db')" by (meson surj_pair)
    from inv have "\<forall>since. window_start now \<le> since \<longrightarrow>
        rejected_since (lr_rejected s @ rejections now ?x r) ident since \<le> recent_fails db' ident since"
      by (auto intro!: finish_try_inv [OF f] simp: guesses_inv_def simp del: rejected_since_append)
    moreover have "rejected_since (lr_rejected s @ rejections now ?x r) ident (window_start now) +
        in_progress ident (without j (lr_pending s)) < rateMaxFails + k"
      using inv rejections_bounded [of now ?x r ident "window_start now"]
        in_progress_without [OF True, of ident] unfolding guesses_inv_def rejected_since_append by linarith
    ultimately show ?thesis unfolding guesses_inv_def
      by (simp add: Finish f True del: rejected_since_append)
  qed (use inv in \<open>simp add: Finish\<close>)
next
  case (OtherRequest db')
  then show ?thesis using inv by (simp add: guesses_inv_def recent_fails_attempts [of db' "lr_db s"])
qed

lemma login_run_inv:
  assumes "attempts db = []" "sorted (map fst evs)" "\<forall>e\<in>set evs. fst e \<le> now" "0 < k"
    "\<And>n. in_progress ident (lr_pending (login_run cr (take n evs) db)) \<le> k"
  shows "guesses_inv ident k now (login_run cr evs db)"
  using assms(2,3,5)
proof (induction evs arbitrary: now rule: rev_induct)
  case Nil
  then show ?case using assms(4)
    by (simp add: guesses_inv_def login_run_def rejected_since_def in_progress_def rateMaxFails_def)
next
  case (snoc e evs)
  obtain t ev where e: "e = (t, ev)" by force
  have pre: "in_progress ident (lr_pending (login_run cr (take n evs) db)) \<le> k" for n
    using snoc.prems(3) [of "min n (length evs)"] by (cases "n \<le> length evs") (simp_all add: min_def)
  have "guesses_inv ident k t (login_run cr evs db)"
    using snoc.prems(1) by (intro snoc.IH pre) (auto simp: sorted_append e)
  moreover have run: "login_run cr (evs @ [e]) db = login_step cr (t, ev) (login_run cr evs db)"
    by (simp add: login_run_def e)
  moreover from snoc.prems(3) [of "Suc (length evs)"] run
  have "in_progress ident (lr_pending (login_step cr (t, ev) (login_run cr evs db))) \<le> k" by simp
  ultimately have "guesses_inv ident k t (login_run cr (evs @ [e]) db)"
    using login_step_inv assms(4) by simp
  moreover from snoc.prems(2) have "t \<le> now" by (simp add: e)
  ultimately show ?case by (rule guesses_inv_later)
qed

text \<open>C9. Guessing is bounded: over any interleaving of logins, each checked against the rate
  limit first and finished later, of which at most \<open>k\<close> are in progress at a time for a user name
  or an address, fewer than \<open>8 + k\<close> are rejected for their credentials within any ten minutes for
  that name or address (at most eight when they come one at a time), however many are tried;
  not counting logins during which the database failed to count or to store the attempts, whose
  errors the code ignores.\<close>

theorem guesses_bounded:
  assumes "attempts db = []" "sorted (map fst evs)" "\<forall>e\<in>set evs. fst e \<le> now" "0 < k"
    "\<forall>n. in_progress ident (lr_pending (login_run cr (take n evs) db)) \<le> k"
  shows "rejected_since (lr_rejected (login_run cr evs db)) ident (stamp (now - rateWindow))
    < rateMaxFails + k"
proof -
  have "guesses_inv ident k now (login_run cr evs db)"
    using assms by (intro login_run_inv) simp_all
  then show ?thesis unfolding guesses_inv_def window_start_def by linarith
qed

text \<open>The two errors \<open>Login\<close> ignores leave the limit open: without the count nothing is ever
  limited, and without the insertion a rejection leaves no trace.\<close>

lemma limit_fails_open:
  "\<not> rateLimited (\<lambda>c. c = CountAttempts) now is db"
  "attempts db = [] \<Longrightarrow> attempts (snd (login_fail (\<lambda>c. c = InsertAttempt) now n addr db)) = []"
  by (auto simp: rateLimited_def rateMaxFails_def list_ex_iff Let_def login_fail_def recordAttempt_def)

section \<open>Sessions\<close>

lemma ValidateSession_sound:
  assumes "ValidateSession fails cr now token db = Inr u"
  obtains s where "s \<in> set (sessions db)" "s_id s = hash_token cr token" "\<not> s_revoked s"
    "UserByID fails (s_user s) db = Inr u"
proof -
  from assms obtain s where s: "List.find (\<lambda>s. s_id s = hash_token cr token) (sessions db) = Some s"
    by (auto simp: ValidateSession_def split: if_splits option.splits)
  with assms have "\<not> s_revoked s" "UserByID fails (s_user s) db = Inr u"
    by (simp_all add: ValidateSession_def split: if_splits sum.splits)
  with that find_SomeD [OF s] show thesis by blast
qed

text \<open>A fresh session's token identifies its user, while that user exists and is enabled,
  exactly until the session expires; after \<open>RevokeSession\<close> it never does again.\<close>

lemma session_lifetime:
  assumes "CreateSession fails cr now ttl tok i db = Inr (token, db')" "token \<noteq> []"
    "UserByID (\<lambda>_. False) i db = Inr u" "\<not> u_disabled u"
  shows "(ValidateSession (\<lambda>_. False) cr later token db' = Inr u \<longleftrightarrow>
      later \<le> stamp (now + ttl) * second) \<and>
    (\<forall>u'. ValidateSession fails' cr later token (snd (RevokeSession (\<lambda>_. False) cr token db')) \<noteq> Inr u')"
proof -
  let ?s = "\<lparr>s_id = hash_token cr token, s_user = i, s_expires = stamp (now + ttl), s_revoked = False\<rparr>"
  from assms(1) have db': "db' = db\<lparr>sessions := sessions db @ [?s]\<rparr>"
    and fresh: "hash_token cr token \<notin> s_id ` set (sessions db)"
    by (auto simp: CreateSession_def split: option.splits if_splits)
  let ?is = "\<lambda>s. s_id s = hash_token cr token"
  from fresh have none: "List.find ?is (sessions db) = None"
    by (auto simp: find_None_iff image_iff)
  have "List.find ?is (sessions db @ [?s]) = Some ?s"
    by (simp add: find_append_None [OF none])
  then have found: "List.find ?is (sessions db') = Some ?s" by (simp add: db')
  have user: "UserByID (\<lambda>_. False) i db' = Inr u" using assms(3) by (simp add: UserByID_def db')
  have "ValidateSession (\<lambda>_. False) cr later token db' = Inr u \<longleftrightarrow> later \<le> stamp (now + ttl) * second"
    using assms(2,4) by (simp add: ValidateSession_def found user not_le)
  moreover have "ValidateSession fails' cr later token (snd (RevokeSession (\<lambda>_. False) cr token db')) \<noteq> Inr u'"
    for u'
  proof
    assume "ValidateSession fails' cr later token (snd (RevokeSession (\<lambda>_. False) cr token db')) = Inr u'"
    then obtain s where "s \<in> set (sessions (snd (RevokeSession (\<lambda>_. False) cr token db')))"
      "s_id s = hash_token cr token" "\<not> s_revoked s" by (rule ValidateSession_sound)
    then show False by (auto simp: RevokeSession_def split: if_splits)
  qed
  ultimately show ?thesis by blast
qed

text \<open>Disabling an account ends all of its sessions for good: no token signs it in
  afterwards, not even once the account is enabled again.\<close>

lemma disabling_ends_sessions:
  assumes "SetDisabled fails i True db = (None, db1)" "SetDisabled fails' i False db1 = (e, db2)"
    "ValidateSession fails'' cr later token db2 = Inr u"
  shows "u_id u \<noteq> i"
proof -
  from assms(1) have "sessions db1 = map (\<lambda>s. if s_user s = i then s\<lparr>s_revoked := True\<rparr> else s) (sessions db)"
    by (auto simp: SetDisabled_def RevokeAllSessions_def update_user_def Let_def split: option.splits if_splits)
  moreover from assms(2) have "sessions db2 = sessions db1"
    by (auto simp: SetDisabled_def update_user_def Let_def split: if_splits)
  ultimately have all: "sessions db2 = map (\<lambda>s. if s_user s = i then s\<lparr>s_revoked := True\<rparr> else s) (sessions db)"
    by simp
  have dead: "s_revoked s" if "s \<in> set (sessions db2)" "s_user s = i" for s
  proof -
    from that(1) obtain r where "s = (if s_user r = i then r\<lparr>s_revoked := True\<rparr> else r)"
      unfolding all set_map by (rule imageE)
    with that(2) show ?thesis by (cases "s_user r = i") simp_all
  qed
  from assms(3) obtain s where s: "s \<in> set (sessions db2)" "\<not> s_revoked s"
      "UserByID fails'' (s_user s) db2 = Inr u"
    by (rule ValidateSession_sound)
  with dead have "s_user s \<noteq> i" by blast
  moreover from s(3) have "List.find (\<lambda>u. u_id u = s_user s) (users db2) = Some u"
    by (auto simp: UserByID_def split: if_splits option.splits)
  from find_SomeD [OF this] have "u_id u = s_user s" by simp
  ultimately show ?thesis by simp
qed


section \<open>Witnesses\<close>

definition enabled_owner :: user where
  "enabled_owner = \<lparr>u_id = 1, u_name = ''root'', u_hash = ''password12'', u_enc = ''otp'',
     u_role = RoleOwner, u_disabled = False\<rparr>"

definition login_db :: account_db where
  "login_db = \<lparr>users = [enabled_owner], recovery_codes = [], sessions = [], invitations = [],
     attempts = [], other_refs = []\<rparr>"

lemma root_name: "same_name ''root'' ''Root''" "UserByName (\<lambda>_. False) ''Root'' login_db = Inr enabled_owner"
  by code_simp+

lemma fresh_not_limited: "\<not> rateLimited (\<lambda>_. False) now is login_db"
  by (auto simp: rateLimited_def recent_fails_def login_db_def rateMaxFails_def list_ex_iff)

lemma sample_login:
  "Login (\<lambda>_. False) sample_crypto 0 ''Root'' ''password12'' ''otp'' ''10.0.0.1'' login_db =
     (Inr enabled_owner, recordAttempt (\<lambda>_. False) 0 (user_ident ''Root'') True login_db)"
  by (simp add: Login_def login_checked_def fresh_not_limited root_name)
    (simp add: enabled_owner_def sample_crypto_def)

theorem login_sound_witness:
  "enabled_owner \<in> set (users login_db) \<and> \<not> u_disabled enabled_owner \<and>
   verify_password sample_crypto ''password12'' (u_hash enabled_owner)"
  using login_sound [OF sample_login] by blast

definition one_guess :: login_try where
  "one_guess = \<lparr>lt_fails = (\<lambda>_. False), lt_name = ''Root'', lt_password = ''guess'', lt_code = ''otp'',
     lt_addr = ''10.0.0.1''\<rparr>"

definition two_guesses :: "(int \<times> login_event) list" where
  "two_guesses = [(0, Arrive one_guess), (0, Arrive one_guess), (second, Finish 0)]"

lemma two_guesses_run:
  "lr_pending (login_run sample_crypto (take n two_guesses) login_db) = 
     (if n = 0 then [] else if n = 2 then [one_guess, one_guess] else [one_guess])"
  "lr_rejected (login_run sample_crypto two_guesses login_db) =
     [(user_ident ''Root'', 1), (ip_ident ''10.0.0.1'', 1)]"
proof -
  have v: "\<not> verify_password sample_crypto ''guess'' (u_hash enabled_owner)"
    by (simp add: sample_crypto_def enabled_owner_def)
  have f: "fst (finish_try sample_crypto t one_guess login_db) = Inl InvalidCredentials" for t
    by (simp add: finish_try_def one_guess_def login_checked_def root_name v login_fail_def)
  have a: "\<not> rateLimited (lt_fails one_guess) t ids login_db" for t ids
    using fresh_not_limited by (simp add: one_guess_def)
  obtain db' where g: "finish_try sample_crypto second one_guess login_db = (Inl InvalidCredentials, db')"
    using f [of second] by (cases "finish_try sample_crypto second one_guess login_db") simp
  show "lr_rejected (login_run sample_crypto two_guesses login_db) =
     [(user_ident ''Root'', 1), (ip_ident ''10.0.0.1'', 1)]"
    by (simp add: login_run_def two_guesses_def a g rejections_def attempts_kept_def)
       (simp add: one_guess_def idents_def stamp_def second_def)
  show "lr_pending (login_run sample_crypto (take n two_guesses) login_db) = 
     (if n = 0 then [] else if n = 2 then [one_guess, one_guess] else [one_guess])"
    by (auto simp: login_run_def two_guesses_def a g without_def take_Cons split: nat.split)
qed

theorem guesses_bounded_witness:
  "rejected_since (lr_rejected (login_run sample_crypto two_guesses login_db)) (user_ident ''Root'')
     (stamp (second - rateWindow)) < rateMaxFails + 2 \<and>
   lr_rejected (login_run sample_crypto two_guesses login_db) =
     [(user_ident ''Root'', 1), (ip_ident ''10.0.0.1'', 1)]"
proof -
  have "in_progress i [one_guess, one_guess] \<le> 2" "in_progress i [one_guess] \<le> 2" "in_progress i [] \<le> 2"
    for i by (simp_all add: in_progress_def)
  then have "\<forall>n. in_progress (user_ident ''Root'')
      (lr_pending (login_run sample_crypto (take n two_guesses) login_db)) \<le> 2"
    by (simp add: two_guesses_run)
  with guesses_bounded [of login_db two_guesses second 2 "user_ident ''Root''" sample_crypto]
  have "rejected_since (lr_rejected (login_run sample_crypto two_guesses login_db)) (user_ident ''Root'')
      (stamp (second - rateWindow)) < rateMaxFails + 2"
    by (simp add: login_db_def) (simp add: two_guesses_def second_def)
  then show ?thesis by (simp add: two_guesses_run)
qed

lemma sample_session:
  "CreateSession (\<lambda>_. False) sample_crypto 0 (5 * second) (Some ''tok'') 1 login_db =
     Inr (''tok'', login_db\<lparr>sessions := [\<lparr>s_id = ''tok'', s_user = 1, s_expires = 5, s_revoked = False\<rparr>]\<rparr>)"
  by (simp add: CreateSession_def login_db_def sample_crypto_def enabled_owner_def stamp_def second_def)

lemma sample_user: "UserByID (\<lambda>_. False) 1 login_db = Inr enabled_owner"
  by (simp add: UserByID_def login_db_def enabled_owner_def)

theorem session_lifetime_witness:
  "ValidateSession (\<lambda>_. False) sample_crypto (4 * second) ''tok''
     (login_db\<lparr>sessions := [\<lparr>s_id = ''tok'', s_user = 1, s_expires = 5, s_revoked = False\<rparr>]\<rparr>) =
   Inr enabled_owner"
  using session_lifetime [OF sample_session _ sample_user, of "4 * second" "\<lambda>_. False"]
  by (simp add: stamp_def second_def enabled_owner_def)

definition two_enabled :: account_db where
  "two_enabled = login_db\<lparr>users := [enabled_owner, enabled_owner\<lparr>u_id := 2\<rparr>],
     sessions := [\<lparr>s_id = ''a'', s_user = 1, s_expires = 5, s_revoked = False\<rparr>,
                  \<lparr>s_id = ''b'', s_user = 2, s_expires = 5, s_revoked = False\<rparr>]\<rparr>"

theorem disabling_ends_sessions_witness:
  "\<exists>db1 db2 u. SetDisabled (\<lambda>_. False) 1 True two_enabled = (None, db1) \<and>
     SetDisabled (\<lambda>_. False) 1 False db1 = (None, db2) \<and>
     ValidateSession (\<lambda>_. False) sample_crypto 0 ''b'' db2 = Inr u \<and> u_id u \<noteq> 1"
proof -
  have "\<exists>db1. SetDisabled (\<lambda>_. False) 1 True two_enabled = (None, db1) \<and>
     (\<exists>db2. SetDisabled (\<lambda>_. False) 1 False db1 = (None, db2) \<and>
       (\<exists>u. ValidateSession (\<lambda>_. False) sample_crypto 0 ''b'' db2 = Inr u))"
    by (simp add: SetDisabled_def RevokeAllSessions_def update_user_def ValidateSession_def UserByID_def
        guardLastOwner_def countActiveOwners_def active_owner_def two_enabled_def login_db_def
        enabled_owner_def sample_crypto_def second_def)
  then obtain db1 db2 u where s: "SetDisabled (\<lambda>_. False) 1 True two_enabled = (None, db1)"
     "SetDisabled (\<lambda>_. False) 1 False db1 = (None, db2)"
     "ValidateSession (\<lambda>_. False) sample_crypto 0 ''b'' db2 = Inr u" by blast
  with disabling_ends_sessions [OF s] show ?thesis by blast
qed

end
