(* ===== verification/Hub.thy ===== *)
theory Hub
  imports Gateway RoleEditor LoginProperties
begin

text \<open>
  The websocket hub (\<open>source/internal/websocket/hub.go\<close>): clients with their subscriptions and
  their bounded send queues, broadcasts, the cadence of periodic topics, incoming messages, and
  the closing of connections. Map iteration order does not matter, as every broadcast treats
  the clients one by one; the hub is the list of its clients.
\<close>

section \<open>Clients\<close>

record event =
  ev_topic :: string
  ev_type :: string
  ev_data :: string

record client =
  cl_id :: nat
  cl_user :: int
  cl_topics :: "string \<Rightarrow> bool"
  cl_intervals :: "string \<Rightarrow> int"
  cl_last :: "string \<Rightarrow> int option"
  cl_queue :: "event list"
  cl_open :: bool

type_synonym hub = "client list"

definition queue_size :: nat where "queue_size = 256"

definition new_client :: "nat \<Rightarrow> int \<Rightarrow> client" where
  "new_client i u = \<lparr>cl_id = i, cl_user = u, cl_topics = (\<lambda>_. False), cl_intervals = (\<lambda>_. 0),
     cl_last = (\<lambda>_. None), cl_queue = [], cl_open = True\<rparr>"

text \<open>A send never blocks: a full queue drops the message.\<close>

definition enqueue :: "event \<Rightarrow> client \<Rightarrow> client" where
  "enqueue e c = (if length (cl_queue c) < queue_size then c\<lparr>cl_queue := cl_queue c @ [e]\<rparr> else c)"

definition CheckOrigin :: "string \<Rightarrow> string \<Rightarrow> bool" where
  "CheckOrigin origin host \<longleftrightarrow>
     origin = [] \<or> origin = ''http://'' @ host \<or> origin = ''https://'' @ host"

section \<open>Broadcasts\<close>

definition DisconnectClients :: "int \<Rightarrow> hub \<Rightarrow> hub" where
  "DisconnectClients u h = map (\<lambda>c. if cl_user c = u then c\<lparr>cl_open := False\<rparr> else c) h"

definition SubscriberCount :: "string \<Rightarrow> hub \<Rightarrow> nat" where
  "SubscriberCount topic h = length (filter (\<lambda>c. cl_topics c topic) h)"

definition MinimumInterval :: "string \<Rightarrow> int \<Rightarrow> hub \<Rightarrow> int" where
  "MinimumInterval topic fallback h =
     foldl (\<lambda>m c. if cl_topics c topic \<and> 0 < cl_intervals c topic \<and> cl_intervals c topic < m
                   then cl_intervals c topic else m) fallback h"

definition Broadcast :: "event \<Rightarrow> hub \<Rightarrow> hub" where
  "Broadcast e h = map (\<lambda>c. if cl_topics c (ev_topic e) then enqueue e c else c) h"

definition client_due :: "string \<Rightarrow> int \<Rightarrow> int \<Rightarrow> client \<Rightarrow> bool" where
  "client_due topic fallback now c \<longleftrightarrow> cl_topics c topic \<and>
     (case cl_last c topic of
        None \<Rightarrow> True
      | Some t \<Rightarrow> (if cl_intervals c topic \<le> 0 then fallback else cl_intervals c topic) \<le> now - t)"

definition send_due :: "event \<Rightarrow> int \<Rightarrow> int \<Rightarrow> client \<Rightarrow> client" where
  "send_due e fallback now c =
     (if client_due (ev_topic e) fallback now c
      then enqueue e (c\<lparr>cl_last := (cl_last c)(ev_topic e := Some now)\<rparr>) else c)"

definition broadcastDueAt :: "event \<Rightarrow> int \<Rightarrow> int \<Rightarrow> hub \<Rightarrow> hub" where
  "broadcastDueAt e fallback now h = map (send_due e fallback now) h"

section \<open>Incoming messages\<close>

record inbound =
  in_action :: string
  in_type :: string
  in_topic :: string
  in_command :: string
  in_interval :: int

definition requested_interval :: "inbound \<Rightarrow> int" where
  "requested_interval m =
     (if (in_topic m = ''performance'' \<or> in_topic m = ''overview_performance'') \<and> 0 < in_interval m
      then (if in_interval m < 1 then 1 else if 60 < in_interval m then 60 else in_interval m) * second
      else 0)"

text \<open>The new state of the client, and the console command handed on.\<close>

definition read_message :: "(string \<Rightarrow> bool) \<Rightarrow> inbound \<Rightarrow> client \<Rightarrow> client \<times> string option" where
  "read_message canUse m c =
     (let verb = (if in_action m = [] then in_type m else in_action m); t = in_topic m in
      if verb = ''subscribe'' then
        (if canUse t
         then (c\<lparr>cl_topics := (cl_topics c)(t := True),
                 cl_intervals := (cl_intervals c)(t := requested_interval m),
                 cl_last := (cl_last c)(t := None)\<rparr>, None)
         else (c, None))
      else if verb = ''unsubscribe'' then
        (c\<lparr>cl_topics := (cl_topics c)(t := False), cl_intervals := (cl_intervals c)(t := 0),
           cl_last := (cl_last c)(t := None)\<rparr>, None)
      else if verb = ''console_command'' then
        (if canUse ''console_use'' then (c, Some (in_command m)) else (c, None))
      else (c, None))"

text \<open>The writer takes one message from the queue; every five seconds it closes a connection whose
  authorization has ended.\<close>

definition write_one :: "client \<Rightarrow> client \<times> event option" where
  "write_one c = (case cl_queue c of [] \<Rightarrow> (c, None) | e # es \<Rightarrow> (c\<lparr>cl_queue := es\<rparr>, Some e))"

definition auth_tick :: "bool \<Rightarrow> client \<Rightarrow> client" where
  "auth_tick authorized c = (if authorized then c else c\<lparr>cl_open := False\<rparr>)"

definition remove_client :: "nat \<Rightarrow> hub \<Rightarrow> hub" where
  "remove_client i h = filter (\<lambda>c. cl_id c \<noteq> i) h"

definition update_client :: "nat \<Rightarrow> (client \<Rightarrow> client) \<Rightarrow> hub \<Rightarrow> hub" where
  "update_client i f h = map (\<lambda>c. if cl_id c = i then f c else c) h"

section \<open>A connection of a session\<close>

text \<open>The events of one hub as its connections see them. A message is checked against what the
  gateway says at that moment; \<open>w\<close> is the connection's grant.\<close>

datatype hub_event =
    Send event
  | SendDue event int int
  | Incoming nat inbound gateway
  | Write nat
  | AuthTick nat gateway
  | Kick int
  | Leave nat
  | Join nat int

text \<open>The hub, the events written to each connection and the commands handed to the server.\<close>

record hub_run =
  hr_hub :: hub
  hr_written :: "(nat \<times> event) list"
  hr_commands :: "(nat \<times> string) list"

definition hub_step :: "(nat \<Rightarrow> ws_grant) \<Rightarrow> hub_run \<Rightarrow> hub_event \<Rightarrow> hub_run" where
  "hub_step grant s ev =
     (let h = hr_hub s in
      case ev of
        Send e \<Rightarrow> s\<lparr>hr_hub := Broadcast e h\<rparr>
      | SendDue e fallback now \<Rightarrow> s\<lparr>hr_hub := broadcastDueAt e fallback now h\<rparr>
      | Incoming i m g \<Rightarrow>
          (case List.find (\<lambda>c. cl_id c = i \<and> cl_open c) h of
             None \<Rightarrow> s
           | Some c \<Rightarrow>
               let w = grant i;
                   canUse = websocketTopicAllowed g (u_role (wg_user w));
                   (c', cmd) = read_message canUse m c;
                   sent = (case cmd of None \<Rightarrow> None | Some x \<Rightarrow> onCommand g w x)
               in s\<lparr>hr_hub := update_client i (\<lambda>_. c') h,
                    hr_commands := hr_commands s @ (case sent of None \<Rightarrow> [] | Some x \<Rightarrow> [(i, x)])\<rparr>)
      | Write i \<Rightarrow>
          (case List.find (\<lambda>c. cl_id c = i \<and> cl_open c) h of
             None \<Rightarrow> s
           | Some c \<Rightarrow>
               let (c', e) = write_one c
               in s\<lparr>hr_hub := update_client i (\<lambda>_. c') h,
                    hr_written := hr_written s @ (case e of None \<Rightarrow> [] | Some x \<Rightarrow> [(i, x)])\<rparr>)
      | AuthTick i g \<Rightarrow> s\<lparr>hr_hub := update_client i (auth_tick (stillAuthorized g (grant i))) h\<rparr>
      | Kick u \<Rightarrow> s\<lparr>hr_hub := DisconnectClients u h\<rparr>
      | Leave i \<Rightarrow> s\<lparr>hr_hub := remove_client i h\<rparr>
      | Join i u \<Rightarrow> (if i \<in> cl_id ` set h then s else s\<lparr>hr_hub := h @ [new_client i u]\<rparr>))"

section \<open>Bounds\<close>

lemma enqueue_bound: "length (cl_queue c) \<le> queue_size \<Longrightarrow> length (cl_queue (enqueue e c)) \<le> queue_size"
  by (simp add: enqueue_def)

lemma enqueue_frame [simp]:
  "cl_id (enqueue e c) = cl_id c" "cl_topics (enqueue e c) = cl_topics c" "cl_last (enqueue e c) = cl_last c"
  "cl_intervals (enqueue e c) = cl_intervals c" "cl_user (enqueue e c) = cl_user c"
  by (simp_all add: enqueue_def)

lemma set_enqueue: "set (cl_queue (enqueue e c)) \<subseteq> insert e (set (cl_queue c))"
  by (auto simp: enqueue_def)

lemma requested_interval_range: "requested_interval m = 0 \<or> (second \<le> requested_interval m \<and> requested_interval m \<le> 60 * second)"
  by (simp add: requested_interval_def second_def)

section \<open>A connection sees only what its role may see\<close>

text \<open>\<open>never\<close> is a topic no check lets the connection subscribe to.\<close>

definition denied_always :: "(nat \<Rightarrow> ws_grant) \<Rightarrow> nat \<Rightarrow> string \<Rightarrow> hub_event list \<Rightarrow> bool" where
  "denied_always grant i topic evs \<longleftrightarrow>
     (\<forall>m g. Incoming i m g \<in> set evs \<longrightarrow> \<not> websocketTopicAllowed g (u_role (wg_user (grant i))) topic)"

definition unseen :: "nat \<Rightarrow> string \<Rightarrow> hub_run \<Rightarrow> bool" where
  "unseen i topic s \<longleftrightarrow>
     (\<forall>c\<in>set (hr_hub s). cl_id c = i \<longrightarrow> \<not> cl_topics c topic \<and> (\<forall>e\<in>set (cl_queue c). ev_topic e \<noteq> topic)) \<and>
     (\<forall>e. (i, e) \<in> set (hr_written s) \<longrightarrow> ev_topic e \<noteq> topic)"

lemma read_message_topics:
  "read_message canUse m c = (c', cmd) \<Longrightarrow> \<not> canUse topic \<Longrightarrow> \<not> cl_topics c topic \<Longrightarrow>
   \<not> cl_topics c' topic \<and> cl_queue c' = cl_queue c \<and> cl_id c' = cl_id c"
  by (auto simp: read_message_def Let_def split: if_splits)

lemma read_message_id: "read_message canUse m c = (c', cmd) \<Longrightarrow> cl_id c' = cl_id c"
  by (auto simp: read_message_def Let_def split: if_splits)

lemma write_one_queue:
  "write_one c = (c', e) \<Longrightarrow> cl_topics c' = cl_topics c \<and> cl_id c' = cl_id c \<and>
   set (cl_queue c') \<subseteq> set (cl_queue c) \<and> (\<forall>x. e = Some x \<longrightarrow> x \<in> set (cl_queue c))"
  by (auto simp: write_one_def split: list.splits)

lemma in_update_client:
  "x \<in> set (update_client i f h) \<Longrightarrow> (\<exists>c\<in>set h. cl_id c = i \<and> x = f c) \<or> (x \<in> set h \<and> cl_id x \<noteq> i)"
  by (auto simp: update_client_def split: if_splits)

lemma update_client_clean:
  assumes "\<forall>c\<in>set h. cl_id c = i \<longrightarrow> P c" "j = i \<Longrightarrow> P c'" "cl_id c' = j"
  shows "\<forall>c\<in>set (update_client j (\<lambda>_. c') h). cl_id c = i \<longrightarrow> P c"
  using assms by (auto dest!: in_update_client)

lemma map_clean:
  assumes "\<forall>c\<in>set h. cl_id c = i \<longrightarrow> P c" "\<And>c. cl_id (f c) = cl_id c" "\<And>c. P c \<Longrightarrow> P (f c)"
  shows "\<forall>c\<in>set (map f h). cl_id c = i \<longrightarrow> P c"
  using assms by auto

lemma incoming_unseen:
  assumes "unseen i topic s" "j = i \<Longrightarrow> \<not> websocketTopicAllowed g (u_role (wg_user (grant i))) topic"
  shows "unseen i topic (hub_step grant s (Incoming j m g))"
proof (cases "List.find (\<lambda>c. cl_id c = j \<and> cl_open c) (hr_hub s)")
  case (Some c)
  obtain c' cmd where R: "read_message (websocketTopicAllowed g (u_role (wg_user (grant j)))) m c = (c', cmd)"
    by (metis surj_pair)
  from find_SomeD [OF Some] have c: "c \<in> set (hr_hub s)" "cl_id c = j" by simp_all
  have u: "\<not> cl_topics c' topic \<and> (\<forall>e\<in>set (cl_queue c'). ev_topic e \<noteq> topic)" if "j = i"
    using read_message_topics [OF R] assms c that unfolding unseen_def by metis
  have id: "cl_id c' = j" using read_message_id [OF R] c by simp
  have q: "\<forall>x\<in>set (update_client j (\<lambda>_. c') (hr_hub s)). cl_id x = i \<longrightarrow>
      \<not> cl_topics x topic \<and> (\<forall>e\<in>set (cl_queue x). ev_topic e \<noteq> topic)"
    by (rule update_client_clean) (use assms(1) u id in \<open>simp_all add: unseen_def\<close>)
  have "\<exists>cs. hub_step grant s (Incoming j m g) = s\<lparr>hr_hub := update_client j (\<lambda>_. c') (hr_hub s), hr_commands := cs\<rparr>"
    unfolding hub_step_def Let_def by (simp add: Some R) blast
  then obtain cs where e: "hub_step grant s (Incoming j m g) = s\<lparr>hr_hub := update_client j (\<lambda>_. c') (hr_hub s), hr_commands := cs\<rparr>" ..
  show ?thesis using assms(1) q unfolding unseen_def e by simp
qed (use assms(1) in \<open>simp add: hub_step_def\<close>)

lemma write_unseen:
  assumes "unseen i topic s"
  shows "unseen i topic (hub_step grant s (Write j))"
proof (cases "List.find (\<lambda>c. cl_id c = j \<and> cl_open c) (hr_hub s)")
  case (Some c)
  obtain c' e where R: "write_one c = (c', e)" by (metis surj_pair)
  from find_SomeD [OF Some] have c: "c \<in> set (hr_hub s)" "cl_id c = j" by simp_all
  note w = write_one_queue [OF R]
  have u: "\<not> cl_topics c topic \<and> (\<forall>e\<in>set (cl_queue c). ev_topic e \<noteq> topic)" if "j = i"
    using assms c that unfolding unseen_def by blast
  have q: "\<forall>x\<in>set (update_client j (\<lambda>_. c') (hr_hub s)). cl_id x = i \<longrightarrow>
      \<not> cl_topics x topic \<and> (\<forall>e\<in>set (cl_queue x). ev_topic e \<noteq> topic)"
    by (rule update_client_clean) (use assms w u c in \<open>auto simp: unseen_def\<close>)
  have s': "hub_step grant s (Write j) = s\<lparr>hr_hub := update_client j (\<lambda>_. c') (hr_hub s),
      hr_written := hr_written s @ (case e of None \<Rightarrow> [] | Some x \<Rightarrow> [(j, x)])\<rparr>"
    unfolding hub_step_def Let_def by (simp add: Some R)
  have "ev_topic x \<noteq> topic" if "(i, x) \<in> set (case e of None \<Rightarrow> [] | Some x \<Rightarrow> [(j, x)])" for x
    using that w u by (auto split: option.splits)
  then show ?thesis using assms q unfolding unseen_def s' by auto
qed (use assms in \<open>simp add: hub_step_def\<close>)

lemma hub_step_unseen:
  assumes "unseen i topic s"
    and "\<And>m g. ev = Incoming i m g \<Longrightarrow> \<not> websocketTopicAllowed g (u_role (wg_user (grant i))) topic"
  shows "unseen i topic (hub_step grant s ev)"
proof (cases ev)
  case (Send e)
  show ?thesis using assms(1) set_enqueue
    unfolding Send hub_step_def Let_def unseen_def by (fastforce simp: Broadcast_def)
next
  case (SendDue e fallback now)
  show ?thesis using assms(1) set_enqueue
    unfolding SendDue hub_step_def Let_def unseen_def
    by (fastforce simp: broadcastDueAt_def send_due_def client_due_def)
next
  case (Incoming j m g)
  with assms incoming_unseen show ?thesis by blast
next
  case (Write j)
  with assms(1) write_unseen show ?thesis by blast
next
  case (AuthTick j g)
  define f where "f c = (if cl_id c = j then auth_tick (stillAuthorized g (grant j)) c else c)" for c
  have s': "hub_step grant s ev = s\<lparr>hr_hub := map f (hr_hub s)\<rparr>"
    by (simp add: AuthTick hub_step_def update_client_def f_def)
  have "\<forall>c\<in>set (map f (hr_hub s)). cl_id c = i \<longrightarrow>
      \<not> cl_topics c topic \<and> (\<forall>e\<in>set (cl_queue c). ev_topic e \<noteq> topic)"
    by (rule map_clean) (use assms(1) in \<open>simp_all add: unseen_def f_def auth_tick_def\<close>)
  with assms(1) show ?thesis unfolding unseen_def s' by simp
next
  case (Kick u)
  define f where "f c = (if cl_user c = u then c\<lparr>cl_open := False\<rparr> else c)" for c :: client
  have s': "hub_step grant s ev = s\<lparr>hr_hub := map f (hr_hub s)\<rparr>"
    by (simp add: Kick hub_step_def DisconnectClients_def f_def)
  have "\<forall>c\<in>set (map f (hr_hub s)). cl_id c = i \<longrightarrow>
      \<not> cl_topics c topic \<and> (\<forall>e\<in>set (cl_queue c). ev_topic e \<noteq> topic)"
    by (rule map_clean) (use assms(1) in \<open>simp_all add: unseen_def f_def\<close>)
  with assms(1) show ?thesis unfolding unseen_def s' by simp
next
  case (Leave j)
  show ?thesis using assms(1) unfolding Leave hub_step_def Let_def unseen_def
    by (auto simp: remove_client_def)
next
  case (Join j u)
  show ?thesis using assms(1) unfolding Join hub_step_def Let_def unseen_def
    by (auto simp: new_client_def)
qed

lemma hub_run_unseen:
  "unseen i topic s \<Longrightarrow> denied_always grant i topic evs \<Longrightarrow> unseen i topic (foldl (hub_step grant) s evs)"
proof (induction evs arbitrary: s)
  case (Cons ev evs)
  then have "unseen i topic (hub_step grant s ev)"
    by (intro hub_step_unseen) (auto simp: denied_always_def)
  with Cons show ?case by (auto simp: denied_always_def)
qed simp

definition empty_hub :: hub_run where
  "empty_hub = \<lparr>hr_hub = [], hr_written = [], hr_commands = []\<rparr>"

text \<open>A command the connection \<open>j\<close> may hand to the server with the message \<open>m\<close>, as things are in \<open>g\<close>
  when the message comes in.\<close>

definition granted_command :: "(nat \<Rightarrow> ws_grant) \<Rightarrow> nat \<Rightarrow> inbound \<Rightarrow> gateway \<Rightarrow> string \<Rightarrow> bool" where
  "granted_command grant j m g x \<longleftrightarrow>
     (if in_action m = [] then in_type m else in_action m) = ''console_command'' \<and>
     allowed g (u_role (wg_user (grant j))) PermConsoleUse \<and>
     x = TrimSpace (in_command m) \<and> x \<noteq> [] \<and> length x \<le> 1024 \<and> \<not> ContainsAny x [CHR 10, CHR 13]"

lemma onCommand_granted:
  assumes "read_message canUse m c = (c', Some cmd)" "onCommand g (grant j) cmd = Some x"
  shows "granted_command grant j m g x"
  using assms
  by (auto simp: read_message_def onCommand_def granted_command_def Let_def split: if_splits)

lemma hub_step_commands:
  "hr_commands (hub_step grant s ev) = hr_commands s \<or>
   (\<exists>j m g x. ev = Incoming j m g \<and> granted_command grant j m g x \<and>
      (\<exists>c\<in>set (hr_hub s). cl_id c = j \<and> cl_open c) \<and>
      hr_commands (hub_step grant s ev) = hr_commands s @ [(j, x)])"
proof (cases ev)
  case (Incoming j m g)
  show ?thesis
  proof (cases "List.find (\<lambda>c. cl_id c = j \<and> cl_open c) (hr_hub s)")
    case (Some c)
    obtain c' cmd where R: "read_message (websocketTopicAllowed g (u_role (wg_user (grant j)))) m c = (c', cmd)"
      by (metis surj_pair)
    define sent where "sent = (case cmd of None \<Rightarrow> None | Some x \<Rightarrow> onCommand g (grant j) x)"
    have c: "\<exists>c\<in>set (hr_hub s). cl_id c = j \<and> cl_open c" using find_SomeD [OF Some] by blast
    have e: "hr_commands (hub_step grant s ev) = hr_commands s @ (case sent of None \<Rightarrow> [] | Some x \<Rightarrow> [(j, x)])"
      by (simp add: Incoming hub_step_def Some R sent_def)
    show ?thesis
    proof (cases sent)
      case (Some x)
      then obtain y where "cmd = Some y" "onCommand g (grant j) y = Some x"
        by (auto simp: sent_def split: option.splits)
      with R onCommand_granted have "granted_command grant j m g x" by blast
      with e Some c Incoming show ?thesis by auto
    qed (use e in simp)
  qed (use Incoming in \<open>simp add: hub_step_def\<close>)
qed (auto simp: hub_step_def Let_def split: option.splits prod.splits if_splits)

text \<open>C25. Over any run of the hub - joins, messages, broadcasts, writes, kicks, in any order, with the
  permission tables changing in between - a connection is never written an event of a topic
  that its role was denied whenever the connection sent a message; and the server is handed
  nothing but commands, one for one message: each step of the run hands it none, or is the
  arrival of a console command of an open connection whose role may use the console at that
  moment, and hands on the text of this message, without the blanks around it, which is one line,
  not empty, of at most 1024 bytes.\<close>

theorem connection_sees_only_granted:
  assumes "denied_always grant i topic evs"
  shows "(\<forall>e. (i, e) \<in> set (hr_written (foldl (hub_step grant) empty_hub evs)) \<longrightarrow> ev_topic e \<noteq> topic) \<and>
    (\<forall>pre ev post. evs = pre @ ev # post \<longrightarrow>
      hr_commands (foldl (hub_step grant) empty_hub (pre @ [ev])) = hr_commands (foldl (hub_step grant) empty_hub pre) \<or>
      (\<exists>j m g x. ev = Incoming j m g \<and> granted_command grant j m g x \<and>
         (\<exists>c\<in>set (hr_hub (foldl (hub_step grant) empty_hub pre)). cl_id c = j \<and> cl_open c) \<and>
         hr_commands (foldl (hub_step grant) empty_hub (pre @ [ev])) =
           hr_commands (foldl (hub_step grant) empty_hub pre) @ [(j, x)]))"
proof -
  have "unseen i topic empty_hub" by (simp add: unseen_def empty_hub_def)
  from hub_run_unseen [OF this assms] have "unseen i topic (foldl (hub_step grant) empty_hub evs)" .
  moreover have "foldl (hub_step grant) empty_hub (pre @ [ev]) =
      hub_step grant (foldl (hub_step grant) empty_hub pre) ev" for pre ev by simp
  ultimately show ?thesis using hub_step_commands unfolding unseen_def by metis
qed

section \<open>Connections end with the profile they were granted under\<close>

text \<open>Changing the permissions of a role ends every connection of that role: once a request to
  the profile editor has committed, no connection opened under the old profile passes the
  periodic check, whatever has happened to the accounts, so that its writer closes it at the
  next tick.\<close>

lemma profile_change_closes_connections:
  assumes "handleWS g rq = Some w"
    and "handleRolePermissionsUpdate fails actor actorID path (Some (requested, revision)) (gw_perms g) = (rep, db', eff)"
    and "db' \<noteq> gw_perms g" "revision \<le> max_int64" "u_role (wg_user w) = role_of_string path"
  shows "\<not> stillAuthorized (g'\<lparr>gw_perms := db'\<rparr>) w \<and>
    \<not> cl_open (auth_tick (stillAuthorized (g'\<lparr>gw_perms := db'\<rparr>) w) c)"
proof -
  from update_cases [OF assms(2)] assms(3) obtain current desired where
    c: "committed_change fails actor actorID path (Some (requested, revision)) (gw_perms g) db' eff current desired"
    by auto
  then have rev: "revision = rp_revision current" and
    cur: "loadRolePermissionState fails LoadTarget (gw_perms g) (role_of_string path) = Inr current"
    by (auto simp: committed_change_def)
  from assms(2,3) have "0 \<le> revision"
    by (auto simp: handleRolePermissionsUpdate_def Let_def split: if_splits)
  with rev assms(4) have new: "wrap64 (rp_revision current + 1) \<noteq> rp_revision current"
    using wrap64_succ_neq [of revision] by (simp add: min_int64_def)
  from assms(1) obtain st where
    "loadRolePermissionState (gw_perm_fails g) LoadCheck (gw_perms g) (u_role (wg_user w)) = Inr st"
    "wg_revision w = rp_revision st"
    by (auto simp: handleWS_def rolePermissionRevision_def split: sum.splits)
  with load_nofail [OF cur] assms(5) have old: "wg_revision w = rp_revision current"
    using load_nofail by (metis sum.inject(2))
  have "rp_revision st \<noteq> wg_revision w"
    if "loadRolePermissionState (gw_perm_fails g') LoadCheck db' (role_of_string path) = Inr st" for st
    using load_nofail [OF that] committed_load [OF c] new old by fastforce
  then have "\<not> stillAuthorized (g'\<lparr>gw_perms := db'\<rparr>) w"
    using assms(5) by (auto simp: stillAuthorized_def rolePermissionRevision_def split: sum.splits)
  then show ?thesis by (simp add: auth_tick_def)
qed

section \<open>Cadence\<close>

text \<open>The instants at which a client is sent a periodic topic, of those at which it is broadcast: each
  at least the client's interval, or the server's default, after the one before.\<close>

fun sent_times :: "event \<Rightarrow> int \<Rightarrow> int list \<Rightarrow> client \<Rightarrow> int list" where
  "sent_times e fallback [] c = []"
| "sent_times e fallback (t # ts) c =
     (if client_due (ev_topic e) fallback t c then [t] else []) @ sent_times e fallback ts (send_due e fallback t c)"

definition pace :: "string \<Rightarrow> int \<Rightarrow> client \<Rightarrow> int" where
  "pace topic fallback c = (if cl_intervals c topic \<le> 0 then fallback else cl_intervals c topic)"

lemma pace_send_due [simp]: "pace topic fallback (send_due e f t c) = pace topic fallback c"
  by (simp add: pace_def send_due_def)

lemma last_send_due: "client_due (ev_topic e) fallback t c \<Longrightarrow> cl_last (send_due e fallback t c) (ev_topic e) = Some t"
  by (simp add: send_due_def)

lemma sent_times_spaced:
  "successively (\<lambda>a b. a + pace (ev_topic e) fallback c \<le> b)
     ((case cl_last c (ev_topic e) of None \<Rightarrow> [] | Some l \<Rightarrow> [l]) @ sent_times e fallback ts c)"
proof (induction ts arbitrary: c)
  case (Cons t ts)
  show ?case
  proof (cases "client_due (ev_topic e) fallback t c")
    case True
    then have "\<forall>l. cl_last c (ev_topic e) = Some l \<longrightarrow> l + pace (ev_topic e) fallback c \<le> t"
      by (auto simp: client_due_def pace_def)
    with Cons [of "send_due e fallback t c"] True show ?thesis
      by (simp add: last_send_due split: option.splits)
  next
    case False
    with Cons [of c] show ?thesis by (simp add: send_due_def)
  qed
qed (auto split: option.splits)

section \<open>Concrete connections\<close>

definition member_user :: user where
  "member_user = enabled_owner\<lparr>u_id := 7, u_role := RoleMember\<rparr>"

definition member_gateway :: gateway where
  "member_gateway = \<lparr>gw_account_fails = (\<lambda>_. False), gw_perm_fails = (\<lambda>_. False), gw_crypto = sample_crypto,
     gw_now = 0, gw_accounts = login_db\<lparr>users := [member_user], sessions := [\<lparr>s_id = ''tok'', s_user = 7,
       s_expires = 5, s_revoked = False\<rparr>]\<rparr>, gw_perms = sample_db\<rparr>"

definition sample_rq :: "string \<Rightarrow> string list \<Rightarrow> request" where
  "sample_rq meth path = \<lparr>rq_method = meth, rq_path = path, rq_session = Some ''tok'', rq_csrf = Some ''x'',
     rq_csrf_header = ''x'', rq_tls = True, rq_origin = None, rq_host = [], rq_remote = []\<rparr>"

lemma member_session: "sessionUser member_gateway (sample_rq m p) = Inr member_user"
  by (simp add: sessionUser_def sample_rq_def member_gateway_def ValidateSession_def UserByID_def
      sample_crypto_def login_db_def member_user_def enabled_owner_def second_def)

lemma profile_change_closes_connections_witness:
  "\<exists>w db'. handleWS member_gateway (sample_rq ''GET'' []) = Some w \<and>
     \<not> stillAuthorized (member_gateway\<lparr>gw_perms := db'\<rparr>) w \<and> db' \<noteq> gw_perms member_gateway"
proof -
  have p: "gw_perms member_gateway = sample_db" "gw_perm_fails member_gateway = (\<lambda>_. False)"
    by (simp_all add: member_gateway_def)
  have r: "u_role member_user = RoleMember" by (simp add: member_user_def)
  obtain w where w: "handleWS member_gateway (sample_rq ''GET'' []) = Some w" "wg_user w = member_user"
    by (simp add: handleWS_def member_session rolePermissionRevision_def p r sample_member)
  obtain payload eff where h: "handleRolePermissionsUpdate (\<lambda>_. False) RoleAdmin 2 ''member''
     (Some (sample_request, 0)) (gw_perms member_gateway) = (HttpOK payload, sample_db', eff)"
    using sample_update unfolding p by blast
  have n: "sample_db' \<noteq> gw_perms member_gateway"
    using sample_member_after [of PermPerformanceView]
    by (auto simp: p hasPermission_loaded [OF sample_member] Has_def)
  have "u_role (wg_user w) = role_of_string ''member''" by (simp add: w r role_of_string_def)
  from profile_change_closes_connections [OF w(1) h n _ this, of member_gateway] w n
  show ?thesis by (auto simp: max_int64_def)
qed

definition viewer_grant :: ws_grant where
  "viewer_grant = \<lparr>wg_user = enabled_owner\<lparr>u_role := RoleViewer\<rparr>, wg_revision = 0, wg_cookie = ''tok''\<rparr>"

definition ask_schedules :: inbound where
  "ask_schedules = \<lparr>in_action = ''subscribe'', in_type = [], in_topic = ''schedules'', in_command = [], in_interval = 0\<rparr>"

definition say_hello :: inbound where
  "say_hello = \<lparr>in_action = [], in_type = ''console_command'', in_topic = [], in_command = '' say hello'', in_interval = 0\<rparr>"

definition owner_grant :: ws_grant where
  "owner_grant = viewer_grant\<lparr>wg_user := enabled_owner\<rparr>"

definition two_grants :: "nat \<Rightarrow> ws_grant" where
  "two_grants i = (if i = 3 then viewer_grant else owner_grant)"

definition two_connections :: "hub_event list" where
  "two_connections = [Join 3 1, Join 4 2, Incoming 3 ask_schedules member_gateway, Incoming 3 say_hello member_gateway,
     Send \<lparr>ev_topic = ''schedules'', ev_type = [], ev_data = []\<rparr>, Write 3, Incoming 4 say_hello member_gateway]"

text \<open>A Viewer asks for the schedules and sends a command, in vain; the Owner's command is passed on.\<close>

lemma viewer_allowed: "allowed member_gateway RoleViewer p \<Longrightarrow> p \<in> set view_permissions"
  using viewer_read_only [of "gw_perm_fails member_gateway" "gw_perms member_gateway" p] by (auto simp: allowed_def)

lemma owner_allowed: "allowed member_gateway RoleOwner PermConsoleUse"
  by (simp add: allowed_def hasPermission_def loadRolePermissionState_def defaultRolePermissionState_def Has_def
      ValidPermission_iff AllPermissions_eq member_gateway_def)

lemma two_connections_commands:
  "hr_commands (foldl (hub_step two_grants) empty_hub two_connections) = [(4, ''say hello'')]"
  "hr_commands (foldl (hub_step two_grants) empty_hub (butlast two_connections)) = []"
proof -
  have v: "\<not> websocketTopicAllowed member_gateway RoleViewer ''schedules''"
    "\<not> websocketTopicAllowed member_gateway RoleViewer ''console_use''"
    using viewer_allowed by (auto simp: websocketTopicAllowed_def websocketTopicPermission_def view_permissions_def)
  have o: "websocketTopicAllowed member_gateway RoleOwner ''console_use''"
    using owner_allowed by (simp add: websocketTopicAllowed_def websocketTopicPermission_def)
  have t: "TrimSpace '' say hello'' = ''say hello'' \<and> \<not> ContainsAny ''say hello'' [CHR 10, CHR 13]" by code_simp
  have g: "u_role (wg_user (two_grants 3)) = RoleViewer" "u_role (wg_user (two_grants 4)) = RoleOwner"
    by (simp_all add: two_grants_def viewer_grant_def owner_grant_def enabled_owner_def)
  show "hr_commands (foldl (hub_step two_grants) empty_hub two_connections) = [(4, ''say hello'')]"
    "hr_commands (foldl (hub_step two_grants) empty_hub (butlast two_connections)) = []"
    by (simp_all add: two_connections_def hub_step_def empty_hub_def new_client_def read_message_def ask_schedules_def
        say_hello_def v o t g update_client_def Broadcast_def write_one_def onCommand_def owner_allowed)
qed

lemma connection_sees_only_granted_witness:
  "\<not> (\<exists>e. (3, e) \<in> set (hr_written (foldl (hub_step two_grants) empty_hub two_connections)) \<and> ev_topic e = ''schedules'') \<and>
   hr_commands (foldl (hub_step two_grants) empty_hub two_connections) = [(4, ''say hello'')] \<and>
   granted_command two_grants 4 say_hello member_gateway ''say hello''"
proof -
  have "\<not> allowed member_gateway RoleViewer PermSchedulesManage"
    using viewer_allowed by (auto simp: view_permissions_def)
  then have "denied_always two_grants 3 ''schedules'' two_connections"
    by (simp add: denied_always_def websocketTopicAllowed_def websocketTopicPermission_def viewer_grant_def
        two_grants_def two_connections_def)
  note c = connection_sees_only_granted [OF this]
  have "two_connections = butlast two_connections @ Incoming 4 say_hello member_gateway # []"
    by (simp add: two_connections_def)
  with conjunct2 [OF c] have "granted_command two_grants 4 say_hello member_gateway ''say hello''"
    using two_connections_commands by (metis append.left_neutral hub_event.inject(3) list.inject not_Cons_self2 prod.inject)
  with conjunct1 [OF c] two_connections_commands(1) show ?thesis by blast
qed

lemma viewer_reaches_no_mutation_witness:
  "\<exists>g. serve_request g (sample_rq ''POST'' [''api'', ''auth'', ''logout'']) =
      Handled ''handleLogout'' (Some (member_user\<lparr>u_role := RoleViewer\<rparr>)) \<and> ''handleLogout'' \<in> set viewer_mutations"
proof -
  define g where "g = member_gateway\<lparr>gw_accounts := (gw_accounts member_gateway)\<lparr>users := [member_user\<lparr>u_role := RoleViewer\<rparr>]\<rparr>\<rparr>"
  have u: "sessionUser g (sample_rq m p) = Inr (member_user\<lparr>u_role := RoleViewer\<rparr>)" for m p
    by (simp add: g_def sessionUser_def sample_rq_def member_gateway_def ValidateSession_def UserByID_def
        sample_crypto_def login_db_def member_user_def enabled_owner_def second_def)
  have f: "List.find (route_matches (sample_rq ''POST'' [''api'', ''auth'', ''logout''])) routes =
      Some (Route ''POST'' [Lit ''api'', Lit ''auth'', Lit ''logout''] Auth ''handleLogout'')" by code_simp
  have d: "dispatch g (sample_rq ''POST'' [''api'', ''auth'', ''logout'']) =
      Handled ''handleLogout'' (Some (member_user\<lparr>u_role := RoleViewer\<rparr>))"
    by (simp add: dispatch_def f requireAuth_def u)
  have "serve_request g (sample_rq ''POST'' p) = dispatch g (sample_rq ''POST'' p)" for p
    by (simp add: serve_request_def csrfProtect_def sample_rq_def safe_methods_def)
  with d have "serve_request g (sample_rq ''POST'' [''api'', ''auth'', ''logout'']) =
      Handled ''handleLogout'' (Some (member_user\<lparr>u_role := RoleViewer\<rparr>))" by simp
  with viewer_reaches_no_mutation [OF this] show ?thesis by (auto simp: sample_rq_def)
qed

lemma request_guarded_witness:
  "\<exists>v. serve_request member_gateway (sample_rq ''POST'' [''api'', ''auth'', ''logout'']) = Handled ''handleLogout'' (Some v) \<and>
     sessionUser member_gateway (sample_rq ''POST'' [''api'', ''auth'', ''logout'']) = Inr v \<and>
     rq_csrf (sample_rq ''POST'' [''api'', ''auth'', ''logout'']) = Some ''x'' \<and> entitled member_gateway ''handleLogout'' v"
proof -
  let ?rq = "sample_rq ''POST'' [''api'', ''auth'', ''logout'']"
  have f: "List.find (route_matches ?rq) routes =
      Some (Route ''POST'' [Lit ''api'', Lit ''auth'', Lit ''logout''] Auth ''handleLogout'')" by code_simp
  have "dispatch member_gateway ?rq = Handled ''handleLogout'' (Some member_user)"
    by (simp add: dispatch_def f requireAuth_def member_session)
  moreover have "serve_request g (sample_rq ''POST'' p) = dispatch g (sample_rq ''POST'' p)" for g p
    by (simp add: serve_request_def csrfProtect_def sample_rq_def safe_methods_def)
  ultimately have r: "serve_request member_gateway ?rq = Handled ''handleLogout'' (Some member_user)" by simp
  have m: "rq_method ?rq \<notin> set safe_methods" "rq_csrf_header ?rq = ''x''" by (simp_all add: sample_rq_def safe_methods_def)
  note g = request_guarded [of ?rq member_gateway]
  from conjunct1 [OF g] r m have c: "rq_csrf ?rq = Some ''x''" by simp
  from conjunct1 [OF conjunct2 [OF g]] r have "sessionUser member_gateway ?rq = Inr member_user"
    "entitled member_gateway ''handleLogout'' member_user" by blast+
  with r c show ?thesis by blast
qed

end
