(* ===== verification/ConsoleProtocol.thy ===== *)
theory ConsoleProtocol
  imports SupervisorConsole
begin

text \<open>
  The framed protocol on the supervisor's socket (\<open>source/internal/runtime/console/console.go\<close>):
  messages as JSON text in frames with a length, the replay of the history in chunks, the
  authentication of a connection and the calls its messages make, and the line scanner of the
  attached terminal. A connection's bytes are lists; the decoding of JSON is a parameter, its
  encoding is written out.
\<close>

section \<open>Messages and their JSON text\<close>

record message =
  ms_type :: string
  ms_line :: string
  ms_lines :: "string list"
  ms_state :: string
  ms_command :: string
  ms_error :: string
  ms_auth :: string

definition empty_message :: message where
  "empty_message = \<lparr>ms_type = [], ms_line = [], ms_lines = [], ms_state = [], ms_command = [],
     ms_error = [], ms_auth = []\<rparr>"

definition hex_digit :: "nat \<Rightarrow> char" where
  "hex_digit n = (if n < 10 then chr (48 + n) else chr (87 + n))"

definition unicode_escape :: "nat \<Rightarrow> string" where
  "unicode_escape r = [CHR 0x5C, CHR ''u'', hex_digit (r div 4096 mod 16), hex_digit (r div 256 mod 16),
     hex_digit (r div 16 mod 16), hex_digit (r mod 16)]"

text \<open>A character as \<open>json.Marshal\<close> writes it: quotes and backslashes escaped, control characters and
  the characters of HTML as escapes, the two line separators too; \<open>n\<close> is its length in the
  source, which tells a replacement character from an invalid byte.\<close>

definition json_rune :: "nat \<Rightarrow> nat \<Rightarrow> string" where
  "json_rune r n =
     (if r = 34 \<or> r = 92 then [CHR 0x5C, chr r]
      else if r = 8 then [CHR 0x5C, CHR ''b''] else if r = 12 then [CHR 0x5C, CHR ''f'']
      else if r = 10 then [CHR 0x5C, CHR ''n''] else if r = 13 then [CHR 0x5C, CHR ''r'']
      else if r = 9 then [CHR 0x5C, CHR ''t'']
      else if r < 32 \<or> r = 60 \<or> r = 62 \<or> r = 38 \<or> r = 8232 \<or> r = 8233 then unicode_escape r
      else if r = rune_error \<and> n = 1 then unicode_escape r
      else encode_rune r)"

function json_body :: "string \<Rightarrow> string" where
  "json_body s = (if s = [] then [] else case decode_rune s of (r, n) \<Rightarrow> json_rune r n @ json_body (drop n s))"
  by pat_completeness auto
termination
proof (relation "measure length")
  fix s x y assume ne: "s \<noteq> []" and "(x, y) = decode_rune s"
  then have "y = snd (decode_rune s)" by (metis snd_conv)
  with decode_size(1) [OF ne] ne show "(drop y s, s) \<in> measure length" by simp
qed simp

declare json_body.simps [simp del]

definition json_string :: "string \<Rightarrow> string" where
  "json_string s = [CHR 0x22] @ json_body s @ [CHR 0x22]"

definition json_field :: "string \<Rightarrow> string \<Rightarrow> string" where
  "json_field name v = json_string name @ '':'' @ v"

definition json_array :: "string list \<Rightarrow> string" where
  "json_array ls = ''['' @ Join '','' (map json_string ls) @ '']''"

text \<open>Fields other than the type are left out when empty.\<close>

definition marshal :: "message \<Rightarrow> string" where
  "marshal m = ''{'' @ Join '','' ([json_field ''type'' (json_string (ms_type m))] @
     (if ms_line m = [] then [] else [json_field ''line'' (json_string (ms_line m))]) @
     (if ms_lines m = [] then [] else [json_field ''lines'' (json_array (ms_lines m))]) @
     (if ms_state m = [] then [] else [json_field ''state'' (json_string (ms_state m))]) @
     (if ms_command m = [] then [] else [json_field ''command'' (json_string (ms_command m))]) @
     (if ms_error m = [] then [] else [json_field ''error'' (json_string (ms_error m))]) @
     (if ms_auth m = [] then [] else [json_field ''auth'' (json_string (ms_auth m))])) @ ''}''"

section \<open>Frames\<close>

definition maxFrame :: nat where "maxFrame = 64 * 1024"

definition be32 :: "nat \<Rightarrow> string" where
  "be32 n = [chr (n div 16777216 mod 256), chr (n div 65536 mod 256), chr (n div 256 mod 256), chr (n mod 256)]"

definition be32_value :: "string \<Rightarrow> nat" where
  "be32_value s = foldl (\<lambda>n c. 256 * n + byte c) 0 s"

definition writeFrame :: "message \<Rightarrow> string option" where
  "writeFrame m = (let d = marshal m in if maxFrame < length d then None else Some (be32 (length d) @ d))"

text \<open>The payload of the first frame and the bytes after it; \<open>None\<close> if they end early or the length is
  out of bounds.\<close>

definition read_payload :: "string \<Rightarrow> (string \<times> string) option" where
  "read_payload bs =
     (if length bs < 4 then None
      else let n = be32_value (take 4 bs); r = drop 4 bs in
        if maxFrame < n \<or> length r < n then None else Some (take n r, drop n r))"

definition readFrame :: "(string \<Rightarrow> message option) \<Rightarrow> string \<Rightarrow> (message \<times> string) option" where
  "readFrame unmarshal bs =
     (case read_payload bs of
        None \<Rightarrow> None
      | Some (d, r) \<Rightarrow> (case unmarshal d of None \<Rightarrow> None | Some m \<Rightarrow> Some (m, r)))"

section \<open>History\<close>

definition historyChunkBytes :: nat where "historyChunkBytes = maxFrame div 2"

definition history_message :: "string list \<Rightarrow> message" where
  "history_message ls = empty_message\<lparr>ms_type := ''history'', ms_lines := ls\<rparr>"

definition cut_line :: "string \<Rightarrow> string" where
  "cut_line l =
     (if historyChunkBytes < length l
      then take (historyChunkBytes - 16) l @ [CHR '' '', CHR 0xE2, CHR 0x80, CHR 0xA6] @ ''[truncated]''
      else l)"

text \<open>The frames written, and whether all could be.\<close>

definition flush :: "string list \<Rightarrow> string list \<times> bool" where
  "flush chunk =
     (if chunk = [] then ([], True)
      else case writeFrame (history_message chunk) of None \<Rightarrow> ([], False) | Some f \<Rightarrow> ([f], True))"

fun history_loop :: "string list \<Rightarrow> string list \<Rightarrow> nat \<Rightarrow> string list \<times> bool" where
  "history_loop [] chunk sz = flush chunk"
| "history_loop (l # ls) chunk sz =
     (let line = cut_line l in
      if historyChunkBytes < sz + length line + 8 then
        (case flush chunk of
           (fs, False) \<Rightarrow> (fs, False)
         | (fs, True) \<Rightarrow> (case history_loop ls [line] (length line + 8) of (gs, ok) \<Rightarrow> (fs @ gs, ok)))
      else history_loop ls (chunk @ [line]) (sz + length line + 8))"

definition writeHistory :: "string list \<Rightarrow> string list \<times> bool" where
  "writeHistory history =
     (if history = [] then
        (case writeFrame (history_message []) of None \<Rightarrow> ([], False) | Some f \<Rightarrow> ([f], True))
      else history_loop history [] 0)"

section \<open>A connection\<close>

datatype conn_call = CallSend string | CallSendInternal string | CallStop | CallRestart | CallForceStop

datatype conn_end = AuthFailed | HistoryFailed | Serving

definition message_call :: "message \<Rightarrow> conn_call option" where
  "message_call m =
     (if ms_type m = ''command'' then Some (CallSend (ms_command m))
      else if ms_type m = ''internal_command'' then Some (CallSendInternal (ms_command m))
      else if ms_type m = ''control'' then
        (if ms_command m = ''stop'' then Some CallStop
         else if ms_command m = ''restart'' then Some CallRestart
         else if ms_command m = ''force-stop'' then Some CallForceStop else None)
      else None)"

text \<open>The answer to a message: \<open>result\<close> is the error of a call, if it has one; the text for an
  unknown verb is without the verb.\<close>

definition error_message :: "string \<Rightarrow> message" where
  "error_message e = empty_message\<lparr>ms_type := ''error'', ms_error := e\<rparr>"

definition message_reply :: "(conn_call \<Rightarrow> string option) \<Rightarrow> message \<Rightarrow> message list" where
  "message_reply result m =
     (case message_call m of
        Some c \<Rightarrow>
          (case result c of
             Some e \<Rightarrow> [error_message e]
           | None \<Rightarrow> if ms_type m = ''control'' then [empty_message\<lparr>ms_type := ''ok''\<rparr>] else [])
      | None \<Rightarrow>
          if ms_type m = ''control'' then [error_message ''unknown control verb'']
          else [])"

text \<open>A write whose error is ignored.\<close>

definition written :: "message \<Rightarrow> string list" where
  "written m = (case writeFrame m of None \<Rightarrow> [] | Some f \<Rightarrow> [f])"

record connection =
  cn_end :: conn_end
  cn_out :: "string list"      \<comment> \<open>the frames written before live lines start\<close>
  cn_calls :: "conn_call list"  \<comment> \<open>the calls made of the supervisor\<close>
  cn_replies :: "string list"   \<comment> \<open>the frames the reader writes\<close>

text \<open>What a connection does with the messages it reads; none stands for a failed first read. The
  reader starts once the history is written.\<close>

definition handle_conn ::
  "string \<Rightarrow> string \<Rightarrow> (conn_call \<Rightarrow> string option) \<Rightarrow> string list \<Rightarrow> message list \<Rightarrow> connection" where
  "handle_conn auth state result history msgs =
     (let failed = \<lparr>cn_end = AuthFailed, cn_out = written (error_message ''authentication failed''),
                    cn_calls = [], cn_replies = []\<rparr>;
          status = written (empty_message\<lparr>ms_type := ''status'', ms_state := state\<rparr>)
      in case msgs of
        [] \<Rightarrow> failed
      | hello # rest \<Rightarrow>
          if ms_type hello \<noteq> ''hello'' \<or> ms_auth hello \<noteq> auth then failed
          else case writeHistory history of
            (fs, False) \<Rightarrow> \<lparr>cn_end = HistoryFailed, cn_out = status @ fs, cn_calls = [], cn_replies = []\<rparr>
          | (fs, True) \<Rightarrow> \<lparr>cn_end = Serving, cn_out = status @ fs, cn_calls = List.map_filter message_call rest,
                          cn_replies = concat (map written (concat (map (message_reply result) rest)))\<rparr>)"

definition Control :: "string \<Rightarrow> message" where
  "Control verb = empty_message\<lparr>ms_type := ''control'', ms_command := verb\<rparr>"

definition Send :: "string \<Rightarrow> message" where
  "Send cmd = empty_message\<lparr>ms_type := ''command'', ms_command := cmd\<rparr>"

definition SendInternal :: "string \<Rightarrow> message" where
  "SendInternal cmd = empty_message\<lparr>ms_type := ''internal_command'', ms_command := cmd\<rparr>"

definition hello_message :: "string \<Rightarrow> message" where
  "hello_message tok = empty_message\<lparr>ms_type := ''hello'', ms_auth := TrimSpace tok\<rparr>"

section \<open>The terminal\<close>

text \<open>One line of input: up to a line feed, or the 4097 bytes that fit no more.\<close>

fun scan_line :: "string \<Rightarrow> string \<Rightarrow> (string \<times> string) option" where
  "scan_line out [] = (if out = [] then None else Some (out, []))"
| "scan_line out (c # cs) =
     (if c = CHR 10 then Some (out, cs)
      else if 4096 < length (out @ [c]) then Some (out @ [c], cs) else scan_line (out @ [c]) cs)"

lemma scan_line_shorter: "scan_line out s = Some (l, r) \<Longrightarrow> length r \<le> length s \<and> (s \<noteq> [] \<longrightarrow> length r < length s)"
  by (induction out s rule: scan_line.induct) (auto split: if_splits)

function interactive :: "string \<Rightarrow> message list" where
  "interactive s =
     (if s = [] then []
      else case scan_line [] s of
        None \<Rightarrow> []
      | Some (l, r) \<Rightarrow> (if TrimSpace l = [] then [] else [Send l]) @ interactive r)"
  by pat_completeness auto
termination by (relation "measure length") (auto dest: scan_line_shorter)

declare interactive.simps [simp del]

section \<open>Frames come back\<close>

lemma be32_roundtrip: "n \<le> maxFrame \<Longrightarrow> be32_value (be32 n) = n"
proof -
  assume n: "n \<le> maxFrame"
  have d: "n = n div 256 * 256 + n mod 256" "n div 256 = n div 65536 * 256 + n div 256 mod 256"
    using div_mult_mod_eq [of "n div 256" 256] by (simp_all add: div_mult2_eq [symmetric])
  have "n div 16777216 = 0" "n div 65536 mod 256 = n div 65536" using n by (simp_all add: maxFrame_def)
  then have "be32_value (be32 n) = (256 * (n div 65536) + n div 256 mod 256) * 256 + n mod 256"
    by (simp add: be32_value_def be32_def)
  moreover have "n = (256 * (n div 65536) + n div 256 mod 256) * 256 + n mod 256"
    using d by (metis mult.commute)
  ultimately show ?thesis by simp
qed

text \<open>A frame that is written is read back: its payload and the bytes after it come apart at the
  right place whatever follows, so that a stream of frames is read as it was written; no frame
  is longer than the limit.\<close>

lemma frame_roundtrip:
  assumes "writeFrame m = Some f"
  shows "read_payload (f @ rest) = Some (marshal m, rest) \<and> length f \<le> maxFrame + 4 \<and>
    (unmarshal (marshal m) = Some m' \<longrightarrow> readFrame unmarshal (f @ rest) = Some (m', rest))"
proof -
  from assms have f: "f = be32 (length (marshal m)) @ marshal m" "length (marshal m) \<le> maxFrame"
    by (auto simp: writeFrame_def Let_def split: if_splits)
  have b: "length (be32 k) = 4" for k by (simp add: be32_def)
  have "read_payload (f @ rest) = Some (marshal m, rest)"
    using f(2) be32_roundtrip [OF f(2)] by (simp add: read_payload_def Let_def f(1) b)
  with f b show ?thesis by (simp add: readFrame_def)
qed

section \<open>The replay\<close>

lemma length_Join: "length (Join [c] ws) = sum_list (map length ws) + (length ws - 1)"
  by (induction "[c]" ws rule: Join.induct) auto

definition json_plain :: "char \<Rightarrow> bool" where
  "json_plain c \<longleftrightarrow> 32 \<le> byte c \<and> byte c < 128 \<and> byte c \<notin> {34, 92, 60, 62, 38}"

lemma json_body_Cons:
  "byte c < 128 \<Longrightarrow> json_body (c # s) = json_rune (byte c) 1 @ json_body s"
  by (subst json_body.simps) simp

lemma json_body_Nil [simp]: "json_body [] = []"
  by (simp add: json_body.simps)

lemma json_body_plain: "list_all json_plain s \<Longrightarrow> json_body s = s"
  by (induction s) (auto simp: json_plain_def json_body_Cons json_rune_def encode_rune_def valid_rune_def rune_error_def)

lemma json_body_less: "json_body (replicate n CHR ''<'') = concat (replicate n (unicode_escape 60))"
  by (induction n) (simp_all add: json_body_Cons json_rune_def)

lemma history_length:
  assumes "ls \<noteq> []"
  shows "length (marshal (history_message ls)) =
    29 + sum_list (map (\<lambda>l. length (json_body l) + 2) ls) + (length ls - 1)"
proof -
  have "json_body ''type'' = ''type''" "json_body ''history'' = ''history''" "json_body ''lines'' = ''lines''"
    by (rule json_body_plain, simp add: json_plain_def)+
  then have "length (marshal (history_message ls)) = 29 + length (Join '','' (map json_string ls))"
    using assms by (simp add: marshal_def history_message_def empty_message_def json_field_def json_array_def json_string_def)
  also have "length (Join '','' (map json_string ls)) =
      sum_list (map (\<lambda>l. length (json_body l) + 2) ls) + (length ls - 1)"
    by (simp add: length_Join json_string_def comp_def)
  finally show ?thesis by simp
qed

lemma frame_roundtrip_witness:
  "\<exists>f. writeFrame (Send ''stop'') = Some f \<and> read_payload (f @ ''!'') = Some (marshal (Send ''stop''), ''!'') \<and>
    readFrame (\<lambda>d. if d = marshal (Send ''stop'') then Some (Send ''stop'') else None) (f @ ''!'') =
      Some (Send ''stop'', ''!'')"
proof -
  have "length (marshal (Send ''stop'')) \<le> maxFrame"
  proof -
    have "json_body ''type'' = ''type''" "json_body ''command'' = ''command''" "json_body ''stop'' = ''stop''"
      by (rule json_body_plain, simp add: json_plain_def)+
    then show ?thesis
      by (simp add: marshal_def Send_def empty_message_def json_field_def json_string_def maxFrame_def)
  qed
  then obtain f where f: "writeFrame (Send ''stop'') = Some f" by (auto simp: writeFrame_def Let_def)
  from frame_roundtrip [OF this, of "''!''"
      "\<lambda>d. if d = marshal (Send ''stop'') then Some (Send ''stop'') else None" "Send ''stop''"] f
  show ?thesis by auto
qed

text \<open>A line whose JSON text is at most half as long again, give or take.\<close>

definition mild :: "string \<Rightarrow> bool" where
  "mild l \<longleftrightarrow> length l \<le> historyChunkBytes \<and> 2 * length (json_body l) \<le> 3 * length l + 10"

lemma mild_sum:
  "\<forall>l\<in>set ls. mild l \<Longrightarrow>
   2 * (sum_list (map (\<lambda>l. length (json_body l) + 2) ls) + length ls) \<le> 3 * sum_list (map (\<lambda>l. length l + 8) ls)"
  by (induction ls) (auto simp: mild_def)

definition frame_of :: "string list \<Rightarrow> string" where
  "frame_of ls = the (writeFrame (history_message ls))"

lemma flush_mild:
  assumes "\<forall>l\<in>set ls. mild l" "sum_list (map (\<lambda>l. length l + 8) ls) \<le> historyChunkBytes + 8" "ls \<noteq> []"
  shows "flush ls = ([frame_of ls], True) \<and> writeFrame (history_message ls) = Some (frame_of ls)"
proof -
  have "length (marshal (history_message ls)) \<le> maxFrame"
    using mild_sum [OF assms(1)] assms(2,3) history_length [OF assms(3)]
    by (simp add: historyChunkBytes_def maxFrame_def)
  then show ?thesis using assms(3) by (simp add: flush_def frame_of_def writeFrame_def Let_def)
qed

lemma history_loop_mild:
  assumes "\<forall>l\<in>set ls. mild l" "\<forall>l\<in>set chunk. mild l" "sz = sum_list (map (\<lambda>l. length l + 8) chunk)"
    "sz \<le> historyChunkBytes + 8"
  shows "\<exists>cs. concat cs = chunk @ ls \<and> history_loop ls chunk sz = (map frame_of cs, True) \<and>
    (\<forall>c\<in>set cs. writeFrame (history_message c) = Some (frame_of c))"
  using assms
proof (induction ls chunk sz rule: history_loop.induct)
  case (1 chunk sz)
  show ?case
  proof (cases "chunk = []")
    case True
    then show ?thesis by (intro exI [of _ "[]"]) (simp add: flush_def)
  next
    case False
    with 1 flush_mild [of chunk] show ?thesis by (intro exI [of _ "[chunk]"]) simp
  qed
next
  case (2 l ls chunk sz)
  from "2.prems"(1) have l: "cut_line l = l" "length l + 8 \<le> historyChunkBytes + 8" "mild l"
    by (auto simp: mild_def cut_line_def)
  show ?case
  proof (cases "historyChunkBytes < sz + length l + 8")
    case True
    have fl: "flush chunk = (if chunk = [] then [] else [frame_of chunk], True)"
      using flush_mild [of chunk] "2.prems"(2-4) by (auto simp: flush_def)
    from 2(1) [OF l(1) [symmetric] True fl [symmetric] refl] "2.prems"(1) l
    obtain cs where cs: "concat cs = [l] @ ls" "history_loop ls [l] (length l + 8) = (map frame_of cs, True)"
      "\<forall>c\<in>set cs. writeFrame (history_message c) = Some (frame_of c)" by auto
    show ?thesis
      by (rule exI [of _ "(if chunk = [] then [] else [chunk]) @ cs"])
        (use True cs fl l flush_mild [of chunk] "2.prems"(2-4) in auto)
  next
    case False
    with 2(2) [OF l(1) [symmetric] False] "2.prems" l show ?thesis by auto
  qed
qed

text \<open>C27. A history of lines whose JSON text is at most about half as long again is replayed
  completely: it is split into frames that fit, in order, nothing lost or repeated.\<close>

theorem history_replayed:
  assumes "history \<noteq> []" "\<forall>l\<in>set history. mild l"
  shows "\<exists>chunks. concat chunks = history \<and> writeHistory history = (map frame_of chunks, True) \<and>
    (\<forall>c\<in>set chunks. writeFrame (history_message c) = Some (frame_of c))"
  using history_loop_mild [of history "[]" 0] assms by (simp add: writeHistory_def)

lemma history_replayed_witness:
  "\<exists>chunks. concat chunks = [''Done!''] \<and> writeHistory [''Done!''] = (map frame_of chunks, True)"
proof -
  have "json_body ''Done!'' = ''Done!''" by (rule json_body_plain) (simp add: json_plain_def)
  then have "\<forall>l\<in>set [''Done!'']. mild l" by (simp add: mild_def historyChunkBytes_def maxFrame_def)
  from history_replayed [OF _ this] show ?thesis by blast
qed

section \<open>A history that cannot be replayed\<close>

lemma history_loop_fits:
  "length l \<le> historyChunkBytes \<Longrightarrow> sz + n * (length l + 8) \<le> historyChunkBytes \<Longrightarrow>
   history_loop (replicate n l) chunk sz = flush (chunk @ replicate n l)"
proof (induction n arbitrary: chunk sz)
  case (Suc n)
  have "history_loop (replicate n l) (chunk @ [l]) (sz + length l + 8) = flush ((chunk @ [l]) @ replicate n l)"
    by (rule Suc.IH) (use Suc.prems in simp_all)
  with Suc.prems show ?case by (simp add: cut_line_def)
qed simp

text \<open>A hundred chat messages of 256 \<open><\<close> characters stay within the supervisor's history, and yet no
  client gets a line any more: in JSON each such character takes six bytes, the chunk outgrows
  the frame limit, and the connection is dropped before its commands are read, whatever it would
  have sent. Chunks are measured before the encoding.\<close>

lemma history_replay_can_fail:
  "let history = replicate 100 (replicate 256 CHR ''<'');
       c = handle_conn auth state result history (hello_message auth' # msgs)
   in length history \<le> historyLines \<and> int (sum_list (map length history)) \<le> historyBytes \<and>
      cn_end c = (if TrimSpace auth' = auth then HistoryFailed else AuthFailed) \<and>
      length (cn_out c) \<le> 1 \<and> cn_calls c = [] \<and> cn_replies c = []"
proof -
  define l where "l = replicate 256 CHR ''<''"
  define h where "h = replicate 100 l"
  have len: "length l = 256" by (simp add: l_def)
  have "length (unicode_escape 60) = 6" by (simp add: unicode_escape_def)
  then have j: "length (json_body l) = 1536"
    unfolding l_def json_body_less by (simp add: length_concat sum_list_replicate)
  have "h \<noteq> []" by (simp add: h_def)
  from history_length [OF this] have "maxFrame < length (marshal (history_message h))"
    by (simp add: h_def j sum_list_replicate maxFrame_def)
  then have "flush h = ([], False)" using \<open>h \<noteq> []\<close> by (simp add: flush_def writeFrame_def Let_def)
  then have "writeHistory h = ([], False)"
    using history_loop_fits [of l 0 100 "[]"] \<open>h \<noteq> []\<close> len
    by (simp add: writeHistory_def h_def historyChunkBytes_def maxFrame_def)
  then have "cn_end (handle_conn auth state result h (hello_message auth' # msgs)) =
      (if TrimSpace auth' = auth then HistoryFailed else AuthFailed)"
    "length (cn_out (handle_conn auth state result h (hello_message auth' # msgs))) \<le> 1"
    "cn_calls (handle_conn auth state result h (hello_message auth' # msgs)) = []"
    "cn_replies (handle_conn auth state result h (hello_message auth' # msgs)) = []"
    by (simp_all add: handle_conn_def hello_message_def empty_message_def written_def Let_def split: option.splits)
  moreover have "length h \<le> historyLines" "int (sum_list (map length h)) \<le> historyBytes"
    by (simp_all add: h_def historyLines_def historyBytes_def len sum_list_replicate)
  ultimately show ?thesis unfolding h_def l_def by (simp only: Let_def)
qed

text \<open>No connection makes a call before it has shown the token.\<close>

lemma calls_need_token:
  "cn_calls (handle_conn auth state result history msgs) \<noteq> [] \<Longrightarrow>
   cn_end (handle_conn auth state result history msgs) = Serving \<and> (\<exists>h rest. msgs = h # rest \<and> ms_auth h = auth)"
  by (auto simp: handle_conn_def Let_def split: list.splits if_splits prod.splits bool.splits)

end
