(* ===== verification/Players.thy ===== *)
theory Players
  imports Utf8
begin

text \<open>
  Players and \<open>server.properties\<close> (\<open>source/internal/minecraft/players.go\<close>, \<open>handlePlayerAction\<close>
  and \<open>handleConfigProperty\<close> of \<open>source/internal/app/handlers_manage.go\<close>, the EULA check of
  \<open>source/internal/app/runner.go\<close>): the events read from a log line, the commands built from
  fixed templates, and the editing of one property. The regular expressions are written as the
  matchers they denote: each part is determined by the text before it, so that no choice is left
  to backtracking. A file is its content.
\<close>

section \<open>Matchers\<close>

definition name_char :: "char \<Rightarrow> bool" where
  "name_char c \<longleftrightarrow> (48 \<le> byte c \<and> byte c \<le> 57) \<or> (65 \<le> byte c \<and> byte c \<le> 90) \<or>
     (97 \<le> byte c \<and> byte c \<le> 122) \<or> byte c = 95"

definition re_space :: "char \<Rightarrow> bool" where "re_space c \<longleftrightarrow> byte c \<in> {9, 10, 12, 13, 32}"

definition uuid_char :: "char \<Rightarrow> bool" where
  "uuid_char c \<longleftrightarrow> is_digit c \<or> (97 \<le> byte c \<and> byte c \<le> 102) \<or> (65 \<le> byte c \<and> byte c \<le> 70) \<or> c = CHR ''-''"

text \<open>The leftmost match.\<close>

fun search :: "(string \<Rightarrow> 'a option) \<Rightarrow> string \<Rightarrow> 'a option" where
  "search m [] = m []"
| "search m (c # cs) = (case m (c # cs) of Some x \<Rightarrow> Some x | None \<Rightarrow> search m cs)"

definition lit :: "string \<Rightarrow> string \<Rightarrow> string option" where
  "lit p s = (if HasPrefix s p then Some (drop (length p) s) else None)"

definition opt_lit :: "string \<Rightarrow> string \<Rightarrow> string" where
  "opt_lit p s = (if HasPrefix s p then drop (length p) s else s)"

definition run :: "(char \<Rightarrow> bool) \<Rightarrow> string \<Rightarrow> (string \<times> string) option" where
  "run P s = (if takeWhile P s = [] then None else Some (takeWhile P s, dropWhile P s))"

text \<open>\<open>\]:?\s+\<close>, the end of a log line's prefix.\<close>

definition prefix_end :: "string \<Rightarrow> string option" where
  "prefix_end s = do { s \<leftarrow> lit '']'' s; (_, s) \<leftarrow> run re_space (opt_lit '':'' s); Some s }"

definition player_name :: "string \<Rightarrow> (string \<times> string) option" where
  "player_name s = do { (n, s) \<leftarrow> run name_char s; if length n \<le> 16 then Some (n, s) else None }"

definition join_matcher :: "string \<Rightarrow> string option" where
  "join_matcher s = do { s \<leftarrow> prefix_end s; (n, s) \<leftarrow> player_name s; _ \<leftarrow> lit '' joined the game'' s; Some n }"

definition reJoined :: "string \<Rightarrow> string option" where
  "reJoined = search join_matcher"

definition reLeft :: "string \<Rightarrow> string option" where
  "reLeft = search (\<lambda>s. do { s \<leftarrow> prefix_end s; (n, s) \<leftarrow> player_name s;
     _ \<leftarrow> lit '' left the game'' s; Some n })"

definition reUUID :: "string \<Rightarrow> (string \<times> string) option" where
  "reUUID = search (\<lambda>s. do { s \<leftarrow> lit ''UUID of player '' s; (n, s) \<leftarrow> player_name s; s \<leftarrow> lit '' is '' s;
     (u, _) \<leftarrow> run uuid_char s; if 32 \<le> length u then Some (n, take 36 u) else None })"

definition reListHeader :: "string \<Rightarrow> (string \<times> string \<times> string) option" where
  "reListHeader = search (\<lambda>s. do { s \<leftarrow> lit ''There are '' s; (n, s) \<leftarrow> run is_digit s;
     s \<leftarrow> lit '' of a max'' s; s \<leftarrow> lit '' '' (opt_lit '' of'' s); (m, s) \<leftarrow> run is_digit s;
     s \<leftarrow> lit '' players online'' s;
     Some (n, m, takeWhile (\<lambda>c. c \<noteq> CHR 10) (dropWhile re_space (opt_lit '':'' s))) })"

definition reDone :: "string \<Rightarrow> string option" where
  "reDone = search (\<lambda>s. do { s \<leftarrow> prefix_end s; s \<leftarrow> lit ''Done ('' s;
     (n, s) \<leftarrow> run (\<lambda>c. is_digit c \<or> c = CHR ''.'') s; _ \<leftarrow> lit ''s)!'' s; Some n })"

section \<open>Log lines\<close>

datatype log_event =
    Joined string | Left string | Uuid string string | Listed int int "string list" | Started string

definition validPlayerName :: "string \<Rightarrow> bool" where
  "validPlayerName n \<longleftrightarrow> n \<noteq> [] \<and> length n \<le> 16 \<and> list_all name_char n"

text \<open>A number too large for an \<open>int\<close> leaves the field zero.\<close>

definition scan_count :: "string \<Rightarrow> int" where
  "scan_count s = (case Atoi s of None \<Rightarrow> 0 | Some n \<Rightarrow> n)"

definition ParseLogLine :: "string \<Rightarrow> log_event option" where
  "ParseLogLine line =
     (case reJoined line of Some n \<Rightarrow> Some (Joined n) | None \<Rightarrow>
      case reLeft line of Some n \<Rightarrow> Some (Left n) | None \<Rightarrow>
      case reUUID line of Some (n, u) \<Rightarrow> Some (Uuid n (ToLower u)) | None \<Rightarrow>
      case reListHeader line of
        Some (n, m, names) \<Rightarrow>
          Some (Listed (scan_count n) (scan_count m) (filter validPlayerName (map TrimSpace (Split CHR '','' names))))
      | None \<Rightarrow>
      case reDone line of Some t \<Rightarrow> Some (Started t) | None \<Rightarrow> None)"

section \<open>Commands\<close>

definition ip_text :: "string \<Rightarrow> bool" where
  "ip_text s \<longleftrightarrow> 3 \<le> length s \<and> length s \<le> 45 \<and>
     list_all (\<lambda>c. is_digit c \<or> (97 \<le> byte c \<and> byte c \<le> 102) \<or> (65 \<le> byte c \<and> byte c \<le> 70) \<or>
                   c = CHR ''.'' \<or> c = CHR '':'') s"

definition sanitizeReason :: "string \<Rightarrow> string" where
  "sanitizeReason reason =
     TrimSpace (take 200 (encode_all (filter (\<lambda>r. \<not> (r = 10 \<or> r = 13 \<or> r < 32)) (runes reason))))"

datatype command_error = InvalidPlayer | EmptyMessage | InvalidIP | UnknownPlayerAction

definition with_reason :: "string \<Rightarrow> string \<Rightarrow> string \<Rightarrow> string" where
  "with_reason verb player extra =
     (let r = sanitizeReason extra in
      if r \<noteq> [] then verb @ '' '' @ player @ '' '' @ r else verb @ '' '' @ player)"

definition PlayerCommand :: "string \<Rightarrow> string \<Rightarrow> string \<Rightarrow> command_error + string" where
  "PlayerCommand action player extra =
     (if action = ''send_message'' then
        (if \<not> validPlayerName player then Inl InvalidPlayer
         else let msg = sanitizeReason extra in
           if msg = [] then Inl EmptyMessage else Inr (''tell '' @ player @ '' '' @ msg))
      else if action \<in> {''kick'', ''ban'', ''pardon'', ''whitelist_add'', ''whitelist_remove'', ''op'', ''deop''} then
        (if \<not> validPlayerName player then Inl InvalidPlayer
         else if action = ''kick'' then Inr (with_reason ''kick'' player extra)
         else if action = ''ban'' then Inr (with_reason ''ban'' player extra)
         else if action = ''pardon'' then Inr (''pardon '' @ player)
         else if action = ''whitelist_add'' then Inr (''whitelist add '' @ player)
         else if action = ''whitelist_remove'' then Inr (''whitelist remove '' @ player)
         else if action = ''op'' then Inr (''op '' @ player)
         else Inr (''deop '' @ player))
      else if action \<in> {''ban_ip'', ''pardon_ip''} then
        (if \<not> ip_text player then Inl InvalidIP
         else if action = ''ban_ip'' then Inr (with_reason ''ban-ip'' player extra)
         else Inr (''pardon-ip '' @ player))
      else Inl UnknownPlayerAction)"

record player_request =
  pr_action :: string
  pr_username :: string
  pr_player :: string
  pr_reason :: string
  pr_message :: string

text \<open>The status, and the command sent; \<open>send_ok\<close> says whether the server takes it.\<close>

definition handlePlayerAction :: "(string \<Rightarrow> bool) \<Rightarrow> player_request option \<Rightarrow> nat \<times> string list" where
  "handlePlayerAction send_ok body =
     (case body of
        None \<Rightarrow> (400, [])
      | Some rq \<Rightarrow>
          (let t0 = TrimSpace (pr_username rq);
               target = (if t0 = [] then TrimSpace (pr_player rq) else t0);
               extra = (if pr_action rq = ''send_message'' then pr_message rq else pr_reason rq)
           in case PlayerCommand (pr_action rq) target extra of
                Inl _ \<Rightarrow> (400, [])
              | Inr cmd \<Rightarrow> if send_ok cmd then (200, [cmd]) else (409, [])))"

section \<open>Properties\<close>

text \<open>The entry of a line, if it is one.\<close>

definition property_line :: "string \<Rightarrow> (string \<times> string) option" where
  "property_line l =
     (let line = TrimSpace l in
      if line = [] \<or> HasPrefix line ''#'' then None
      else map_option (\<lambda>(k, v). (TrimSpace k, TrimSpace v)) (Cut CHR ''='' line))"

definition ReadProperties :: "string \<Rightarrow> string \<Rightarrow> string option" where
  "ReadProperties content =
     foldl (\<lambda>m l. case property_line l of None \<Rightarrow> m | Some (k, v) \<Rightarrow> m(k \<mapsto> v)) Map.empty
       (Split (CHR 10) content)"

definition names_key :: "string \<Rightarrow> string \<Rightarrow> bool" where
  "names_key key line =
     (let t = TrimSpace line in
      \<not> HasPrefix t ''#'' \<and> (case Cut CHR ''='' t of None \<Rightarrow> False | Some (k, _) \<Rightarrow> TrimSpace k = key))"

definition WriteProperty :: "string \<Rightarrow> string \<Rightarrow> string \<Rightarrow> string" where
  "WriteProperty key v content =
     (let ls = Split (CHR 10) content;
          entry = key @ ''='' @ v;
          ls' = map (\<lambda>l. if names_key key l then entry else l) ls
      in Join [CHR 10] (if list_ex (names_key key) ls then ls' else ls' @ [entry]))"

definition WorldDir :: "string option \<Rightarrow> string" where
  "WorldDir content =
     (case content of
        None \<Rightarrow> ''world''
      | Some s \<Rightarrow>
          (case ReadProperties s ''level-name'' of
             None \<Rightarrow> ''world''
           | Some lv \<Rightarrow> if lv \<noteq> [] \<and> \<not> Contains lv ''..'' \<and> \<not> HasPrefix lv ''/'' then lv else ''world''))"

definition containsEulaTrue :: "string \<Rightarrow> bool" where
  "containsEulaTrue s =
     list_ex (\<lambda>l. let t = TrimChars [CHR '' '', CHR 9, CHR 13] l in t = ''eula=true'' \<or> t = ''eula = true'')
       (Split (CHR 10) s)"

section \<open>What a command can hold\<close>

lemma encode_rune_bytes: "32 \<le> r \<Longrightarrow> c \<in> set (encode_rune r) \<Longrightarrow> 32 \<le> byte c"
proof -
  assume "32 \<le> r" and c: "c \<in> set (encode_rune r)"
  define q where "q = (if valid_rune r then r else rune_error)"
  have q: "32 \<le> q" "q < 1114112" using \<open>32 \<le> r\<close> by (auto simp: q_def rune_error_def valid_rune_def)
  have e: "encode_rune r = (if q < 128 then [chr q]
      else if q < 2048 then [chr (192 + q div 64), chr (128 + q mod 64)]
      else if q < 65536 then [chr (224 + q div 4096), chr (128 + q div 64 mod 64), chr (128 + q mod 64)]
      else [chr (240 + q div 262144), chr (128 + q div 4096 mod 64), chr (128 + q div 64 mod 64), chr (128 + q mod 64)])"
    by (simp add: encode_rune_def Let_def q_def)
  have b: "q < 2048 \<Longrightarrow> q div 64 < 32" "q < 65536 \<Longrightarrow> q div 4096 < 16" "q div 262144 < 5" using q by linarith+
  have m: "n mod 64 < (64::nat)" for n by simp
  consider "q < 128" | "128 \<le> q" "q < 2048" | "2048 \<le> q" "q < 65536" | "65536 \<le> q" by linarith
  then show ?thesis
    using c b q(1) m [of q] m [of "q div 64"] m [of "q div 4096"] unfolding e by cases auto
qed

lemma sanitizeReason_clean: "c \<in> set (sanitizeReason s) \<Longrightarrow> 32 \<le> byte c" "length (sanitizeReason s) \<le> 200"
proof -
  let ?e = "encode_all (filter (\<lambda>r. \<not> (r = 10 \<or> r = 13 \<or> r < 32)) (runes s))"
  show "length (sanitizeReason s) \<le> 200"
    using TrimSpace_length [of "take 200 ?e"] by (simp add: sanitizeReason_def)
  assume "c \<in> set (sanitizeReason s)"
  then have "c \<in> set (take 200 ?e)" using TrimSpace_set unfolding sanitizeReason_def by blast
  then have "c \<in> set ?e" by (rule in_set_takeD)
  then obtain r where "\<not> r < 32" "c \<in> set (encode_rune r)" unfolding encode_all_def by auto
  then have "32 \<le> r" "c \<in> set (encode_rune r)" by simp_all
  then show "32 \<le> byte c" by (rule encode_rune_bytes)
qed

lemma name_char_printable: "name_char c \<Longrightarrow> 32 < byte c"
  by (auto simp: name_char_def)

text \<open>The commands by action: the verb, what the target must be, and whether text may follow.\<close>

definition command_table :: "(string \<times> string \<times> (string \<Rightarrow> bool) \<times> bool) list" where
  "command_table =
     [(''send_message'', ''tell '', validPlayerName, True),
      (''kick'', ''kick '', validPlayerName, True),
      (''ban'', ''ban '', validPlayerName, True),
      (''pardon'', ''pardon '', validPlayerName, False),
      (''whitelist_add'', ''whitelist add '', validPlayerName, False),
      (''whitelist_remove'', ''whitelist remove '', validPlayerName, False),
      (''op'', ''op '', validPlayerName, False),
      (''deop'', ''deop '', validPlayerName, False),
      (''ban_ip'', ''ban-ip '', ip_text, True),
      (''pardon_ip'', ''pardon-ip '', ip_text, False)]"

text \<open>C26. A player command is the verb of the action asked for, then the player (a name of at most 16
  letters, digits and underscores; an address for the two actions on addresses), then, for the
  actions that take one, at most 200 bytes of free text after a space; and it holds no byte below
  32, so that it is one line whatever the request says. (DEL and the controls from U+0080 on do
  pass, see \<open>reason_keeps_other_controls\<close>.)\<close>

theorem player_command_confined:
  assumes "PlayerCommand action player extra = Inr cmd"
  shows "(\<exists>(a, verb, target_ok, text)\<in>set command_table. a = action \<and> target_ok player \<and>
      (\<exists>rest. cmd = verb @ player @ rest \<and>
        (rest = [] \<or> (text \<and> (\<exists>r. rest = CHR '' '' # r \<and> length r \<le> 200))))) \<and>
    (\<forall>c\<in>set cmd. 32 \<le> byte c)"
proof -
  have "\<exists>(a, verb, target_ok, text)\<in>set command_table. a = action \<and> target_ok player \<and>
      (\<exists>rest. cmd = verb @ player @ rest \<and> (rest = [] \<or> (text \<and> rest = CHR '' '' # sanitizeReason extra)))"
    using assms unfolding PlayerCommand_def with_reason_def Let_def command_table_def
    by (auto split: if_splits)
  then obtain verb target_ok tx rest where v: "(action, verb, target_ok, tx) \<in> set command_table"
    "target_ok player" "cmd = verb @ player @ rest" "rest = [] \<or> (tx \<and> rest = CHR '' '' # sanitizeReason extra)"
    by blast
  have p: "validPlayerName player \<or> ip_text player" and verb: "\<forall>c\<in>set verb. 32 \<le> byte c"
    using v(1,2) by (auto simp: command_table_def)
  from p have clean: "\<forall>c\<in>set player. 32 \<le> byte c"
    using name_char_printable
    by (auto simp: validPlayerName_def ip_text_def list_all_iff is_digit_def) (fastforce+)?
  have "\<forall>c\<in>set rest. 32 \<le> byte c" using v(4) sanitizeReason_clean(1) by auto
  with v(3) clean verb have "\<forall>c\<in>set cmd. 32 \<le> byte c" by auto
  moreover have "rest = [] \<or> (tx \<and> (\<exists>r. rest = CHR '' '' # r \<and> length r \<le> 200))"
    using v(4) sanitizeReason_clean(2) by blast
  ultimately show ?thesis using v(1-3) by blast
qed

lemma reason_keeps_other_controls: "sanitizeReason [CHR 0x7F] = [CHR 0x7F]"
  by code_simp

lemma player_command_confined_witness:
  "PlayerCommand ''kick'' ''Alice'' [] = Inr ''kick Alice'' \<and> list_all (\<lambda>c. 32 \<le> byte c) ''kick Alice''"
proof -
  have n: "validPlayerName ''Alice''" by code_simp
  have "sanitizeReason [] = []" by (simp add: sanitizeReason_def runes.simps TrimSpace_def)
  with n have r: "PlayerCommand ''kick'' ''Alice'' [] = Inr ''kick Alice''"
    by (simp add: PlayerCommand_def with_reason_def Let_def)
  from player_command_confined [OF this] r show ?thesis unfolding list_all_iff by blast
qed

section \<open>Forged events\<close>

lemma search_skip: "\<forall>c\<in>set xs. \<forall>t. m (c # t) = None \<Longrightarrow> search m (xs @ ys) = search m ys"
  by (induction xs) auto

lemma join_matcher_head: "c \<noteq> CHR '']'' \<Longrightarrow> join_matcher (c # t) = None"
  by (simp add: join_matcher_def prefix_end_def lit_def HasPrefix_def)

lemma name_run: "list_all name_char n \<Longrightarrow> takeWhile name_char (n @ CHR '' '' # s) = n \<and> dropWhile name_char (n @ CHR '' '' # s) = CHR '' '' # s"
  by (induction n) (auto simp: name_char_def)

lemma join_matcher_hit: "validPlayerName n \<Longrightarrow> join_matcher ('']'' @ '' '' @ n @ '' joined the game'') = Some n"
proof -
  assume n: "validPlayerName n"
  then obtain c cs where "n = c # cs" "name_char c" by (cases n) (auto simp: validPlayerName_def)
  then have "\<not> re_space c" by (auto simp: name_char_def re_space_def)
  then have "run re_space (CHR '' '' # n @ '' joined the game'') = Some ('' '', n @ '' joined the game'')"
    using \<open>n = c # cs\<close> by (simp add: run_def re_space_def)
  then have "prefix_end ('']'' @ '' '' @ n @ '' joined the game'') = Some (n @ '' joined the game'')"
    by (simp add: prefix_end_def lit_def opt_lit_def HasPrefix_def)
  moreover have "player_name (n @ '' joined the game'') = Some (n, '' joined the game'')"
    using n name_run [of n "''joined the game''"] by (simp add: player_name_def run_def validPlayerName_def)
  ultimately show ?thesis by (simp add: join_matcher_def lit_def HasPrefix_def)
qed

text \<open>A player can forge the joining of any other: what it says in the chat, the end of a bracket
  and the text of a join, is read as that join, for every sender and every name. The patterns
  look for a bracket anywhere in the line, not at the end of the prefix the server writes.
  Likewise a chat message can be taken for the reply of \<open>list\<close>, and then nobody is online.\<close>

lemma chat_forges_events:
  assumes "validPlayerName sender" "validPlayerName victim"
  shows "ParseLogLine (''[12:00:00] [Server thread/INFO]: <'' @ sender @ ''> ] '' @ victim @ '' joined the game'') =
      Some (Joined victim) \<and>
    ParseLogLine ''[12:00:00] [Server thread/INFO]: <Mallory> There are 0 of a max of 20 players online:'' =
      Some (Listed 0 20 [])"
proof
  have "\<forall>c\<in>set sender. name_char c" using assms(1) by (simp add: validPlayerName_def list_all_iff)
  then have n: "c \<noteq> CHR '']''" if "c \<in> set (sender @ ''> '')" for c
    using that by (auto simp: name_char_def)
  have s: "\<forall>c\<in>set (sender @ ''> ''). \<forall>t. join_matcher (c # t) = None"
    by (intro ballI allI join_matcher_head n)
  have "join_matcher ('']: <'' @ t) = None" "join_matcher ('']'' @ '' [Server thread/INFO]: <'' @ t) = None" for t
    by (simp_all add: join_matcher_def prefix_end_def lit_def opt_lit_def HasPrefix_def run_def re_space_def
        player_name_def name_char_def)
  then have "search join_matcher (''[12:00:00] [Server thread/INFO]: <'' @ t) = search join_matcher t" for t
    by (simp add: join_matcher_head)
  then have "reJoined (''[12:00:00] [Server thread/INFO]: <'' @ sender @ ''> ] '' @ victim @ '' joined the game'') =
      search join_matcher ((sender @ ''> '') @ ('']'' @ '' '' @ victim @ '' joined the game''))"
    by (simp add: reJoined_def)
  also have "\<dots> = search join_matcher ('']'' @ '' '' @ victim @ '' joined the game'')" by (rule search_skip [OF s])
  also have "\<dots> = Some victim" using join_matcher_hit [OF assms(2)] by (simp split: option.splits)
  finally show "ParseLogLine (''[12:00:00] [Server thread/INFO]: <'' @ sender @ ''> ] '' @ victim @ '' joined the game'') =
      Some (Joined victim)" by (simp add: ParseLogLine_def)
  show "ParseLogLine ''[12:00:00] [Server thread/INFO]: <Mallory> There are 0 of a max of 20 players online:'' =
      Some (Listed 0 20 [])" by code_simp
qed

lemma chat_forges_events_witness:
  "ParseLogLine ''[12:00:00] [Server thread/INFO]: <Mallory> ] Alice joined the game'' = Some (Joined ''Alice'')"
proof -
  have "validPlayerName ''Mallory''" "validPlayerName ''Alice''" by code_simp+
  from chat_forges_events [OF this] show ?thesis by simp
qed

section \<open>Editing a property\<close>

text \<open>A string without white space at its ends.\<close>

definition tight :: "string \<Rightarrow> bool" where
  "tight s \<longleftrightarrow> space_len s = 0 \<and> space_len_rev (rev s) = 0"

lemma trim_front_stop: "sl s = 0 \<Longrightarrow> trim_front sl 0 s = s"
  by (cases s) auto

lemma tight_TrimSpace: "tight s \<Longrightarrow> TrimSpace s = s"
  by (simp add: TrimSpace_def tight_def trim_front_stop)

lemma trim_front_shorter: "s \<noteq> [] \<Longrightarrow> sl s \<noteq> 0 \<Longrightarrow> length (trim_front sl 0 s) < length s"
  using trim_front_length [of sl] by (cases s) (auto simp: less_Suc_eq_le split: nat.splits)

lemma TrimSpace_tight:
  assumes "TrimSpace s = s" shows "tight s"
proof -
  have f: "space_len s = 0"
  proof (rule ccontr)
    assume n: "space_len s \<noteq> 0"
    then have "s \<noteq> []" by auto
    from trim_front_shorter [of s space_len, OF this n]
      trim_front_length [of space_len_rev 0 "rev (trim_front space_len 0 s)"]
    have "length (TrimSpace s) < length s" by (simp add: TrimSpace_def)
    with assms show False by simp
  qed
  have "space_len_rev (rev s) = 0"
  proof (rule ccontr)
    assume n: "space_len_rev (rev s) \<noteq> 0"
    then have "rev s \<noteq> []" by auto
    from trim_front_shorter [of "rev s" space_len_rev, OF this n] have "length (TrimSpace s) < length s"
      by (simp add: TrimSpace_def trim_front_stop f)
    with assms show False by simp
  qed
  with f show ?thesis by (simp add: tight_def)
qed

lemma space_len_before: "space_len k = 0 \<Longrightarrow> k \<noteq> [] \<Longrightarrow> space_len (k @ CHR ''='' # s) = 0"
proof -
  assume k: "space_len k = 0" "k \<noteq> []"
  consider a where "k = [a]" | a b where "k = [a, b]" | a b c r where "k = a # b # c # r"
    using k(2) by (metis list.exhaust)
  then show ?thesis
  proof cases
    case 1
    with k show ?thesis by (cases s) (auto simp: space2_def space3_def split: if_splits)
  next
    case 2
    with k show ?thesis by (auto simp: space3_def split: if_splits)
  qed (use k in simp)
qed

lemma space_len_rev_before: "space_len_rev v = 0 \<Longrightarrow> space_len_rev (v @ CHR ''='' # s) = 0"
proof -
  assume v: "space_len_rev v = 0"
  consider "v = []" | a where "v = [a]" | a b where "v = [a, b]" | a b c r where "v = a # b # c # r"
    by (metis list.exhaust)
  then show ?thesis
  proof cases
    case 1
    consider "s = []" | a where "s = [a]" | a b r where "s = a # b # r" by (metis list.exhaust)
    then show ?thesis using 1 by cases (auto simp: ascii_space_def space2_def space3_def)
  next
    case 2
    with v show ?thesis by (cases s) (auto simp: space2_def space3_def split: if_splits)
  next
    case 3
    with v show ?thesis by (auto simp: space3_def split: if_splits)
  qed (use v in simp)
qed

lemma tight_entry: "tight k \<Longrightarrow> k \<noteq> [] \<Longrightarrow> tight v \<Longrightarrow> tight (k @ ''='' @ v)"
  using space_len_before [of k v] space_len_rev_before [of "rev v" "rev k"] by (simp add: tight_def)

lemma Cut_entry: "c \<notin> set k \<Longrightarrow> Cut c (k @ c # v) = Some (k, v)"
  by (induction k) auto

definition plain_key :: "string \<Rightarrow> bool" where
  "plain_key k \<longleftrightarrow> k \<noteq> [] \<and> TrimSpace k = k \<and> \<not> HasPrefix k ''#'' \<and> CHR ''='' \<notin> set k \<and> CHR 10 \<notin> set k"

definition plain_value :: "string \<Rightarrow> bool" where
  "plain_value v \<longleftrightarrow> TrimSpace v = v \<and> CHR 10 \<notin> set v"

lemma entry_line:
  assumes "plain_key k" "plain_value v"
  shows "property_line (k @ ''='' @ v) = Some (k, v)"
proof -
  have "tight k" "tight v" using assms TrimSpace_tight by (auto simp: plain_key_def plain_value_def)
  with assms have "TrimSpace (k @ ''='' @ v) = k @ ''='' @ v" "TrimSpace k = k" "TrimSpace v = v"
    using tight_entry [of k v] tight_TrimSpace [of "k @ ''='' @ v"] by (auto simp: plain_key_def plain_value_def)
  moreover have "\<not> HasPrefix (k @ ''='' @ v) ''#''" using assms(1) by (cases k) (auto simp: plain_key_def HasPrefix_def)
  moreover have "Cut CHR ''='' (k @ ''='' @ v) = Some (k, v)" using assms(1) Cut_entry by (simp add: plain_key_def)
  ultimately show ?thesis using assms(1) by (simp add: property_line_def plain_key_def)
qed

lemma names_key_line: "names_key k l \<longleftrightarrow> (\<exists>v. property_line l = Some (k, v))"
  by (auto simp: names_key_def property_line_def Let_def split: option.splits)

definition set_entry :: "string \<Rightarrow> (string \<Rightarrow> string option) \<Rightarrow> string \<Rightarrow> string option" where
  "set_entry l m = (case property_line l of None \<Rightarrow> m | Some (k, v) \<Rightarrow> m(k \<mapsto> v))"

lemma ReadProperties_fold: "ReadProperties content = foldl (\<lambda>m l. set_entry l m) Map.empty (Split (CHR 10) content)"
  by (simp add: ReadProperties_def set_entry_def)

lemma fold_replaced:
  assumes "property_line e = Some (k, v)"
    and "\<forall>x. x \<noteq> k \<longrightarrow> m x = m' x" "m' k = Some v \<or> list_ex (names_key k) ls"
  shows "foldl (\<lambda>m l. set_entry l m) m' (map (\<lambda>l. if names_key k l then e else l) ls) =
    (foldl (\<lambda>m l. set_entry l m) m ls)(k \<mapsto> v)"
  using assms(2,3)
proof (induction ls arbitrary: m m')
  case (Cons l ls)
  show ?case
  proof (cases "names_key k l")
    case True
    then obtain w where w: "property_line l = Some (k, w)" by (auto simp: names_key_line)
    have "foldl (\<lambda>m l. set_entry l m) (set_entry e m') (map (\<lambda>l. if names_key k l then e else l) ls) =
        (foldl (\<lambda>m l. set_entry l m) (set_entry l m) ls)(k \<mapsto> v)"
      by (rule Cons.IH) (use Cons.prems(1) w assms(1) in \<open>auto simp: set_entry_def\<close>)
    with True show ?thesis by simp
  next
    case False
    have "foldl (\<lambda>m l. set_entry l m) (set_entry l m') (map (\<lambda>l. if names_key k l then e else l) ls) =
        (foldl (\<lambda>m l. set_entry l m) (set_entry l m) ls)(k \<mapsto> v)"
    proof (rule Cons.IH)
      show "\<forall>x. x \<noteq> k \<longrightarrow> set_entry l m x = set_entry l m' x"
        using Cons.prems(1) by (auto simp: set_entry_def split: option.splits)
      show "set_entry l m' k = Some v \<or> list_ex (names_key k) ls"
        using Cons.prems(2) False names_key_line [of k l] by (auto simp: set_entry_def split: option.splits)
    qed
    with False show ?thesis by simp
  qed
qed auto

text \<open>Writing a property and reading the file back gives the old properties with that one changed,
  whatever the file held; every line that does not name the key stays as it is and in its order.
  Key and value are without line breaks and surrounding space, the key without an equals sign
  and no comment.\<close>

lemma write_property_roundtrip:
  assumes "plain_key key" "plain_value v"
  shows "ReadProperties (WriteProperty key v content) = (ReadProperties content)(key \<mapsto> v) \<and>
    filter (\<lambda>l. \<not> names_key key l) (Split (CHR 10) (WriteProperty key v content)) =
    filter (\<lambda>l. \<not> names_key key l) (Split (CHR 10) content)"
proof -
  define ls where "ls = Split (CHR 10) content"
  define e where "e = key @ ''='' @ v"
  define ls' where "ls' = map (\<lambda>l. if names_key key l then e else l) ls"
  define out where "out = (if list_ex (names_key key) ls then ls' else ls' @ [e])"
  have e: "property_line e = Some (key, v)" unfolding e_def by (rule entry_line [OF assms])
  then have ne: "names_key key e" by (simp add: names_key_line)
  have brk: "\<forall>l\<in>set out. CHR 10 \<notin> set l"
    using assms Split_no_sep [of _ "CHR 10" content]
    by (auto simp: out_def ls'_def ls_def e_def plain_key_def plain_value_def)
  have "out \<noteq> []" by (simp add: out_def ls'_def ls_def)
  with brk have split: "Split (CHR 10) (WriteProperty key v content) = out"
    unfolding WriteProperty_def Let_def ls_def [symmetric] e_def [symmetric] ls'_def [symmetric] out_def [symmetric]
    by (intro Split_Join) auto
  have "foldl (\<lambda>m l. set_entry l m) Map.empty out = (foldl (\<lambda>m l. set_entry l m) Map.empty ls)(key \<mapsto> v)"
  proof (cases "list_ex (names_key key) ls")
    case True
    then show ?thesis unfolding out_def ls'_def using fold_replaced [OF e, of Map.empty Map.empty ls] by simp
  next
    case False
    then have "ls' = ls" unfolding ls'_def by (intro map_idI) (auto simp: list_ex_iff)
    with False show ?thesis by (simp add: out_def set_entry_def e)
  qed
  moreover have "filter (\<lambda>l. \<not> names_key key l) (map (\<lambda>l. if names_key key l then e else l) xs) =
      filter (\<lambda>l. \<not> names_key key l) xs" for xs by (induction xs) (simp_all add: ne)
  then have "filter (\<lambda>l. \<not> names_key key l) out = filter (\<lambda>l. \<not> names_key key l) ls"
    by (simp add: out_def ls'_def ne)
  ultimately show ?thesis by (simp add: ReadProperties_fold split ls_def)
qed

lemma write_property_roundtrip_witness:
  "ReadProperties (WriteProperty ''pvp'' ''false'' (''motd=hi'' @ [CHR 10] @ ''pvp=true'')) ''pvp'' = Some ''false'' \<and>
   ReadProperties (WriteProperty ''pvp'' ''false'' (''motd=hi'' @ [CHR 10] @ ''pvp=true'')) ''motd'' = Some ''hi''"
proof -
  have "plain_key ''pvp''" "plain_value ''false''" by code_simp+
  moreover have "ReadProperties (''motd=hi'' @ [CHR 10] @ ''pvp=true'') ''motd'' = Some ''hi''" by code_simp
  ultimately show ?thesis using write_property_roundtrip by simp
qed

end
