(* ===== verification/Runner.thy ===== *)
theory Runner
  imports Supervisor Players
begin

text \<open>
  The control plane's side of the lifecycle (\<open>source/internal/app/runner.go\<close>, \<open>bootAutostart\<close> of
  \<open>source/internal/app/app.go\<close>, \<open>LoadPersisted\<close> and \<open>StaleCheck\<close> of
  \<open>source/internal/supervisor/supervisor.go\<close>): the state read from the supervisor's file, the
  lock on lifecycle operations, and start, stop, restart and forced stop. What an operation sees
  of the system is a record; what the system does while the operation polls is a parameter.
  Times are nanoseconds.
\<close>

section \<open>The persisted state\<close>

fun state_name :: "sup_state \<Rightarrow> string" where
  "state_name StateStopped = ''stopped''"
| "state_name StateStarting = ''starting''"
| "state_name StateRunning = ''running''"
| "state_name StateStopping = ''stopping''"
| "state_name StateRestarting = ''restarting''"
| "state_name StateCrashed = ''crashed''"

record persisted =
  ps_state :: string
  ps_script_pid :: int
  ps_java_pid :: int
  ps_pgid :: int
  ps_last_exit :: int
  ps_last_signal :: string
  ps_last_class :: class_kind
  ps_restarts :: int

text \<open>\<open>java\<close> is what the scan for the Java process finds.\<close>

definition snapshotLocked :: "int \<Rightarrow> sup \<Rightarrow> persisted" where
  "snapshotLocked java s = \<lparr>ps_state = state_name (s_state s), ps_script_pid = s_script_pid s,
     ps_java_pid = (if s_pgid s \<le> 0 then 0 else java), ps_pgid = s_pgid s, ps_last_exit = s_last_exit s,
     ps_last_signal = s_last_signal s, ps_last_class = s_last_class s, ps_restarts = s_restarts s\<rparr>"

definition processAlive :: "(int \<Rightarrow> bool) \<Rightarrow> int \<Rightarrow> bool" where
  "processAlive alive pid \<longleftrightarrow> 0 < pid \<and> alive pid"

text \<open>Stale, and unclean.\<close>

definition StaleCheck :: "(int \<Rightarrow> bool) \<Rightarrow> persisted option \<Rightarrow> bool \<times> bool" where
  "StaleCheck alive ps =
     (case ps of
        None \<Rightarrow> (True, False)
      | Some p \<Rightarrow>
          if processAlive alive (ps_script_pid p) \<or> processAlive alive (ps_java_pid p) then (False, False)
          else (True, ps_state p \<in> {''running'', ''starting'', ''stopping''}))"

section \<open>What the runner sees\<close>

text \<open>The state file (\<open>None\<close> if missing or unreadable), whether the console can be dialled, the
  processes, the systemd user manager, the name of the running operation.\<close>

record system =
  sy_file :: "persisted option"
  sy_console :: bool
  sy_alive :: "int \<Rightarrow> bool"
  sy_systemd :: bool
  sy_busy :: string

datatype run_effect =
    RemoveState | RemoveSocket | SystemdStart | Spawn | ConsoleVerb string | SystemdStop
  | KillGroup int | TouchStarted | TouchStopped | AttachConsole

datatype runner_error =
    ErrBusy string | AlreadyRunning | NoActiveInstance | DirectoryMissing | NoScript | ScriptMissing
  | JavaError | EulaMissing | UnitError | SpawnError | NoStartup | CtxDone | NotRunning | VerbFailed
  | NoSupervisor | StopTimeout | RestartStop runner_error | RestartStart runner_error

definition State :: "system \<Rightarrow> string \<times> persisted option" where
  "State w =
     (case sy_file w of
        None \<Rightarrow> (''stopped'', None)
      | Some ps \<Rightarrow>
          if ps_state ps = ''stopped'' \<or> ps_state ps = ''crashed'' then (ps_state ps, Some ps)
          else case StaleCheck (sy_alive w) (Some ps) of
            (True, True) \<Rightarrow> (''crashed'', Some ps)
          | (True, False) \<Rightarrow> (''stopped'', Some ps)
          | (False, _) \<Rightarrow> (ps_state ps, Some ps))"

definition Online :: "system \<Rightarrow> bool" where
  "Online w \<longleftrightarrow> fst (State w) \<in> {''running'', ''starting'', ''stopping'', ''restarting''}"

text \<open>The lock: the name of the operation while one runs.\<close>

definition acquire :: "string \<Rightarrow> string \<Rightarrow> runner_error + string" where
  "acquire op busy = (if busy \<noteq> [] then Inl (ErrBusy busy) else Inr op)"

section \<open>Starting\<close>

record start_files =
  sf_dir :: bool
  sf_script :: string
  sf_script_exists :: bool
  sf_java :: bool
  sf_eula :: "string option"

definition validateStartable :: "start_files \<Rightarrow> runner_error option" where
  "validateStartable f =
     (if \<not> sf_dir f then Some DirectoryMissing
      else if sf_script f = [] then Some NoScript
      else if \<not> sf_script_exists f then Some ScriptMissing
      else if \<not> sf_java f then Some JavaError
      else if (case sf_eula f of None \<Rightarrow> True | Some b \<Rightarrow> \<not> containsEulaTrue b) then Some EulaMissing
      else None)"

text \<open>The world around an operation: the active instance, which actions work, when the caller gives
  up, the grace period, how long the calls take that the code waits for without a limit of its own
  (resolving Java with the other checks, starting the unit or the process, dialling the console,
  sending the verb or stopping the unit, stopping the unit once more at the end), and the system
  as seen later, given what the operation did.\<close>

record surroundings =
  su_instance :: "start_files option"
  su_unit_ok :: bool
  su_unit_stops :: bool
  su_spawn_ok :: bool
  su_verb_ok :: bool
  su_cancel :: "int option"
  su_grace :: int
  su_check_time :: nat
  su_launch_time :: nat
  su_dial_time :: nat
  su_request_time :: nat
  su_unit_time :: nat
  su_later :: "run_effect list \<Rightarrow> int \<Rightarrow> system"

datatype poll_result = PollFound | PollCancelled | PollTimedOut

text \<open>A polling loop with its deadline; it ends because every round waits.\<close>

function poll_until :: "(int \<Rightarrow> bool) \<Rightarrow> int option \<Rightarrow> int \<Rightarrow> int \<Rightarrow> int \<Rightarrow> poll_result \<times> int" where
  "poll_until found cancel wait now deadline =
     (if now < deadline \<and> 0 < wait
      then (if found now then (PollFound, now)
            else case cancel of
              Some c \<Rightarrow> if c \<le> now + wait then (PollCancelled, max now c)
                        else poll_until found cancel wait (now + wait) deadline
            | None \<Rightarrow> poll_until found cancel wait (now + wait) deadline)
      else (PollTimedOut, now))"
  by auto
termination by (relation "measure (\<lambda>(f, c, w, n, d). nat (d - n))") auto

declare poll_until.simps [simp del]

text \<open>Operations return their error, their effects in order, and the time. What an operation reads
  before its first effect is one snapshot of the system.\<close>

type_synonym outcome = "runner_error option \<times> run_effect list \<times> int"

definition clear_stale :: "system \<Rightarrow> run_effect list" where
  "clear_stale w =
     (case sy_file w of
        None \<Rightarrow> []
      | Some ps \<Rightarrow> if fst (StaleCheck (sy_alive w) (Some ps)) then [RemoveState, RemoveSocket] else [])"

definition launch_server :: "surroundings \<Rightarrow> system \<Rightarrow> runner_error option \<times> run_effect list" where
  "launch_server su w =
     (if sy_systemd w then (if su_unit_ok su then None else Some UnitError, [SystemdStart])
      else (if su_spawn_ok su then None else Some SpawnError, [Spawn]))"

definition startLocked :: "surroundings \<Rightarrow> system \<Rightarrow> run_effect list \<Rightarrow> int \<Rightarrow> outcome" where
  "startLocked su w acts now =
     (if Online w then (Some AlreadyRunning, acts, now)
      else case su_instance su of
        None \<Rightarrow> (Some NoActiveInstance, acts, now)
      | Some f \<Rightarrow>
          let now = now + int (su_check_time su) in
          (case validateStartable f of
             Some e \<Rightarrow> (Some e, acts, now)
           | None \<Rightarrow>
               let acts = acts @ clear_stale w; now = now + int (su_launch_time su) in
               case launch_server su w of
                 (Some e, done) \<Rightarrow> (Some e, acts @ done, now)
               | (None, done) \<Rightarrow>
                   (let acts = acts @ done @ [TouchStarted] in
                    case poll_until (\<lambda>t. fst (State (su_later su acts t)) \<noteq> ''stopped'') (su_cancel su)
                           300000000 now (now + 20 * nano) of
                      (PollFound, t) \<Rightarrow> (None, acts @ [AttachConsole], t)
                    | (PollCancelled, t) \<Rightarrow> (Some CtxDone, acts, t)
                    | (PollTimedOut, t) \<Rightarrow> (Some NoStartup, acts, t))))"

section \<open>Stopping\<close>

definition stopLocked :: "surroundings \<Rightarrow> system \<Rightarrow> run_effect list \<Rightarrow> int \<Rightarrow> outcome" where
  "stopLocked su w acts now =
     (if \<not> Online w then (Some NotRunning, acts, now)
      else
        let requested =
          (if sy_console w then (if su_verb_ok su then None else Some VerbFailed, acts @ [ConsoleVerb ''stop''])
           else if sy_systemd w then (if su_unit_stops su then None else Some UnitError, acts @ [SystemdStop])
           else (Some NoSupervisor, acts));
          now = now + int (su_dial_time su) +
            (if sy_console w \<or> sy_systemd w then int (su_request_time su) else 0)
        in case requested of
          (Some e, acts) \<Rightarrow> (Some e, acts, now)
        | (None, acts) \<Rightarrow>
            (case poll_until (\<lambda>t. fst (State (su_later su acts t)) \<in> {''stopped'', ''crashed''}) (su_cancel su)
                   500000000 now (now + wrap64 (wrap64 (su_grace su + 30) * nano)) of
               (PollFound, t) \<Rightarrow>
                 (None, acts @ (if su_instance su \<noteq> None then [TouchStopped] else [])
                          @ (if sy_systemd w then [SystemdStop] else []),
                  t + (if sy_systemd w then int (su_unit_time su) else 0))
             | (PollCancelled, t) \<Rightarrow> (Some CtxDone, acts, t)
             | (PollTimedOut, t) \<Rightarrow> (Some StopTimeout, acts, t)))"

text \<open>The operations under the lock, whose name they hold while they run and release at the end.\<close>

definition locked :: "string \<Rightarrow> (system \<Rightarrow> outcome) \<Rightarrow> system \<Rightarrow> int \<Rightarrow> outcome \<times> string" where
  "locked op body w now =
     (case acquire op (sy_busy w) of
        Inl e \<Rightarrow> ((Some e, [], now), sy_busy w)
      | Inr name \<Rightarrow> (body (w\<lparr>sy_busy := name\<rparr>), []))"

definition Start :: "surroundings \<Rightarrow> system \<Rightarrow> int \<Rightarrow> outcome \<times> string" where
  "Start su w now = locked ''start'' (\<lambda>w. startLocked su w [] now) w now"

definition Stop :: "surroundings \<Rightarrow> system \<Rightarrow> int \<Rightarrow> outcome \<times> string" where
  "Stop su w now = locked ''stop'' (\<lambda>w. stopLocked su w [] now) w now"

definition Restart :: "surroundings \<Rightarrow> system \<Rightarrow> int \<Rightarrow> outcome \<times> string" where
  "Restart su w now = locked ''restart'' (\<lambda>w.
     case (if Online w then stopLocked su w [] now else (None, [], now)) of
       (Some e, acts, t) \<Rightarrow> (Some (RestartStop e), acts, t)
     | (None, acts, t) \<Rightarrow>
         (let w' = (if Online w then su_later su acts t else w) in
          case startLocked su w' acts t of
            (Some e, acts', t') \<Rightarrow> (Some (RestartStart e), acts', t')
          | (None, acts', t') \<Rightarrow> (None, acts', t'))) w now"

text \<open>The escalation reads the file again after the verb is sent.\<close>

definition ForceStop_runner :: "surroundings \<Rightarrow> system \<Rightarrow> int \<Rightarrow> outcome \<times> string" where
  "ForceStop_runner su w now = locked ''force-stop'' (\<lambda>w.
     let verb = (if sy_console w then [ConsoleVerb ''force-stop''] else []);
         w' = (if sy_console w then su_later su verb now else w);
         kill = (case sy_file w' of
                   None \<Rightarrow> []
                 | Some ps \<Rightarrow> if 0 < ps_pgid ps then [KillGroup (ps_pgid ps)] else []);
         unit = (if sy_systemd w then [SystemdStop] else []);
         touch = (if su_instance su \<noteq> None then [TouchStopped] else [])
     in (None, verb @ kill @ unit @ touch, now)) w now"

section \<open>The scheduler's executor and the autostart\<close>

definition ServerOnline :: "system \<Rightarrow> bool" where
  "ServerOnline w \<longleftrightarrow> fst (State w) = ''running''"

text \<open>\<open>active\<close> are the operations that have not ended.\<close>

definition OperationInProgress :: "system \<Rightarrow> 'op list \<Rightarrow> bool" where
  "OperationInProgress w active \<longleftrightarrow> sy_busy w \<noteq> [] \<or> 0 < length active"

record boot =
  bt_autostart :: bool
  bt_recover :: bool
  bt_delay :: int

datatype boot_result = BootNothing | BootSkipped | BootCancelled | BootStarted bool outcome

text \<open>\<open>w\<close> is the system when the control plane starts, \<open>later\<close> what it is after the delay. The flag of
  \<open>BootStarted\<close> says whether the shutdown before was unclean.\<close>

definition bootAutostart :: "boot option \<Rightarrow> surroundings \<Rightarrow> system \<Rightarrow> (int \<Rightarrow> system) \<Rightarrow> int \<Rightarrow> boot_result" where
  "bootAutostart inst su w later now =
     (case inst of
        None \<Rightarrow> BootNothing
      | Some b \<Rightarrow>
          if \<not> bt_autostart b then BootNothing
          else
            let check = (case sy_file w of None \<Rightarrow> (True, False) | Some ps \<Rightarrow> StaleCheck (sy_alive w) (Some ps))
            in case check of
              (False, _) \<Rightarrow> BootNothing
            | (True, unclean) \<Rightarrow>
                if unclean \<and> \<not> bt_recover b then BootSkipped
                else
                  let t = now + max 0 (wrap64 (bt_delay b * nano)) in
                  if (case su_cancel su of Some c \<Rightarrow> c \<le> t | None \<Rightarrow> False) then BootCancelled
                  else if Online (later t) then BootNothing
                  else BootStarted unclean (fst (Start su (later t) t)))"

section \<open>Operations end\<close>

lemma State_busy [simp]: "State (w\<lparr>sy_busy := x\<rparr>) = State w"
  by (simp add: State_def split: option.split)

lemma Online_busy [simp]: "Online (w\<lparr>sy_busy := x\<rparr>) = Online w"
  by (simp add: Online_def)

lemma clear_stale_busy: "clear_stale (w\<lparr>sy_busy := x\<rparr>) = clear_stale w"
  by (simp add: clear_stale_def split: option.split)

lemma launch_server_busy: "launch_server su (w\<lparr>sy_busy := x\<rparr>) = launch_server su w"
  by (simp add: launch_server_def)

lemma startLocked_busy [simp]: "startLocked su (w\<lparr>sy_busy := x\<rparr>) = startLocked su w"
  by (intro ext) (simp only: startLocked_def Online_busy clear_stale_busy launch_server_busy)

lemma poll_until_result:
  assumes "0 < wait" "poll_until found cancel wait now deadline = (r, t)"
  shows "now \<le> t \<and> t \<le> max now (deadline + wait) \<and> (r = PollFound \<longrightarrow> found t)"
  using assms
proof (induction found cancel wait now deadline rule: poll_until.induct)
  case (1 found cancel wait now deadline)
  note IH = "1.IH" and prems = "1.prems"
  show ?case
  proof (cases "now < deadline \<and> \<not> found now \<and> (\<forall>c. cancel = Some c \<longrightarrow> now + wait < c)")
    case True
    then have "poll_until found cancel wait now deadline = poll_until found cancel wait (now + wait) deadline"
      using prems(1) by (subst poll_until.simps) (auto split: option.splits)
    with prems(2) have rec: "poll_until found cancel wait (now + wait) deadline = (r, t)" by simp
    have "now + wait \<le> t \<and> t \<le> max (now + wait) (deadline + wait) \<and> (r = PollFound \<longrightarrow> found t)"
    proof (cases cancel)
      case None with True IH(1) prems(1) rec show ?thesis by blast
    next
      case (Some c) with True IH(2) prems(1) rec show ?thesis by force
    qed
    with True prems(1) show ?thesis by auto
  next
    case False
    with prems show ?thesis by (subst (asm) poll_until.simps) (auto split: if_splits option.splits)
  qed
qed

definition launches :: "run_effect list \<Rightarrow> run_effect list" where
  "launches acts = filter (\<lambda>a. a = SystemdStart \<or> a = Spawn) acts"

definition stop_requests :: "run_effect list \<Rightarrow> run_effect list" where
  "stop_requests acts = filter (\<lambda>a. a = ConsoleVerb ''stop'') acts"

lemma launches_simps [simp]:
  "launches [] = []" "launches (xs @ ys) = launches xs @ launches ys"
  "launches (x # xs) = (if x = SystemdStart \<or> x = Spawn then x # launches xs else launches xs)"
  by (simp_all add: launches_def)

lemma clear_stale_launches [simp]: "launches (clear_stale w) = []"
  by (simp add: clear_stale_def split: option.splits)

definition start_limit :: "surroundings \<Rightarrow> int" where
  "start_limit su = int (su_check_time su) + int (su_launch_time su) + 20300000000"

definition stop_limit :: "surroundings \<Rightarrow> int" where
  "stop_limit su = int (su_dial_time su) + int (su_request_time su) + (su_grace su + 31) * nano +
     int (su_unit_time su)"

lemma startLocked_result:
  assumes "startLocked su w acts now = (e, acts', t)"
  shows "now \<le> t \<and> t \<le> now + start_limit su \<and>
    (\<exists>new. acts' = acts @ new \<and> length (launches new) \<le> 1 \<and>
      (new \<noteq> [] \<longrightarrow> \<not> Online w \<and> (\<exists>f. su_instance su = Some f \<and> validateStartable f = None)) \<and>
      (e = None \<longrightarrow> launches new \<noteq> [] \<and> fst (State (su_later su (butlast acts') t)) \<noteq> ''stopped''))"
proof (cases "Online w \<or> su_instance su = None \<or> (\<exists>f e. su_instance su = Some f \<and> validateStartable f = Some e)")
  case True
  then have "e \<noteq> None \<and> acts' = acts \<and> now \<le> t \<and> t \<le> now + int (su_check_time su)"
    using assms by (auto simp: startLocked_def Let_def split: if_splits option.splits; metis)
  then show ?thesis by (auto simp: start_limit_def)
next
  case False
  then obtain f where f: "su_instance su = Some f" "validateStartable f = None" "\<not> Online w"
    by (metis not_Some_eq)
  define now1 where "now1 = now + int (su_check_time su) + int (su_launch_time su)"
  obtain le new where l: "launch_server su w = (le, new)" by fastforce
  then have new: "length (launches new) = 1" by (auto simp: launch_server_def split: if_splits)
  define as where "as = (acts @ clear_stale w) @ new @ [TouchStarted]"
  obtain r u where p: "poll_until (\<lambda>t. fst (State (su_later su as t)) \<noteq> ''stopped'') (su_cancel su)
      300000000 now1 (now1 + 20 * nano) = (r, u)" by fastforce
  have b: "now \<le> u" "u \<le> now + start_limit su" "r = PollFound \<Longrightarrow> fst (State (su_later su as u)) \<noteq> ''stopped''"
    using poll_until_result [OF _ p] by (auto simp: nano_def now1_def start_limit_def)
  consider e0 where "le = Some e0" | "le = None" by (cases le) auto
  then show ?thesis
  proof cases
    case 1
    then have "e = Some e0 \<and> acts' = acts @ clear_stale w @ new \<and> t = now1"
      using assms f l by (simp add: startLocked_def Let_def now1_def)
    with f new show ?thesis by (auto simp: now1_def start_limit_def)
  next
    case 2
    then have "startLocked su w acts now =
        (case r of PollFound \<Rightarrow> (None, as @ [AttachConsole], u) | PollCancelled \<Rightarrow> (Some CtxDone, as, u)
         | PollTimedOut \<Rightarrow> (Some NoStartup, as, u))"
      using f l p by (simp add: startLocked_def Let_def as_def now1_def split: poll_result.split)
    with assms f new b show ?thesis by (cases r) (auto simp: as_def butlast_append)
  qed
qed

lemma stopLocked_result:
  assumes "stopLocked su w acts now = (e, acts', t)" "0 \<le> su_grace su" "su_grace su \<le> 1000000000"
  shows "now \<le> t \<and> t \<le> now + stop_limit su \<and>
    (\<exists>new. acts' = acts @ new \<and> launches new = [] \<and> (new \<noteq> [] \<longrightarrow> Online w) \<and>
      (e = None \<longrightarrow> new \<noteq> [] \<and> hd new \<in> {ConsoleVerb ''stop'', SystemdStop} \<and>
         (\<exists>u. now \<le> u \<and> u \<le> t \<and> fst (State (su_later su (acts @ [hd new]) u)) \<in> {''stopped'', ''crashed''})))"
proof -
  have g: "wrap64 (wrap64 (su_grace su + 30) * nano) = (su_grace su + 30) * nano"
    using assms(2,3) by (simp add: wrap64_id min_int64_def max_int64_def nano_def)
  define rq where "rq =
    (if sy_console w then (if su_verb_ok su then None else Some VerbFailed, acts @ [ConsoleVerb ''stop''])
     else if sy_systemd w then (if su_unit_stops su then None else Some UnitError, acts @ [SystemdStop])
     else (Some NoSupervisor, acts))"
  obtain re as where r: "rq = (re, as)" by fastforce
  define now1 where "now1 = now + int (su_dial_time su) +
    (if sy_console w \<or> sy_systemd w then int (su_request_time su) else 0)"
  obtain p u where p: "poll_until (\<lambda>t. fst (State (su_later su as t)) \<in> {''stopped'', ''crashed''}) (su_cancel su)
      500000000 now1 (now1 + (su_grace su + 30) * nano) = (p, u)" by fastforce
  have n1: "now \<le> now1" "now1 \<le> now + int (su_dial_time su) + int (su_request_time su)" by (simp_all add: now1_def)
  have nn: "0 \<le> (su_grace su + 30) * nano" "(su_grace su + 30) * nano + 500000000 \<le> (su_grace su + 31) * nano"
    using assms(2) by (simp_all add: nano_def algebra_simps)
  have b: "now \<le> u" "u + int (su_unit_time su) \<le> now + stop_limit su"
    "p = PollFound \<Longrightarrow> fst (State (su_later su as u)) \<in> {''stopped'', ''crashed''}"
    using poll_until_result [OF _ p] n1 nn by (auto simp: stop_limit_def)
  have n2: "now1 \<le> now + stop_limit su" using n1 nn by (simp add: stop_limit_def)
  have new: "\<exists>new. as = acts @ new \<and> launches new = [] \<and> (re = None \<longrightarrow> (\<exists>a\<in>{ConsoleVerb ''stop'', SystemdStop}. new = [a]))"
    using r by (auto simp: rq_def split: if_splits)
  show ?thesis
  proof (cases "Online w")
    case False
    then have "e = Some NotRunning \<and> acts' = acts \<and> t = now" using assms(1) by (auto simp: stopLocked_def)
    then show ?thesis using n1 n2 by auto
  next
    case True
    show ?thesis
    proof (cases re)
      case (Some x)
      then have "e = Some x \<and> acts' = as \<and> t = now1"
        using assms(1) True r
        by (simp add: stopLocked_def Let_def rq_def [symmetric] now1_def [symmetric])
      with n1 n2 new True show ?thesis by auto
    next
      case None
      with new obtain a where a: "as = acts @ [a]" "a \<in> {ConsoleVerb ''stop'', SystemdStop}" by blast
      have "stopLocked su w acts now =
          (case p of PollFound \<Rightarrow> (None, as @ (if su_instance su \<noteq> None then [TouchStopped] else []) @
                (if sy_systemd w then [SystemdStop] else []), u + (if sy_systemd w then int (su_unit_time su) else 0))
           | PollCancelled \<Rightarrow> (Some CtxDone, as, u) | PollTimedOut \<Rightarrow> (Some StopTimeout, as, u))"
        using True r None p g
        by (simp add: stopLocked_def Let_def rq_def [symmetric] now1_def [symmetric])
      with assms(1) b a True show ?thesis
        by (cases p) (fastforce split: if_splits)+
    qed
  qed
qed

text \<open>C28. Starting and stopping return whenever the calls return that they wait for: a start takes
  at most 20.3 seconds on top of the checks and the launch, a stop the grace period plus 31
  seconds on top of dialling the console, the request and the last stop of the unit (on these the
  code sets no limit); and they leave the lock as they found it. A start launches at most once,
  and only when no other operation runs, the server is not online and its files are in order, the
  licence accepted; it reports success only when the server was then seen not to be stopped. A
  stop reports success only after its request, when the server was since seen stopped or crashed.\<close>

theorem start_and_stop_return:
  assumes "Start su w now = ((e, acts, t), b)" "Stop su w now = ((e', acts', t'), b')"
    "0 \<le> su_grace su" "su_grace su \<le> 1000000000"
  shows "now \<le> t \<and> t \<le> now + int (su_check_time su) + int (su_launch_time su) + 20300000000 \<and>
    b = sy_busy w \<and> length (launches acts) \<le> 1 \<and>
    (launches acts \<noteq> [] \<longrightarrow> sy_busy w = [] \<and> \<not> Online w \<and>
       (\<exists>f. su_instance su = Some f \<and> validateStartable f = None)) \<and>
    (e = None \<longrightarrow> launches acts \<noteq> [] \<and> fst (State (su_later su (butlast acts) t)) \<noteq> ''stopped'') \<and>
    now \<le> t' \<and> t' \<le> now + int (su_dial_time su) + int (su_request_time su) + int (su_unit_time su) +
      (su_grace su + 31) * nano \<and>
    b' = sy_busy w \<and> launches acts' = [] \<and>
    (e' = None \<longrightarrow> acts' \<noteq> [] \<and> hd acts' \<in> {ConsoleVerb ''stop'', SystemdStop} \<and> Online w \<and>
       (\<exists>u. now \<le> u \<and> u \<le> t' \<and> fst (State (su_later su [hd acts'] u)) \<in> {''stopped'', ''crashed''}))"
proof (cases "sy_busy w = []")
  case False
  then have "e = Some (ErrBusy (sy_busy w)) \<and> acts = [] \<and> t = now \<and> b = sy_busy w"
    "e' = Some (ErrBusy (sy_busy w)) \<and> acts' = [] \<and> t' = now \<and> b' = sy_busy w"
    using assms(1,2) by (auto simp: Start_def Stop_def locked_def acquire_def)
  moreover have "0 \<le> (su_grace su + 31) * nano" using assms(3) by (simp add: nano_def)
  ultimately show ?thesis by simp
next
  case True
  from True assms(1,2) have r: "startLocked su (w\<lparr>sy_busy := ''start''\<rparr>) [] now = (e, acts, t)"
    "stopLocked su (w\<lparr>sy_busy := ''stop''\<rparr>) [] now = (e', acts', t')" "b = []" "b' = []"
    by (auto simp: Start_def Stop_def locked_def acquire_def)
  from startLocked_result [OF r(1)] stopLocked_result [OF r(2) assms(3,4)] True r(3,4) show ?thesis
    by (auto simp: start_limit_def stop_limit_def)
qed

text \<open>C29. A restart launches a server only when none was online, or after its stop request, once the
  server was seen stopped or crashed; when the stop fails, nothing is launched. All this happens
  under one hold of the lock.\<close>

theorem restart_stops_first:
  assumes "Restart su w now = ((e, acts, t), b)" "launches acts \<noteq> []"
    "0 \<le> su_grace su" "su_grace su \<le> 1000000000"
  shows "sy_busy w = [] \<and> b = [] \<and> length (launches acts) = 1 \<and>
    (\<not> Online w \<or>
      (\<exists>stop u. hd acts = stop \<and> stop \<in> {ConsoleVerb ''stop'', SystemdStop} \<and> now \<le> u \<and> u \<le> t \<and>
         fst (State (su_later su [stop] u)) \<in> {''stopped'', ''crashed''}))"
proof -
  have "sy_busy w = []"
    using assms(1,2) by (auto simp: Restart_def locked_def acquire_def split: if_splits)
  define w' where "w' = w\<lparr>sy_busy := ''restart''\<rparr>"
  have online: "Online w' = Online w" by (simp add: w'_def)
  obtain e1 a1 t1 where s: "(if Online w then stopLocked su w' [] now else (None, [], now)) = (e1, a1, t1)"
    by (metis prod_cases3)
  have a1: "launches a1 = []" "now \<le> t1"
    using s stopLocked_result [of su w' "[]" now e1 a1 t1] assms(3,4) by (auto split: if_splits)
  have run: "b = []" "(case e1 of Some x \<Rightarrow> (Some (RestartStop x), a1, t1)
      | None \<Rightarrow> case startLocked su (if Online w then su_later su a1 t1 else w') a1 t1 of
          (Some x, a, u) \<Rightarrow> (Some (RestartStart x), a, u) | (None, a, u) \<Rightarrow> (None, a, u)) = (e, acts, t)"
    using assms(1) \<open>sy_busy w = []\<close>
    unfolding Restart_def locked_def acquire_def Let_def
    by (simp_all only: if_False if_True simp_thms sum.case w'_def [symmetric] prod.inject online s prod.case)
  with assms(2) a1 have "e1 = None" by (cases e1) auto
  obtain e2 a2 t2 where st: "startLocked su (if Online w then su_later su a1 t1 else w') a1 t1 = (e2, a2, t2)"
    by (metis prod_cases3)
  with run(2) \<open>e1 = None\<close> have r: "acts = a2" "t = t2" by (auto split: option.splits)
  from startLocked_result [OF st] obtain new where new: "acts = a1 @ new" "length (launches new) \<le> 1" "t1 \<le> t"
    by (auto simp: r)
  then have one: "length (launches acts) = 1" using a1 assms(2) by (cases "launches new") auto
  show ?thesis
  proof (cases "Online w")
    case True
    from stopLocked_result [OF _ assms(3,4), of w' "[]" now e1 a1 t1] s True \<open>e1 = None\<close>
    have "a1 \<noteq> []" "hd a1 \<in> {ConsoleVerb ''stop'', SystemdStop}"
      "\<exists>u. now \<le> u \<and> u \<le> t1 \<and> fst (State (su_later su [hd a1] u)) \<in> {''stopped'', ''crashed''}" by auto
    with one run(1) \<open>sy_busy w = []\<close> new a1(2) show ?thesis by (simp add: hd_append) (meson order_trans)
  qed (use one run(1) \<open>sy_busy w = []\<close> in simp)
qed

section \<open>The restart delay\<close>

text \<open>A system that shows the state file of supervisor \<open>s\<close>, whose processes are gone.\<close>

definition shows_dead :: "system \<Rightarrow> int \<Rightarrow> sup \<Rightarrow> bool" where
  "shows_dead w java s \<longleftrightarrow> sy_file w = Some (snapshotLocked java s) \<and>
     \<not> processAlive (sy_alive w) (s_script_pid s) \<and> \<not> processAlive (sy_alive w) java"

lemma dead_stale: "shows_dead w java s \<Longrightarrow> fst (StaleCheck (sy_alive w) (sy_file w))"
  by (auto simp: shows_dead_def StaleCheck_def snapshotLocked_def processAlive_def)

lemma dead_offline: "shows_dead w java s \<Longrightarrow> \<not> Online w"
proof -
  assume d: "shows_dead w java s"
  obtain b where "StaleCheck (sy_alive w) (sy_file w) = (True, b)" using dead_stale [OF d] by (metis prod.collapse)
  then have "fst (State w) \<in> {''stopped'', ''crashed''}"
    using d by (cases b) (auto simp: State_def shows_dead_def)
  then show ?thesis by (auto simp: Online_def)
qed

lemma delay_relaunches:
  assumes "s_phase s = Delaying d" "\<not> s_cancelled s" "s_state s \<in> {StateRestarting, StateCrashed}"
  shows "\<exists>t. sup_run s t \<and> s_phase t = Launching"
proof -
  define b where "b = s\<lparr>s_now := max (s_now s) d\<rparr>"
  define c where "c = b\<lparr>s_phase := AtTop\<rparr>"
  have "sup_step s b" unfolding b_def by (rule sup_step.tick) simp
  moreover have "sup_step b c"
    unfolding c_def by (rule sup_step.timer [of _ d]) (simp_all add: b_def assms(1))
  moreover have "sup_step c (start_begin c)" by (rule sup_step.top) (simp add: c_def)
  ultimately have "sup_run s (start_begin c)" by (meson sup_run.step sup_run.refl)
  moreover have "s_phase (start_begin c) = Launching"
    using assms(2,3) by (auto simp: start_begin_def c_def b_def)
  ultimately show ?thesis by blast
qed

text \<open>While a supervisor waits to restart a crashed or restarting server, the control plane takes the
  server for stopped: it refuses to stop it, and a start removes the state file and the socket of
  the living supervisor and, without systemd, spawns a second one. The first goes on to launch its
  server as well, so that two run in the same directory.\<close>

lemma start_in_restart_delay_doubles:
  assumes "s_phase s = Delaying d" "\<not> s_cancelled s" "s_state s \<in> {StateRestarting, StateCrashed}"
    "shows_dead w java s" "sy_busy w = []" "\<not> sy_systemd w" "su_spawn_ok su"
    "su_instance su = Some f" "validateStartable f = None"
  shows "fst (fst (Stop su w now)) = Some NotRunning \<and>
    take 4 (fst (snd (fst (Start su w now)))) = [RemoveState, RemoveSocket, Spawn, TouchStarted] \<and>
    (\<exists>t. sup_run s t \<and> s_phase t = Launching)"
proof (intro conjI)
  note off = dead_offline [OF assms(4)]
  show "fst (fst (Stop su w now)) = Some NotRunning"
    using off assms(5) by (simp add: Stop_def locked_def acquire_def stopLocked_def)
  have "clear_stale (w\<lparr>sy_busy := x\<rparr>) = [RemoveState, RemoveSocket]" for x
    using dead_stale [OF assms(4)] assms(4) by (simp add: clear_stale_def shows_dead_def)
  then show "take 4 (fst (snd (fst (Start su w now)))) = [RemoveState, RemoveSocket, Spawn, TouchStarted]"
    using off assms(5-9)
    by (simp add: Start_def locked_def acquire_def startLocked_def launch_server_def Let_def
        split: prod.split poll_result.split)
qed (rule delay_relaunches [OF assms(1-3)])

section \<open>Forced stop\<close>

text \<open>The process group of a server stays in the state file after a clean stop, and a forced stop
  kills the group with that number without a look at what it is now: with the server stopped, and
  nothing of it alive, it sends SIGKILL to whichever processes have got the number since.\<close>

lemma force_stop_kills_reused_group:
  assumes "0 < g"
  shows "\<exists>s. sup_run (New cfg t0) s \<and> s_phase s = Finished None \<and> s_state s = StateStopped \<and> s_cmd s = None \<and>
    (\<forall>w. sy_file w = Some (snapshotLocked java s) \<longrightarrow> sy_busy w = [] \<longrightarrow> \<not> sy_console w \<longrightarrow>
       State w = (''stopped'', Some (snapshotLocked java s)) \<and> fst (fst (Stop su w now)) = Some NotRunning \<and>
       KillGroup g \<in> set (fst (snd (fst (ForceStop_runner su w now)))))"
proof -
  let ?s0 = "New cfg t0"
  let ?s1 = "start_begin ?s0" let ?s2 = "start_end (Some (g, g)) ?s1" let ?s3 = "reap 0 [] ?s2"
  let ?s4 = "classify 0 [] ?s3" let ?s5 = "decide_restart StateStopped ?s4"
  have ph: "s_phase ?s0 = AtTop" "s_phase ?s1 = Launching" "s_phase ?s2 = Waiting" "s_phase ?s3 = Reaped 0 []"
    "s_phase ?s4 = Deciding StateStopped"
    by (simp_all add: sup_ops New_def Let_def)
  have run: "sup_run ?s0 ?s5"
    using sup_step.top [OF ph(1)] sup_step.launch [OF ph(2)] sup_step.exited [OF ph(3)]
      sup_step.classified [OF ph(4)] sup_step.decided [OF ph(5)]
    by (meson sup_run.step sup_run.refl)
  have s5: "s_phase ?s5 = Finished None" "s_state ?s5 = StateStopped" "s_cmd ?s5 = None" "s_pgid ?s5 = g"
    by (simp_all add: sup_ops New_def Let_def)
  have "State w = (''stopped'', Some (snapshotLocked java ?s5)) \<and> fst (fst (Stop su w now)) = Some NotRunning \<and>
      KillGroup g \<in> set (fst (snd (fst (ForceStop_runner su w now))))"
    if w: "sy_file w = Some (snapshotLocked java ?s5)" "sy_busy w = []" "\<not> sy_console w" for w
  proof -
    have st: "State w = (''stopped'', Some (snapshotLocked java ?s5))"
      using w(1) s5(2) by (simp add: State_def snapshotLocked_def)
    then have "\<not> Online w" by (simp add: Online_def)
    with w s5(4) assms st show ?thesis
      by (simp add: Stop_def ForceStop_runner_def locked_def acquire_def stopLocked_def snapshotLocked_def Let_def)
  qed
  with run s5 show ?thesis by blast
qed

section \<open>Autostart\<close>

text \<open>The autostart starts nothing that is not to be started automatically, nothing after a shutdown
  found unclean without recovery, and nothing when the server was or is by then online.\<close>

lemma autostart_respects_recovery:
  assumes "bootAutostart inst su w later now = BootStarted unclean out"
  shows "\<exists>b t. inst = Some b \<and> bt_autostart b \<and> (unclean \<longrightarrow> bt_recover b) \<and> now \<le> t \<and> \<not> Online (later t) \<and>
    (\<forall>ps. sy_file w = Some ps \<longrightarrow> \<not> processAlive (sy_alive w) (ps_script_pid ps) \<and>
       \<not> processAlive (sy_alive w) (ps_java_pid ps) \<and>
       (ps_state ps \<in> {''running'', ''starting'', ''stopping''} \<longrightarrow> unclean))"
proof -
  from assms obtain b where b: "inst = Some b" "bt_autostart b"
    by (auto simp: bootAutostart_def split: option.splits if_splits)
  define check where
    "check = (case sy_file w of None \<Rightarrow> (True, False) | Some ps \<Rightarrow> StaleCheck (sy_alive w) (Some ps))"
  obtain st un where c: "check = (st, un)" by fastforce
  define t where "t = now + max 0 (wrap64 (bt_delay b * nano))"
  from assms b c have r: "st" "un = unclean" "unclean \<longrightarrow> bt_recover b" "\<not> Online (later t)"
    by (auto simp: bootAutostart_def Let_def check_def [symmetric] t_def [symmetric] split: if_splits bool.splits)
  have "now \<le> t" by (simp add: t_def)
  moreover have "\<forall>ps. sy_file w = Some ps \<longrightarrow> \<not> processAlive (sy_alive w) (ps_script_pid ps) \<and>
       \<not> processAlive (sy_alive w) (ps_java_pid ps) \<and>
       (ps_state ps \<in> {''running'', ''starting'', ''stopping''} \<longrightarrow> unclean)"
    using c r(1,2) by (auto simp: check_def StaleCheck_def split: if_splits)
  ultimately show ?thesis using b r(3,4) by blast
qed

text \<open>A restart the shutdown interrupted does not count as unclean.\<close>

lemma interrupted_restart_is_clean:
  "StaleCheck alive (Some (snapshotLocked 0 s)) = (True, False)"
  if "s_state s = StateRestarting" "\<not> processAlive alive (s_script_pid s)"
  using that by (simp add: StaleCheck_def snapshotLocked_def processAlive_def)

section \<open>Witnesses\<close>

definition delayed_sup :: sup where
  "delayed_sup = decide_restart StateCrashed (classify 1 [] (reap 1 [] (start_end (Some (42, 42))
     (start_begin (New \<lparr>sc_policy = ''always'', sc_delay = 10, sc_grace = 30, sc_max_crash = 5\<rparr> 0)))))"

definition sample_files :: start_files where
  "sample_files = \<lparr>sf_dir = True, sf_script = ''run.sh'', sf_script_exists = True, sf_java = True,
     sf_eula = Some ''eula=true''\<rparr>"

definition delayed_system :: system where
  "delayed_system = \<lparr>sy_file = Some (snapshotLocked 43 delayed_sup), sy_console = True, sy_alive = (\<lambda>_. False),
     sy_systemd = False, sy_busy = []\<rparr>"

definition running_system :: system where
  "running_system = \<lparr>sy_file = Some (snapshotLocked 43 (running_sup\<lparr>s_script_pid := 42\<rparr>)), sy_console = True,
     sy_alive = (\<lambda>p. p \<in> {42, 43}), sy_systemd = False, sy_busy = []\<rparr>"

definition sample_surroundings :: surroundings where
  "sample_surroundings = \<lparr>su_instance = Some sample_files, su_unit_ok = True, su_unit_stops = True,
     su_spawn_ok = True, su_verb_ok = True, su_cancel = None, su_grace = 30, su_check_time = 0,
     su_launch_time = 7, su_dial_time = 1, su_request_time = 2, su_unit_time = 3,
     su_later = (\<lambda>acts t. if launches acts \<noteq> [] then running_system else delayed_system)\<rparr>"

lemma delayed_phase:
  "s_phase delayed_sup = Delaying (10 * nano)" "s_state delayed_sup = StateCrashed" "\<not> s_cancelled delayed_sup"
  "s_script_pid delayed_sup = 42"
proof -
  have "wrap64 (10 * nano) = 10 * nano" by (simp add: wrap64_def nano_def)
  then show "s_phase delayed_sup = Delaying (10 * nano)" "s_state delayed_sup = StateCrashed"
    "\<not> s_cancelled delayed_sup" "s_script_pid delayed_sup = 42"
    by (simp_all add: delayed_sup_def sup_ops New_def Let_def apply_defaults_def crashLooping_def recentCrashes_def
        ten_minutes_def restart_delay_def double_delay.simps nano_def)
qed

lemma delayed_dead: "shows_dead delayed_system 43 delayed_sup"
  by (simp add: shows_dead_def delayed_system_def processAlive_def)

lemma sample_startable: "validateStartable sample_files = None"
proof -
  have "containsEulaTrue ''eula=true''" by code_simp
  then show ?thesis by (simp add: validateStartable_def sample_files_def)
qed

lemma delayed_fields: "sy_busy delayed_system = []" "sy_systemd delayed_system = False"
  "sy_file delayed_system = Some (snapshotLocked 43 delayed_sup)" "sy_alive delayed_system = (\<lambda>_. False)"
  by (simp_all add: delayed_system_def)

lemma start_in_restart_delay_doubles_witness:
  "fst (fst (Stop sample_surroundings delayed_system 0)) = Some NotRunning \<and>
   (\<exists>t. sup_run delayed_sup t \<and> s_phase t = Launching)"
  using start_in_restart_delay_doubles [OF delayed_phase(1,3) _ delayed_dead _ _ _ _ sample_startable,
      of sample_surroundings 0]
  by (simp add: delayed_phase delayed_fields sample_surroundings_def)

lemma force_stop_kills_reused_group_witness:
  "\<exists>s. sup_run (New (s_cfg running_sup) 0) s \<and> s_state s = StateStopped"
  using force_stop_kills_reused_group [of 42 "s_cfg running_sup" 0 43 sample_surroundings 0] by auto

lemma delayed_start:
  "Start sample_surroundings delayed_system 0 =
   ((None, [RemoveState, RemoveSocket, Spawn, TouchStarted, AttachConsole], 7), [])"
proof -
  have off: "\<not> Online delayed_system" by (rule dead_offline [OF delayed_dead])
  have st: "clear_stale (delayed_system\<lparr>sy_busy := ''start''\<rparr>) = [RemoveState, RemoveSocket]"
    using dead_stale [OF delayed_dead] by (simp add: clear_stale_def delayed_fields)
  have "fst (State running_system) = ''running''"
    by (simp add: State_def running_system_def snapshotLocked_def running_sup_def New_def StaleCheck_def processAlive_def)
  with off st sample_startable show ?thesis
    by (simp add: Start_def locked_def acquire_def startLocked_def launch_server_def Let_def
        sample_surroundings_def delayed_fields poll_until.simps nano_def)
qed

lemma delayed_stop: "Stop sample_surroundings delayed_system 0 = ((Some NotRunning, [], 0), [])"
  using dead_offline [OF delayed_dead]
  by (simp add: Stop_def locked_def acquire_def stopLocked_def delayed_fields)

lemma start_and_stop_return_witness:
  "length (launches [RemoveState, RemoveSocket, Spawn, TouchStarted, AttachConsole]) \<le> 1 \<and> \<not> Online delayed_system"
  using start_and_stop_return [OF delayed_start delayed_stop] by (simp add: sample_surroundings_def)

lemma restart_stops_first_witness:
  "\<exists>acts t. Restart sample_surroundings delayed_system 0 = ((None, acts, t), []) \<and> length (launches acts) = 1"
proof -
  have off: "\<not> Online delayed_system" by (rule dead_offline [OF delayed_dead])
  have s: "startLocked sample_surroundings delayed_system [] 0 =
      (None, [RemoveState, RemoveSocket, Spawn, TouchStarted, AttachConsole], 7)"
    using delayed_start by (simp add: Start_def locked_def acquire_def delayed_fields)
  with off s have r: "Restart sample_surroundings delayed_system 0 =
      ((None, [RemoveState, RemoveSocket, Spawn, TouchStarted, AttachConsole], 7), [])"
    by (simp add: Restart_def locked_def acquire_def delayed_fields)
  from restart_stops_first [OF r] r show ?thesis by (simp add: sample_surroundings_def)
qed

lemma autostart_respects_recovery_witness:
  "\<exists>out. bootAutostart (Some \<lparr>bt_autostart = True, bt_recover = False, bt_delay = 0\<rparr>) sample_surroundings
     delayed_system (\<lambda>_. delayed_system) 0 = BootStarted False out \<and> \<not> Online delayed_system"
proof -
  have st: "StaleCheck (sy_alive delayed_system) (sy_file delayed_system) = (True, False)"
    using delayed_phase by (simp add: StaleCheck_def delayed_fields snapshotLocked_def processAlive_def)
  have off: "\<not> Online delayed_system" by (rule dead_offline [OF delayed_dead])
  have r: "bootAutostart (Some \<lparr>bt_autostart = True, bt_recover = False, bt_delay = 0\<rparr>) sample_surroundings
     delayed_system (\<lambda>_. delayed_system) 0 = BootStarted False (fst (Start sample_surroundings delayed_system 0))"
    using off st by (simp add: bootAutostart_def Let_def sample_surroundings_def delayed_fields wrap64_def)
  from autostart_respects_recovery [OF r] r show ?thesis by blast
qed

end
