(* ===== verification/Operations.thy ===== *)
theory Operations
  imports Prelude
begin

text \<open>
  Long-running operations (\<open>source/internal/operations/operations.go\<close>): the table of operations with
  their stages and the cancel functions registered for them, and the lock file that keeps
  processes from working on the same files. The lock is a step relation: every system call of
  \<open>Acquire\<close> is one step, and the steps of several threads of any number of processes interleave.
  Times are seconds.
\<close>

section \<open>The table\<close>

record operation =
  op_id :: string
  op_kind :: string
  op_instance :: int
  op_stage :: string
  op_message :: string
  op_bytes :: int
  op_total :: int
  op_created_by :: int
  op_created :: int
  op_started :: "int option"
  op_progress :: "int option"
  op_finished :: "int option"
  op_error :: string
  op_detail :: string

text \<open>The rows in the order of their insertion, the registered cancel functions, and what the
  subscriber was told.\<close>

record op_store =
  os_rows :: "operation list"
  os_cancels :: "string \<rightharpoonup> nat"
  os_notified :: "operation list"

definition Terminal :: "string \<Rightarrow> bool" where
  "Terminal stage \<longleftrightarrow> stage = ''completed'' \<or> stage = ''failed'' \<or> stage = ''cancelled''"

definition Get_op :: "op_store \<Rightarrow> string \<Rightarrow> operation option" where
  "Get_op s i = List.find (\<lambda>r. op_id r = i) (os_rows s)"

definition update_op :: "string \<Rightarrow> (operation \<Rightarrow> operation) \<Rightarrow> op_store \<Rightarrow> op_store" where
  "update_op i f s = s\<lparr>os_rows := map (\<lambda>r. if op_id r = i then f r else r) (os_rows s)\<rparr>"

definition broadcast_op :: "string \<Rightarrow> op_store \<Rightarrow> op_store" where
  "broadcast_op i s = (case Get_op s i of None \<Rightarrow> s | Some r \<Rightarrow> s\<lparr>os_notified := os_notified s @ [r]\<rparr>)"

text \<open>\<open>i\<close> is the random token; an id that is taken violates the primary key.\<close>

definition Create_op :: "string \<Rightarrow> string \<Rightarrow> int \<Rightarrow> int \<Rightarrow> string \<Rightarrow> int \<Rightarrow> op_store \<Rightarrow> operation option \<times> op_store" where
  "Create_op i kind inst by_user detail now s =
     (if Get_op s i \<noteq> None then (None, s)
      else let r = \<lparr>op_id = i, op_kind = kind, op_instance = inst, op_stage = ''queued'', op_message = [],
                    op_bytes = 0, op_total = 0, op_created_by = by_user, op_created = now, op_started = None,
                    op_progress = None, op_finished = None, op_error = [], op_detail = detail\<rparr>
           in (Some r, s\<lparr>os_rows := os_rows s @ [r]\<rparr>))"

definition RegisterCancel :: "string \<Rightarrow> nat \<Rightarrow> op_store \<Rightarrow> op_store" where
  "RegisterCancel i c s = s\<lparr>os_cancels := (os_cancels s)(i \<mapsto> c)\<rparr>"

text \<open>What \<open>RegisterCancel\<close> returns.\<close>

definition Unregister :: "string \<Rightarrow> op_store \<Rightarrow> op_store" where
  "Unregister i s = s\<lparr>os_cancels := (os_cancels s)(i := None)\<rparr>"

text \<open>The function called, if any; the marking is left to the worker.\<close>

definition Cancel_op :: "string \<Rightarrow> op_store \<Rightarrow> nat option" where
  "Cancel_op i s = os_cancels s i"

definition SetStage :: "string \<Rightarrow> string \<Rightarrow> string \<Rightarrow> int \<Rightarrow> op_store \<Rightarrow> op_store" where
  "SetStage i stage msg now s = broadcast_op i (update_op i (\<lambda>r. r\<lparr>op_stage := stage, op_message := msg,
     op_started := (case op_started r of Some t \<Rightarrow> Some t | None \<Rightarrow> if stage \<noteq> ''queued'' then Some now else None),
     op_progress := Some now\<rparr>) s)"

definition Progress :: "string \<Rightarrow> int \<Rightarrow> int \<Rightarrow> int \<Rightarrow> op_store \<Rightarrow> op_store" where
  "Progress i done tot now s = broadcast_op i
     (update_op i (\<lambda>r. r\<lparr>op_bytes := done, op_total := tot, op_progress := Some now\<rparr>) s)"

definition Finish :: "string \<Rightarrow> string \<Rightarrow> string \<Rightarrow> int \<Rightarrow> op_store \<Rightarrow> op_store" where
  "Finish i stage err now s = broadcast_op i (Unregister i
     (update_op i (\<lambda>r. r\<lparr>op_stage := stage, op_error := err, op_finished := Some now\<rparr>) s))"

text \<open>The hundred newest; rows of the same second in the order of their insertion.\<close>

definition List_ops :: "bool \<Rightarrow> op_store \<Rightarrow> operation list" where
  "List_ops active s = take 100 (sort_key (\<lambda>r. - op_created r)
     (filter (\<lambda>r. active \<longrightarrow> \<not> Terminal (op_stage r)) (os_rows s)))"

definition CleanStale :: "int \<Rightarrow> op_store \<Rightarrow> op_store" where
  "CleanStale now s = s\<lparr>os_rows := map (\<lambda>r. if Terminal (op_stage r) then r
     else r\<lparr>op_stage := ''failed'', op_error := ''interrupted by Bonghos restart'', op_finished := Some now\<rparr>) (os_rows s)\<rparr>"

datatype op_event =
    EvCreate string string int int string int
  | EvRegister string nat | EvUnregister string
  | EvStage string string string int
  | EvProgress string int int int
  | EvFinish string string string int
  | EvClean int

fun op_step :: "op_store \<Rightarrow> op_event \<Rightarrow> op_store" where
  "op_step s (EvCreate i k inst u d t) = snd (Create_op i k inst u d t s)"
| "op_step s (EvRegister i c) = RegisterCancel i c s"
| "op_step s (EvUnregister i) = Unregister i s"
| "op_step s (EvStage i st msg t) = SetStage i st msg t s"
| "op_step s (EvProgress i d tot t) = Progress i d tot t s"
| "op_step s (EvFinish i st e t) = Finish i st e t s"
| "op_step s (EvClean t) = CleanStale t s"

definition empty_ops :: op_store where
  "empty_ops = \<lparr>os_rows = [], os_cancels = Map.empty, os_notified = []\<rparr>"

section \<open>The lock\<close>

text \<open>What the file holds: nothing yet, or the process that took the lock. A file is told apart from
  one created later under the same name by its number.\<close>

datatype lock_content = Empty | Holder int

datatype lock_pc =
    Trying nat              \<comment> \<open>before the exclusive open of attempt 0 or 1\<close>
  | Created nat             \<comment> \<open>has created file number n, and is to write to it\<close>
  | Holding nat             \<comment> \<open>has the lock, written to file number n\<close>
  | Exists nat              \<comment> \<open>found the file in the way\<close>
  | Stale nat               \<comment> \<open>has read that its holder is dead\<close>
  | Refused                 \<comment> \<open>returned an error\<close>
  | Released

record 't lock_world =
  lw_file :: "(nat \<times> lock_content) option"
  lw_next :: nat
  lw_alive :: "int \<Rightarrow> bool"
  lw_pc :: "'t \<Rightarrow> lock_pc"

definition set_pc :: "'t \<Rightarrow> lock_pc \<Rightarrow> 't lock_world \<Rightarrow> 't lock_world" where
  "set_pc t pc w = w\<lparr>lw_pc := (lw_pc w)(t := pc)\<rparr>"

text \<open>The exclusive open.\<close>

definition lock_open :: "'t \<Rightarrow> nat \<Rightarrow> 't lock_world \<Rightarrow> 't lock_world" where
  "lock_open t n w =
     (case lw_file w of
        None \<Rightarrow> set_pc t (Created (lw_next w)) (w\<lparr>lw_file := Some (lw_next w, Empty), lw_next := Suc (lw_next w)\<rparr>)
      | Some _ \<Rightarrow> set_pc t (Exists n) w)"

text \<open>The write, which goes to the file that was opened whatever has its name by now.\<close>

definition lock_write :: "int \<Rightarrow> 't \<Rightarrow> nat \<Rightarrow> 't lock_world \<Rightarrow> 't lock_world" where
  "lock_write pid t k w = set_pc t (Holding k)
     (case lw_file w of
        Some (j, c) \<Rightarrow> if j = k then w\<lparr>lw_file := Some (k, Holder pid)\<rparr> else w
      | None \<Rightarrow> w)"

text \<open>The read of a lock in the way: only a recorded holder that is dead makes it stale.\<close>

definition lock_read :: "'t \<Rightarrow> nat \<Rightarrow> 't lock_world \<Rightarrow> 't lock_world" where
  "lock_read t n w =
     (case lw_file w of
        Some (_, Holder p) \<Rightarrow> set_pc t (if 0 < p \<and> \<not> lw_alive w p then Stale n else Refused) w
      | _ \<Rightarrow> set_pc t Refused w)"

definition lock_reclaim :: "'t \<Rightarrow> nat \<Rightarrow> 't lock_world \<Rightarrow> 't lock_world" where
  "lock_reclaim t n w = set_pc t (if n + 1 < 2 then Trying (n + 1) else Refused) (w\<lparr>lw_file := None\<rparr>)"

definition lock_release :: "'t \<Rightarrow> 't lock_world \<Rightarrow> 't lock_world" where
  "lock_release t w = set_pc t Released (w\<lparr>lw_file := None\<rparr>)"

text \<open>\<open>pid t\<close> is the process of thread \<open>t\<close>.\<close>

inductive lock_step :: "('t \<Rightarrow> int) \<Rightarrow> 't lock_world \<Rightarrow> 't lock_world \<Rightarrow> bool" for pid where
  opens: "lw_pc w t = Trying n \<Longrightarrow> lock_step pid w (lock_open t n w)"
| writes: "lw_pc w t = Created k \<Longrightarrow> lock_step pid w (lock_write (pid t) t k w)"
| reads: "lw_pc w t = Exists n \<Longrightarrow> lock_step pid w (lock_read t n w)"
| reclaims: "lw_pc w t = Stale n \<Longrightarrow> lock_step pid w (lock_reclaim t n w)"
| releases: "lw_pc w t = Holding k \<Longrightarrow> lock_step pid w (lock_release t w)"
| starts: "lw_pc w t = Released \<or> lw_pc w t = Refused \<Longrightarrow> lock_step pid w (set_pc t (Trying 0) w)"

inductive lock_run :: "('t \<Rightarrow> int) \<Rightarrow> 't lock_world \<Rightarrow> 't lock_world \<Rightarrow> bool" for pid where
  lock_refl: "lock_run pid w w"
| lock_more: "lock_run pid w u \<Longrightarrow> lock_step pid u v \<Longrightarrow> lock_run pid w v"

fun owning :: "lock_pc \<Rightarrow> bool" where
  "owning (Created k) = True"
| "owning (Holding k) = True"
| "owning pc = False"

definition owns :: "'t lock_world \<Rightarrow> 't \<Rightarrow> bool" where
  "owns w t = owning (lw_pc w t)"

text \<open>\<open>Acquire\<close> alone: the steps of one thread, at most eight.\<close>

fun acquire_steps :: "int \<Rightarrow> 't \<Rightarrow> nat \<Rightarrow> 't lock_world \<Rightarrow> 't lock_world" where
  "acquire_steps pid t 0 w = w"
| "acquire_steps pid t (Suc m) w =
     (case lw_pc w t of
        Trying n \<Rightarrow> acquire_steps pid t m (lock_open t n w)
      | Created k \<Rightarrow> acquire_steps pid t m (lock_write pid t k w)
      | Exists n \<Rightarrow> acquire_steps pid t m (lock_read t n w)
      | Stale n \<Rightarrow> acquire_steps pid t m (lock_reclaim t n w)
      | _ \<Rightarrow> w)"

definition Acquire :: "int \<Rightarrow> 't \<Rightarrow> 't lock_world \<Rightarrow> 't lock_world" where
  "Acquire pid t w = acquire_steps pid t 8 (set_pc t (Trying 0) w)"

section \<open>The table keeps its shape\<close>

text \<open>A row that has not started is queued, or was ended before it started.\<close>

definition row_ok :: "operation \<Rightarrow> bool" where
  "row_ok r \<longleftrightarrow> (op_started r = None \<longrightarrow> op_stage r = ''queued'' \<or> op_finished r \<noteq> None)"

definition ops_ok :: "op_store \<Rightarrow> bool" where
  "ops_ok s \<longleftrightarrow> distinct (map op_id (os_rows s)) \<and> list_all row_ok (os_rows s)"

lemma broadcast_op_rows [simp]: "os_rows (broadcast_op i s) = os_rows s" "os_cancels (broadcast_op i s) = os_cancels s"
  by (simp_all add: broadcast_op_def split: option.split)

lemma Unregister_rows [simp]: "os_rows (Unregister i s) = os_rows s"
  by (simp add: Unregister_def)

lemma ops_ok_cong: "os_rows t = os_rows s \<Longrightarrow> ops_ok t = ops_ok s"
  by (simp add: ops_ok_def)

lemma Get_op_None: "Get_op s i = None \<longleftrightarrow> i \<notin> op_id ` set (os_rows s)"
  unfolding Get_op_def by (induction "os_rows s" arbitrary: s) (auto simp: find_None_iff)

lemma map_rows_ok:
  assumes "ops_ok s" "\<And>r. op_id (f r) = op_id r" "\<And>r. row_ok r \<Longrightarrow> row_ok (f r)"
  shows "ops_ok (s\<lparr>os_rows := map f (os_rows s)\<rparr>)"
  using assms by (auto simp: ops_ok_def list_all_iff comp_def)

lemma update_op_ok:
  assumes "ops_ok s" "\<And>r. op_id (f r) = op_id r" "\<And>r. row_ok r \<Longrightarrow> row_ok (f r)"
  shows "ops_ok (update_op i f s)"
  unfolding update_op_def by (rule map_rows_ok) (use assms in auto)

lemma op_step_ok: "ops_ok s \<Longrightarrow> ops_ok (op_step s e)"
proof (cases e)
  case (EvCreate i k inst u d t)
  assume "ops_ok s"
  with EvCreate show ?thesis by (auto simp: Create_op_def Get_op_None ops_ok_def row_ok_def Let_def)
next
  case (EvStage i st msg t)
  assume "ops_ok s"
  then have "ops_ok (update_op i (\<lambda>r. r\<lparr>op_stage := st, op_message := msg,
      op_started := (case op_started r of Some t \<Rightarrow> Some t | None \<Rightarrow> if st \<noteq> ''queued'' then Some t else None),
      op_progress := Some t\<rparr>) s)"
    by (rule update_op_ok) (auto simp: row_ok_def split: option.splits)
  with EvStage show ?thesis by (simp add: SetStage_def ops_ok_cong [OF broadcast_op_rows(1)])
next
  case (EvProgress i b tot t)
  assume "ops_ok s"
  then have "ops_ok (update_op i (\<lambda>r. r\<lparr>op_bytes := b, op_total := tot, op_progress := Some t\<rparr>) s)"
    by (rule update_op_ok) (auto simp: row_ok_def)
  with EvProgress show ?thesis by (simp add: Progress_def ops_ok_cong [OF broadcast_op_rows(1)])
next
  case (EvFinish i st err t)
  assume "ops_ok s"
  then have "ops_ok (update_op i (\<lambda>r. r\<lparr>op_stage := st, op_error := err, op_finished := Some t\<rparr>) s)"
    by (rule update_op_ok) (auto simp: row_ok_def)
  with EvFinish show ?thesis
    by (simp add: Finish_def ops_ok_cong [OF broadcast_op_rows(1)] ops_ok_cong [OF Unregister_rows])
next
  case (EvClean t)
  assume ok: "ops_ok s"
  have "ops_ok (CleanStale t s)" unfolding CleanStale_def
    by (rule map_rows_ok [OF ok]) (auto simp: row_ok_def)
  with EvClean show ?thesis by simp
qed (simp_all add: RegisterCancel_def ops_ok_def)

lemma sort_key_keeps: "set (sort_key f xs) = set xs" "length (sort_key f xs) = length xs"
  by simp_all

lemma List_ops_set: "set (List_ops active s) \<subseteq> {r \<in> set (os_rows s). active \<longrightarrow> \<not> Terminal (op_stage r)}"
proof -
  have "set (List_ops active s) \<subseteq> set (sort_key (\<lambda>r. - op_created r)
      (filter (\<lambda>r. active \<longrightarrow> \<not> Terminal (op_stage r)) (os_rows s)))"
    unfolding List_ops_def by (rule set_take_subset)
  then show ?thesis by simp
qed

text \<open>C30. Whatever events a table of operations has seen, its ids are distinct and every row is of the
  right shape: one that has not started is queued or was ended; a list holds at most a hundred
  rows of the table, the active list only rows that have not ended. After the cleaning at the
  start of the control plane no operation is active, and those that had ended are as before.\<close>

theorem operations_well_formed:
  "let s = foldl op_step empty_ops es in
   distinct (map op_id (os_rows s)) \<and>
   (\<forall>r\<in>set (os_rows s). op_started r = None \<longrightarrow> op_stage r = ''queued'' \<or> op_finished r \<noteq> None) \<and>
   length (List_ops active s) \<le> 100 \<and>
   set (List_ops active s) \<subseteq> {r \<in> set (os_rows s). active \<longrightarrow> \<not> Terminal (op_stage r)} \<and>
   List_ops True (CleanStale t s) = [] \<and>
   length (os_rows (CleanStale t s)) = length (os_rows s) \<and>
   (\<forall>r\<in>set (os_rows s). Terminal (op_stage r) \<longrightarrow> r \<in> set (os_rows (CleanStale t s)))"
proof -
  define s where "s = foldl op_step empty_ops es"
  have "ops_ok empty_ops" by (simp add: empty_ops_def ops_ok_def)
  then have "ops_ok s" unfolding s_def by (rule foldl_preserves) (rule op_step_ok)
  then have ok: "distinct (map op_id (os_rows s))"
    "\<forall>r\<in>set (os_rows s). op_started r = None \<longrightarrow> op_stage r = ''queued'' \<or> op_finished r \<noteq> None"
    by (auto simp: ops_ok_def row_ok_def list_all_iff)
  have "filter (\<lambda>r. \<not> Terminal (op_stage r)) (os_rows (CleanStale t s)) = []"
    by (auto simp: CleanStale_def filter_empty_conv Terminal_def)
  then have clean: "List_ops True (CleanStale t s) = []" by (simp add: List_ops_def)
  have "\<forall>r\<in>set (os_rows s). Terminal (op_stage r) \<longrightarrow> r \<in> set (os_rows (CleanStale t s))"
    by (force simp: CleanStale_def)
  with ok clean List_ops_set [of active s] show ?thesis
    unfolding s_def [symmetric] Let_def by (simp add: List_ops_def CleanStale_def)
qed

lemma operations_well_formed_witness:
  "let s = foldl op_step empty_ops [EvCreate ''a'' ''backup'' 1 2 ''{}'' 5, EvStage ''a'' ''extracting'' [] 6,
     EvFinish ''a'' ''completed'' [] 7, EvCreate ''b'' ''restore'' 1 2 ''{}'' 8]
   in map op_id (os_rows s) = [''a'', ''b''] \<and> List_ops True (CleanStale 9 s) = []"
  using operations_well_formed [of "[EvCreate ''a'' ''backup'' 1 2 ''{}'' 5, EvStage ''a'' ''extracting'' [] 6,
     EvFinish ''a'' ''completed'' [] 7, EvCreate ''b'' ''restore'' 1 2 ''{}'' 8]" True 9]
  by (simp add: Let_def empty_ops_def Create_op_def Get_op_def SetStage_def Finish_def update_op_def broadcast_op_def
      Unregister_def split: option.split)

section \<open>The lock holds as long as nothing is stale\<close>

lemma set_pc_simps [simp]:
  "lw_file (set_pc t pc w) = lw_file w" "lw_next (set_pc t pc w) = lw_next w"
  "lw_alive (set_pc t pc w) = lw_alive w" "lw_pc (set_pc t pc w) = (lw_pc w)(t := pc)"
  by (simp_all add: set_pc_def)

text \<open>Nothing is taken for stale; the file is there exactly while a thread owns it, is that thread's,
  and names its process once written.\<close>

definition file_of :: "('t \<Rightarrow> int) \<Rightarrow> 't \<Rightarrow> lock_pc \<Rightarrow> (nat \<times> lock_content) option" where
  "file_of pid t pc =
     (case pc of Created k \<Rightarrow> Some (k, Empty) | Holding k \<Rightarrow> Some (k, Holder (pid t)) | _ \<Rightarrow> None)"

definition lock_inv :: "('t \<Rightarrow> int) \<Rightarrow> 't lock_world \<Rightarrow> bool" where
  "lock_inv pid w \<longleftrightarrow>
     (\<forall>t. lw_alive w (pid t)) \<and> (\<forall>t n. lw_pc w t \<noteq> Stale n) \<and>
     (\<forall>t. owns w t \<longrightarrow> lw_file w = file_of pid t (lw_pc w t) \<and> (\<forall>u. u \<noteq> t \<longrightarrow> \<not> owns w u)) \<and>
     (\<forall>k p. lw_file w = Some (k, Holder p) \<longrightarrow> p \<in> range pid)"

lemma lock_invI:
  assumes "\<And>t. lw_alive w (pid t)" "\<And>t n. lw_pc w t \<noteq> Stale n"
    "\<And>t. owns w t \<Longrightarrow> lw_file w = file_of pid t (lw_pc w t)" "\<And>t u. owns w t \<Longrightarrow> owns w u \<Longrightarrow> u = t"
    "\<And>k p. lw_file w = Some (k, Holder p) \<Longrightarrow> p \<in> range pid"
  shows "lock_inv pid w"
  unfolding lock_inv_def by (intro conjI allI impI; use assms in blast)

lemma lock_invD:
  assumes "lock_inv pid w"
  shows "lw_alive w (pid t)" "lw_pc w t \<noteq> Stale n" "owns w t \<Longrightarrow> lw_file w = file_of pid t (lw_pc w t)"
    "owns w t \<Longrightarrow> u \<noteq> t \<Longrightarrow> \<not> owns w u" "lw_file w = Some (k, Holder p) \<Longrightarrow> p \<in> range pid"
  using assms unfolding lock_inv_def by blast+

lemma owns_set_pc [simp]: "owns (set_pc t pc w) u = (if u = t then owning pc else owns w u)"
  by (simp add: owns_def)

lemma owns_file: "lock_inv pid w \<Longrightarrow> owns w t \<Longrightarrow> lw_file w \<noteq> None"
  using lock_invD(3) [of pid w t] by (cases "lw_pc w t") (auto simp: owns_def file_of_def)

text \<open>A step of one thread that leaves the file alone, or takes or changes it as its owner.\<close>

lemma lock_inv_set:
  assumes inv: "lock_inv pid w" and pc: "\<forall>n. pc \<noteq> Stale n" and alive: "lw_alive v = lw_alive w"
    and same: "lw_pc v = lw_pc w" and others: "\<And>u. u \<noteq> t \<Longrightarrow> \<not> owns w u \<or> \<not> owning pc \<and> lw_file v = lw_file w"
    and mine: "owning pc \<Longrightarrow> lw_file v = file_of pid t pc"
    and names: "\<And>k p. lw_file v = Some (k, Holder p) \<Longrightarrow> p \<in> range pid"
  shows "lock_inv pid (set_pc t pc v)"
proof (rule lock_invI)
  have ow: "owns v u = owns w u" for u by (simp add: owns_def same)
  fix a b k p n
  show "lw_alive (set_pc t pc v) (pid a)" using lock_invD(1) [OF inv] by (simp add: alive)
  show "lw_pc (set_pc t pc v) a \<noteq> Stale n" using lock_invD(2) [OF inv] pc by (simp add: same)
  show "lw_file (set_pc t pc v) = Some (k, Holder p) \<Longrightarrow> p \<in> range pid" using names by simp
  show "lw_file (set_pc t pc v) = file_of pid a (lw_pc (set_pc t pc v) a)" if "owns (set_pc t pc v) a"
  proof (cases "a = t")
    case True with that mine show ?thesis by simp
  next
    case False
    with that have "owns w a" by (simp add: ow)
    with others [OF False] lock_invD(3) [OF inv] False show ?thesis by (simp add: same)
  qed
  show "b = a" if "owns (set_pc t pc v) a" "owns (set_pc t pc v) b"
  proof (rule ccontr)
    assume "b \<noteq> a"
    with that others [of a] others [of b] lock_invD(4) [OF inv, of a b] show False
      by (auto simp: ow split: if_splits)
  qed
qed

lemma lock_step_inv: "lock_step pid w v \<Longrightarrow> lock_inv pid w \<Longrightarrow> lock_inv pid v"
proof (induction rule: lock_step.induct)
  case (opens w t n)
  show ?case
  proof (cases "lw_file w")
    case None
    with owns_file [OF opens(2)] have "\<not> owns w u" for u by blast
    with None show ?thesis unfolding lock_open_def
      by (auto intro!: lock_inv_set [OF opens(2)] simp: file_of_def)
  next
    case (Some f)
    with lock_invD(5) [OF opens(2)] show ?thesis unfolding lock_open_def
      by (auto intro!: lock_inv_set [OF opens(2)])
  qed
next
  case (writes w t k)
  then have o: "owns w t" by (simp add: owns_def)
  with lock_invD(3) [OF writes(2)] writes(1) have f: "lw_file w = Some (k, Empty)" by (simp add: file_of_def)
  show ?case unfolding lock_write_def
    by (rule lock_inv_set [OF writes(2)]) (use lock_invD(4) [OF writes(2) o] in \<open>auto simp: f file_of_def\<close>)
next
  case (reads w t n)
  have "p \<in> range pid \<and> lw_alive w p" if "lw_file w = Some (k, Holder p)" for k p
    using lock_invD(5) [OF reads(2) that] lock_invD(1) [OF reads(2)] by blast
  then have "lock_read t n w = set_pc t Refused w"
    by (auto simp: lock_read_def split: option.splits lock_content.splits)
  then show ?case using lock_invD(5) [OF reads(2)] by (auto intro!: lock_inv_set [OF reads(2)])
next
  case (reclaims w t n)
  with lock_invD(2) show ?case by metis
next
  case (releases w t k)
  then have o: "owns w t" by (simp add: owns_def)
  show ?case unfolding lock_release_def
    by (rule lock_inv_set [OF releases(2)]) (use lock_invD(4) [OF releases(2) o] in auto)
next
  case (starts w t)
  then show ?case using lock_invD(5) [OF starts(2)] by (auto intro!: lock_inv_set [OF starts(2)])
qed

lemma lock_run_trans: "lock_run pid u v \<Longrightarrow> lock_run pid w u \<Longrightarrow> lock_run pid w v"
  by (induction rule: lock_run.induct) (auto intro: lock_more)

lemma lock_run_inv: "lock_run pid w v \<Longrightarrow> lock_inv pid w \<Longrightarrow> lock_inv pid v"
  by (induction rule: lock_run.induct) (auto intro: lock_step_inv)

text \<open>C31. When no file is left over and the processes live, at most one thread at a time has the lock,
  however the steps of any number of threads of any number of processes interleave, and while one
  has it the file is there and, once written, names its process.\<close>

theorem lock_exclusive:
  assumes "lock_run pid w v" "lw_file w = None" "\<forall>t. \<not> owns w t \<and> (\<forall>n. lw_pc w t \<noteq> Stale n)"
    "\<forall>t. lw_alive w (pid t)"
  shows "(owns v t \<longrightarrow> owns v u \<longrightarrow> t = u) \<and>
    (\<forall>k. lw_pc v t = Holding k \<longrightarrow> lw_file v = Some (k, Holder (pid t)))"
proof -
  have "lock_inv pid w" using assms(2-4) by (intro lock_invI) auto
  note inv = lock_run_inv [OF assms(1) this]
  have "lw_file v = Some (k, Holder (pid t))" if "lw_pc v t = Holding k" for k
    using lock_invD(3) [OF inv, of t] that by (simp add: owns_def file_of_def)
  with lock_invD(4) [OF inv] show ?thesis by blast
qed

definition fresh_lock :: "nat lock_world" where
  "fresh_lock = \<lparr>lw_file = None, lw_next = 0, lw_alive = (\<lambda>_. True), lw_pc = (\<lambda>_. Trying 0)\<rparr>"

lemma lock_exclusive_witness:
  "\<exists>v. lock_run int fresh_lock v \<and> lw_pc v 1 = Holding 0 \<and> \<not> owns v 2"
proof -
  define a where "a = lock_open (1::nat) 0 fresh_lock"
  have 1: "lw_pc fresh_lock (1::nat) = Trying 0" and 2: "lw_pc a 1 = Created 0"
    by (simp_all add: a_def lock_open_def fresh_lock_def)
  have r: "lock_run int fresh_lock (lock_write (int 1) 1 0 a)"
    using lock_step.opens [where pid = int, OF 1] lock_step.writes [where pid = int, OF 2]
    unfolding a_def by (meson lock_refl lock_more)
  have h: "lw_pc (lock_write (int 1) 1 0 a) 1 = Holding 0" by (simp add: lock_write_def)
  then have "owns (lock_write (int 1) 1 0 a) 1" by (auto simp: owns_def)
  with lock_exclusive [OF r, of 1 2] have "\<not> owns (lock_write (int 1) 1 0 a) 2"
    by (auto simp: fresh_lock_def owns_def)
  with r h show ?thesis by blast
qed

section \<open>A thread alone\<close>

section \<open>A thread alone, and two that reclaim\<close>

lemma acquire_steps_unfold: "acquire_steps pid t 8 w = acquire_steps pid t (Suc (Suc (Suc (Suc (Suc (Suc (Suc (Suc 0)))))))) w"
  by (simp add: eval_nat_numeral)

lemmas lock_ops = lock_open_def lock_write_def lock_read_def lock_reclaim_def lock_release_def

text \<open>A thread that is not disturbed always gets an answer: the lock when there is no file or the file
  names a process that is dead, and then the file names its own process; otherwise an error, and
  the file is as before. A file that names no one, as its taker leaves it before its write, is
  never reclaimed.\<close>

lemma acquire_alone:
  "let v = Acquire pid t w in
   if lw_file w = None \<or> (\<exists>k p. lw_file w = Some (k, Holder p) \<and> 0 < p \<and> \<not> lw_alive w p)
   then lw_pc v t = Holding (lw_next w) \<and> lw_file v = Some (lw_next w, Holder pid)
   else lw_pc v t = Refused \<and> lw_file v = lw_file w"
proof (cases "lw_file w")
  case None
  then show ?thesis by (simp add: Acquire_def acquire_steps_unfold lock_ops)
next
  case (Some f)
  obtain k c where f: "lw_file w = Some (k, c)" using Some by (cases f) simp
  show ?thesis
  proof (cases c)
    case Empty
    with f show ?thesis by (simp add: Acquire_def acquire_steps_unfold lock_ops)
  next
    case (Holder p)
    with f show ?thesis
      by (cases "0 < p \<and> \<not> lw_alive w p") (auto simp: Acquire_def acquire_steps_unfold lock_ops)
  qed
qed

text \<open>A left-over lock can be reclaimed twice: two threads read that its holder is dead, the first
  removes it and takes the lock, and the second then removes the lock of the first. Both hold it.\<close>

lemma stale_lock_taken_twice:
  assumes "t \<noteq> u" "lw_pc w t = Trying 0" "lw_pc w u = Trying 0"
    "lw_file w = Some (k, Holder p)" "0 < p" "\<not> lw_alive w p"
  shows "\<exists>v i j. lock_run pid w v \<and> lw_pc v t = Holding i \<and> lw_pc v u = Holding j"
proof -
  define n where "n = lw_next w"
  define a where "a = lock_open u 0 (lock_open t 0 w)"
  define b where "b = lock_read u 0 (lock_read t 0 a)"
  define c where "c = lock_write (pid t) t n (lock_open t 1 (lock_reclaim t 0 b))"
  define d where "d = lock_write (pid u) u (Suc n) (lock_open u 1 (lock_reclaim u 0 c))"
  note defs = d_def c_def b_def a_def n_def lock_ops assms
  have "lock_run pid w a"
    unfolding a_def by (rule lock_more [OF lock_more [OF lock_refl lock_step.opens] lock_step.opens]) (use assms in \<open>simp_all add: lock_ops\<close>)
  moreover have "lock_run pid a b"
    unfolding b_def
    by (rule lock_more [OF lock_more [OF lock_refl lock_step.reads] lock_step.reads]) (use assms in \<open>simp_all add: a_def lock_ops\<close>)
  moreover have "lock_run pid b c"
    unfolding c_def
    by (rule lock_more [OF lock_more [OF lock_more [OF lock_refl lock_step.reclaims] lock_step.opens] lock_step.writes])
      (use assms in \<open>simp_all add: a_def b_def n_def lock_ops\<close>)
  moreover have "lock_run pid c d"
    unfolding d_def
    by (rule lock_more [OF lock_more [OF lock_more [OF lock_refl lock_step.reclaims] lock_step.opens] lock_step.writes])
      (use assms in \<open>simp_all add: a_def b_def c_def n_def lock_ops\<close>)
  ultimately have "lock_run pid w d" by (meson lock_run_trans)
  moreover have "lw_pc d t = Holding n" "lw_pc d u = Holding (Suc n)" using assms by (simp_all add: defs)
  ultimately show ?thesis by blast
qed

definition stale_world :: "nat lock_world" where
  "stale_world = \<lparr>lw_file = Some (0, Holder 99), lw_next = 1, lw_alive = (\<lambda>p. p \<noteq> 99), lw_pc = (\<lambda>_. Trying 0)\<rparr>"

lemma stale_lock_taken_twice_witness:
  "\<exists>v. lock_run int stale_world v \<and> owns v 1 \<and> owns v 2"
proof -
  from stale_lock_taken_twice [of "1::nat" 2 stale_world 0 99 int]
  obtain v i j where "lock_run int stale_world v" "lw_pc v 1 = Holding i" "lw_pc v 2 = Holding j"
    by (auto simp: stale_world_def)
  then show ?thesis by (auto simp: owns_def)
qed

end
