(* ===== verification/Instances.thy ===== *)
theory Instances
  imports Sandbox Utf8 "HOL-Library.List_Lexorder" "HOL-Library.Char_ord"
begin

text \<open>
  The server projects (\<open>source/internal/instance/instance.go\<close>): the names of their directories and
  the table of their settings. Time stamps are arguments; a failure of the database other than a
  violated constraint is not part of the model.
\<close>

section \<open>Slugs\<close>

text \<open>Small letters as far as they matter: outside ASCII only U+0130 and U+212A have a small letter
  in ASCII; every other character outside ASCII is removed next whatever its case.\<close>

definition lower_rune :: "nat \<Rightarrow> nat" where
  "lower_rune r = (if 65 \<le> r \<and> r \<le> 90 then r + 32 else if r = 304 then 105 else if r = 8490 then 107 else r)"

definition slug_char :: "nat \<Rightarrow> bool" where
  "slug_char r \<longleftrightarrow> (97 \<le> r \<and> r \<le> 122) \<or> (48 \<le> r \<and> r \<le> 57)"

definition slugStrip :: "nat \<Rightarrow> bool" where
  "slugStrip r \<longleftrightarrow> \<not> (slug_char r \<or> r \<in> {9, 10, 12, 13, 32, 45})"

text \<open>Each run of white space and hyphens becomes one hyphen.\<close>

fun slugHyphens :: "nat list \<Rightarrow> nat list" where
  "slugHyphens [] = []"
| "slugHyphens (r # rs) =
     (if slug_char r then r # slugHyphens rs
      else case rs of
        [] \<Rightarrow> [45]
      | q # _ \<Rightarrow> if slug_char q then 45 # slugHyphens rs else slugHyphens rs)"

definition maxSlugChars :: nat where "maxSlugChars = 64"

definition GenerateSlug :: "string \<Rightarrow> string" where
  "GenerateSlug name =
     (let rs = map lower_rune (runes (TrimSpace name));
          s = TrimChars ''-'' (map char_of (slugHyphens (filter (\<lambda>r. \<not> slugStrip r) rs)))
      in if maxSlugChars < length s then TrimChars ''-'' (take maxSlugChars s) else s)"

definition slugValidRE :: "string \<Rightarrow> bool" where
  "slugValidRE s \<longleftrightarrow> s \<noteq> [] \<and> list_all (\<lambda>c. slug_char (of_char c) \<or> c = CHR ''-'') s \<and>
     slug_char (of_char (hd s)) \<and> slug_char (of_char (last s))"

definition ValidateSlug :: "string \<Rightarrow> bool" where
  "ValidateSlug s \<longleftrightarrow>
     \<not> (s = [] \<or> s = ''.'' \<or> s = ''..'') \<and> length s \<le> maxSlugChars \<and>
     \<not> (ContainsAny s [slash, CHR 0x5C] \<or> HasPrefix s ''.'') \<and> slugValidRE s"

definition RelativeDirFor :: "string \<Rightarrow> string" where
  "RelativeDirFor slug = JoinPath [''servers/minecraft-java/modded'', slug]"

definition BackupDirFor :: "string \<Rightarrow> string" where
  "BackupDirFor slug = JoinPath [''backups/minecraft-java/modded'', slug]"

section \<open>The store\<close>

record project =
  ins_id :: int
  ins_slug :: string
  ins_name :: string
  ins_type :: string
  ins_source :: string
  ins_host :: string
  ins_minecraft :: string
  ins_loader :: string
  ins_loader_version :: string
  ins_dir :: string
  ins_external :: bool
  ins_script :: string
  ins_java :: string
  ins_jvm_source :: string
  ins_xms :: string
  ins_xmx :: string
  ins_extra :: string
  ins_icon :: int
  ins_autostart :: bool
  ins_boot_delay :: int
  ins_recover :: bool
  ins_policy :: string
  ins_restart_delay :: int
  ins_created :: string
  ins_updated :: string
  ins_started :: string
  ins_stopped :: string

text \<open>The zero value, which struct literals of the code start from.\<close>

definition zero_instance :: project where
  "zero_instance = \<lparr>ins_id = 0, ins_slug = [], ins_name = [], ins_type = [], ins_source = [], ins_host = [],
     ins_minecraft = [], ins_loader = [], ins_loader_version = [], ins_dir = [], ins_external = False,
     ins_script = [], ins_java = [], ins_jvm_source = [], ins_xms = [], ins_xmx = [], ins_extra = [],
     ins_icon = 0, ins_autostart = False, ins_boot_delay = 0, ins_recover = False, ins_policy = [],
     ins_restart_delay = 0, ins_created = [], ins_updated = [], ins_started = [], ins_stopped = []\<rparr>"

definition AbsoluteDir :: "string \<Rightarrow> project \<Rightarrow> string" where
  "AbsoluteDir home i = (if ins_external i then ins_dir i else JoinPath [home, ins_dir i])"

text \<open>The rows of the tables \<open>instances\<close> and \<open>active_instance\<close>.\<close>

record instance_db =
  is_rows :: "project list"
  is_active :: "int option"

datatype instance_error = SlugInvalid | SlugTaken | NameRequired | CheckViolated | NoInstance

definition restart_policies :: "string list" where
  "restart_policies = [''never'', ''on-failure'', ''always'']"

definition default_to :: "string \<Rightarrow> string \<Rightarrow> string" where
  "default_to d s = (if s = [] then d else s)"

definition create_defaults :: "project \<Rightarrow> project" where
  "create_defaults i = i\<lparr>
     ins_type := default_to ''minecraft-java-modded'' (ins_type i),
     ins_policy := default_to ''on-failure'' (ins_policy i),
     ins_java := default_to ''auto'' (ins_java i),
     ins_boot_delay := (if ins_boot_delay i = 0 then 30 else ins_boot_delay i),
     ins_restart_delay := (if ins_restart_delay i = 0 then 10 else ins_restart_delay i),
     ins_recover := True\<rparr>"

text \<open>The row that is written: the icon revision has the default of its column. The \<open>id\<close> is the one
  after the largest, as SQLite chooses it. The result is the error, or the instance as the caller
  has it afterwards.\<close>

definition next_id :: "instance_db \<Rightarrow> int" where
  "next_id db = foldl max 0 (map ins_id (is_rows db)) + 1"

definition stored_row :: "string \<Rightarrow> project \<Rightarrow> project" where
  "stored_row now i =
     i\<lparr>ins_icon := 0, ins_created := now, ins_updated := now, ins_started := [], ins_stopped := []\<rparr>"

definition Create_instance :: "string \<Rightarrow> project \<Rightarrow> instance_db \<Rightarrow> (instance_error + project) \<times> instance_db" where
  "Create_instance now i db =
     (if \<not> ValidateSlug (ins_slug i) then (Inl SlugInvalid, db)
      else if TrimSpace (ins_name i) = [] then (Inl NameRequired, db)
      else
        let i = create_defaults i in
        if list_ex (\<lambda>r. ins_type r = ins_type i \<and> ins_slug r = ins_slug i) (is_rows db) then (Inl SlugTaken, db)
        else if ins_policy i \<notin> set restart_policies then (Inl CheckViolated, db)
        else
          let i = i\<lparr>ins_id := next_id db\<rparr>
          in (Inr i, db\<lparr>is_rows := is_rows db @ [stored_row now i]\<rparr>))"

definition ByID :: "int \<Rightarrow> instance_db \<Rightarrow> project option" where
  "ByID i db = List.find (\<lambda>r. ins_id r = i) (is_rows db)"

definition BySlug :: "string \<Rightarrow> string \<Rightarrow> instance_db \<Rightarrow> project option" where
  "BySlug t s db = List.find (\<lambda>r. ins_type r = t \<and> ins_slug r = s) (is_rows db)"

definition List_instances :: "instance_db \<Rightarrow> project list" where
  "List_instances db = sort_key (\<lambda>i. ToLower (ins_name i)) (is_rows db)"

text \<open>The columns an update writes: the slug, the type, the source and the directory are not among
  them.\<close>

definition updated_row :: "string \<Rightarrow> project \<Rightarrow> project \<Rightarrow> project" where
  "updated_row now i r = r\<lparr>ins_name := ins_name i, ins_minecraft := ins_minecraft i, ins_loader := ins_loader i,
     ins_loader_version := ins_loader_version i, ins_script := ins_script i, ins_java := ins_java i,
     ins_jvm_source := ins_jvm_source i, ins_xms := ins_xms i, ins_xmx := ins_xmx i, ins_extra := ins_extra i,
     ins_icon := ins_icon i, ins_autostart := ins_autostart i, ins_boot_delay := ins_boot_delay i,
     ins_recover := ins_recover i, ins_policy := ins_policy i, ins_restart_delay := ins_restart_delay i,
     ins_updated := now\<rparr>"

definition change_rows :: "(project \<Rightarrow> bool) \<Rightarrow> (project \<Rightarrow> project) \<Rightarrow> instance_db \<Rightarrow> instance_db" where
  "change_rows P f db = db\<lparr>is_rows := map (\<lambda>r. if P r then f r else r) (is_rows db)\<rparr>"

definition Update_instance :: "string \<Rightarrow> project \<Rightarrow> instance_db \<Rightarrow> instance_error option \<times> instance_db" where
  "Update_instance now i db =
     (if ins_policy i \<notin> set restart_policies \<and> list_ex (\<lambda>r. ins_id r = ins_id i) (is_rows db)
      then (Some CheckViolated, db)
      else (None, change_rows (\<lambda>r. ins_id r = ins_id i) (updated_row now i) db))"

text \<open>The selection of a deleted project is emptied by its foreign key.\<close>

definition Delete_instance :: "int \<Rightarrow> instance_db \<Rightarrow> instance_db" where
  "Delete_instance i db = \<lparr>is_rows = filter (\<lambda>r. ins_id r \<noteq> i) (is_rows db),
     is_active = (if is_active db = Some i then None else is_active db)\<rparr>"

definition TouchStarted :: "string \<Rightarrow> int \<Rightarrow> instance_db \<Rightarrow> instance_db" where
  "TouchStarted now i db = change_rows (\<lambda>r. ins_id r = i) (\<lambda>r. r\<lparr>ins_started := now\<rparr>) db"

definition TouchStopped :: "string \<Rightarrow> int \<Rightarrow> instance_db \<Rightarrow> instance_db" where
  "TouchStopped now i db = change_rows (\<lambda>r. ins_id r = i) (\<lambda>r. r\<lparr>ins_stopped := now\<rparr>) db"

definition ActiveID :: "instance_db \<Rightarrow> int" where
  "ActiveID db = (case is_active db of None \<Rightarrow> 0 | Some i \<Rightarrow> i)"

definition SetActive :: "int \<Rightarrow> instance_db \<Rightarrow> instance_error option \<times> instance_db" where
  "SetActive i db =
     (if i = 0 then (None, db\<lparr>is_active := None\<rparr>)
      else if ByID i db = None then (Some NoInstance, db)
      else (None, db\<lparr>is_active := Some i\<rparr>))"

definition activeInstance :: "instance_db \<Rightarrow> project option" where
  "activeInstance db = (if ActiveID db = 0 then None else ByID (ActiveID db) db)"

section \<open>Slugs name directories\<close>

lemma slug_char_facts:
  assumes "slug_char (of_char c)"
  shows "c \<noteq> slash" "c \<noteq> CHR ''-''" "c \<noteq> CHR ''.''"
  using assms by (auto simp: slug_char_def)

lemma ValidateSlug_good: "ValidateSlug s \<Longrightarrow> good_name s"
  by (auto simp: ValidateSlug_def good_name_def slugValidRE_def list_all_iff slug_char_def)

definition modded_names :: "string list" where
  "modded_names = [''servers'', ''minecraft-java'', ''modded'']"

lemma modded_good: "list_all good_name modded_names"
  by code_simp

lemma RelativeDirFor_eq:
  assumes "ValidateSlug s" shows "RelativeDirFor s = Join ''/'' (modded_names @ [s])"
proof -
  have "Split slash s = [s]" using ValidateSlug_good [OF assms] by (simp add: good_name_def Split_single)
  then have "Split slash (''servers/minecraft-java/modded'' @ slash # s) = modded_names @ [s]"
    by (simp add: Split_two modded_names_def)
  moreover have "clean_stack False [] (modded_names @ [s]) = modded_names @ [s]"
    using clean_stack_good_names [of "modded_names @ [s]" False "[]"] modded_good ValidateSlug_good [OF assms] by simp
  moreover have "\<not> IsAbs (''servers/minecraft-java/modded'' @ slash # s)" by (simp add: IsAbs_def HasPrefix_def)
  ultimately show ?thesis by (simp add: RelativeDirFor_def JoinPath_def Clean_def render_def modded_names_def)
qed

lemma managed_dir_names:
  assumes "IsAbs home" "ValidateSlug s"
  shows "JoinPath [home, RelativeDirFor s] = render True (names home @ modded_names @ [s])"
    "names (JoinPath [home, RelativeDirFor s]) = names home @ modded_names @ [s]"
proof -
  have g: "list_all good_name (modded_names @ [s])" using modded_good ValidateSlug_good [OF assms(2)] by simp
  have "Split slash (Join ''/'' (modded_names @ [s])) = modded_names @ [s]"
    by (rule Split_Join_good [OF g]) simp
  then have "joined_names home [RelativeDirFor s] = names home @ modded_names @ [s]"
    unfolding joined_names_def RelativeDirFor_eq [OF assms(2)]
    using clean_stack_good_names [OF g, of True "rev (names home)"] by simp
  then show a: "JoinPath [home, RelativeDirFor s] = render True (names home @ modded_names @ [s])"
    using JoinPath_names [OF assms(1), of "[RelativeDirFor s]"] by simp
  show "names (JoinPath [home, RelativeDirFor s]) = names home @ modded_names @ [s]"
    unfolding a using names_good g by (intro names_render) simp
qed

section \<open>Generated slugs\<close>

lemma slugHyphens_chars: "set (slugHyphens rs) \<subseteq> {r. slug_char r} \<union> {45}"
proof (induction rs rule: slugHyphens.induct)
  case (2 r rs)
  show ?case
  proof (cases rs)
    case (Cons q qs)
    with 2 show ?thesis unfolding slugHyphens.simps(2) [of r] by (auto simp del: slugHyphens.simps)
  qed simp
qed simp

lemma TrimChars_ends:
  assumes "TrimChars cs s \<noteq> []"
  shows "hd (TrimChars cs s) \<notin> set cs" "last (TrimChars cs s) \<notin> set cs"
proof -
  define P where "P = (\<lambda>c. c \<in> set cs)"
  define t where "t = dropWhile P s"
  define v where "v = dropWhile P (rev t)"
  have e: "TrimChars cs s = rev v" by (simp add: TrimChars_def t_def v_def P_def)
  with assms have n: "v \<noteq> []" by simp
  with hd_dropWhile have h: "\<not> P (hd v)" unfolding v_def by blast
  show "last (TrimChars cs s) \<notin> set cs" unfolding e using h n by (simp add: last_rev P_def)
  have "rev (takeWhile P (rev t) @ v) = t" unfolding v_def by simp
  then have t: "t = rev v @ rev (takeWhile P (rev t))" unfolding rev_append by (rule sym)
  with n have "t \<noteq> []" "hd t = hd (rev v)" by (metis Nil_is_append_conv Nil_is_rev_conv, metis hd_append2 Nil_is_rev_conv)
  moreover from this(1) have "\<not> P (hd t)" unfolding t_def by (rule hd_dropWhile)
  ultimately show "hd (TrimChars cs s) \<notin> set cs" unfolding e by (simp add: P_def)
qed

lemma TrimChars_set: "set (TrimChars cs s) \<subseteq> set s"
  unfolding TrimChars_def by (auto dest!: set_dropWhileD)

lemma TrimChars_length: "length (TrimChars cs s) \<le> length s"
  unfolding TrimChars_def by (metis length_dropWhile_le length_rev le_trans)

lemma slug_chars_valid:
  assumes "set s \<subseteq> {c. slug_char (of_char c)} \<union> {CHR ''-''}" "length s \<le> maxSlugChars"
    "s \<noteq> []" "hd s \<noteq> CHR ''-''" "last s \<noteq> CHR ''-''"
  shows "ValidateSlug s"
proof -
  have c: "slug_char (of_char (hd s))" "slug_char (of_char (last s))" using assms hd_in_set last_in_set by blast+
  then have "hd s \<noteq> CHR ''.''" using slug_char_facts by blast
  then have "\<not> HasPrefix s ''.''" "s \<noteq> ''.''" "s \<noteq> ''..''" using assms(3) by (cases s; auto simp: HasPrefix_def)+
  moreover have "slash \<notin> set s" "CHR 0x5C \<notin> set s" using assms(1) by (auto simp: slug_char_def)
  then have "\<not> ContainsAny s [slash, CHR 0x5C]" by (auto simp: ContainsAny_def list_ex_iff)
  moreover have "slugValidRE s" using assms(1,3) c by (auto simp: slugValidRE_def list_all_iff)
  ultimately show ?thesis using assms(2,3) by (simp add: ValidateSlug_def)
qed

lemma GenerateSlug_valid: "GenerateSlug name = [] \<or> ValidateSlug (GenerateSlug name)"
proof -
  define t where "t = map char_of (slugHyphens (filter (\<lambda>r. \<not> slugStrip r) (map lower_rune (runes (TrimSpace name)))))"
  define s where "s = TrimChars ''-'' (t :: string)"
  have "slug_char (of_char (char_of r :: char)) \<or> char_of r = CHR ''-''" if "slug_char r \<or> r = 45" for r
  proof (cases "r = 45")
    case True
    have "char_of (45::nat) = CHR ''-''" by code_simp
    with True show ?thesis by simp
  next
    case False
    with that have "r < 256" by (auto simp: slug_char_def)
    with that False show ?thesis by (simp add: of_char_of)
  qed
  with slugHyphens_chars have t: "set t \<subseteq> {c. slug_char (of_char c)} \<union> {CHR ''-''}"
    unfolding t_def by fastforce
  have valid: "ValidateSlug (TrimChars ''-'' u)"
    if "set u \<subseteq> set t" "length (TrimChars ''-'' u) \<le> maxSlugChars" "TrimChars ''-'' u \<noteq> []" for u
    using TrimChars_ends [OF that(3)] TrimChars_set [of "''-''" u] t that by (intro slug_chars_valid) auto
  show ?thesis
  proof (cases "maxSlugChars < length s")
    case True
    then have "GenerateSlug name = TrimChars ''-'' (take maxSlugChars s)"
      by (simp add: GenerateSlug_def Let_def s_def t_def)
    moreover have "set (take maxSlugChars s) \<subseteq> set t"
      unfolding s_def by (rule order_trans [OF set_take_subset TrimChars_set])
    moreover have "length (TrimChars ''-'' (take maxSlugChars s)) \<le> maxSlugChars"
      using TrimChars_length [of "''-''" "take maxSlugChars s"] by simp
    ultimately show ?thesis using valid by metis
  next
    case False
    then have "GenerateSlug name = s" by (simp add: GenerateSlug_def Let_def s_def t_def)
    with False valid [of t] show ?thesis by (auto simp: s_def)
  qed
qed

section \<open>Any sequence of store operations\<close>

definition instances_ok :: "instance_db \<Rightarrow> bool" where
  "instances_ok db \<longleftrightarrow> distinct (map ins_id (is_rows db)) \<and>
     distinct (map (\<lambda>r. (ins_type r, ins_slug r)) (is_rows db)) \<and>
     list_all (\<lambda>r. 0 < ins_id r \<and> ValidateSlug (ins_slug r) \<and> ins_policy r \<in> set restart_policies) (is_rows db) \<and>
     (case is_active db of None \<Rightarrow> True | Some i \<Rightarrow> list_ex (\<lambda>r. ins_id r = i) (is_rows db))"

datatype store_op =
    OpCreateInstance project
  | OpUpdateInstance project
  | OpDeleteInstance int
  | OpSetActive int
  | OpTouchStarted int
  | OpTouchStopped int

fun run_store :: "string \<Rightarrow> store_op \<Rightarrow> instance_db \<Rightarrow> instance_db" where
  "run_store now (OpCreateInstance i) db = snd (Create_instance now i db)"
| "run_store now (OpUpdateInstance i) db = snd (Update_instance now i db)"
| "run_store now (OpDeleteInstance i) db = Delete_instance i db"
| "run_store now (OpSetActive i) db = snd (SetActive i db)"
| "run_store now (OpTouchStarted i) db = TouchStarted now i db"
| "run_store now (OpTouchStopped i) db = TouchStopped now i db"

definition empty_instances :: instance_db where
  "empty_instances = \<lparr>is_rows = [], is_active = None\<rparr>"

lemma next_id_fresh: "0 < next_id db" "r \<in> set (is_rows db) \<Longrightarrow> ins_id r < next_id db"
  using foldl_max_upper [of 0 "map ins_id (is_rows db)"] by (auto simp: next_id_def)

text \<open>The fields that name a project and its place.\<close>

definition place :: "project \<Rightarrow> int \<times> string \<times> string \<times> string \<times> bool" where
  "place r = (ins_id r, ins_type r, ins_slug r, ins_dir r, ins_external r)"

lemma map_change_rows:
  assumes "\<And>r. g (f r) = g r"
  shows "map g (is_rows (change_rows P f db)) = map g (is_rows db)"
  unfolding change_rows_def by (simp add: assms)

lemma same_place_fields:
  assumes "map place rs = map place qs"
  shows "map ins_id rs = map ins_id qs" "map (\<lambda>r. (ins_type r, ins_slug r)) rs = map (\<lambda>r. (ins_type r, ins_slug r)) qs"
    "map ins_slug rs = map ins_slug qs"
proof -
  have "map (h \<circ> place) rs = map (h \<circ> place) qs" for h
    using arg_cong [OF assms, of "map h"] by (simp add: comp_def)
  from this [of fst] this [of "\<lambda>(i, t, s, d, e). (t, s)"] this [of "\<lambda>(i, t, s, d, e). s"]
  show "map ins_id rs = map ins_id qs" "map (\<lambda>r. (ins_type r, ins_slug r)) rs = map (\<lambda>r. (ins_type r, ins_slug r)) qs"
    "map ins_slug rs = map ins_slug qs" by (simp_all add: place_def comp_def)
qed

lemma change_rows_ok:
  assumes "instances_ok db" "\<And>r. place (f r) = place r"
    "\<And>r. r \<in> set (is_rows db) \<Longrightarrow> P r \<Longrightarrow> ins_policy (f r) \<in> set restart_policies"
  shows "instances_ok (change_rows P f db) \<and> map place (is_rows (change_rows P f db)) = map place (is_rows db)"
proof -
  have m: "map place (is_rows (change_rows P f db)) = map place (is_rows db)"
    by (rule map_change_rows) (rule assms(2))
  have i: "ins_id (f r) = ins_id r" "ins_slug (f r) = ins_slug r" for r using assms(2) [of r] by (simp_all add: place_def)
  have "list_all (\<lambda>r. 0 < ins_id r \<and> ValidateSlug (ins_slug r) \<and> ins_policy r \<in> set restart_policies)
      (is_rows (change_rows P f db))"
    using assms(1,3) i by (auto simp: instances_ok_def change_rows_def list_all_iff)
  moreover have "list_ex (\<lambda>r. ins_id r = x) (is_rows (change_rows P f db)) = list_ex (\<lambda>r. ins_id r = x) (is_rows db)" for x
  proof -
    have "ins_id ` set (is_rows (change_rows P f db)) = ins_id ` set (is_rows db)"
      using same_place_fields(1) [OF m] by (metis list.set_map)
    then show ?thesis unfolding list_ex_iff by (metis (no_types) image_iff)
  qed
  moreover have "is_active (change_rows P f db) = is_active db" by (simp add: change_rows_def)
  ultimately show ?thesis
    using assms(1) same_place_fields(1,2) [OF m] m unfolding instances_ok_def by (cases "is_active db") simp_all
qed

lemma Create_rows:
  assumes "Create_instance now i db = (Inr i', db')"
  shows "i' = (create_defaults i)\<lparr>ins_id := next_id db\<rparr>"
    "db' = db\<lparr>is_rows := is_rows db @ [stored_row now i']\<rparr>"
    "ValidateSlug (ins_slug i)" "ins_policy i' \<in> set restart_policies"
    "\<And>q. q \<in> set (is_rows db) \<Longrightarrow> (ins_type q, ins_slug q) \<noteq> (ins_type i', ins_slug i)"
proof -
  have g: "ValidateSlug (ins_slug i)" "TrimSpace (ins_name i) \<noteq> []"
    "\<not> list_ex (\<lambda>r. ins_type r = ins_type (create_defaults i) \<and> ins_slug r = ins_slug (create_defaults i)) (is_rows db)"
    "ins_policy (create_defaults i) \<in> set restart_policies"
    using assms by (simp_all add: Create_instance_def Let_def split: if_splits)
  with assms show i': "i' = (create_defaults i)\<lparr>ins_id := next_id db\<rparr>"
    and "db' = db\<lparr>is_rows := is_rows db @ [stored_row now i']\<rparr>"
    by (auto simp: Create_instance_def Let_def)
  show "ValidateSlug (ins_slug i)" by (rule g)
  show "ins_policy i' \<in> set restart_policies" using g(4) unfolding i' by simp
  show "(ins_type q, ins_slug q) \<noteq> (ins_type i', ins_slug i)" if "q \<in> set (is_rows db)" for q
    using g(3) that unfolding i' by (auto simp: list_ex_iff create_defaults_def)
qed

lemma created_place:
  "ins_slug (create_defaults i) = ins_slug i" "ins_dir (create_defaults i) = ins_dir i"
  "ins_external (create_defaults i) = ins_external i"
  "ins_type (create_defaults i) = default_to ''minecraft-java-modded'' (ins_type i)"
  "place (stored_row now p) = place p" "ins_policy (stored_row now p) = ins_policy p"
  by (simp_all add: create_defaults_def place_def stored_row_def)

lemma Create_failed: "Create_instance now i db = (Inl e, db') \<Longrightarrow> db' = db"
  by (auto simp: Create_instance_def Let_def split: if_splits)

lemma Create_ok:
  assumes "instances_ok db" "Create_instance now i db = (x, db')"
  shows "instances_ok db'"
proof (cases x)
  case (Inl e)
  with assms Create_failed show ?thesis by metis
next
  case (Inr i')
  with assms(2) have "Create_instance now i db = (Inr i', db')" by simp
  note r = Create_rows [OF this]
  have p: "ins_id (stored_row now i') = next_id db" "ins_slug (stored_row now i') = ins_slug i"
    "ins_type (stored_row now i') = ins_type i'"
    unfolding r(1) by (simp_all add: stored_row_def created_place)
  have "next_id db \<notin> ins_id ` set (is_rows db)" using next_id_fresh(2) by fastforce
  moreover have "(ins_type i', ins_slug i) \<notin> (\<lambda>q. (ins_type q, ins_slug q)) ` set (is_rows db)" using r(5) by fastforce
  ultimately show ?thesis
    using assms(1) r(2,3,4) next_id_fresh(1) by (auto simp: instances_ok_def p created_place split: option.splits)
qed

lemma run_store_ok: "instances_ok db \<Longrightarrow> instances_ok (run_store now oper db)"
proof (cases oper)
  case (OpCreateInstance i)
  then show "instances_ok db \<Longrightarrow> ?thesis" using Create_ok by (metis run_store.simps(1) surj_pair snd_conv)
next
  case (OpUpdateInstance i)
  assume ok: "instances_ok db"
  show ?thesis
  proof (cases "ins_policy i \<notin> set restart_policies \<and> list_ex (\<lambda>r. ins_id r = ins_id i) (is_rows db)")
    case False
    then have "ins_policy (updated_row now i r) \<in> set restart_policies" if "r \<in> set (is_rows db)" "ins_id r = ins_id i" for r
      using that by (auto simp: updated_row_def list_ex_iff)
    with change_rows_ok [OF ok, of "updated_row now i" "\<lambda>r. ins_id r = ins_id i"] False OpUpdateInstance
    show ?thesis unfolding OpUpdateInstance run_store.simps Update_instance_def if_not_P [OF False]
      by (simp add: place_def updated_row_def)
  qed (use ok OpUpdateInstance in \<open>simp add: Update_instance_def\<close>)
next
  case (OpDeleteInstance i)
  assume ok: "instances_ok db"
  have "list_ex (\<lambda>r. ins_id r = x) (filter (\<lambda>r. ins_id r \<noteq> i) (is_rows db))"
    if "list_ex (\<lambda>r. ins_id r = x) (is_rows db)" "x \<noteq> i" for x
    using that by (auto simp: list_ex_iff)
  with ok OpDeleteInstance show ?thesis
    by (auto simp: instances_ok_def Delete_instance_def list_all_iff distinct_map_filter split: option.splits)
next
  case (OpSetActive i)
  then show "instances_ok db \<Longrightarrow> ?thesis"
    by (auto simp: instances_ok_def SetActive_def ByID_def list_ex_iff dest: find_SomeD split: option.splits if_splits)
next
  case (OpTouchStarted i)
  assume ok: "instances_ok db"
  then have "ins_policy (r\<lparr>ins_started := now\<rparr>) \<in> set restart_policies" if "r \<in> set (is_rows db)" for r
    using that by (simp add: instances_ok_def list_all_iff)
  with change_rows_ok [OF ok, of "\<lambda>r. r\<lparr>ins_started := now\<rparr>" "\<lambda>r. ins_id r = i"] OpTouchStarted show ?thesis
    by (simp add: TouchStarted_def place_def)
next
  case (OpTouchStopped i)
  assume ok: "instances_ok db"
  then have "ins_policy (r\<lparr>ins_stopped := now\<rparr>) \<in> set restart_policies" if "r \<in> set (is_rows db)" for r
    using that by (simp add: instances_ok_def list_all_iff)
  with change_rows_ok [OF ok, of "\<lambda>r. r\<lparr>ins_stopped := now\<rparr>" "\<lambda>r. ins_id r = i"] OpTouchStopped show ?thesis
    by (simp add: TouchStopped_def place_def)
qed

interpretation project_table: invariant_machine "\<lambda>db (now, oper). run_store now oper db" instances_ok
  by unfold_locales (simp add: run_store_ok split: prod.split)

lemma run_store_place:
  assumes "instances_ok db" "r \<in> set (is_rows db)" "r' \<in> set (is_rows (run_store now oper db))" "ins_id r = ins_id r'"
  shows "place r = place r'"
proof -
  have d: "distinct (map ins_id (is_rows db))" using assms(1) by (simp add: instances_ok_def)
  have same: "place r = place r'" if "map place (is_rows (run_store now oper db)) = map place (is_rows db)"
  proof -
    have "place r' \<in> set (map place (is_rows db))" using assms(3) that by (metis image_eqI list.set_map)
    then obtain q where q: "q \<in> set (is_rows db)" "place q = place r'" by auto
    then have "ins_id q = ins_id r" using assms(4) by (simp add: place_def)
    with d q(1) assms(2) have "q = r" by (auto simp: distinct_map dest: inj_onD)
    with q show ?thesis by simp
  qed
  have here: "place r = place r'" if "r' \<in> set (is_rows db)"
  proof -
    from d that assms(2,4) have "r = r'" by (auto simp: distinct_map dest: inj_onD)
    then show ?thesis by simp
  qed
  show ?thesis
  proof (cases oper)
    case (OpCreateInstance i)
    obtain x db' where C: "Create_instance now i db = (x, db')" by (metis surj_pair)
    show ?thesis
    proof (cases x)
      case (Inl e)
      with C Create_failed [of now i db e db'] OpCreateInstance assms(3) show ?thesis by (simp add: here)
    next
      case (Inr i')
      note c = Create_rows [OF C [unfolded Inr]]
      have "ins_id (stored_row now i') = next_id db" unfolding c(1) by (simp add: stored_row_def)
      with next_id_fresh(2) [OF assms(2)] assms(4) have "r' \<noteq> stored_row now i'" by auto
      with assms(3) OpCreateInstance C c(2) here show ?thesis by simp
    qed
  next
    case (OpUpdateInstance i)
    have "map place (is_rows (run_store now oper db)) = map place (is_rows db)"
      using map_change_rows [of place "updated_row now i" "\<lambda>r. ins_id r = ins_id i" db]
      by (simp add: OpUpdateInstance Update_instance_def place_def updated_row_def)
    then show ?thesis by (rule same)
  next
    case (OpDeleteInstance i)
    with assms(3) here show ?thesis by (simp add: Delete_instance_def)
  next
    case (OpSetActive i)
    with assms(3) here show ?thesis by (simp add: SetActive_def split: if_splits)
  next
    case (OpTouchStarted i)
    have "map place (is_rows (run_store now oper db)) = map place (is_rows db)"
      unfolding OpTouchStarted run_store.simps TouchStarted_def by (rule map_change_rows) (simp add: place_def)
    then show ?thesis by (rule same)
  next
    case (OpTouchStopped i)
    have "map place (is_rows (run_store now oper db)) = map place (is_rows db)"
      unfolding OpTouchStopped run_store.simps TouchStopped_def by (rule map_change_rows) (simp add: place_def)
    then show ?thesis by (rule same)
  qed
qed

text \<open>C33. Whatever sequence of operations the project store gets, ids stay distinct and positive, no two
  projects of a type share a slug, every slug is a legal directory name, every restart policy is
  one of the three, and the selected project exists; and no operation changes the slug, the type
  or the directory of a project.\<close>

theorem instance_store_consistent:
  "instances_ok (foldl (\<lambda>d (now, oper). run_store now oper d) empty_instances ops) \<and>
   (\<forall>now oper r r'. r \<in> set (is_rows (foldl (\<lambda>d (now, oper). run_store now oper d) empty_instances ops)) \<longrightarrow>
      r' \<in> set (is_rows (run_store now oper (foldl (\<lambda>d (now, oper). run_store now oper d) empty_instances ops))) \<longrightarrow>
      ins_id r = ins_id r' \<longrightarrow> place r = place r')"
proof -
  have "instances_ok empty_instances" by (simp add: instances_ok_def empty_instances_def)
  from project_table.run_keeps [OF this] show ?thesis using run_store_place by blast
qed

definition sample_project :: project where
  "sample_project = zero_instance\<lparr>ins_slug := ''smp'', ins_name := ''SMP'', ins_dir := RelativeDirFor ''smp'',
     ins_type := ''minecraft-java-modded'', ins_policy := ''on-failure''\<rparr>"

theorem instance_store_consistent_witness:
  "let db = foldl (\<lambda>d (now, oper). run_store now oper d) empty_instances
        [(''t'', OpCreateInstance sample_project), (''t'', OpCreateInstance sample_project), (''t'', OpSetActive 1)]
   in length (is_rows db) = 1 \<and> ActiveID db = 1 \<and> instances_ok db"
proof -
  let ?ops = "[(''t'', OpCreateInstance sample_project), (''t'', OpCreateInstance sample_project), (''t'', OpSetActive 1)]"
  have "length (is_rows (foldl (\<lambda>d (now, oper). run_store now oper d) empty_instances ?ops)) = 1"
    "ActiveID (foldl (\<lambda>d (now, oper). run_store now oper d) empty_instances ?ops) = 1" by code_simp+
  with instance_store_consistent [of ?ops] show ?thesis unfolding Let_def by blast
qed

end
