(* ===== verification/FileManager.thy ===== *)
theory FileManager
  imports Sandbox FileTree "HOL-Library.List_Lexorder" "HOL-Library.Char_ord"
begin

text \<open>
  The file browser (\<open>source/internal/files/manager.go\<close>): reading, writing, creating, copying, moving
  and deleting below the root of a project, every path through \<open>SafeJoin\<close> and \<open>EvalWithinRoot\<close>,
  on the file tree of \<open>FileTree\<close>. Like there, contents count by their size.
\<close>

section \<open>More of the operating system\<close>

text \<open>\<open>EvalSymlinks\<close>, which tells a missing name from other errors and follows 255 links.\<close>

function eval_walk :: "nat \<Rightarrow> fs \<Rightarrow> string list \<Rightarrow> string list \<Rightarrow> eval_error + string list" where
  "eval_walk n fs cur [] = Inr cur"
| "eval_walk n fs cur (c # cs) =
     (if c = [] \<or> c = ''.'' then eval_walk n fs cur cs
      else if c = ''..'' then eval_walk n fs (butlast cur) cs
      else case fs_get fs (cur @ [c]) of
        None \<Rightarrow> Inl NotExist
      | Some NDir \<Rightarrow> eval_walk n fs (cur @ [c]) cs
      | Some (NFile k) \<Rightarrow> if cs = [] then Inr (cur @ [c]) else Inl OtherError
      | Some (NLink t) \<Rightarrow>
          if n = 0 then Inl OtherError
          else eval_walk (n - 1) fs (if IsAbs t then [] else cur) (Split slash t @ cs))"
  by pat_completeness auto
termination by (relation "measures [\<lambda>(n, fs, cur, cs). n, \<lambda>(n, fs, cur, cs). length cs]") auto

definition EvalSymlinks :: "fs \<Rightarrow> string \<Rightarrow> eval_error + string" where
  "EvalSymlinks fs p =
     (case eval_walk 255 fs [] (names p) of Inl e \<Rightarrow> Inl e | Inr q \<Rightarrow> Inr (render True q))"

definition Lstat :: "fs \<Rightarrow> string list \<Rightarrow> node option" where
  "Lstat fs p = (case lookup fs False p of None \<Rightarrow> None | Some q \<Rightarrow> fs_get fs q)"

text \<open>An exclusive creation, which does not follow a link.\<close>

definition create_excl :: "string list \<Rightarrow> nat \<Rightarrow> fs \<Rightarrow> bool \<times> fs" where
  "create_excl p k fs =
     (case lookup fs False p of
        None \<Rightarrow> (False, fs)
      | Some q \<Rightarrow> if fs_get fs q \<noteq> None then (False, fs) else (True, fs_put q (NFile k) fs))"

definition MkDir :: "string list \<Rightarrow> fs \<Rightarrow> bool \<times> fs" where
  "MkDir p fs =
     (case lookup fs False p of
        None \<Rightarrow> (False, fs)
      | Some q \<Rightarrow> if fs_get fs q \<noteq> None then (False, fs) else (True, fs_put q NDir fs))"

text \<open>\<open>os.RemoveAll\<close> of a path that is not there succeeds.\<close>

definition RemoveAll :: "string list \<Rightarrow> fs \<Rightarrow> bool \<times> fs" where
  "RemoveAll p fs =
     (case lookup fs False p of
        None \<Rightarrow> (True, fs)
      | Some q \<Rightarrow> if q = [] then (False, fs) else (True, filter (\<lambda>e. \<not> under q (fst e)) fs))"

definition move_entry :: "string list \<Rightarrow> string list \<Rightarrow> string list \<Rightarrow> string list" where
  "move_entry p q r = (if under p r then q @ drop (length p) r else r)"

text \<open>\<open>os.Rename\<close>: never over a directory, a directory never over a file nor into itself.\<close>

definition Rename :: "string list \<Rightarrow> string list \<Rightarrow> fs \<Rightarrow> bool \<times> fs" where
  "Rename from to fs =
     (case (lookup fs False from, lookup fs False to) of
        (Some p, Some q) \<Rightarrow>
          if p = [] \<or> q = [] \<or> fs_get fs p = None \<or> fs_get fs q = Some NDir \<or>
             (fs_get fs p = Some NDir \<and> (fs_get fs q \<noteq> None \<or> under p q)) then (False, fs)
          else if p = q then (True, fs)
          else (True, map (\<lambda>e. (move_entry p q (fst e), snd e)) (fs_del q fs))
      | _ \<Rightarrow> (False, fs))"

text \<open>The names in a directory, in order.\<close>

definition ReadDir :: "fs \<Rightarrow> string list \<Rightarrow> string list option" where
  "ReadDir fs p =
     (case lookup fs True p of
        None \<Rightarrow> None
      | Some q \<Rightarrow>
          if fs_get fs q = Some NDir
          then Some (sort (remdups (map (\<lambda>e. last (fst e)) (filter (\<lambda>e. fst e \<noteq> [] \<and> butlast (fst e) = q) fs))))
          else None)"

section \<open>The manager\<close>

datatype file_error =
    PathError path_error | IsDirectory | TooLarge | NotText | AlreadyExists | IntoItself | LinkRefused
  | NotRegular | RootRefused | MissingFile | IOError | NoDestination | Endless

record manager =
  mg_root :: string
  mg_max_edit :: int
  mg_max_upload :: int

definition resolve :: "manager \<Rightarrow> fs \<Rightarrow> string \<Rightarrow> file_error + string" where
  "resolve m fs rel =
     (case SafeJoin (mg_root m) [TrimPrefix (TrimSpace rel) ''/''] of
        Inl e \<Rightarrow> Inl (PathError e)
      | Inr p \<Rightarrow>
          (case EvalWithinRoot (EvalSymlinks fs) None (mg_root m) p of
             None \<Rightarrow> Inl Endless
           | Some (Inl e) \<Rightarrow> Inl (PathError e)
           | Some (Inr q) \<Rightarrow> Inr q))"

text \<open>What a write leaves behind, or the first error.\<close>

type_synonym file_result = "file_error option \<times> fs"

text \<open>\<open>text\<close> says whether the content at a path is valid UTF-8; the result is the file read.\<close>

definition ReadText :: "manager \<Rightarrow> fs \<Rightarrow> (string list \<Rightarrow> bool) \<Rightarrow> string \<Rightarrow> file_error + string list \<times> nat" where
  "ReadText m fs is_text rel =
     (case resolve m fs rel of
        Inl e \<Rightarrow> Inl e
      | Inr p \<Rightarrow>
          (case lookup fs True (names p) of
             None \<Rightarrow> Inl MissingFile
           | Some q \<Rightarrow>
               (case fs_get fs q of
                  None \<Rightarrow> Inl MissingFile
                | Some NDir \<Rightarrow> Inl IsDirectory
                | Some (NLink t) \<Rightarrow> Inl IOError
                | Some (NFile k) \<Rightarrow>
                    if 0 < mg_max_edit m \<and> mg_max_edit m < int k then Inl TooLarge
                    else if \<not> is_text q then Inl NotText
                    else Inr (q, k))))"

definition importantNames :: "string list" where
  "importantNames = [''server.properties'', ''eula.txt'', ''user_jvm_args.txt'', ''whitelist.json'', ''ops.json'',
     ''banned-players.json'', ''banned-ips.json'']"

text \<open>The copy of an important file before a change; its errors are ignored.\<close>

definition backupImportant :: "string \<Rightarrow> string \<Rightarrow> fs \<Rightarrow> fs" where
  "backupImportant stamp p fs =
     (if Base p \<notin> set importantNames then fs
      else case Stat fs (names p) of
        Some (NFile k) \<Rightarrow> snd (write_file (names (p @ ''.bonghos-backup-'' @ stamp)) k fs)
      | _ \<Rightarrow> fs)"

text \<open>\<open>tmp\<close> is the random part of the temporary name. A rename that fails leaves the old file, and the
  temporary one is removed.\<close>

definition atomicWrite :: "string \<Rightarrow> string \<Rightarrow> nat \<Rightarrow> fs \<Rightarrow> bool \<times> fs" where
  "atomicWrite tmp p k fs =
     (let t = names (Dir p) @ [''.bonghos-tmp-'' @ tmp] in
      case create_excl t k fs of
        (False, fs) \<Rightarrow> (False, fs)
      | (True, fs) \<Rightarrow> (case Rename t (names p) fs of (ok, fs) \<Rightarrow> (ok, snd (Remove t fs))))"

definition WriteText :: "manager \<Rightarrow> string \<Rightarrow> string \<Rightarrow> string \<Rightarrow> string \<Rightarrow> fs \<Rightarrow> file_result" where
  "WriteText m stamp tmp rel content fs =
     (case resolve m fs rel of
        Inl e \<Rightarrow> (Some e, fs)
      | Inr p \<Rightarrow>
          if 0 < mg_max_edit m \<and> mg_max_edit m < int (length content) then (Some TooLarge, fs)
          else
            let fs1 = (case Stat fs (names p) of
                         Some NDir \<Rightarrow> fs | None \<Rightarrow> fs | Some _ \<Rightarrow> backupImportant stamp p fs)
            in case MkdirAll (names (Dir p)) fs1 of
                 (False, fs2) \<Rightarrow> (Some IOError, fs2)
               | (True, fs2) \<Rightarrow>
                   (case atomicWrite tmp p (length content) fs2 of
                      (ok, fs3) \<Rightarrow> (if ok then None else Some IOError, fs3)))"

definition CreateFile :: "manager \<Rightarrow> string \<Rightarrow> fs \<Rightarrow> file_result" where
  "CreateFile m rel fs =
     (case resolve m fs rel of
        Inl e \<Rightarrow> (Some e, fs)
      | Inr p \<Rightarrow>
          (case MkdirAll (names (Dir p)) fs of
             (False, fs1) \<Rightarrow> (Some IOError, fs1)
           | (True, fs1) \<Rightarrow>
               (case create_excl (names p) 0 fs1 of
                  (True, fs2) \<Rightarrow> (None, fs2)
                | (False, fs2) \<Rightarrow> (Some (if Lstat fs1 (names p) \<noteq> None then AlreadyExists else IOError), fs2))))"

definition Mkdir :: "manager \<Rightarrow> string \<Rightarrow> fs \<Rightarrow> file_result" where
  "Mkdir m rel fs =
     (case resolve m fs rel of
        Inl e \<Rightarrow> (Some e, fs)
      | Inr p \<Rightarrow> (case MkdirAll (names p) fs of (ok, fs1) \<Rightarrow> (if ok then None else Some IOError, fs1)))"

text \<open>Whether \<open>to\<close> is \<open>from\<close> or below it, by their names.\<close>

definition into_itself :: "string \<Rightarrow> string \<Rightarrow> bool" where
  "into_itself from to =
     (case Rel from to of None \<Rightarrow> False | Some rel \<Rightarrow> rel \<noteq> ''..'' \<and> \<not> HasPrefix rel ''../'')"

text \<open>The copy of a tree, with a bound on the depth of the recursion; the result is the error.\<close>

fun copyTree :: "nat \<Rightarrow> string list \<Rightarrow> string list \<Rightarrow> fs \<Rightarrow> file_result"
and copy_entries :: "nat \<Rightarrow> string list \<Rightarrow> string list \<Rightarrow> string list \<Rightarrow> fs \<Rightarrow> file_result" where
  "copyTree n from to fs =
     (case Lstat fs from of
        None \<Rightarrow> (Some IOError, fs)
      | Some (NLink t) \<Rightarrow> (Some LinkRefused, fs)
      | Some (NFile k) \<Rightarrow>
          (case MkdirAll (butlast to) fs of
             (False, fs1) \<Rightarrow> (Some IOError, fs1)
           | (True, fs1) \<Rightarrow> (case create_excl to k fs1 of (ok, fs2) \<Rightarrow> (if ok then None else Some IOError, fs2)))
      | Some NDir \<Rightarrow>
          (case n of
             0 \<Rightarrow> (Some Endless, fs)
           | Suc n' \<Rightarrow>
               (case MkdirAll (butlast to) fs of
                  (False, fs1) \<Rightarrow> (Some IOError, fs1)
                | (True, fs1) \<Rightarrow>
                    (case MkDir to fs1 of
                       (False, fs2) \<Rightarrow> (Some IOError, fs2)
                     | (True, fs2) \<Rightarrow>
                         (case ReadDir fs2 from of
                            None \<Rightarrow> (Some IOError, fs2)
                          | Some es \<Rightarrow> copy_entries n' from to es fs2)))))"
| "copy_entries n from to [] fs = (None, fs)"
| "copy_entries n from to (e # es) fs =
     (case copyTree n (from @ [e]) (to @ [e]) fs of
        (Some err, fs1) \<Rightarrow> (Some err, fs1)
      | (None, fs1) \<Rightarrow> copy_entries n from to es fs1)"

text \<open>A path is at most 4096 bytes long.\<close>

definition depth_limit :: nat where "depth_limit = 4096"

text \<open>\<open>same_device\<close> says whether the rename can work; otherwise the tree is copied and removed.\<close>

definition MoveTo :: "bool \<Rightarrow> manager \<Rightarrow> string \<Rightarrow> manager option \<Rightarrow> string \<Rightarrow> fs \<Rightarrow> file_result" where
  "MoveTo same_device m fromRel destination toRel fs =
     (case destination of
        None \<Rightarrow> (Some NoDestination, fs)
      | Some dm \<Rightarrow>
        (case resolve m fs fromRel of
           Inl e \<Rightarrow> (Some e, fs)
         | Inr from \<Rightarrow>
           (case resolve dm fs toRel of
              Inl e \<Rightarrow> (Some e, fs)
            | Inr to \<Rightarrow>
                if Stat fs (names to) \<noteq> None then (Some AlreadyExists, fs)
                else if Stat fs (names from) = Some NDir \<and> into_itself from to then (Some IntoItself, fs)
                else case MkdirAll (names (Dir to)) fs of
                  (False, fs1) \<Rightarrow> (Some IOError, fs1)
                | (True, fs1) \<Rightarrow>
                    (case (if same_device then Rename (names from) (names to) fs1 else (False, fs1)) of
                       (True, fs2) \<Rightarrow> (None, fs2)
                     | (False, fs2) \<Rightarrow>
                         if Lstat fs2 (names from) = None then (Some IOError, fs2)
                         else case copyTree depth_limit (names from) (names to) fs2 of
                           (Some e, fs3) \<Rightarrow> (Some e, snd (RemoveAll (names to) fs3))
                         | (None, fs3) \<Rightarrow>
                             (case RemoveAll (names from) fs3 of
                                (True, fs4) \<Rightarrow> (None, fs4)
                              | (False, fs4) \<Rightarrow> (Some IOError, snd (RemoveAll (names to) fs4)))))))"

definition RenameIn :: "bool \<Rightarrow> manager \<Rightarrow> string \<Rightarrow> string \<Rightarrow> fs \<Rightarrow> file_result" where
  "RenameIn same_device m fromRel toRel = MoveTo same_device m fromRel (Some m) toRel"

definition CopyTo :: "manager \<Rightarrow> string \<Rightarrow> manager option \<Rightarrow> string \<Rightarrow> fs \<Rightarrow> file_result" where
  "CopyTo m fromRel destination toRel fs =
     (case destination of
        None \<Rightarrow> (Some NoDestination, fs)
      | Some dm \<Rightarrow>
        (case resolve m fs fromRel of
           Inl e \<Rightarrow> (Some e, fs)
         | Inr from \<Rightarrow>
           (case resolve dm fs toRel of
              Inl e \<Rightarrow> (Some e, fs)
            | Inr to \<Rightarrow>
                if Lstat fs (names to) \<noteq> None then (Some AlreadyExists, fs)
                else case Lstat fs (names from) of
                  None \<Rightarrow> (Some IOError, fs)
                | Some (NLink t) \<Rightarrow> (Some LinkRefused, fs)
                | Some n \<Rightarrow>
                    if n = NDir \<and> into_itself from to then (Some IntoItself, fs)
                    else case copyTree depth_limit (names from) (names to) fs of
                      (Some e, fs1) \<Rightarrow> (Some e, snd (RemoveAll (names to) fs1))
                    | (None, fs1) \<Rightarrow> (None, fs1))))"

definition Copy :: "manager \<Rightarrow> string \<Rightarrow> string \<Rightarrow> fs \<Rightarrow> file_result" where
  "Copy m fromRel toRel = CopyTo m fromRel (Some m) toRel"

definition Delete :: "manager \<Rightarrow> string \<Rightarrow> fs \<Rightarrow> file_result" where
  "Delete m rel fs =
     (case resolve m fs rel of
        Inl e \<Rightarrow> (Some e, fs)
      | Inr p \<Rightarrow>
          if Clean p = Clean (mg_root m) then (Some RootRefused, fs)
          else (case RemoveAll (names p) fs of (ok, fs1) \<Rightarrow> (if ok then None else Some IOError, fs1)))"

text \<open>The file opened for a download.\<close>

definition Open :: "manager \<Rightarrow> fs \<Rightarrow> string \<Rightarrow> file_error + string list" where
  "Open m fs rel =
     (case resolve m fs rel of
        Inl e \<Rightarrow> Inl e
      | Inr p \<Rightarrow>
          (case lookup fs True (names p) of
             None \<Rightarrow> Inl IOError
           | Some q \<Rightarrow>
               (case fs_get fs q of
                  None \<Rightarrow> Inl IOError | Some NDir \<Rightarrow> Inl IsDirectory | Some _ \<Rightarrow> Inr q)))"

text \<open>\<open>sz\<close> is what the reader holds, \<open>read_ok\<close> whether reading it went well.\<close>

definition SaveUpload :: "manager \<Rightarrow> string \<Rightarrow> nat \<Rightarrow> bool \<Rightarrow> fs \<Rightarrow> int \<times> file_error option \<times> fs" where
  "SaveUpload m rel sz read_ok fs =
     (case resolve m fs rel of
        Inl e \<Rightarrow> (0, Some e, fs)
      | Inr p \<Rightarrow>
          (case MkdirAll (names (Dir p)) fs of
             (False, fs1) \<Rightarrow> (0, Some IOError, fs1)
           | (True, fs1) \<Rightarrow>
               let limit = (if mg_max_upload m \<le> 0 then 4 * 1024 * 1024 * 1024 else mg_max_upload m);
                   n = min (int sz) (max 0 (wrap64 (limit + 1)))
               in case write_file (names p) (nat n) fs1 of
                 (False, fs2) \<Rightarrow> (0, Some IOError, fs2)
               | (True, fs2) \<Rightarrow>
                   if limit < n then (n, Some TooLarge, snd (Remove (names p) fs2))
                   else if \<not> read_ok then (n, Some IOError, fs2)
                   else (n, None, fs2)))"

record entry =
  en_name :: string
  en_path :: string
  en_dir :: bool
  en_size :: nat

definition node_size :: "node \<Rightarrow> nat" where
  "node_size n = (case n of NFile k \<Rightarrow> k | NLink t \<Rightarrow> length t | NDir \<Rightarrow> 0)"

text \<open>Directories first, then by the name in small letters; names that differ in nothing else stay in
  the order of the directory.\<close>

definition List_dir :: "manager \<Rightarrow> fs \<Rightarrow> string \<Rightarrow> file_error + entry list" where
  "List_dir m fs rel =
     (case resolve m fs rel of
        Inl e \<Rightarrow> Inl e
      | Inr p \<Rightarrow>
          (case ReadDir fs (names p) of
             None \<Rightarrow> Inl IOError
           | Some ns \<Rightarrow>
               (let es = List.map_filter (\<lambda>n. case Lstat fs (names p @ [n]) of
                            None \<Rightarrow> None
                          | Some nd \<Rightarrow> Some \<lparr>en_name = n, en_path = JoinPath [rel, n], en_dir = (nd = NDir),
                                             en_size = node_size nd\<rparr>) ns;
                    sorted = sort_key (\<lambda>e. ToLower (en_name e)) es
                in Inr (filter en_dir sorted @ filter (\<lambda>e. \<not> en_dir e) sorted))))"

text \<open>The walk of a search: a directory before its entries, these by name. What cannot be read is skipped.\<close>

fun walk_list :: "nat \<Rightarrow> fs \<Rightarrow> string \<Rightarrow> (string \<times> node) list" where
  "walk_list n fs p =
     (case Lstat fs (names p) of
        None \<Rightarrow> []
      | Some NDir \<Rightarrow>
          (case ReadDir fs (names p) of
             None \<Rightarrow> []
           | Some es \<Rightarrow>
               (p, NDir) # (case n of
                  0 \<Rightarrow> []
                | Suc n' \<Rightarrow> concat (map (\<lambda>e. walk_list n' fs (JoinPath [p, e])) es)))
      | Some nd \<Rightarrow> [(p, nd)])"

definition Search :: "manager \<Rightarrow> fs \<Rightarrow> string \<Rightarrow> entry list" where
  "Search m fs q0 =
     (let q = ToLower (TrimSpace q0) in
      if q = [] then []
      else take 500 (map (\<lambda>(p, nd). \<lparr>en_name = Base p, en_path = (case Rel (mg_root m) p of None \<Rightarrow> [] | Some r \<Rightarrow> r),
                                        en_dir = (nd = NDir), en_size = node_size nd\<rparr>)
             (filter (\<lambda>(p, nd). Contains (ToLower (Base p)) q) (walk_list depth_limit fs (mg_root m)))))"

section \<open>What the operating system changes\<close>

lemma EvalSymlinks_abs: "EvalSymlinks fs q = Inr r \<Longrightarrow> IsAbs r"
  by (auto simp: EvalSymlinks_def render_abs split: sum.splits)

text \<open>A resolved path lies below the root by its names.\<close>

lemma resolve_names:
  assumes "IsAbs (mg_root m)" "resolve m fs rel = Inr p"
  shows "\<exists>r. names p = names (mg_root m) @ r" "list_all good_name (names p)" "IsAbs p" "Clean p = p"
proof -
  from assms(2) obtain q where q: "SafeJoin (mg_root m) [TrimPrefix (TrimSpace rel) ''/''] = Inr q"
    "EvalWithinRoot (EvalSymlinks fs) None (mg_root m) q = Some (Inr p)"
    by (auto simp: resolve_def split: sum.splits option.splits)
  have a: "IsAbs q" "Clean q = q" "below (mg_root m) q"
    using safe_join.resolve_abs [OF assms(1) q(1)] safe_join.resolve_clean [OF assms(1) q(1)]
      safe_join.resolve_below [OF assms(1) q(1)] by auto
  have "p = q"
  proof -
    from q(2) a(1) obtain root' where
      "eval_probe (Suc (length (names (Clean (Abs [] q))))) (EvalSymlinks fs) root' (Clean (Abs [] q)) (Clean (Abs [] q)) [] = Some (Inr p)"
      by (auto simp: EvalWithinRoot_def Let_def split: sum.splits)
    moreover have c: "Clean (Abs [] q) = q" using a by (simp add: Abs_def)
    moreover have "q = render True (names q)" using Clean_abs [OF a(1)] a(2) by simp
    ultimately have "eval_probe (Suc (length (names q))) (EvalSymlinks fs) root' q (render True (names q)) [] = Some (Inr p)"
      by simp
    from eval_probe_sound [OF names_good this] show ?thesis by blast
  qed
  with a show "\<exists>r. names p = names (mg_root m) @ r" "list_all good_name (names p)" "IsAbs p" "Clean p = p"
    by (auto simp: below_def names_good)
qed

lemma create_excl_confined:
  assumes "list_all good_name (d @ r)" "link_free d fs" "create_excl (d @ r) k fs = (b, fs')"
  shows "confined d fs fs' \<and> keeps_dirs fs fs'"
proof (cases "lookup fs False (d @ r)")
  case None with assms show ?thesis by (simp add: create_excl_def confined_def)
next
  case (Some q)
  note q = lookup_plain [OF assms(1,2) Some]
  show ?thesis
  proof (cases "fs_get fs q = None")
    case True
    then have "q \<noteq> []" by (auto simp: fs_get_def)
    with Some True assms(2,3) q confined_put [OF assms(2), of r "NFile k"] keeps_dirs_put [of q fs "NFile k"]
    show ?thesis by (auto simp: create_excl_def)
  qed (use Some assms in \<open>simp add: create_excl_def confined_def\<close>)
qed

lemma MkDir_confined:
  assumes "list_all good_name (d @ r)" "link_free d fs" "MkDir (d @ r) fs = (b, fs')"
  shows "confined d fs fs' \<and> keeps_dirs fs fs'"
proof (cases "lookup fs False (d @ r)")
  case None with assms show ?thesis by (simp add: MkDir_def confined_def)
next
  case (Some q)
  note q = lookup_plain [OF assms(1,2) Some]
  show ?thesis
  proof (cases "fs_get fs q = None")
    case True
    then have "q \<noteq> []" by (auto simp: fs_get_def)
    with Some True assms(2,3) q confined_put [OF assms(2), of r NDir] keeps_dirs_put [of q fs NDir]
    show ?thesis by (auto simp: MkDir_def)
  qed (use Some assms in \<open>simp add: MkDir_def confined_def\<close>)
qed

lemma map_of_filter_key: "map_of (filter (\<lambda>e. P (fst e)) xs) k = (if P k then map_of xs k else None)"
  by (induction xs) auto

lemma RemoveAll_confined:
  assumes "list_all good_name (d @ r)" "link_free d fs" "RemoveAll (d @ r) fs = (b, fs')"
  shows "confined d fs fs'" "r \<noteq> [] \<Longrightarrow> fs_get fs' d = fs_get fs d"
proof -
  have g: "fs_get (filter (\<lambda>e. \<not> under (d @ r) (fst e)) fs) p =
      (if under (d @ r) p \<and> p \<noteq> [] then None else fs_get fs p)" if "d @ r \<noteq> []" for p
    using that by (simp add: fs_get_def map_of_filter_key [where P = "\<lambda>k. \<not> under (d @ r) k"])
  have n: "\<not> under (d @ r) d" if "r \<noteq> []" using that by (auto simp: under_iff)
  have "fs' = fs \<or> (d @ r \<noteq> [] \<and> fs' = filter (\<lambda>e. \<not> under (d @ r) (fst e)) fs)"
  proof (cases "lookup fs False (d @ r)")
    case (Some q)
    with lookup_plain [OF assms(1,2) Some] assms(3) show ?thesis by (auto simp: RemoveAll_def split: if_splits)
  qed (use assms(3) in \<open>simp add: RemoveAll_def\<close>)
  then show "confined d fs fs'" "r \<noteq> [] \<Longrightarrow> fs_get fs' d = fs_get fs d"
    using assms(2) g n under_trans [OF under_append [of d r]]
    by (auto simp: confined_def same_outside_def link_free_def split: if_splits)
qed

lemma map_of_moved:
  "map_of (map (\<lambda>e. (f (fst e), snd e)) xs) r = Some n \<Longrightarrow> \<exists>k. f k = r \<and> map_of xs k = Some n"
proof (induction xs)
  case (Cons x xs)
  show ?case
  proof (cases "f (fst x) = r")
    case True
    with Cons.prems show ?thesis by (intro exI [of _ "fst x"]) simp
  next
    case False
    with Cons obtain k where "f k = r" "map_of xs k = Some n" by auto
    moreover from this False have "k \<noteq> fst x" by auto
    ultimately show ?thesis by auto
  qed
qed simp

lemma map_of_unmoved:
  assumes "\<And>k. f k = r \<longleftrightarrow> k = r"
  shows "map_of (map (\<lambda>e. (f (fst e), snd e)) xs) r = map_of xs r"
proof (induction xs)
  case (Cons x xs)
  with assms [of "fst x"] show ?case by (cases "fst x = r") auto
qed simp

text \<open>A move from below \<open>d\<close> to below \<open>e\<close> changes nothing elsewhere and makes no links.\<close>

definition stays :: "string list \<Rightarrow> string list \<Rightarrow> fs \<Rightarrow> fs \<Rightarrow> bool" where
  "stays d e fs fs' \<longleftrightarrow> (\<forall>p. \<not> under d p \<longrightarrow> \<not> under e p \<longrightarrow> fs_get fs' p = fs_get fs p) \<and>
     link_free d fs' \<and> link_free e fs'"

lemma stays_refl: "link_free d fs \<Longrightarrow> link_free e fs \<Longrightarrow> stays d e fs fs"
  by (simp add: stays_def)

lemma stays_trans: "stays d e a b \<Longrightarrow> stays d e b c \<Longrightarrow> stays d e a c"
  by (simp add: stays_def)

lemma stays_sym: "stays d e a b \<longleftrightarrow> stays e d a b"
  by (auto simp: stays_def)

lemma confined_stays: "link_free d fs \<Longrightarrow> confined e fs fs' \<Longrightarrow> stays d e fs fs'"
  unfolding stays_def confined_def same_outside_def link_free_def by metis

lemma Rename_stays:
  assumes "list_all good_name (d @ r)" "list_all good_name (e @ s)" "link_free d fs" "link_free e fs"
    "Rename (d @ r) (e @ s) fs = (b, fs')"
  shows "stays d e fs fs'" "\<not> under (d @ r) a \<Longrightarrow> \<not> under (e @ s) a \<Longrightarrow> fs_get fs' a = fs_get fs a"
proof -
  define xs where "xs = fs_del (e @ s) fs"
  define f where "f = move_entry (d @ r) (e @ s)"
  have cases: "fs' = fs \<or> (d @ r \<noteq> [] \<and> e @ s \<noteq> [] \<and> fs' = map (\<lambda>x. (f (fst x), snd x)) xs)"
  proof (cases "lookup fs False (d @ r) = None \<or> lookup fs False (e @ s) = None")
    case True with assms(5) show ?thesis by (auto simp: Rename_def split: option.splits)
  next
    case False
    then obtain p q where pq: "lookup fs False (d @ r) = Some p" "lookup fs False (e @ s) = Some q" by auto
    with lookup_plain [OF assms(1,3) pq(1)] lookup_plain [OF assms(2,4) pq(2)] assms(5)
    show ?thesis by (auto simp: Rename_def xs_def f_def split: if_splits)
  qed
  have out: "fs_get fs' a = fs_get fs a" if a: "\<not> under (d @ r) a" "\<not> under (e @ s) a" for a
  proof -
    have "f k = a \<longleftrightarrow> k = a" for k
      using a by (auto simp: f_def move_entry_def under_iff split: if_splits)
    then have "map_of (map (\<lambda>x. (f (fst x), snd x)) xs) a = map_of xs a" by (rule map_of_unmoved)
    moreover have "a \<noteq> e @ s" using a(2) by (auto simp: under_def)
    then have "fs_get xs a = fs_get fs a" if "e @ s \<noteq> []"
      unfolding xs_def using fs_get_del [OF that, of fs a] by simp
    ultimately show ?thesis using cases by (auto simp: fs_get_def)
  qed
  then show "\<not> under (d @ r) a \<Longrightarrow> \<not> under (e @ s) a \<Longrightarrow> fs_get fs' a = fs_get fs a" by blast
  have link: "\<exists>k. fs_get fs k = Some (NLink t) \<and> (k = a \<or> under d k)" if "fs_get fs' a = Some (NLink t)" for a t
  proof (cases "fs' = fs")
    case False
    with cases have m: "d @ r \<noteq> []" "e @ s \<noteq> []" "fs' = map (\<lambda>x. (f (fst x), snd x)) xs" by auto
    with that have "a \<noteq> []" "map_of fs' a = Some (NLink t)" by (auto simp: fs_get_def split: if_splits)
    with map_of_moved [of f xs a] m(3) obtain k where k: "f k = a" "map_of xs k = Some (NLink t)" by auto
    have "\<not> under (d @ r) []" using m(1) by (simp add: under_def)
    then have "f [] = []" by (simp add: f_def move_entry_def)
    with k(1) \<open>a \<noteq> []\<close> have "k \<noteq> []" by auto
    with k(2) have "fs_get xs k = Some (NLink t)" by (simp add: fs_get_def)
    then have "fs_get fs k = Some (NLink t)"
      using fs_get_del [OF m(2), of fs k] unfolding xs_def by (simp split: if_splits)
    moreover have "k = a \<or> under d k"
      using k(1) under_trans [OF under_append [of d r]] by (auto simp: f_def move_entry_def split: if_splits)
    ultimately show ?thesis by blast
  qed (use that in blast)
  have "under d a \<Longrightarrow> False" "under a d \<Longrightarrow> False" "under e a \<Longrightarrow> False" "under a e \<Longrightarrow> False"
    if "fs_get fs' a = Some (NLink t)" for a t
    using link [OF that] assms(3,4) unfolding link_free_def by metis+
  then have "link_free d fs'" "link_free e fs'" by (auto simp: link_free_def)
  moreover have "fs_get fs' p = fs_get fs p" if "\<not> under d p" "\<not> under e p" for p
    using out [of p] that under_trans [OF under_append [of d r]] under_trans [OF under_append [of e s]] by blast
  ultimately show "stays d e fs fs'" by (simp add: stays_def)
qed

end
