(* ===== verification/FileJail.thy ===== *)
theory FileJail
  imports FileManager
begin

text \<open>
  What the file browser can change: every operation on a project whose root is a real directory
  without links in it leaves everything outside that root as it was, and keeps the root.
\<close>

section \<open>Trees of good names\<close>

definition good_tree :: "fs \<Rightarrow> bool" where
  "good_tree fs \<longleftrightarrow> list_all (\<lambda>e. list_all good_name (fst e)) fs"

lemma walk_good:
  "walk n fs f cur cs = Some q \<Longrightarrow> list_all good_name cur \<Longrightarrow> \<forall>c\<in>set cs. slash \<notin> set c \<Longrightarrow> list_all good_name q"
proof (induction n fs f cur cs rule: walk.induct)
  case (2 n fs f cur c cs)
  have b: "list_all good_name (butlast cur)" using "2.prems"(2) by (auto simp: list_all_iff dest: in_set_butlastD)
  consider "c = [] \<or> c = ''.''" | "c = ''..''" | "good_name c" using "2.prems"(3) by (auto simp: good_name_def)
  then show ?case
  proof cases
    case 3
    then have "\<not> (c = [] \<or> c = ''.'')" "c \<noteq> ''..''" by (auto simp: good_name_def)
    moreover have "list_all good_name (cur @ [c])" using 3 "2.prems"(2) by simp
    ultimately show ?thesis
      using 2 by (auto split: option.splits node.splits if_splits dest: Split_no_sep)
  qed (use 2 b in auto)
qed simp

lemma good_name_no_slash: "list_all good_name p \<Longrightarrow> \<forall>c\<in>set p. slash \<notin> set c"
  by (auto simp: list_all_iff good_name_def)

lemma lookup_good: "list_all good_name p \<Longrightarrow> lookup fs f p = Some q \<Longrightarrow> list_all good_name q"
  unfolding lookup_def by (erule walk_good) (auto dest: good_name_no_slash)

lemma good_tree_put: "good_tree fs \<Longrightarrow> list_all good_name p \<Longrightarrow> good_tree (fs_put p n fs)"
  by (auto simp: good_tree_def fs_put_def fs_del_def list_all_iff)

lemma good_tree_filter: "good_tree fs \<Longrightarrow> good_tree (filter P fs)"
  by (auto simp: good_tree_def list_all_iff)

lemma write_file_good: "list_all good_name p \<Longrightarrow> good_tree fs \<Longrightarrow> write_file p k fs = (b, fs') \<Longrightarrow> good_tree fs'"
  by (auto simp: write_file_def good_tree_put lookup_good split: option.splits if_splits)

lemma create_excl_good: "list_all good_name p \<Longrightarrow> good_tree fs \<Longrightarrow> create_excl p k fs = (b, fs') \<Longrightarrow> good_tree fs'"
  by (auto simp: create_excl_def good_tree_put lookup_good split: option.splits if_splits)

lemma MkDir_good: "list_all good_name p \<Longrightarrow> good_tree fs \<Longrightarrow> MkDir p fs = (b, fs') \<Longrightarrow> good_tree fs'"
  by (auto simp: MkDir_def good_tree_put lookup_good split: option.splits if_splits)

lemma Remove_good: "good_tree fs \<Longrightarrow> Remove p fs = (b, fs') \<Longrightarrow> good_tree fs'"
  by (auto simp: Remove_def fs_del_def good_tree_filter split: option.splits if_splits)

lemma RemoveAll_good: "good_tree fs \<Longrightarrow> RemoveAll p fs = (b, fs') \<Longrightarrow> good_tree fs'"
  by (auto simp: RemoveAll_def good_tree_filter split: option.splits if_splits)

lemma mkdir_all_good:
  "mkdir_all fs pre cs = (b, fs') \<Longrightarrow> good_tree fs \<Longrightarrow> list_all good_name (pre @ cs) \<Longrightarrow> good_tree fs'"
proof (induction fs pre cs rule: mkdir_all.induct)
  case (2 fs pre c cs)
  show ?case
  proof (cases "Stat fs (pre @ [c])")
    case None
    with 2 show ?thesis using good_tree_put [OF "2.prems"(2) lookup_good [of "pre @ [c]" fs False]]
      by (auto split: option.splits if_splits)
  next
    case (Some n)
    with 2 show ?thesis by (cases n) auto
  qed
qed simp

lemma Rename_good:
  assumes "list_all good_name q" "good_tree fs" "Rename p q fs = (b, fs')"
  shows "good_tree fs'"
proof -
  have m: "good_tree (map (\<lambda>e. (move_entry a c (fst e), snd e)) (fs_del c fs))" if "list_all good_name c" for a c
  proof -
    have "list_all good_name (move_entry a c r)" if "list_all good_name r" for r
      using that \<open>list_all good_name c\<close> by (auto simp: move_entry_def list_all_iff dest: in_set_dropD)
    with assms(2) show ?thesis by (fastforce simp: good_tree_def fs_del_def list_all_iff)
  qed
  show ?thesis
  proof (cases "lookup fs False q")
    case (Some c)
    with m [OF lookup_good [OF assms(1) Some]] assms(2,3) show ?thesis
      by (auto simp: Rename_def split: option.splits if_splits)
  qed (use assms in \<open>auto simp: Rename_def split: option.splits\<close>)
qed

lemma ReadDir_good: "good_tree fs \<Longrightarrow> ReadDir fs p = Some es \<Longrightarrow> list_all good_name es"
  by (auto simp: ReadDir_def good_tree_def list_all_iff split: option.splits if_splits)

section \<open>Jails\<close>

definition jail :: "string list \<Rightarrow> fs \<Rightarrow> bool" where
  "jail d fs \<longleftrightarrow> link_free d fs \<and> real_dir d fs \<and> good_tree fs"

definition kept :: "string list \<Rightarrow> fs \<Rightarrow> fs \<Rightarrow> bool" where
  "kept d fs fs' \<longleftrightarrow> same_outside d fs fs' \<and> jail d fs'"

lemma kept_refl: "jail d fs \<Longrightarrow> kept d fs fs"
  by (simp add: kept_def)

lemma kept_trans: "kept d a b \<Longrightarrow> kept d b c \<Longrightarrow> kept d a c"
  using same_outside_trans by (auto simp: kept_def)

lemma kept_jail: "kept d fs fs' \<Longrightarrow> jail d fs'"
  by (simp add: kept_def)

interpretation jails: change_frame "jail d" "kept d" for d
  by unfold_locales (simp add: kept_refl, erule (1) kept_trans, erule kept_jail)

lemma root_kept:
  assumes "jail d fs" "confined d fs fs'" "fs_get fs' d = Some NDir" "good_tree fs'"
  shows "kept d fs fs'"
proof -
  have "fs_get fs' a = Some NDir" if "under a d" for a
  proof (cases "under d a")
    case True
    with that have "a = d" by (auto simp: under_iff)
    with assms(3) show ?thesis by simp
  next
    case False
    with that assms(1,2) show ?thesis by (simp add: confined_def same_outside_def jail_def real_dir_def)
  qed
  with assms show ?thesis by (auto simp: kept_def confined_def jail_def real_dir_def)
qed

lemma jail_root: "jail d fs \<Longrightarrow> fs_get fs d = Some NDir"
  by (simp add: jail_def real_dir_def under_def)

lemma dirs_kept:
  "jail d fs \<Longrightarrow> confined d fs fs' \<and> keeps_dirs fs fs' \<Longrightarrow> good_tree fs' \<Longrightarrow> kept d fs fs'"
  using root_kept jail_root by (auto simp: keeps_dirs_def)

lemma MkdirAll_kept:
  assumes "jail d fs" "list_all good_name (d @ r)" "MkdirAll (d @ r) fs = (b, fs')"
  shows "kept d fs fs'"
  using assms dirs_kept [OF assms(1) MkdirAll_confined [OF assms(2) _ _ assms(3)]]
    mkdir_all_good [of fs "[]" "d @ r" b fs'] by (simp add: jail_def MkdirAll_def)

lemma MkdirAll_parent_kept:
  assumes "jail d fs" "list_all good_name (d @ r)" "MkdirAll (butlast (d @ r)) fs = (b, fs')"
  shows "kept d fs fs'"
proof (cases "r = []")
  case True
  have "under (butlast d) d" by (cases d rule: rev_cases) (simp_all add: under_iff)
  then have "real_dir (butlast d) fs"
    using assms(1) under_trans [of _ "butlast d" d] unfolding jail_def real_dir_def by blast
  moreover have "list_all good_name (butlast d)"
    using assms(2) by (auto simp: list_all_iff dest: in_set_butlastD)
  ultimately have "fs' = fs"
    using mkdir_all_real [of "[]" "butlast d" fs "[]"] assms(3) True by (simp add: MkdirAll_def)
  with assms(1) show ?thesis by (simp add: kept_refl)
next
  case False
  then have "MkdirAll (d @ butlast r) fs = (b, fs')" using assms(3) by (simp add: butlast_append)
  moreover have "list_all good_name (d @ butlast r)"
    using assms(2) by (auto simp: list_all_iff dest: in_set_butlastD)
  ultimately show ?thesis using MkdirAll_kept [OF assms(1)] by blast
qed

lemma create_excl_kept:
  "jail d fs \<Longrightarrow> list_all good_name (d @ r) \<Longrightarrow> create_excl (d @ r) k fs = (b, fs') \<Longrightarrow> kept d fs fs'"
  using dirs_kept create_excl_confined create_excl_good by (metis jail_def)

lemma MkDir_kept:
  "jail d fs \<Longrightarrow> list_all good_name (d @ r) \<Longrightarrow> MkDir (d @ r) fs = (b, fs') \<Longrightarrow> kept d fs fs'"
  using dirs_kept MkDir_confined MkDir_good by (metis jail_def)

lemma lookup_real:
  assumes "real_dir d fs" "list_all good_name d"
  shows "lookup fs f d = Some d"
proof -
  have "fs_get fs ([] @ a) = Some NDir" if "d = a @ b" for a b
    using assms(1) that by (simp add: real_dir_def under_iff)
  from walk_dirs [OF assms(2) this] show ?thesis by (simp add: lookup_def)
qed

lemma write_file_kept:
  assumes "jail d fs" "list_all good_name (d @ r)" "write_file (d @ r) k fs = (b, fs')"
  shows "kept d fs fs'"
proof (cases "d @ r = []")
  case True
  then have "lookup fs True (d @ r) = Some []" by (simp add: lookup_def)
  with True assms have "fs' = fs" by (auto simp: write_file_def fs_get_def split: if_splits)
  with assms(1) show ?thesis by (simp add: kept_refl)
next
  case False
  have l: "link_free d fs" "good_tree fs" using assms(1) by (simp_all add: jail_def)
  show ?thesis
    using dirs_kept [OF assms(1)] write_file_confined [OF assms(2) l(1) False assms(3)]
      write_file_dirs [OF assms(3)] write_file_good [OF assms(2) l(2) assms(3)] by simp
qed

lemma Remove_kept:
  assumes "jail d fs" "list_all good_name (d @ r)" "r \<noteq> []" "Remove (d @ r) fs = (b, fs')"
  shows "kept d fs fs'"
proof -
  have l: "link_free d fs" "good_tree fs" using assms(1) by (simp_all add: jail_def)
  have "fs_get fs' d = Some NDir"
  proof (cases "lookup fs False (d @ r)")
    case (Some q)
    with lookup_plain [OF assms(2) l(1) Some] assms(3,4) jail_root [OF assms(1)] show ?thesis
      by (auto simp: Remove_def fs_get_del split: if_splits)
  qed (use assms(4) jail_root [OF assms(1)] in \<open>simp add: Remove_def\<close>)
  then show ?thesis
    using root_kept [OF assms(1) Remove_confined [OF assms(2) l(1) assms(4)]] Remove_good [OF l(2) assms(4)] by simp
qed

lemma RemoveAll_kept:
  assumes "jail d fs" "list_all good_name (d @ r)" "r \<noteq> []" "RemoveAll (d @ r) fs = (b, fs')"
  shows "kept d fs fs'"
proof -
  have l: "link_free d fs" "good_tree fs" using assms(1) by (simp_all add: jail_def)
  note c = RemoveAll_confined [OF assms(2) l(1) assms(4)]
  show ?thesis
    using root_kept [OF assms(1) c(1)] c(2) assms(3) jail_root [OF assms(1)] RemoveAll_good [OF l(2) assms(4)] by simp
qed

lemma Rename_kept:
  assumes "jail d fs" "list_all good_name (d @ r)" "list_all good_name (d @ s)" "r \<noteq> []" "s \<noteq> []"
    "Rename (d @ r) (d @ s) fs = (b, fs')"
  shows "kept d fs fs'"
proof -
  have l: "link_free d fs" "good_tree fs" using assms(1) by (simp_all add: jail_def)
  note R = Rename_stays [OF assms(2,3) l(1) l(1) assms(6)]
  have "fs_get fs' d = Some NDir"
    using R(2) [of d] assms(4,5) jail_root [OF assms(1)] by (simp add: under_iff)
  moreover have "confined d fs fs'" using R(1) by (simp add: stays_def confined_def same_outside_def)
  ultimately show ?thesis using root_kept [OF assms(1)] Rename_good [OF assms(3) l(2) assms(6)] by blast
qed

section \<open>Copying\<close>

lemma copy_kept:
  shows "copyTree n from to fs = (e, fs') \<Longrightarrow> to = d @ r \<Longrightarrow> r \<noteq> [] \<Longrightarrow> jail d fs \<Longrightarrow> list_all good_name to \<Longrightarrow> kept d fs fs'"
    and "copy_entries n from to es fs = (e, fs') \<Longrightarrow> to = d @ r \<Longrightarrow> jail d fs \<Longrightarrow> list_all good_name (to @ es) \<Longrightarrow>
      kept d fs fs'"
proof (induction n "from" to fs and n "from" to es fs arbitrary: e fs' r and e fs' r
    rule: copyTree_copy_entries.induct)
  case (1 n frm to fs)
  have g: "list_all good_name (d @ r)" using "1.prems" by simp
  have m: "kept d fs fs1" if "MkdirAll (butlast to) fs = (b, fs1)" for b fs1
    using MkdirAll_parent_kept [OF "1.prems"(4) g] that "1.prems"(2) by simp
  show ?case
  proof (cases "Lstat fs frm")
    case None with "1.prems" show ?thesis by (simp add: kept_refl)
  next
    case (Some nd)
    show ?thesis
    proof (cases nd)
      case (NFile k)
      obtain b fs1 where M: "MkdirAll (butlast to) fs = (b, fs1)" by (metis surj_pair)
      obtain c fs2 where C: "create_excl to k fs1 = (c, fs2)" by (metis surj_pair)
      have "kept d fs fs2"
        using m [OF M] create_excl_kept [OF kept_jail [OF m [OF M]] g] C "1.prems"(2) kept_trans by blast
      with m [OF M] "1.prems"(1) Some NFile M C show ?thesis by (cases b) auto
    next
      case NDir
      show ?thesis
      proof (cases n)
        case 0 with "1.prems" Some NDir show ?thesis by (simp add: kept_refl)
      next
        case (Suc n')
        obtain b fs1 where M: "MkdirAll (butlast to) fs = (b, fs1)" by (metis surj_pair)
        obtain c fs2 where C: "MkDir to fs1 = (c, fs2)" by (metis surj_pair)
        have k: "kept d fs fs2"
          using m [OF M] MkDir_kept [OF kept_jail [OF m [OF M]] g] C "1.prems"(2) kept_trans by blast
        show ?thesis
        proof (cases "b \<and> c \<and> ReadDir fs2 frm \<noteq> None")
          case False
          with "1.prems"(1) Some NDir Suc M C m [OF M] k show ?thesis by (cases b; cases c) auto
        next
          case True
          then obtain es where R: "b" "c" "ReadDir fs2 frm = Some es" by auto
          with "1.prems"(1) Some NDir Suc M C have run: "copy_entries n' frm to es fs2 = (e, fs')" by simp
          have "good_tree fs2" using kept_jail [OF k] by (simp add: jail_def)
          then have "list_all good_name (to @ es)" using ReadDir_good R(3) "1.prems"(5) by simp
          with "1.IH" [OF Some NDir Suc M [symmetric] _ C [symmetric] _ R(3) run "1.prems"(2) kept_jail [OF k]] R
          have "kept d fs2 fs'" by simp
          with k show ?thesis by (rule kept_trans)
        qed
      qed
    qed (use "1.prems" Some in \<open>simp add: kept_refl\<close>)
  qed
next
  case (2 n frm to fs)
  then show ?case by (simp add: kept_refl)
next
  case (3 n frm to x es fs)
  obtain er fs1 where C: "copyTree n (frm @ [x]) (to @ [x]) fs = (er, fs1)" by (metis surj_pair)
  have k: "kept d fs fs1" using "3.IH"(1) [OF C, of "r @ [x]"] "3.prems" by simp
  show ?case
  proof (cases er)
    case None
    with "3.prems"(1) C have "copy_entries n frm to es fs1 = (e, fs')" by simp
    from "3.IH"(2) [OF C [symmetric] None this "3.prems"(2) kept_jail [OF k]] "3.prems"(4)
    have "kept d fs1 fs'" by simp
    with k show ?thesis by (rule kept_trans)
  qed (use "3.prems"(1) C k in simp)
qed

section \<open>Resolved paths\<close>

lemma resolved:
  assumes "IsAbs (mg_root m)" "resolve m fs rel = Inr p"
  obtains r where "names p = names (mg_root m) @ r" "list_all good_name (names (mg_root m) @ r)"
    "names (Dir p) = butlast (names (mg_root m) @ r)" "p = render True (names (mg_root m) @ r)"
proof -
  obtain r where r: "names p = names (mg_root m) @ r" using resolve_names(1) [OF assms] ..
  have g: "list_all good_name (names p)" using resolve_names(2) [OF assms] .
  have p: "p = render True (names p)" using resolve_names(3,4) [OF assms] by (simp add: Clean_abs)
  have "names (Dir p) = butlast (names p)"
  proof (cases "names p" rule: rev_cases)
    case Nil
    have "names (render True []) = []" by (rule names_render) simp
    with Nil p root_dir show ?thesis by (metis butlast.simps(1))
  next
    case (snoc ns n)
    with g have "list_all good_name (ns @ [n])" by simp
    with last_name(1) [OF this] snoc p show ?thesis by (simp add: names_render)
  qed
  with that r g p show ?thesis by simp
qed

lemma resolved_suffix:
  assumes "list_all good_name (d @ r)" "r \<noteq> []" "slash \<notin> set x" "2 < length x"
  shows "\<exists>s. names (render True (d @ r) @ x) = d @ s \<and> s \<noteq> [] \<and> list_all good_name (d @ s)"
proof -
  obtain ns n where r: "r = ns @ [n]" using assms(2) by (cases r rule: rev_cases) auto
  have "n \<noteq> []" "slash \<notin> set n" using assms(1) by (auto simp: r good_name_def)
  moreover have "2 < length (n @ x)" using assms(4) by simp
  then have "n @ x \<noteq> ''.''" "n @ x \<noteq> ''..''" by force+
  ultimately have "good_name (n @ x)" using assms(3) by (simp add: good_name_def)
  with assms(1) have g: "list_all good_name ((d @ ns) @ [n @ x])" by (simp add: r)
  have "render True (d @ r) @ x = render True ((d @ ns) @ [n @ x])"
    using rev_Join_snoc [of "d @ ns" n] rev_Join_snoc [OF g] assms(1) by (simp add: r)
  with names_render [OF g] g show ?thesis by (intro exI [of _ "ns @ [n @ x]"]) simp
qed

lemma Stat_root: "jail d fs \<Longrightarrow> list_all good_name d \<Longrightarrow> Stat fs d = Some NDir"
  using Stat_real_dir by (simp add: jail_def)

lemma into_itself_below:
  assumes "IsAbs p" "IsAbs q" "names q = names p @ r"
  shows "into_itself p q"
proof -
  obtain rel where "Rel p q = Some rel" "escapes rel \<longleftrightarrow> \<not> (\<exists>r. names q = names p @ r)"
    using Rel_abs [OF assms(1,2)] by blast
  with assms(3) show ?thesis by (auto simp: into_itself_def escapes_def)
qed

section \<open>Writing text\<close>

lemma backup_kept:
  assumes "jail d fs" "list_all good_name (d @ r)" "r \<noteq> []" "slash \<notin> set stamp"
  shows "kept d fs (backupImportant stamp (render True (d @ r)) fs)"
proof -
  obtain s where s: "names (render True (d @ r) @ ''.bonghos-backup-'' @ stamp) = d @ s" "list_all good_name (d @ s)"
    using resolved_suffix [OF assms(2,3), of "''.bonghos-backup-'' @ stamp"] assms(4) by auto
  have "kept d fs (snd (write_file (d @ s) k fs))" for k
    using write_file_kept [OF assms(1) s(2)] by (metis surj_pair snd_conv)
  with assms(1) s(1) show ?thesis
    by (auto simp: backupImportant_def kept_refl split: option.splits node.splits)
qed

lemma kept_same:
  assumes "jail d fs" "\<And>p. fs_get fs' p = fs_get fs p" "good_tree fs'"
  shows "kept d fs fs'"
  using assms by (simp add: kept_def same_outside_def jail_def link_free_def real_dir_def)

text \<open>A temporary file beside the root of the project is removed again: the root is a directory and
  the rename onto it fails.\<close>

lemma lookup_leaf:
  assumes "real_dir a fs" "list_all good_name (a @ [c])"
  shows "lookup fs False (a @ [c]) = Some (a @ [c])"
proof -
  have w: "walk n fs False cur (a @ [c]) = Some (cur @ a @ [c])"
    if "\<And>x y. a = x @ y \<Longrightarrow> fs_get fs (cur @ x) = Some NDir" "list_all good_name (a @ [c])" for n cur a
    using that
  proof (induction a arbitrary: cur)
    case Nil
    then have "c \<noteq> []" "c \<noteq> ''.''" "c \<noteq> ''..''" by (auto simp: good_name_def)
    then show ?case by (simp split: option.splits node.splits)
  next
    case (Cons b a)
    have "good_name b" and b4: "list_all good_name (a @ [c])" using Cons.prems(2) by simp_all
    then have b: "b \<noteq> []" "b \<noteq> ''.''" "b \<noteq> ''..''" by (auto simp: good_name_def)
    have "fs_get fs ((cur @ [b]) @ x) = Some NDir" if "a = x @ y" for x y
      using Cons.prems(1) [of "b # x" y] that by simp
    with Cons.IH [OF _ b4, of "cur @ [b]"] Cons.prems(1) [of "[b]" a] b show ?case by simp
  qed
  have "fs_get fs ([] @ x) = Some NDir" if "a = x @ y" for x y
    using assms(1) that by (simp add: real_dir_def under_iff)
  from w [OF this assms(2)] show ?thesis by (simp add: lookup_def)
qed

lemma temporary_beside_root:
  assumes "jail d fs" "list_all good_name d" "d \<noteq> []" "good_name c"
    "create_excl (butlast d @ [c]) k fs = (True, fs1)" "Rename (butlast d @ [c]) d fs1 = (b', fs2)"
    "Remove (butlast d @ [c]) fs2 = (b'', fs3)"
  shows "kept d fs fs3"
proof -
  define q where "q = butlast d @ [c]"
  have q0: "q \<noteq> []" by (simp add: q_def)
  have "under (butlast d) d" using assms(3) by (cases d rule: rev_cases) (simp_all add: under_iff)
  then have ra: "real_dir (butlast d) fs" using assms(1) under_trans unfolding jail_def real_dir_def by blast
  have g: "list_all good_name (butlast d @ [c])" using assms(2,4) by (auto simp: list_all_iff dest: in_set_butlastD)
  have f1: "fs_get fs q = None" "fs1 = fs_put q (NFile k) fs"
    using assms(5) lookup_leaf [OF ra g] by (auto simp: create_excl_def q_def split: if_splits)
  have k: "keeps_dirs fs fs1" unfolding f1(2) by (rule keeps_dirs_put) (simp_all add: q0 f1)
  have rd: "real_dir d fs1" "real_dir (butlast d) fs1"
    using real_dir_kept [OF _ k] assms(1) ra by (simp_all add: jail_def)
  have f2: "fs2 = fs1"
    using assms(6) lookup_real [OF rd(1) assms(2)] lookup_leaf [OF rd(2) g] rd(1) under_append [of d "[]"]
    by (auto simp: Rename_def real_dir_def)
  have "fs_get fs1 q = Some (NFile k)" by (simp add: f1(2) fs_get_put q0)
  with assms(7) f2 q0 have f3: "fs3 = fs_del q fs1"
    using lookup_leaf [OF rd(2) g] by (simp add: Remove_def q_def)
  have "fs_get fs3 p = fs_get fs p" for p by (simp add: f3 f1 fs_get_del fs_get_put q0)
  moreover have "good_tree fs3"
    using assms(1) good_tree_put [of fs q] g by (simp add: f3 f1(2) fs_del_def good_tree_filter jail_def q_def)
  ultimately show ?thesis using kept_same [OF assms(1)] by blast
qed

lemma atomicWrite_kept:
  assumes "jail d fs" "list_all good_name (d @ r)" "names (Dir p) = butlast (d @ r)" "names p = d @ r"
    "slash \<notin> set tmp" "atomicWrite tmp p k fs = (b, fs')"
  shows "kept d fs fs'"
proof -
  define c where "c = ''.bonghos-tmp-'' @ tmp"
  have c: "good_name c" using assms(5) by (simp add: good_name_def c_def)
  obtain b1 fs1 where C: "create_excl (butlast (d @ r) @ [c]) k fs = (b1, fs1)" by (metis surj_pair)
  obtain b2 fs2 where R: "Rename (butlast (d @ r) @ [c]) (d @ r) fs1 = (b2, fs2)" by (metis surj_pair)
  obtain b3 fs3 where D: "Remove (butlast (d @ r) @ [c]) fs2 = (b3, fs3)" by (metis surj_pair)
  show ?thesis
  proof (cases b1)
    case False
    with C have "fs1 = fs" by (auto simp: create_excl_def split: option.splits if_splits)
    with assms(1,3,6) C False show ?thesis by (simp add: atomicWrite_def Let_def c_def kept_refl)
  next
    case True
    have fs': "fs' = fs3" using assms(3,4,6) C R D True by (simp add: atomicWrite_def Let_def c_def)
    show ?thesis
    proof (cases "r = [] \<and> d \<noteq> []")
      case True
      with temporary_beside_root [OF assms(1), of c k fs1 b2 fs2 b3 fs3] assms(2) c C R D \<open>b1\<close> fs'
      show ?thesis by simp
    next
      case False
      define s where "s = butlast r @ [c]"
      have s: "butlast (d @ r) @ [c] = d @ s" "s \<noteq> []" "list_all good_name (d @ s)"
        using False assms(2) c by (auto simp: s_def butlast_append list_all_iff dest: in_set_butlastD)
      have k1: "kept d fs fs1" using create_excl_kept [OF assms(1) s(3)] C s(1) by simp
      have k2: "kept d fs1 fs2"
      proof (cases "r = []")
        case True
        with False R have "fs2 = fs1" by (auto simp: Rename_def lookup_def split: option.splits)
        with kept_jail [OF k1] show ?thesis by (simp add: kept_refl)
      next
        case False
        with Rename_kept [OF kept_jail [OF k1] s(3) assms(2) s(2)] R s(1) show ?thesis by simp
      qed
      have "kept d fs2 fs3" using Remove_kept [OF kept_jail [OF k2] s(3,2)] D s(1) by simp
      with k1 k2 fs' show ?thesis using kept_trans by blast
    qed
  qed
qed

lemma WriteText_kept:
  assumes "IsAbs (mg_root m)" "jail (names (mg_root m)) fs" "slash \<notin> set stamp" "slash \<notin> set tmp"
    "WriteText m stamp tmp rel content fs = (e, fs')"
  shows "kept (names (mg_root m)) fs fs'"
proof (cases "resolve m fs rel")
  case (Inr p)
  obtain r where r: "names p = names (mg_root m) @ r" "list_all good_name (names (mg_root m) @ r)"
    "names (Dir p) = butlast (names (mg_root m) @ r)" "p = render True (names (mg_root m) @ r)"
    using resolved [OF assms(1) Inr] by blast
  define fs1 where "fs1 = (case Stat fs (names p) of
      Some NDir \<Rightarrow> fs | None \<Rightarrow> fs | Some _ \<Rightarrow> backupImportant stamp p fs)"
  have k1: "kept (names (mg_root m)) fs fs1"
  proof (cases "r = []")
    case True
    with r(1,2) Stat_root [OF assms(2)] have "fs1 = fs" by (simp add: fs1_def)
    with assms(2) show ?thesis by (simp add: kept_refl)
  next
    case False
    with backup_kept [OF assms(2) r(2) False assms(3)] r(4) assms(2) show ?thesis
      by (simp add: fs1_def kept_refl split: option.splits node.splits)
  qed
  obtain b2 fs2 where M: "MkdirAll (names (Dir p)) fs1 = (b2, fs2)" by (metis surj_pair)
  obtain b3 fs3 where W: "atomicWrite tmp p (length content) fs2 = (b3, fs3)" by (metis surj_pair)
  have k2: "kept (names (mg_root m)) fs fs2"
    using k1 MkdirAll_parent_kept [OF kept_jail [OF k1] r(2)] M r(3) kept_trans by metis
  have "kept (names (mg_root m)) fs fs3"
    using k2 atomicWrite_kept [OF kept_jail [OF k2] r(2,3,1) assms(4) W] kept_trans by blast
  with k2 assms(2,5) Inr M W show ?thesis
    by (cases b2) (auto simp: WriteText_def fs1_def [symmetric] Let_def kept_refl split: if_splits)
qed (use assms in \<open>simp add: WriteText_def kept_refl\<close>)
section \<open>The operations of one project\<close>

text \<open>In the next lemmas the root is a jail, and a resolved path is the root and some names.\<close>

lemma CreateFile_kept:
  assumes "IsAbs (mg_root m)" "jail (names (mg_root m)) fs" "CreateFile m rel fs = (e, fs')"
  shows "kept (names (mg_root m)) fs fs'"
proof (cases "resolve m fs rel")
  case (Inr p)
  obtain r where r: "names p = names (mg_root m) @ r" "list_all good_name (names (mg_root m) @ r)"
    "names (Dir p) = butlast (names (mg_root m) @ r)" using resolved [OF assms(1) Inr] by blast
  obtain b fs1 where M: "MkdirAll (names (Dir p)) fs = (b, fs1)" by (metis surj_pair)
  obtain c fs2 where C: "create_excl (names p) 0 fs1 = (c, fs2)" by (metis surj_pair)
  have k1: "kept (names (mg_root m)) fs fs1" using MkdirAll_parent_kept [OF assms(2) r(2)] M r(3) by simp
  moreover have "kept (names (mg_root m)) fs1 fs2"
    using create_excl_kept [OF kept_jail [OF k1] r(2)] C r(1) by simp
  ultimately have "kept (names (mg_root m)) fs fs2" by (rule kept_trans)
  with k1 assms(3) Inr M C show ?thesis by (cases b; cases c) (auto simp: CreateFile_def)
qed (use assms in \<open>simp add: CreateFile_def kept_refl\<close>)

lemma Mkdir_kept:
  assumes "IsAbs (mg_root m)" "jail (names (mg_root m)) fs" "Mkdir m rel fs = (e, fs')"
  shows "kept (names (mg_root m)) fs fs'"
proof (cases "resolve m fs rel")
  case (Inr p)
  obtain r where r: "names p = names (mg_root m) @ r" "list_all good_name (names (mg_root m) @ r)"
    using resolved [OF assms(1) Inr] by blast
  with MkdirAll_kept [OF assms(2) r(2)] assms(3) Inr show ?thesis
    by (auto simp: Mkdir_def split: prod.splits)
qed (use assms in \<open>simp add: Mkdir_def kept_refl\<close>)

lemma Delete_kept:
  assumes "IsAbs (mg_root m)" "jail (names (mg_root m)) fs" "Delete m rel fs = (e, fs')"
  shows "kept (names (mg_root m)) fs fs'"
proof (cases "resolve m fs rel")
  case (Inr p)
  obtain r where r: "names p = names (mg_root m) @ r" "list_all good_name (names (mg_root m) @ r)"
    using resolved [OF assms(1) Inr] by blast
  show ?thesis
  proof (cases "r = []")
    case True
    with r(1) resolve_names(3) [OF assms(1) Inr] assms(1) have "Clean p = Clean (mg_root m)" by (simp add: Clean_abs)
    with assms(2,3) Inr show ?thesis by (simp add: Delete_def kept_refl)
  next
    case False
    with RemoveAll_kept [OF assms(2) r(2) False] assms(2,3) Inr r(1) show ?thesis
      by (auto simp: Delete_def kept_refl split: prod.splits if_splits)
  qed
qed (use assms in \<open>simp add: Delete_def kept_refl\<close>)

lemma SaveUpload_kept:
  assumes "IsAbs (mg_root m)" "jail (names (mg_root m)) fs" "SaveUpload m rel sz ok fs = (n, e, fs')"
  shows "kept (names (mg_root m)) fs fs'"
proof (cases "resolve m fs rel")
  case (Inr p)
  obtain r where r: "names p = names (mg_root m) @ r" "list_all good_name (names (mg_root m) @ r)"
    "names (Dir p) = butlast (names (mg_root m) @ r)" using resolved [OF assms(1) Inr] by blast
  obtain b fs1 where M: "MkdirAll (names (Dir p)) fs = (b, fs1)" by (metis surj_pair)
  have k1: "kept (names (mg_root m)) fs fs1" using MkdirAll_parent_kept [OF assms(2) r(2)] M r(3) by simp
  define lim where "lim = (if mg_max_upload m \<le> 0 then 4 * 1024 * 1024 * 1024 else mg_max_upload m)"
  define w where "w = min (int sz) (max 0 (wrap64 (lim + 1)))"
  obtain c fs2 where W: "write_file (names p) (nat w) fs1 = (c, fs2)" by (metis surj_pair)
  have k2: "kept (names (mg_root m)) fs fs2"
    using k1 write_file_kept [OF kept_jail [OF k1] r(2)] W r(1) kept_trans by metis
  have k3: "kept (names (mg_root m)) fs (snd (Remove (names p) fs2))" if "c"
  proof -
    have "r \<noteq> []"
    proof
      assume "r = []"
      then have "lookup fs1 True (names p) = Some (names (mg_root m))"
        using lookup_real kept_jail [OF k1] r by (simp add: jail_def)
      then show False using W that jail_root [OF kept_jail [OF k1]] by (simp add: write_file_def)
    qed
    then have "kept (names (mg_root m)) fs2 (snd (Remove (names p) fs2))"
      using Remove_kept [OF kept_jail [OF k2] r(2)] r(1) by (metis surj_pair snd_conv)
    with k2 show ?thesis by (rule kept_trans)
  qed
  show ?thesis
    using k1 k2 k3 assms(3) Inr M W
    by (cases b; cases c) (auto simp: SaveUpload_def lim_def [symmetric] w_def [symmetric] Let_def split: if_splits)
qed (use assms in \<open>simp add: SaveUpload_def kept_refl\<close>)

lemma RemoveAll_snd_kept:
  "jail d fs \<Longrightarrow> list_all good_name (d @ r) \<Longrightarrow> r \<noteq> [] \<Longrightarrow> kept d fs (snd (RemoveAll (d @ r) fs))"
  using RemoveAll_kept by (metis surj_pair snd_conv)

lemma Lstat_root: "jail d fs \<Longrightarrow> list_all good_name d \<Longrightarrow> Lstat fs d = Some NDir"
  using lookup_real jail_root by (simp add: Lstat_def jail_def)

text \<open>A copy changes the destination only, wherever the source lies.\<close>

lemma CopyTo_kept:
  assumes "IsAbs (mg_root dm)" "jail (names (mg_root dm)) fs" "CopyTo m a (Some dm) b fs = (e, fs')"
  shows "kept (names (mg_root dm)) fs fs'"
proof (cases "\<exists>p q. resolve m fs a = Inr p \<and> resolve dm fs b = Inr q \<and> Lstat fs (names q) = None")
  case True
  then obtain p q where pq: "resolve m fs a = Inr p" "resolve dm fs b = Inr q" "Lstat fs (names q) = None" by blast
  obtain r where r: "names q = names (mg_root dm) @ r" "list_all good_name (names (mg_root dm) @ r)"
    using resolved [OF assms(1) pq(2)] by blast
  have r0: "r \<noteq> []" using Lstat_root [OF assms(2)] r pq(3) by auto
  obtain er fs1 where C: "copyTree depth_limit (names p) (names q) fs = (er, fs1)" by (metis surj_pair)
  have k: "kept (names (mg_root dm)) fs fs1" using copy_kept(1) [OF C r(1) r0 assms(2)] r by simp
  have "kept (names (mg_root dm)) fs (snd (RemoveAll (names q) fs1))"
    using kept_trans [OF k RemoveAll_snd_kept [OF kept_jail [OF k] r(2) r0]] r(1) by simp
  with k assms(2,3) pq C show ?thesis
    by (auto simp: CopyTo_def kept_refl split: option.splits node.splits if_splits)
next
  case False
  with assms have "fs' = fs" by (auto simp: CopyTo_def split: sum.splits if_splits)
  with assms(2) show ?thesis by (simp add: kept_refl)
qed

text \<open>A move within one project: the root itself cannot be moved, since every target is inside it.\<close>

lemma RenameIn_kept:
  assumes "IsAbs (mg_root m)" "jail (names (mg_root m)) fs" "RenameIn same m a b fs = (e, fs')"
  shows "kept (names (mg_root m)) fs fs'"
proof (cases "\<exists>p q. resolve m fs a = Inr p \<and> resolve m fs b = Inr q \<and> Stat fs (names q) = None \<and>
    \<not> (Stat fs (names p) = Some NDir \<and> into_itself p q)")
  case True
  let ?d = "names (mg_root m)"
  from True obtain p q where pq: "resolve m fs a = Inr p" "resolve m fs b = Inr q" "Stat fs (names q) = None"
    "\<not> (Stat fs (names p) = Some NDir \<and> into_itself p q)" by blast
  obtain r where r: "names p = ?d @ r" "list_all good_name (?d @ r)" using resolved [OF assms(1) pq(1)] by blast
  obtain s where s: "names q = ?d @ s" "list_all good_name (?d @ s)" "names (Dir q) = butlast (?d @ s)"
    using resolved [OF assms(1) pq(2)] by blast
  have s0: "s \<noteq> []" using Stat_root [OF assms(2)] s pq(3) by auto
  have r0: "r \<noteq> []"
  proof
    assume "r = []"
    with r s have "into_itself p q" "names p = ?d"
      using into_itself_below [of p q s] resolve_names(3) [OF assms(1)] pq by auto
    with pq(4) r(2) Stat_root [OF assms(2)] show False by simp
  qed
  obtain b1 fs1 where M: "MkdirAll (names (Dir q)) fs = (b1, fs1)" by (metis surj_pair)
  obtain b2 fs2 where R: "(if same then Rename (names p) (names q) fs1 else (False, fs1)) = (b2, fs2)"
    by (metis surj_pair)
  obtain er fs3 where C: "copyTree depth_limit (names p) (names q) fs2 = (er, fs3)" by (metis surj_pair)
  obtain b4 fs4 where D: "RemoveAll (names p) fs3 = (b4, fs4)" by (metis surj_pair)
  have k1: "kept ?d fs fs1" using MkdirAll_parent_kept [OF assms(2) s(2)] M s(3) by simp
  have k2: "kept ?d fs fs2"
    using k1 Rename_kept [OF kept_jail [OF k1] r(2) s(2) r0 s0] R r(1) s(1) kept_trans by (metis prod.inject)
  have k3: "kept ?d fs fs3" using kept_trans [OF k2 copy_kept(1) [OF C s(1) s0 kept_jail [OF k2]]] s by simp
  have k4: "kept ?d fs fs4" using kept_trans [OF k3 RemoveAll_kept [OF kept_jail [OF k3] r(2) r0]] D r(1) by simp
  note gone = RemoveAll_snd_kept [OF kept_jail s(2) s0]
  have "kept ?d fs (snd (RemoveAll (names q) fs3))" "kept ?d fs (snd (RemoveAll (names q) fs4))"
    using kept_trans [OF k3 gone [OF k3]] kept_trans [OF k4 gone [OF k4]] s(1) by simp_all
  with k1 k2 k3 k4 assms(3) pq M R C D show ?thesis
    by (auto simp: RenameIn_def MoveTo_def split: prod.splits option.splits if_splits bool.splits)
next
  case False
  with assms have "fs' = fs" by (auto simp: RenameIn_def MoveTo_def split: sum.splits if_splits)
  with assms(2) show ?thesis by (simp add: kept_refl)
qed
section \<open>Any sequence of operations\<close>

text \<open>The requests to the file browser of one project; \<open>stamp\<close> and \<open>tmp\<close> are the time and the random
  number in the names of back-ups and temporary files.\<close>

datatype file_op =
    OpWrite (op_stamp: string) (op_tmp: string) string string
  | OpCreate string
  | OpMkdir string
  | OpDelete string
  | OpUpload string nat bool
  | OpCopy string string
  | OpMove bool string string

fun apply_op :: "manager \<Rightarrow> file_op \<Rightarrow> fs \<Rightarrow> fs" where
  "apply_op m (OpWrite stamp tmp rel content) fs = snd (WriteText m stamp tmp rel content fs)"
| "apply_op m (OpCreate rel) fs = snd (CreateFile m rel fs)"
| "apply_op m (OpMkdir rel) fs = snd (Mkdir m rel fs)"
| "apply_op m (OpDelete rel) fs = snd (Delete m rel fs)"
| "apply_op m (OpUpload rel sz ok) fs = snd (snd (SaveUpload m rel sz ok fs))"
| "apply_op m (OpCopy a b) fs = snd (Copy m a b fs)"
| "apply_op m (OpMove same a b) fs = snd (RenameIn same m a b fs)"

fun op_names :: "file_op \<Rightarrow> bool" where
  "op_names (OpWrite stamp tmp rel content) \<longleftrightarrow> slash \<notin> set stamp \<and> slash \<notin> set tmp"
| "op_names _ \<longleftrightarrow> True"

lemma apply_op_kept:
  assumes "IsAbs (mg_root m)" "jail (names (mg_root m)) fs" "op_names oper"
  shows "kept (names (mg_root m)) fs (apply_op m oper fs)"
proof (cases oper)
  case (OpWrite stamp tmp rel content)
  with assms WriteText_kept [OF assms(1,2)] show ?thesis by (metis apply_op.simps(1) op_names.simps(1) surj_pair snd_conv)
next
  case (OpCreate rel)
  with CreateFile_kept [OF assms(1,2)] show ?thesis by (metis apply_op.simps(2) surj_pair snd_conv)
next
  case (OpMkdir rel)
  with Mkdir_kept [OF assms(1,2)] show ?thesis by (metis apply_op.simps(3) surj_pair snd_conv)
next
  case (OpDelete rel)
  with Delete_kept [OF assms(1,2)] show ?thesis by (metis apply_op.simps(4) surj_pair snd_conv)
next
  case (OpUpload rel sz ok)
  with SaveUpload_kept [OF assms(1,2)] show ?thesis by (metis apply_op.simps(5) surj_pair snd_conv)
next
  case (OpCopy a b)
  with CopyTo_kept [OF assms(1,2)] show ?thesis by (metis apply_op.simps(6) Copy_def surj_pair snd_conv)
next
  case (OpMove same a b)
  with RenameIn_kept [OF assms(1,2)] show ?thesis by (metis apply_op.simps(7) surj_pair snd_conv)
qed

text \<open>Whatever requests the file browser of a project gets, and in whatever order - writes,
  uploads, copies, moves, deletions, with any path in them - nothing outside the project
  directory changes, the directory itself stays and no link appears in it; provided that it is a real directory
  without links to begin with.\<close>

lemma file_browser_confined:
  assumes "IsAbs (mg_root m)" "jail (names (mg_root m)) fs" "list_all op_names ops"
  shows "(\<forall>p. \<not> under (names (mg_root m)) p \<longrightarrow> fs_get (foldl (\<lambda>f oper. apply_op m oper f) fs ops) p = fs_get fs p) \<and>
    jail (names (mg_root m)) (foldl (\<lambda>f oper. apply_op m oper f) fs ops)"
proof -
  have "kept (names (mg_root m)) fs (foldl (\<lambda>f oper. apply_op m oper f) fs ops)"
    using assms(2,3)
    by (intro jails.may_fold apply_op_kept [OF assms(1)]) (simp_all add: list_all_iff)
  then show ?thesis by (simp add: kept_def same_outside_def)
qed

definition sample_tree :: fs where
  "sample_tree = [([''srv''], NDir), ([''srv'', ''one''], NDir), ([''srv'', ''one'', ''a''], NFile 3), ([''etc''], NDir),
     ([''srv'', ''two''], NDir)]"

definition sample_manager :: manager where
  "sample_manager = \<lparr>mg_root = ''/srv/one'', mg_max_edit = 0, mg_max_upload = 10\<rparr>"

lemma jail_sample: "jail [''srv'', ''one''] sample_tree" "jail [''srv'', ''two''] sample_tree"
proof -
  have l: "fs_get sample_tree p \<noteq> Some (NLink t)" for p t
    by (auto simp: fs_get_def sample_tree_def split: if_splits)
  have "a = [] \<or> a = [''srv''] \<or> a = [''srv'', x]" if "under a [''srv'', x]" for a x
    using that by (auto simp: under_iff Cons_eq_append_conv)
  then have "real_dir [''srv'', ''one''] sample_tree" "real_dir [''srv'', ''two''] sample_tree"
    by (auto simp: real_dir_def fs_get_def sample_tree_def)
  moreover have "good_tree sample_tree" by code_simp
  ultimately show "jail [''srv'', ''one''] sample_tree" "jail [''srv'', ''two''] sample_tree"
    using l by (simp_all add: jail_def link_free_def)
qed

theorem file_browser_confined_witness:
  "let fs = foldl (\<lambda>f oper. apply_op sample_manager oper f) sample_tree
        [OpMove True ''a'' ''b/c'', OpWrite ''s'' ''7'' ''../../etc/x'' ''hi'', OpDelete ''/'', OpUpload ''n'' 4 True]
   in fs_get fs [''srv'', ''one'', ''b'', ''c''] = Some (NFile 3) \<and> fs_get fs [''srv'', ''one'', ''n''] = Some (NFile 4) \<and>
      fs_get fs [''etc'', ''x''] = None \<and> jail [''srv'', ''one''] fs"
proof -
  let ?ops = "[OpMove True ''a'' ''b/c'', OpWrite ''s'' ''7'' ''../../etc/x'' ''hi'', OpDelete ''/'', OpUpload ''n'' 4 True]"
  define fs where "fs = foldl (\<lambda>f oper. apply_op sample_manager oper f) sample_tree ?ops"
  have n: "names (mg_root sample_manager) = [''srv'', ''one'']" "IsAbs (mg_root sample_manager)"
    "list_all op_names ?ops" by code_simp+
  have "fs_get fs [''srv'', ''one'', ''b'', ''c''] = Some (NFile 3)" "fs_get fs [''srv'', ''one'', ''n''] = Some (NFile 4)"
    unfolding fs_def by code_simp+
  moreover have "fs_get fs [''etc'', ''x''] = fs_get sample_tree [''etc'', ''x''] \<and> jail [''srv'', ''one''] fs"
    using file_browser_confined [OF n(2) _ n(3)] jail_sample(1) unfolding fs_def n(1) by (auto simp: under_def)
  moreover have "fs_get sample_tree [''etc'', ''x''] = None" by code_simp
  ultimately show ?thesis unfolding fs_def Let_def by simp
qed

end
