(* ===== verification/ServerHandlers.thy ===== *)
theory ServerHandlers
  imports Instances FileJail Players
begin

text \<open>
  The requests that create, change, select, duplicate and delete server projects
  (\<open>source/internal/app/handlers.go\<close>, \<open>handlers_import.go\<close>, \<open>handlers_world.go\<close>), on the project table and the file
  tree. The home directory, the clock, the locks, the state of the server and what the detection finds in a
  pack are arguments; a handler answers with its status.
\<close>

section \<open>Copying a project\<close>

text \<open>\<open>CopyTree\<close>, a walk that copies links as links; the depth is bounded by the length of a path.\<close>

fun CopyTree :: "nat \<Rightarrow> string list \<Rightarrow> string list \<Rightarrow> fs \<Rightarrow> bool \<times> fs"
and CopyTree_entries :: "nat \<Rightarrow> string list \<Rightarrow> string list \<Rightarrow> string list \<Rightarrow> fs \<Rightarrow> bool \<times> fs" where
  "CopyTree n src dst fs =
     (case Lstat fs src of
        None \<Rightarrow> (False, fs)
      | Some (NLink t) \<Rightarrow> Symlink t dst (snd (Remove dst fs))
      | Some (NFile k) \<Rightarrow>
          (case MkdirAll (butlast dst) fs of
             (False, fs1) \<Rightarrow> (False, fs1)
           | (True, fs1) \<Rightarrow> write_file dst k fs1)
      | Some NDir \<Rightarrow>
          (case ReadDir fs src of
             None \<Rightarrow> (False, fs)
           | Some es \<Rightarrow>
               (case MkdirAll dst fs of
                  (False, fs1) \<Rightarrow> (False, fs1)
                | (True, fs1) \<Rightarrow>
                    (case n of
                       0 \<Rightarrow> (False, fs1)
                     | Suc n' \<Rightarrow> CopyTree_entries n' src dst es fs1))))"
| "CopyTree_entries n src dst [] fs = (True, fs)"
| "CopyTree_entries n src dst (e # es) fs =
     (case CopyTree n (src @ [e]) (dst @ [e]) fs of
        (False, fs1) \<Rightarrow> (False, fs1)
      | (True, fs1) \<Rightarrow> CopyTree_entries n src dst es fs1)"

section \<open>Requests about projects\<close>

record panel =
  pn_db :: instance_db
  pn_fs :: fs

definition pathInstance :: "string \<Rightarrow> instance_db \<Rightarrow> project option" where
  "pathInstance path db = (case Atoi path of None \<Rightarrow> None | Some i \<Rightarrow> ByID i db)"

definition handleSlugPreview :: "string option \<Rightarrow> nat \<times> string" where
  "handleSlugPreview req = (case req of None \<Rightarrow> (400, []) | Some name \<Rightarrow> (200, GenerateSlug name))"

text \<open>The empty shell of a project. Its directory is not among the fields that are set.\<close>

definition handleServerCreate :: "string \<Rightarrow> string \<Rightarrow> (string \<times> string) option \<Rightarrow> panel \<Rightarrow> nat \<times> panel" where
  "handleServerCreate home now req p =
     (case req of
        None \<Rightarrow> (400, p)
      | Some (name, slug0) \<Rightarrow>
          if TrimSpace name = [] then (400, p)
          else
            let slug = (if slug0 = [] then GenerateSlug name else slug0) in
            if \<not> ValidateSlug slug then (400, p)
            else
              let inst = zero_instance\<lparr>ins_slug := slug, ins_name := TrimSpace name,
                           ins_type := ''minecraft-java-modded'', ins_source := ''archive-upload''\<rparr>
              in case Create_instance now inst (pn_db p) of
                   (Inl _, db) \<Rightarrow> (409, p\<lparr>pn_db := db\<rparr>)
                 | (Inr i, db) \<Rightarrow>
                     (case MkdirAll (names (AbsoluteDir home i)) (pn_fs p) of
                        (ok, fs) \<Rightarrow> (if ok then 200 else 500, p\<lparr>pn_db := db, pn_fs := fs\<rparr>)))"

datatype import_error = ImportName | ImportSlug | ImportStore instance_error

definition createProjectForImport ::
  "string \<Rightarrow> string \<Rightarrow> string \<Rightarrow> string \<Rightarrow> string \<Rightarrow> instance_db \<Rightarrow> (import_error + project) \<times> instance_db" where
  "createProjectForImport now displayName slug0 sourceType sourceHost db =
     (let name = TrimSpace displayName in
      if name = [] then (Inl ImportName, db)
      else
        let slug = (if slug0 = [] then GenerateSlug name else slug0) in
        if \<not> ValidateSlug slug then (Inl ImportSlug, db)
        else
          let inst = zero_instance\<lparr>ins_slug := slug, ins_name := name, ins_type := ''minecraft-java-modded'',
                       ins_source := sourceType, ins_host := sourceHost, ins_dir := RelativeDirFor slug\<rparr>
          in case Create_instance now inst db of
               (Inl e, db') \<Rightarrow> (Inl (ImportStore e), db')
             | (Inr i, db') \<Rightarrow> (Inr i, db'))"

text \<open>What the detection found in a project, if anything.\<close>

record server_meta =
  mt_minecraft :: string
  mt_loader :: string
  mt_loader_version :: string

definition take_meta :: "server_meta \<Rightarrow> project \<Rightarrow> project" where
  "take_meta m i = i\<lparr>
     ins_minecraft := (if mt_minecraft m = [] then ins_minecraft i else mt_minecraft m),
     ins_loader := (if mt_loader m = [] then ins_loader i else mt_loader m),
     ins_loader_version := (if mt_loader_version m = [] then ins_loader_version i else mt_loader_version m)\<rparr>"

definition refreshServerMetadata :: "string \<Rightarrow> server_meta option \<Rightarrow> project \<Rightarrow> instance_db \<Rightarrow> instance_db" where
  "refreshServerMetadata now detected i db =
     (if ins_minecraft i \<noteq> [] \<and> ins_loader i \<noteq> [] \<and> ins_loader_version i \<noteq> [] then db
      else case detected of
        None \<Rightarrow> db
      | Some m \<Rightarrow> if take_meta m i = i then db else snd (Update_instance now (take_meta m i) db))"

definition handleServerList :: "string \<Rightarrow> (project \<Rightarrow> server_meta option) \<Rightarrow> panel \<Rightarrow> nat \<times> panel" where
  "handleServerList now detect p =
     (200, p\<lparr>pn_db := foldl (\<lambda>db i. refreshServerMetadata now (detect i) i db) (pn_db p) (List_instances (pn_db p))\<rparr>)"

record server_update =
  up_name :: "string option"
  up_script :: "string option"
  up_java :: "string option"
  up_autostart :: "bool option"
  up_boot_delay :: "int option"
  up_recover :: "bool option"
  up_policy :: "string option"
  up_restart_delay :: "int option"

definition the_default :: "'a option \<Rightarrow> 'a \<Rightarrow> 'a" where
  "the_default x d = (case x of None \<Rightarrow> d | Some y \<Rightarrow> y)"

text \<open>A startup script must stay in the project by its cleaned name.\<close>

definition startup_rel :: "string \<Rightarrow> string option" where
  "startup_rel script = (let rel = Clean script in if HasPrefix rel ''..'' \<or> IsAbs rel then None else Some rel)"

definition handleServerUpdate ::
  "string \<Rightarrow> (string \<Rightarrow> bool) \<Rightarrow> string \<Rightarrow> server_update option \<Rightarrow> panel \<Rightarrow> nat \<times> panel" where
  "handleServerUpdate now java_found path req p =
     (case pathInstance path (pn_db p) of
        None \<Rightarrow> (404, p)
      | Some i \<Rightarrow>
        (case req of
           None \<Rightarrow> (400, p)
         | Some u \<Rightarrow>
             let name = map_option TrimSpace (up_name u);
                 script = map_option startup_rel (up_script u)
             in if name = Some [] \<or> (case name of None \<Rightarrow> False | Some n \<Rightarrow> 120 < RuneCount n) then (400, p)
             else if script = Some None then (400, p)
             else if (case up_java u of None \<Rightarrow> False | Some j \<Rightarrow> \<not> java_found j) then (400, p)
             else if (case up_policy u of None \<Rightarrow> False | Some q \<Rightarrow> q \<notin> set restart_policies) then (400, p)
             else
               let i' = i\<lparr>
                     ins_name := the_default name (ins_name i),
                     ins_script := (case script of Some (Some r) \<Rightarrow> r | _ \<Rightarrow> ins_script i),
                     ins_java := the_default (up_java u) (ins_java i),
                     ins_autostart := the_default (up_autostart u) (ins_autostart i),
                     ins_boot_delay := (case up_boot_delay u of Some d \<Rightarrow> if 0 \<le> d then d else ins_boot_delay i | None \<Rightarrow> ins_boot_delay i),
                     ins_recover := the_default (up_recover u) (ins_recover i),
                     ins_policy := the_default (up_policy u) (ins_policy i),
                     ins_restart_delay := (case up_restart_delay u of Some d \<Rightarrow> if 0 \<le> d then d else ins_restart_delay i
                                                                | None \<Rightarrow> ins_restart_delay i)\<rparr>
               in case Update_instance now i' (pn_db p) of
                    (Some _, db) \<Rightarrow> (500, p\<lparr>pn_db := db\<rparr>)
                  | (None, db) \<Rightarrow> (200, p\<lparr>pn_db := db\<rparr>)))"

text \<open>\<open>online\<close> is whether the server runs, \<open>lock\<close> whether the operation lock could be taken.\<close>

definition handleServerDelete :: "string \<Rightarrow> bool \<Rightarrow> bool \<Rightarrow> string \<Rightarrow> bool \<Rightarrow> panel \<Rightarrow> nat \<times> panel" where
  "handleServerDelete home online lock path delete_files p =
     (case pathInstance path (pn_db p) of
        None \<Rightarrow> (404, p)
      | Some i \<Rightarrow>
          if ActiveID (pn_db p) = ins_id i \<and> online then (409, p)
          else if \<not> lock then (409, p)
          else
            let dir = AbsoluteDir home i;
                fs = (if delete_files \<and> \<not> ins_external i \<and> HasPrefix dir (JoinPath [home, ''servers''] @ ''/'')
                      then snd (RemoveAll (names dir) (pn_fs p)) else pn_fs p)
            in (200, \<lparr>pn_db = Delete_instance (ins_id i) (pn_db p), pn_fs = fs\<rparr>))"

definition handleServerSelect :: "bool \<Rightarrow> string \<Rightarrow> panel \<Rightarrow> nat \<times> panel" where
  "handleServerSelect online path p =
     (case pathInstance path (pn_db p) of
        None \<Rightarrow> (404, p)
      | Some i \<Rightarrow>
          if online then (409, p)
          else (case SetActive (ins_id i) (pn_db p) of
                  (Some _, db) \<Rightarrow> (500, p\<lparr>pn_db := db\<rparr>)
                | (None, db) \<Rightarrow> (200, p\<lparr>pn_db := db\<rparr>)))"

definition handleConfigStartup :: "string \<Rightarrow> string option \<Rightarrow> project option \<Rightarrow> panel \<Rightarrow> nat \<times> panel" where
  "handleConfigStartup now req inst p =
     (case inst of
        None \<Rightarrow> (409, p)
      | Some i \<Rightarrow>
        (case req of
           None \<Rightarrow> (400, p)
         | Some script \<Rightarrow>
           (case startup_rel script of
              None \<Rightarrow> (400, p)
            | Some rel \<Rightarrow>
              (case Update_instance now (i\<lparr>ins_script := rel\<rparr>) (pn_db p) of
                 (Some _, db) \<Rightarrow> (500, p\<lparr>pn_db := db\<rparr>)
               | (None, db) \<Rightarrow> (200, p\<lparr>pn_db := db\<rparr>)))))"

section \<open>Duplicating a project\<close>

definition TrimRightChars :: "string \<Rightarrow> string \<Rightarrow> string" where
  "TrimRightChars cs s = rev (dropWhile (\<lambda>c. c \<in> set cs) (rev s))"

definition duplicate_slug :: "string \<Rightarrow> nat \<Rightarrow> string" where
  "duplicate_slug base n =
     (if n \<le> 1 then base
      else let suffix = ''-'' @ nat_digits n in
        TrimRightChars ''-'' (take (64 - length suffix) base) @ suffix)"

definition clone_of :: "project \<Rightarrow> string \<Rightarrow> string \<Rightarrow> project" where
  "clone_of source displayName slug = zero_instance\<lparr>
     ins_slug := slug, ins_name := TrimSpace displayName, ins_type := ins_type source, ins_source := ''duplicate'',
     ins_minecraft := ins_minecraft source, ins_loader := ins_loader source,
     ins_loader_version := ins_loader_version source, ins_dir := RelativeDirFor slug,
     ins_script := ins_script source, ins_java := ins_java source, ins_jvm_source := ins_jvm_source source,
     ins_xms := ins_xms source, ins_xmx := ins_xmx source, ins_extra := ins_extra source,
     ins_icon := ins_icon source, ins_autostart := False, ins_boot_delay := ins_boot_delay source,
     ins_recover := ins_recover source, ins_policy := ins_policy source,
     ins_restart_delay := ins_restart_delay source\<rparr>"

text \<open>The candidates \<open>n\<close> to 100 in turn. Creating fills in defaults in the instance itself, so that the
  update writes them and not what the source had.\<close>

function reserve_from :: "string \<Rightarrow> project \<Rightarrow> string \<Rightarrow> string \<Rightarrow> nat \<Rightarrow> instance_db \<Rightarrow> project option \<times> instance_db" where
  "reserve_from now source displayName base n db =
     (if 100 < n then (None, db)
      else case Create_instance now (clone_of source displayName (duplicate_slug base n)) db of
        (Inl SlugTaken, db1) \<Rightarrow> reserve_from now source displayName base (Suc n) db1
      | (Inl _, db1) \<Rightarrow> (None, db1)
      | (Inr i, db1) \<Rightarrow>
          (case Update_instance now (i\<lparr>ins_autostart := False\<rparr>) db1 of
             (Some _, db2) \<Rightarrow> (None, Delete_instance (ins_id i) db2)
           | (None, db2) \<Rightarrow> (Some (i\<lparr>ins_autostart := False\<rparr>), db2)))"
  by pat_completeness auto
termination by (relation "measure (\<lambda>(now, source, d, b, n, db). 101 - n)") auto

declare reserve_from.simps [simp del]

definition reserveDuplicate :: "string \<Rightarrow> project \<Rightarrow> string \<Rightarrow> instance_db \<Rightarrow> project option \<times> instance_db" where
  "reserveDuplicate now source displayName db =
     (let base = (if GenerateSlug displayName = [] then ins_slug source @ ''-copy'' else GenerateSlug displayName)
      in reserve_from now source displayName base 1 db)"

definition instanceIsActive :: "int \<Rightarrow> instance_db \<Rightarrow> bool" where
  "instanceIsActive i db \<longleftrightarrow> ActiveID db = i"

text \<open>The copy runs later and undoes the reservation when it cannot be made. \<open>detect\<close> is what the
  detection finds in the copy.\<close>

definition finish_db :: "string \<Rightarrow> server_meta option \<Rightarrow> project \<Rightarrow> instance_db \<Rightarrow> bool \<times> instance_db" where
  "finish_db now detect i db =
     (let i' = (case detect of None \<Rightarrow> i | Some m \<Rightarrow> take_meta m i) in
      case Update_instance now i' db of
        (Some _, db1) \<Rightarrow> (False, db1)
      | (None, db1) \<Rightarrow> (True, if ActiveID db1 = 0 then snd (SetActive (ins_id i') db1) else db1))"

text \<open>The startup script is searched first if none is set; \<open>script\<close> is the first candidate with the loader it
  uses.\<close>

definition finishInstall ::
  "string \<Rightarrow> (string \<times> string) option \<Rightarrow> server_meta option \<Rightarrow> project \<Rightarrow> instance_db \<Rightarrow> bool \<times> instance_db" where
  "finishInstall now script detect i db =
     finish_db now detect
       (if ins_script i \<noteq> [] then i
        else case script of None \<Rightarrow> i | Some (s, l) \<Rightarrow> i\<lparr>ins_script := s, ins_loader := l\<rparr>) db"

definition duplicateServer ::
  "string \<Rightarrow> string \<Rightarrow> bool \<Rightarrow> bool \<Rightarrow> bool \<Rightarrow> (string \<times> string) option \<Rightarrow> server_meta option \<Rightarrow> project \<Rightarrow> project \<Rightarrow>
   panel \<Rightarrow> bool \<times> panel" where
  "duplicateServer home now lock lifecycle online script detect source clone p =
     (let fail = (\<lambda>p. (False, \<lparr>pn_db = Delete_instance (ins_id clone) (pn_db p),
                               pn_fs = snd (RemoveAll (names (AbsoluteDir home clone)) (pn_fs p))\<rparr>)) in
      if \<not> lock \<or> \<not> lifecycle then fail p
      else if instanceIsActive (ins_id source) (pn_db p) \<and> online then fail p
      else case CopyTree depth_limit (names (AbsoluteDir home source)) (names (AbsoluteDir home clone)) (pn_fs p) of
        (False, fs) \<Rightarrow> fail (p\<lparr>pn_fs := fs\<rparr>)
      | (True, fs) \<Rightarrow>
          (case finishInstall now script detect clone (pn_db p) of
             (ok, db) \<Rightarrow> (ok, \<lparr>pn_db = db, pn_fs = fs\<rparr>)))"

text \<open>\<open>op_ok\<close> is whether the record of the operation could be made.\<close>

definition handleServerDuplicate ::
  "string \<Rightarrow> bool \<Rightarrow> bool \<Rightarrow> string \<Rightarrow> string option \<Rightarrow> panel \<Rightarrow> nat \<times> project option \<times> panel" where
  "handleServerDuplicate now online op_ok path req p =
     (case pathInstance path (pn_db p) of
        None \<Rightarrow> (404, None, p)
      | Some source \<Rightarrow>
          if instanceIsActive (ins_id source) (pn_db p) \<and> online then (409, None, p)
          else (case req of
            None \<Rightarrow> (400, None, p)
          | Some name0 \<Rightarrow>
              let name = (if TrimSpace name0 = [] then ins_name source @ '' Copy'' else name0) in
              case reserveDuplicate now source name (pn_db p) of
                (None, db) \<Rightarrow> (409, None, p\<lparr>pn_db := db\<rparr>)
              | (Some clone, db) \<Rightarrow>
                  if \<not> op_ok then (500, None, p\<lparr>pn_db := Delete_instance (ins_id clone) db\<rparr>)
                  else (202, Some clone, p\<lparr>pn_db := db\<rparr>)))"

section \<open>The world of a project\<close>

text \<open>\<open>props\<close> is the content of \<open>server.properties\<close>, if it can be read.\<close>

definition worldPath :: "string \<Rightarrow> string option \<Rightarrow> project \<Rightarrow> fs \<Rightarrow> (string \<times> string) option" where
  "worldPath home props i fs =
     (let serverDir = AbsoluteDir home i; worldName = Clean (WorldDir props) in
      if worldName = ''.'' \<or> worldName = ''..'' \<or> IsAbs worldName then None
      else
        let world = JoinPath [serverDir, worldName] in
        case Rel serverDir world of
          None \<Rightarrow> None
        | Some rel \<Rightarrow>
            if rel = ''.'' \<or> HasPrefix rel ''../'' then None
            else if Lstat fs (names world) = Some NDir then Some (world, Base worldName) else None)"

text \<open>\<open>online1\<close> and \<open>online2\<close> are the state of the server before and after the locks were taken; \<open>safety\<close>
  whether the copy of the world could be made.\<close>

definition handleWorldReset ::
  "string \<Rightarrow> string option \<Rightarrow> bool \<Rightarrow> bool \<Rightarrow> bool \<Rightarrow> bool \<Rightarrow> bool \<Rightarrow> string \<Rightarrow> bool option \<Rightarrow> panel \<Rightarrow> nat \<times> panel" where
  "handleWorldReset home props online1 lock lifecycle online2 safety path confirm p =
     (case pathInstance path (pn_db p) of
        None \<Rightarrow> (404, p)
      | Some i \<Rightarrow>
          if confirm \<noteq> Some True then (400, p)
          else if instanceIsActive (ins_id i) (pn_db p) \<and> online1 then (409, p)
          else (case worldPath home props i (pn_fs p) of
            None \<Rightarrow> (404, p)
          | Some (world, _) \<Rightarrow>
              if \<not> lock \<or> \<not> lifecycle then (409, p)
              else if instanceIsActive (ins_id i) (pn_db p) \<and> online2 then (409, p)
              else if \<not> safety then (500, p)
              else (case RemoveAll (names world) (pn_fs p) of
                      (ok, fs) \<Rightarrow> (if ok then 200 else 500, p\<lparr>pn_fs := fs\<rparr>))))"

end
