(* ===== verification/FileHandlers.thy ===== *)
theory FileHandlers
  imports ServerHandlers
begin

text \<open>
  The requests of the file browser (\<open>source/internal/app/handlers_manage.go\<close>): which project they are for,
  which are read-only, and the batch copies and moves with their roll-back. A request body that is not JSON
  is \<open>None\<close>; a handler answers with its status.
\<close>

section \<open>Scope of a request\<close>

definition requestInstance :: "string \<Rightarrow> instance_db \<Rightarrow> project option" where
  "requestInstance server_id db =
     (let raw = TrimSpace server_id in
      if raw = [] then activeInstance db
      else case Atoi raw of
        None \<Rightarrow> None
      | Some i \<Rightarrow> if i \<le> 0 then None else ByID i db)"

definition maxTextEditBytes :: int where "maxTextEditBytes = 2 * 1024 * 1024"

definition filesForInstance :: "string \<Rightarrow> project \<Rightarrow> manager" where
  "filesForInstance home i = \<lparr>mg_root = AbsoluteDir home i, mg_max_edit = maxTextEditBytes, mg_max_upload = 0\<rparr>"

text \<open>The parameters of the query that every request has.\<close>

record file_query =
  fq_root :: string
  fq_server :: string
  fq_path :: string
  fq_search :: string

definition requestFiles :: "string \<Rightarrow> file_query \<Rightarrow> instance_db \<Rightarrow> (manager \<times> project option) option" where
  "requestFiles home q db =
     (let root = TrimSpace (fq_root q) in
      if root = ''servers''
      then Some (\<lparr>mg_root = JoinPath [home, ''servers''], mg_max_edit = maxTextEditBytes, mg_max_upload = 0\<rparr>, None)
      else if root \<noteq> [] then None
      else case requestInstance (fq_server q) db of
        None \<Rightarrow> None
      | Some i \<Rightarrow> Some (filesForInstance home i, Some i))"

definition rejectServersRootMutation :: "file_query \<Rightarrow> bool" where
  "rejectServersRootMutation q \<longleftrightarrow> TrimSpace (fq_root q) = ''servers''"

section \<open>Reading\<close>

definition handleFileList :: "string \<Rightarrow> file_query \<Rightarrow> panel \<Rightarrow> nat \<times> entry list" where
  "handleFileList home q p =
     (case requestFiles home q (pn_db p) of
        None \<Rightarrow> (409, [])
      | Some (m, _) \<Rightarrow>
          if fq_search q \<noteq> [] then (200, Search m (pn_fs p) (fq_search q))
          else (case List_dir m (pn_fs p) (fq_path q) of Inl _ \<Rightarrow> (400, []) | Inr es \<Rightarrow> (200, es)))"

definition handleFileRead :: "string \<Rightarrow> (string list \<Rightarrow> bool) \<Rightarrow> file_query \<Rightarrow> panel \<Rightarrow> nat \<times> string list option" where
  "handleFileRead home is_text q p =
     (case requestFiles home q (pn_db p) of
        None \<Rightarrow> (409, None)
      | Some (m, _) \<Rightarrow>
          (case ReadText m (pn_fs p) is_text (fq_path q) of Inl _ \<Rightarrow> (400, None) | Inr (f, _) \<Rightarrow> (200, Some f)))"

definition handleFileDownload :: "string \<Rightarrow> file_query \<Rightarrow> panel \<Rightarrow> nat \<times> string list option" where
  "handleFileDownload home q p =
     (case requestFiles home q (pn_db p) of
        None \<Rightarrow> (409, None)
      | Some (m, _) \<Rightarrow> (case Open m (pn_fs p) (fq_path q) of Inl _ \<Rightarrow> (400, None) | Inr f \<Rightarrow> (200, Some f)))"

definition previewImageContentTypes :: "(string \<times> string) list" where
  "previewImageContentTypes = [(''.avif'', ''image/avif''), (''.bmp'', ''image/bmp''), (''.gif'', ''image/gif''),
     (''.ico'', ''image/x-icon''), (''.jpeg'', ''image/jpeg''), (''.jpg'', ''image/jpeg''), (''.png'', ''image/png''),
     (''.webp'', ''image/webp'')]"

text \<open>\<open>filepath.Ext\<close> of a name.\<close>

definition Ext :: "string \<Rightarrow> string" where
  "Ext s = (let b = after_slash s; e = takeWhile (\<lambda>c. c \<noteq> CHR ''.'') (rev b) in
            if CHR ''.'' \<in> set b then CHR ''.'' # rev e else [])"

text \<open>The name of an opened file is the path it was opened with, so that the type is that of the resolved path.\<close>

definition handleFilePreview :: "string \<Rightarrow> file_query \<Rightarrow> panel \<Rightarrow> nat \<times> (string \<times> string list) option" where
  "handleFilePreview home q p =
     (case requestFiles home q (pn_db p) of
        None \<Rightarrow> (409, None)
      | Some (m, _) \<Rightarrow>
          (case (Open m (pn_fs p) (fq_path q), resolve m (pn_fs p) (fq_path q)) of
             (Inr f, Inr path) \<Rightarrow>
               (case map_of previewImageContentTypes (ToLower (Ext (Base path))) of
                  None \<Rightarrow> (400, None)
                | Some t \<Rightarrow> (200, Some (t, f)))
           | _ \<Rightarrow> (400, None)))"

section \<open>Changing\<close>

text \<open>The frame of a request that changes files: refused in the read-only scope, and with 409 without a
  project; \<open>body\<close> does the rest.\<close>

definition file_change :: "string \<Rightarrow> file_query \<Rightarrow> panel \<Rightarrow> (manager \<Rightarrow> project \<Rightarrow> fs \<Rightarrow> nat \<times> fs) \<Rightarrow> nat \<times> panel" where
  "file_change home q p body =
     (if rejectServersRootMutation q then (400, p)
      else case requestFiles home q (pn_db p) of
        Some (m, Some i) \<Rightarrow> (case body m i (pn_fs p) of (st, fs) \<Rightarrow> (st, p\<lparr>pn_fs := fs\<rparr>))
      | _ \<Rightarrow> (409, p))"

definition status_of :: "file_result \<Rightarrow> nat \<times> fs" where
  "status_of r = (case r of (e, fs) \<Rightarrow> (if e = None then 200 else 400, fs))"

definition handleFileWrite ::
  "string \<Rightarrow> string \<Rightarrow> string \<Rightarrow> file_query \<Rightarrow> (string \<times> string) option \<Rightarrow> panel \<Rightarrow> nat \<times> panel" where
  "handleFileWrite home stamp tmp q req p = file_change home q p (\<lambda>m i fs.
     case req of None \<Rightarrow> (400, fs) | Some (path, content) \<Rightarrow> status_of (WriteText m stamp tmp path content fs))"

definition handleFileCreate :: "string \<Rightarrow> file_query \<Rightarrow> string option \<Rightarrow> panel \<Rightarrow> nat \<times> panel" where
  "handleFileCreate home q req p = file_change home q p (\<lambda>m i fs.
     case req of None \<Rightarrow> (400, fs) | Some path \<Rightarrow> status_of (CreateFile m path fs))"

definition handleFileMkdir :: "string \<Rightarrow> file_query \<Rightarrow> string option \<Rightarrow> panel \<Rightarrow> nat \<times> panel" where
  "handleFileMkdir home q req p = file_change home q p (\<lambda>m i fs.
     case req of None \<Rightarrow> (400, fs) | Some path \<Rightarrow> status_of (Mkdir m path fs))"

definition handleFileRename :: "string \<Rightarrow> bool \<Rightarrow> file_query \<Rightarrow> (string \<times> string) option \<Rightarrow> panel \<Rightarrow> nat \<times> panel" where
  "handleFileRename home same q req p = file_change home q p (\<lambda>m i fs.
     case req of None \<Rightarrow> (400, fs) | Some (a, b) \<Rightarrow> status_of (RenameIn same m a b fs))"

definition handleFileDelete :: "string \<Rightarrow> file_query \<Rightarrow> (string \<times> bool) option \<Rightarrow> panel \<Rightarrow> nat \<times> panel" where
  "handleFileDelete home q req p = file_change home q p (\<lambda>m i fs.
     case req of
       None \<Rightarrow> (400, fs)
     | Some (path, confirm) \<Rightarrow> if \<not> confirm then (400, fs) else status_of (Delete m path fs))"

text \<open>A part of an upload: the names of the form field and of the file, its size, and whether it could be read to
  the end. Other parts are skipped; the first that cannot be saved ends the request.\<close>

record upload_part =
  pt_form :: string
  pt_file :: string
  pt_size :: nat
  pt_ok :: bool

fun upload_parts :: "manager \<Rightarrow> string \<Rightarrow> upload_part list \<Rightarrow> fs \<Rightarrow> nat \<times> fs" where
  "upload_parts m dir [] fs = (200, fs)"
| "upload_parts m dir (pt # pts) fs =
     (if pt_form pt \<noteq> ''file'' \<or> pt_file pt = [] then upload_parts m dir pts fs
      else case SaveUpload m (JoinPath [dir, Base (pt_file pt)]) (pt_size pt) (pt_ok pt) fs of
        (_, Some e, fs1) \<Rightarrow> (400, fs1)
      | (_, None, fs1) \<Rightarrow> upload_parts m dir pts fs1)"

definition handleFileUpload :: "string \<Rightarrow> file_query \<Rightarrow> upload_part list option \<Rightarrow> panel \<Rightarrow> nat \<times> panel" where
  "handleFileUpload home q ups p = file_change home q p (\<lambda>m i fs.
     case ups of None \<Rightarrow> (400, fs) | Some pts \<Rightarrow> upload_parts m (fq_path q) pts fs)"

section \<open>Batches\<close>

definition fileBatchRequest :: "(string list \<times> string \<times> int) option \<Rightarrow> (string list \<times> string \<times> int) option" where
  "fileBatchRequest req =
     (case req of
        None \<Rightarrow> None
      | Some (paths, destination, dest_id) \<Rightarrow>
          if paths = [] \<or> 200 < length paths then None
          else if dest_id < 0 then None
          else let ps = map TrimSpace paths in
            if list_ex (\<lambda>p. p = [] \<or> p = ''.'' \<or> p = ''/'') ps then None
            else Some (rev (remdups (rev ps)), TrimSpace destination, dest_id))"

definition fileBatchDestination :: "string \<Rightarrow> project \<Rightarrow> int \<Rightarrow> instance_db \<Rightarrow> project option" where
  "fileBatchDestination home source dest_id db =
     (if dest_id = 0 \<or> dest_id = ins_id source then Some source else ByID dest_id db)"

definition batch_target :: "string \<Rightarrow> string \<Rightarrow> string" where
  "batch_target destination source = JoinPath [destination, Base source]"

text \<open>The loop of the copies; \<open>copied\<close> are the targets so far, removed again on an error.\<close>

fun copy_batch :: "manager \<Rightarrow> manager \<Rightarrow> string \<Rightarrow> string list \<Rightarrow> string list \<Rightarrow> fs \<Rightarrow> bool \<times> fs" where
  "copy_batch m dm destination copied [] fs = (True, fs)"
| "copy_batch m dm destination copied (s # ss) fs =
     (case CopyTo m s (Some dm) (batch_target destination s) fs of
        (Some e, fs1) \<Rightarrow> (False, foldl (\<lambda>f t. snd (Delete dm t f)) fs1 (rev copied))
      | (None, fs1) \<Rightarrow> copy_batch m dm destination (copied @ [batch_target destination s]) ss fs1)"

text \<open>The loop of the moves, moved back on an error.\<close>

definition move_one :: "bool \<Rightarrow> bool \<Rightarrow> manager \<Rightarrow> manager \<Rightarrow> string \<Rightarrow> string \<Rightarrow> fs \<Rightarrow> file_result" where
  "move_one cross same m dm a b fs = (if cross then MoveTo same m a (Some dm) b fs else RenameIn same m a b fs)"

fun move_batch ::
  "bool \<Rightarrow> bool \<Rightarrow> manager \<Rightarrow> manager \<Rightarrow> string \<Rightarrow> (string \<times> string) list \<Rightarrow> string list \<Rightarrow> fs \<Rightarrow> bool \<times> fs" where
  "move_batch cross same m dm destination moved [] fs = (True, fs)"
| "move_batch cross same m dm destination moved (s # ss) fs =
     (case move_one cross same m dm s (batch_target destination s) fs of
        (Some e, fs1) \<Rightarrow>
          (False, foldl (\<lambda>f (a, b). snd (if cross then MoveTo same dm b (Some m) a f else RenameIn same m b a f)) fs1 (rev moved))
      | (None, fs1) \<Rightarrow> move_batch cross same m dm destination (moved @ [(s, batch_target destination s)]) ss fs1)"

definition handleFileCopy ::
  "string \<Rightarrow> file_query \<Rightarrow> (string list \<times> string \<times> int) option \<Rightarrow> panel \<Rightarrow> nat \<times> panel" where
  "handleFileCopy home q req p = file_change home q p (\<lambda>m i fs.
     case fileBatchRequest req of
       None \<Rightarrow> (400, fs)
     | Some (ps, d, dest_id) \<Rightarrow>
         (case fileBatchDestination home i dest_id (pn_db p) of
            None \<Rightarrow> (400, fs)
          | Some j \<Rightarrow>
              (case copy_batch m (filesForInstance home j) d [] ps fs of (ok, fs1) \<Rightarrow> (if ok then 200 else 400, fs1))))"

definition handleFileMove ::
  "string \<Rightarrow> bool \<Rightarrow> file_query \<Rightarrow> (string list \<times> string \<times> int) option \<Rightarrow> panel \<Rightarrow> nat \<times> panel" where
  "handleFileMove home same q req p = file_change home q p (\<lambda>m i fs.
     case fileBatchRequest req of
       None \<Rightarrow> (400, fs)
     | Some (ps, d, dest_id) \<Rightarrow>
         (case fileBatchDestination home i dest_id (pn_db p) of
            None \<Rightarrow> (400, fs)
          | Some j \<Rightarrow>
              (case move_batch (ins_id j \<noteq> ins_id i) same m (filesForInstance home j) d [] ps fs of
                 (ok, fs1) \<Rightarrow> (if ok then 200 else 400, fs1))))"

text \<open>The acceptance of the licence writes a small file; \<open>content\<close> is its text.\<close>

definition handleConfigEULA ::
  "string \<Rightarrow> string \<Rightarrow> string \<Rightarrow> string \<Rightarrow> string \<Rightarrow> bool option \<Rightarrow> panel \<Rightarrow> nat \<times> panel" where
  "handleConfigEULA home stamp tmp content server_id accept p =
     (case requestInstance server_id (pn_db p) of
        None \<Rightarrow> (409, p)
      | Some i \<Rightarrow>
          if accept \<noteq> Some True then (400, p)
          else (case WriteText \<lparr>mg_root = AbsoluteDir home i, mg_max_edit = 0, mg_max_upload = 0\<rparr> stamp tmp ''eula.txt'' content (pn_fs p) of
                  (e, fs) \<Rightarrow> (if e = None then 200 else 500, p\<lparr>pn_fs := fs\<rparr>)))"

end
