(* ===== verification/ServerProperties.thy ===== *)
theory ServerProperties
  imports ServerHandlers
begin

text \<open>
  What the requests about projects leave alone: the directories of projects lie apart, deleting one or
  resetting its world changes nothing outside it, and a copy is complete.
\<close>

section \<open>Directories of projects\<close>

text \<open>A project in the place that its slug gives it.\<close>

definition managed :: "project \<Rightarrow> bool" where
  "managed i \<longleftrightarrow> \<not> ins_external i \<and> ins_dir i = RelativeDirFor (ins_slug i)"

definition project_names :: "string \<Rightarrow> project \<Rightarrow> string list" where
  "project_names home i = names (AbsoluteDir home i)"

lemma managed_names:
  assumes "IsAbs home" "managed i" "ValidateSlug (ins_slug i)"
  shows "project_names home i = names home @ modded_names @ [ins_slug i]"
    "AbsoluteDir home i = render True (names home @ modded_names @ [ins_slug i])"
  using managed_dir_names [OF assms(1,3)] assms(2) by (simp_all add: project_names_def AbsoluteDir_def managed_def)

definition apart :: "string list \<Rightarrow> string list \<Rightarrow> bool" where
  "apart d e \<longleftrightarrow> \<not> under d e \<and> \<not> under e d"

lemma apart_sym: "apart d e \<longleftrightarrow> apart e d"
  by (auto simp: apart_def)

lemma apart_under: "apart d e \<Longrightarrow> under d p \<Longrightarrow> \<not> under e p"
proof
  assume a: "apart d e" and p: "under d p" "under e p"
  then obtain r s where "d @ r = e @ s" by (auto simp: under_iff)
  then have "under d e \<or> under e d" unfolding under_iff append_eq_append_conv2 by auto
  with a show False by (simp add: apart_def)
qed

lemma managed_apart:
  assumes "IsAbs home" "instances_ok db" "i \<in> set (is_rows db)" "j \<in> set (is_rows db)"
    "managed i" "managed j" "ins_type i = ins_type j" "i \<noteq> j"
  shows "apart (project_names home i) (project_names home j)"
proof -
  have v: "ValidateSlug (ins_slug i)" "ValidateSlug (ins_slug j)"
    using assms(2-4) by (auto simp: instances_ok_def list_all_iff)
  have "ins_slug i \<noteq> ins_slug j"
    using assms(2-4,7,8) by (auto simp: instances_ok_def distinct_map dest: inj_onD)
  with assms(1,5,6) v show ?thesis by (simp add: apart_def managed_names under_def)
qed

text \<open>A project shell opens the home directory of the panel: the project that a request to create an
  empty project makes has no directory of its own, so that its directory is the home itself, which
  holds the directory of every other project, the database and the keys; its file browser resolves any
  path there.\<close>

lemma new_shell_opens_home:
  assumes "handleServerCreate home now (Some (name, slug)) p = (200, p')" "IsAbs home"
  shows "\<exists>i. is_rows (pn_db p') = is_rows (pn_db p) @ [i] \<and> AbsoluteDir home i = Clean home \<and>
    (\<forall>j\<in>set (is_rows (pn_db p)). managed j \<longrightarrow> ValidateSlug (ins_slug j) \<longrightarrow>
       under (project_names home i) (project_names home j))"
proof -
  define s where "s = (if slug = [] then GenerateSlug name else slug)"
  define inst where "inst = zero_instance\<lparr>ins_slug := s, ins_name := TrimSpace name,
      ins_type := ''minecraft-java-modded'', ins_source := ''archive-upload''\<rparr>"
  obtain x db where C: "Create_instance now inst (pn_db p) = (x, db)" by (metis surj_pair)
  have run: "handleServerCreate home now (Some (name, slug)) p =
      (if TrimSpace name = [] then (400, p) else if \<not> ValidateSlug s then (400, p)
       else case (x, db) of
           (Inl _, db) \<Rightarrow> (409, p\<lparr>pn_db := db\<rparr>)
         | (Inr i, db) \<Rightarrow>
             (case MkdirAll (names (AbsoluteDir home i)) (pn_fs p) of
                (ok, fs) \<Rightarrow> (if ok then 200 else 500, p\<lparr>pn_db := db, pn_fs := fs\<rparr>)))"
    unfolding C [symmetric] by (simp add: handleServerCreate_def s_def inst_def Let_def)
  with assms(1) obtain i where i: "x = Inr i" and db': "pn_db p' = db"
    by (cases x) (auto split: if_splits prod.splits)
  note c = Create_rows [OF C [unfolded i]]
  define row where "row = stored_row now i"
  have place: "ins_dir row = []" "\<not> ins_external row"
    unfolding row_def c(1) by (simp_all add: stored_row_def created_place inst_def zero_instance_def)
  have "JoinPath [home, []] = Clean home"
  proof -
    have "joined_names home [[]] = names home" by (simp add: joined_names_def)
    then show ?thesis using assms(2) by (simp add: JoinPath_names Clean_abs)
  qed
  with place have dir: "AbsoluteDir home row = Clean home" by (simp add: AbsoluteDir_def)
  then have "project_names home row = names home" using assms(2) by (simp add: project_names_def)
  moreover have "under (names home) (project_names home j)" if "managed j" "ValidateSlug (ins_slug j)" for j
    using managed_names(1) [OF assms(2) that] by simp
  ultimately show ?thesis using c(2) db' dir row_def by auto
qed
theorem new_shell_opens_home_witness:
  "\<exists>i p'. handleServerCreate ''/opt/bonghos'' ''t'' (Some (''Shell'', [])) \<lparr>pn_db = empty_instances, pn_fs = [([''opt''], NDir), ([''opt'', ''bonghos''], NDir)]\<rparr> =
     (200, p') \<and> is_rows (pn_db p') = [i] \<and> AbsoluteDir ''/opt/bonghos'' i = ''/opt/bonghos''"
proof -
  let ?p = "\<lparr>pn_db = empty_instances, pn_fs = [([''opt''], NDir), ([''opt'', ''bonghos''], NDir)]\<rparr>"
  have "fst (handleServerCreate ''/opt/bonghos'' ''t'' (Some (''Shell'', [])) ?p) = 200" by code_simp
  then obtain p' where r: "handleServerCreate ''/opt/bonghos'' ''t'' (Some (''Shell'', [])) ?p = (200, p')"
    by (metis prod.collapse)
  have "IsAbs ''/opt/bonghos''" "Clean ''/opt/bonghos'' = ''/opt/bonghos''" "is_rows (pn_db ?p) = []"
    by (code_simp, code_simp, simp add: empty_instances_def)
  with new_shell_opens_home [OF r] r show ?thesis by auto
qed

section \<open>Deleting a project\<close>

lemma clean_prefix_names:
  assumes "list_all good_name a" "list_all good_name ns" "a \<noteq> []" "HasPrefix (render True ns) (render True a @ ''/'')"
  shows "\<exists>r. ns = a @ r \<and> r \<noteq> []"
proof -
  from assms(4) obtain x where x: "render True ns = render True a @ ''/'' @ x" by (auto simp: HasPrefix_iff)
  have s: "Split slash (render True cs) = [] # cs" if "list_all good_name cs" "cs \<noteq> []" for cs
    using Split_Join_good [OF that] by (simp add: render_def)
  have "ns \<noteq> []" using x by (auto simp: render_def)
  with x s [OF assms(2)] have "[] # ns = Split slash (render True a @ slash # x)" by simp
  also have "\<dots> = [] # a @ Split slash x" using s [OF assms(1,3)] by (simp add: Split_two)
  finally show ?thesis by auto
qed

lemma servers_names: "IsAbs home \<Longrightarrow> JoinPath [home, ''servers''] = render True (names home @ [''servers''])"
proof -
  assume "IsAbs home"
  moreover have "joined_names home [''servers''] = names home @ [''servers'']"
    using clean_stack_good_names [of "[''servers'']" True "rev (names home)"]
    by (simp add: joined_names_def good_name_def)
  ultimately show ?thesis by (simp add: JoinPath_names)
qed

lemma link_free_below: "link_free d fs \<Longrightarrow> link_free (d @ r) fs"
proof -
  assume l: "link_free d fs"
  have "under d p" if "under (d @ r) p" for p using that under_trans under_append by blast
  moreover have "under d p \<or> under p d" if "under p (d @ r)" for p
  proof -
    from that obtain s where "d @ r = p @ s" by (auto simp: under_iff)
    then show ?thesis unfolding under_iff append_eq_append_conv2 by auto
  qed
  ultimately show ?thesis using l unfolding link_free_def by metis
qed

lemma RemoveAll_below:
  assumes "link_free (names home) fs" "list_all good_name (names home @ r)" "fs_get (snd (RemoveAll (names home @ r) fs)) q \<noteq> fs_get fs q"
  shows "under (names home @ r) q"
proof -
  obtain b fs' where R: "RemoveAll (names home @ r) fs = (b, fs')" by (metis surj_pair)
  have "confined (names home @ r) fs fs'"
    using RemoveAll_confined(1) [of "names home @ r" "[]" fs b fs'] assms(2) link_free_below [OF assms(1)] R by simp
  with assms(3) R show ?thesis by (auto simp: confined_def same_outside_def)
qed

lemma AbsoluteDir_clean:
  assumes "IsAbs home" "\<not> ins_external i"
  shows "\<exists>ns. AbsoluteDir home i = render True ns \<and> list_all good_name ns"
  using assms joined_names_good by (auto simp: AbsoluteDir_def JoinPath_names)

text \<open>C34. Deleting a project removes files only when that was asked for, only of a project that Bonghos keeps
  itself (not a linked one), which does not run at that moment, and only below the directory of that one
  project, which lies strictly inside the directory of the servers.\<close>

theorem project_delete_confined:
  assumes "IsAbs home" "link_free (names home) (pn_fs p)"
    "handleServerDelete home online lock path delete_files p = (status, p')"
    "fs_get (pn_fs p') q \<noteq> fs_get (pn_fs p) q"
  shows "delete_files \<and> lock \<and> status = 200 \<and>
    (\<exists>i r. pathInstance path (pn_db p) = Some i \<and> \<not> ins_external i \<and> \<not> (online \<and> ActiveID (pn_db p) = ins_id i) \<and>
       project_names home i = names home @ ''servers'' # r \<and> r \<noteq> [] \<and> under (project_names home i) q)"
proof -
  from assms(3,4) obtain i where i: "pathInstance path (pn_db p) = Some i" by (auto simp: handleServerDelete_def split: option.splits)
  define rm where "rm \<longleftrightarrow> delete_files \<and> \<not> ins_external i \<and> HasPrefix (AbsoluteDir home i) (JoinPath [home, ''servers''] @ ''/'')"
  from assms(3,4) i have g: "\<not> (online \<and> ActiveID (pn_db p) = ins_id i)" "lock" "status = 200" rm
    and f: "pn_fs p' = snd (RemoveAll (project_names home i) (pn_fs p))"
    by (auto simp: handleServerDelete_def rm_def project_names_def Let_def split: if_splits)
  from g(4) AbsoluteDir_clean [OF assms(1)] obtain ns where ns: "AbsoluteDir home i = render True ns" "list_all good_name ns"
    unfolding rm_def by blast
  have "list_all good_name (names home @ [''servers''])" using names_good by (simp add: good_name_def)
  then obtain r where r: "ns = (names home @ [''servers'']) @ r" "r \<noteq> []"
    using clean_prefix_names [OF _ ns(2)] g(4) unfolding rm_def ns(1) servers_names [OF assms(1)] by blast
  have pn: "project_names home i = names home @ ''servers'' # r" using ns r(1) by (simp add: project_names_def names_render)
  then have "under (project_names home i) q"
    using RemoveAll_below [OF assms(2), of "''servers'' # r" q] assms(4) f ns(2) r(1) by simp
  with g i pn r(2) rm_def show ?thesis by blast
qed
definition sample_panel :: panel where
  "sample_panel = \<lparr>pn_db = \<lparr>is_rows = [sample_project\<lparr>ins_id := 1\<rparr>], is_active = None\<rparr>,
     pn_fs = map (\<lambda>p. (p, NDir)) [[''b''], [''b'', ''servers''], [''b'', ''servers'', ''minecraft-java''],
        [''b'', ''servers'', ''minecraft-java'', ''modded''], [''b'', ''servers'', ''minecraft-java'', ''modded'', ''smp''],
        [''b'', ''servers'', ''minecraft-java'', ''modded'', ''smp'', ''world'']]\<rparr>"

lemma sample_panel_links: "link_free d (pn_fs sample_panel)"
proof -
  have "fs_get (pn_fs sample_panel) q \<noteq> Some (NLink t)" for q t
    by (auto simp: sample_panel_def fs_get_def dest!: map_of_SomeD split: if_splits)
  then show ?thesis by (simp add: link_free_def)
qed

theorem project_delete_confined_witness:
  "\<exists>p'. handleServerDelete ''/b'' False True ''1'' True sample_panel = (200, p') \<and> is_rows (pn_db p') = [] \<and>
     under (project_names ''/b'' (sample_project\<lparr>ins_id := 1\<rparr>)) [''b'', ''servers'', ''minecraft-java'', ''modded'', ''smp'', ''world'']"
proof -
  let ?q = "[''b'', ''servers'', ''minecraft-java'', ''modded'', ''smp'', ''world'']"
  obtain p' where r: "handleServerDelete ''/b'' False True ''1'' True sample_panel = (200, p')"
  proof -
    have "fst (handleServerDelete ''/b'' False True ''1'' True sample_panel) = 200" by code_simp
    then show ?thesis using that by (metis prod.collapse)
  qed
  have "fs_get (pn_fs (snd (handleServerDelete ''/b'' False True ''1'' True sample_panel))) ?q = None"
    "fs_get (pn_fs sample_panel) ?q = Some NDir"
    "is_rows (pn_db (snd (handleServerDelete ''/b'' False True ''1'' True sample_panel))) = []" by code_simp+
  then have f: "fs_get (pn_fs p') ?q \<noteq> fs_get (pn_fs sample_panel) ?q" "is_rows (pn_db p') = []" using r by simp_all
  have "IsAbs ''/b''" "pathInstance ''1'' (pn_db sample_panel) = Some (sample_project\<lparr>ins_id := 1\<rparr>)" by code_simp+
  with project_delete_confined [OF _ sample_panel_links r f(1)] r f(2) show ?thesis by auto
qed

section \<open>Resetting a world\<close>

lemma clean_stack_down:
  "''..'' \<notin> set cs \<Longrightarrow> clean_stack rooted st cs = rev st @ filter (\<lambda>c. c \<noteq> [] \<and> c \<noteq> ''.'') cs"
  by (induction cs arbitrary: st) auto

lemma Contains_part: "w \<in> set (Split c s) \<Longrightarrow> Contains s w"
proof (induction s arbitrary: w)
  case (Cons a s)
  obtain v vs where v: "Split c s = v # vs" using Split_nonempty by (metis list.exhaust)
  show ?case
  proof (cases "a = c \<or> w \<in> set vs")
    case True
    with Cons v show ?thesis by (cases "w = []") (auto split: if_splits)
  next
    case False
    with Cons.prems v have w: "w = a # v" by simp
    have "\<exists>r. s = v @ r"
    proof -
      have "v = hd (Split c s)" using v by simp
      then have "s = Join [c] (v # vs)" using Join_Split [of c s] v by simp
      then show ?thesis by (cases vs) auto
    qed
    then show ?thesis unfolding w by (auto simp: HasPrefix_def)
  qed
qed simp

lemma WorldDir_plain: "''..'' \<notin> set (Split slash (WorldDir props))" "\<not> IsAbs (WorldDir props)"
proof -
  have "\<not> Contains (WorldDir props) ''..'' \<and> \<not> IsAbs (WorldDir props)"
    by (auto simp: WorldDir_def IsAbs_def HasPrefix_def split: option.splits)
  then show "''..'' \<notin> set (Split slash (WorldDir props))" "\<not> IsAbs (WorldDir props)"
    using Contains_part by blast+
qed

text \<open>The names of the directory that \<open>level-name\<close> gives, below the project.\<close>

definition world_names :: "string option \<Rightarrow> string list" where
  "world_names props = filter (\<lambda>c. c \<noteq> [] \<and> c \<noteq> ''.'') (Split slash (WorldDir props))"

lemma worldPath_names:
  assumes "IsAbs (AbsoluteDir home i)" "worldPath home props i fs = Some (world, w)"
  shows "names world = project_names home i @ world_names props" "world_names props \<noteq> []"
    "list_all good_name (project_names home i @ world_names props)" "Lstat fs (names world) = Some NDir"
proof -
  define d where "d = AbsoluteDir home i"
  define cs where "cs = world_names props"
  have good: "list_all good_name cs"
    using WorldDir_plain(1) [of props] Split_no_sep [of _ slash "WorldDir props"]
    by (auto simp: cs_def world_names_def list_all_iff good_name_def)
  have c: "Clean (WorldDir props) = render False cs"
    using WorldDir_plain [of props] clean_stack_down [of _ False "[]"] by (simp add: Clean_def cs_def world_names_def)
  have cases: "Clean (WorldDir props) \<noteq> ''.''" "JoinPath [d, Clean (WorldDir props)] = world" "Lstat fs (names world) = Some NDir"
    using assms(2) by (auto simp: worldPath_def Let_def d_def split: if_splits option.splits)
  then have cs0: "cs \<noteq> []" by (auto simp: c render_def)
  have "Split slash (render False cs) = cs" using Split_Join_good [OF good cs0] cs0 by (simp add: render_def)
  then have "joined_names d [Clean (WorldDir props)] = names d @ cs"
    unfolding joined_names_def c using clean_stack_good_names [OF good, of True "rev (names d)"] by simp
  then have "world = render True (names d @ cs)"
    using cases(2) JoinPath_names [of d "[Clean (WorldDir props)]"] assms(1) by (simp add: d_def)
  moreover have g: "list_all good_name (names d @ cs)" using good names_good by simp
  ultimately show "names world = project_names home i @ world_names props"
    by (simp add: names_render project_names_def d_def cs_def)
  from g cs0 cases(3) show "world_names props \<noteq> []"
    "list_all good_name (project_names home i @ world_names props)" "Lstat fs (names world) = Some NDir"
    by (simp_all add: project_names_def d_def cs_def)
qed

lemma fs_get_filter_under: "d \<noteq> [] \<Longrightarrow>
  fs_get (filter (\<lambda>e. \<not> under d (fst e)) fs) q = (if under d q then None else fs_get fs q)"
proof -
  assume d: "d \<noteq> []"
  have "map_of (filter (\<lambda>e. \<not> under d (fst e)) fs) q = (if under d q then None else map_of fs q)"
    by (induction fs) auto
  with d show ?thesis by (auto simp: fs_get_def under_def)
qed

text \<open>C35. Resetting a world deletes something only after it was confirmed, both locks were taken, a safety
  copy was made and the server was seen offline before and after taking the locks. What it deletes
  is then exactly the real directory that \<open>level-name\<close> of the project's properties names strictly
  inside the project, with everything below it, and nothing else, provided that there are no
  symbolic links on the way to the project or in it (with one the code can delete elsewhere).\<close>

theorem world_reset_confined:
  assumes "handleWorldReset home props online1 lock lifecycle online2 safety path confirm p = (status, p')"
    "pathInstance path (pn_db p) = Some i" "IsAbs (AbsoluteDir home i)" "link_free (project_names home i) (pn_fs p)"
  shows "pn_db p' = pn_db p \<and>
    (pn_fs p' \<noteq> pn_fs p \<longrightarrow> confirm = Some True \<and> lock \<and> lifecycle \<and> safety \<and>
       \<not> (ActiveID (pn_db p) = ins_id i \<and> (online1 \<or> online2)) \<and> world_names props \<noteq> [] \<and>
       fs_get (pn_fs p) (project_names home i @ world_names props) = Some NDir \<and>
       (\<forall>q. fs_get (pn_fs p') q =
          (if under (project_names home i @ world_names props) q then None else fs_get (pn_fs p) q)))"
proof (cases "worldPath home props i (pn_fs p)")
  case None
  with assms(1,2) show ?thesis by (auto simp: handleWorldReset_def split: if_splits)
next
  case (Some ww)
  obtain world w where ww: "ww = (world, w)" by (cases ww)
  note r = worldPath_names [OF assms(3) Some [unfolded ww]]
  from r(4) obtain q where q: "lookup (pn_fs p) False (names world) = Some q" "fs_get (pn_fs p) q = Some NDir"
    by (auto simp: Lstat_def split: option.splits)
  with lookup_plain [OF r(3) assms(4) q(1) [unfolded r(1)]]
  have d: "fs_get (pn_fs p) (project_names home i @ world_names props) = Some NDir"
    and R: "RemoveAll (names world) (pn_fs p) =
      (True, filter (\<lambda>e. \<not> under (project_names home i @ world_names props) (fst e)) (pn_fs p))"
    using r(2) by (simp_all add: RemoveAll_def)
  have "project_names home i @ world_names props \<noteq> []" using r(2) by simp
  from fs_get_filter_under [OF this] assms(1,2) Some ww r(2) R d show ?thesis
    by (auto simp: handleWorldReset_def instanceIsActive_def split: if_splits)
qed

theorem world_reset_confined_witness:
  "\<exists>p'. handleWorldReset ''/b'' None False True True False True ''1'' (Some True) sample_panel = (200, p') \<and>
     fs_get (pn_fs sample_panel) [''b'', ''servers'', ''minecraft-java'', ''modded'', ''smp'', ''world''] = Some NDir \<and>
     fs_get (pn_fs p') [''b'', ''servers'', ''minecraft-java'', ''modded'', ''smp'', ''world''] = None \<and>
     pn_db p' = pn_db sample_panel"
proof -
  let ?r = "handleWorldReset ''/b'' None False True True False True ''1'' (Some True) sample_panel"
  have f: "fst ?r = 200" "fs_get (pn_fs sample_panel) [''b'', ''servers'', ''minecraft-java'', ''modded'', ''smp'', ''world''] = Some NDir"
    "fs_get (pn_fs (snd ?r)) [''b'', ''servers'', ''minecraft-java'', ''modded'', ''smp'', ''world''] = None" by code_simp+
  obtain p' where r: "?r = (200, p')" using f(1) by (metis prod.collapse)
  have "pathInstance ''1'' (pn_db sample_panel) = Some (sample_project\<lparr>ins_id := 1\<rparr>)"
    "IsAbs (AbsoluteDir ''/b'' (sample_project\<lparr>ins_id := 1\<rparr>))" by code_simp+
  with world_reset_confined [OF r _ _ sample_panel_links] have "pn_db p' = pn_db sample_panel" by blast
  with r f show ?thesis by simp
qed

end
