(* ===== verification/TreeCopy.thy ===== *)
theory TreeCopy
  imports ServerProperties
begin

text \<open>
  Copying a tree to a free place yields the same tree there and changes nothing else; used for the
  duplication of a project.
\<close>

section \<open>Looking up real paths\<close>

lemma walk_real_leaf:
  "(\<And>x y. a = x @ y \<Longrightarrow> fs_get fs (cur @ x) = Some NDir) \<Longrightarrow> list_all good_name (a @ [c]) \<Longrightarrow>
   (\<And>t. follow \<Longrightarrow> fs_get fs (cur @ a @ [c]) \<noteq> Some (NLink t)) \<Longrightarrow> walk n fs follow cur (a @ [c]) = Some (cur @ a @ [c])"
proof (induction a arbitrary: cur)
  case Nil
  then have "c \<noteq> []" "c \<noteq> ''.''" "c \<noteq> ''..''" by (auto simp: good_name_def)
  with Nil(3) show ?case by (auto split: option.splits node.splits)
next
  case (Cons b a)
  have b: "b \<noteq> []" "b \<noteq> ''.''" "b \<noteq> ''..''" using Cons.prems(2) by (auto simp: good_name_def)
  have b4: "list_all good_name (a @ [c])" using Cons.prems(2) by simp
  have "fs_get fs ((cur @ [b]) @ x) = Some NDir" if "a = x @ y" for x y
    using Cons.prems(1) [of "b # x" y] that by simp
  with Cons.IH [OF _ b4, of "cur @ [b]"] Cons.prems(1) [of "[b]" a] Cons.prems(3) b show ?case by simp
qed

lemma lookup_under_real:
  assumes "real_dir (butlast p) fs" "list_all good_name p" "p \<noteq> []" "\<And>t. follow \<Longrightarrow> fs_get fs p \<noteq> Some (NLink t)"
  shows "lookup fs follow p = Some p"
proof -
  obtain a c where p: "p = a @ [c]" using assms(3) by (cases p rule: rev_cases) auto
  have "real_dir a fs" using assms(1) by (simp add: p)
  then have "fs_get fs ([] @ x) = Some NDir" if "a = x @ y" for x y
    using that unfolding real_dir_def under_iff by auto
  from walk_real_leaf [OF this, where c = c and follow = follow] assms(2,4) show ?thesis by (simp add: p lookup_def)
qed

lemma real_dir_snoc: "p \<noteq> [] \<Longrightarrow> real_dir p fs \<longleftrightarrow> real_dir (butlast p) fs \<and> fs_get fs p = Some NDir"
proof -
  assume "p \<noteq> []"
  then obtain a c where p: "p = a @ [c]" by (cases p rule: rev_cases) auto
  have "under x p \<longleftrightarrow> under x a \<or> x = p" for x
    unfolding p under_iff by (auto simp: append_eq_append_conv2 Cons_eq_append_conv)
  then show ?thesis unfolding real_dir_def p by auto
qed

lemma MkdirAll_real: "real_dir d fs \<Longrightarrow> list_all good_name d \<Longrightarrow> MkdirAll d fs = (True, fs)"
  using mkdir_all_real [of "[]" d fs "[]"] by (simp add: MkdirAll_def)

lemma MkdirAll_new:
  assumes "real_dir (butlast p) fs" "list_all good_name p" "p \<noteq> []" "fs_get fs p = None"
  shows "MkdirAll p fs = (True, fs_put p NDir fs)"
proof -
  obtain a c where p: "p = a @ [c]" using assms(3) by (cases p rule: rev_cases) auto
  have m: "mkdir_all fs [] (a @ [c]) = mkdir_all fs a [c]"
    using mkdir_all_real [of "[]" a fs "[c]"] assms(1,2) by (simp add: p)
  have "lookup fs f (a @ [c]) = Some (a @ [c])" for f
    using lookup_under_real [OF assms(1-3), of f] assms(4) by (simp add: p)
  with assms(4) show ?thesis by (simp add: MkdirAll_def p m Stat_def)
qed

lemma ReadDir_children:
  assumes "real_dir p fs" "list_all good_name p"
  shows "\<exists>es. ReadDir fs p = Some es \<and> distinct es \<and> (\<forall>e. e \<in> set es \<longleftrightarrow> fs_get fs (p @ [e]) \<noteq> None)"
proof -
  define es where "es = sort (remdups (map (\<lambda>e. last (fst e)) (filter (\<lambda>e. fst e \<noteq> [] \<and> butlast (fst e) = p) fs)))"
  have "lookup fs True p = Some p" using lookup_real [OF assms] .
  moreover have "fs_get fs p = Some NDir" using assms(1) under_append [of p "[]"] by (simp add: real_dir_def)
  ultimately have r: "ReadDir fs p = Some es" by (simp add: ReadDir_def es_def)
  have "e \<in> set es \<longleftrightarrow> p @ [e] \<in> fst ` set fs" for e
  proof -
    have "k \<noteq> [] \<and> butlast k = p \<and> last k = e \<longleftrightarrow> k = p @ [e]" for k :: "string list"
      by (cases k rule: rev_cases) auto
    then have "(\<exists>k\<in>fst ` set fs. k \<noteq> [] \<and> butlast k = p \<and> last k = e) \<longleftrightarrow> p @ [e] \<in> fst ` set fs" by simp
    moreover have "e \<in> set es \<longleftrightarrow> (\<exists>k\<in>fst ` set fs. k \<noteq> [] \<and> butlast k = p \<and> last k = e)"
      unfolding es_def by auto
    ultimately show ?thesis by simp
  qed
  then have "\<forall>e. e \<in> set es \<longleftrightarrow> fs_get fs (p @ [e]) \<noteq> None" by (simp add: fs_get_def map_of_eq_None_iff)
  with r show ?thesis by (auto simp: es_def)
qed

section \<open>The copy\<close>

text \<open>The tree below \<open>src\<close> can be copied to \<open>dst\<close>: both lie apart in real directories, nothing is at \<open>dst\<close>,
  the tree at \<open>src\<close> is less than \<open>n\<close> deep and has its entries in directories.\<close>

definition copyable :: "nat \<Rightarrow> string list \<Rightarrow> string list \<Rightarrow> fs \<Rightarrow> bool" where
  "copyable n src dst fs \<longleftrightarrow> list_all good_name src \<and> list_all good_name dst \<and> src \<noteq> [] \<and> dst \<noteq> [] \<and> apart src dst \<and>
     good_tree fs \<and> real_dir (butlast src) fs \<and> real_dir (butlast dst) fs \<and> (\<forall>r. fs_get fs (dst @ r) = None) \<and>
     fs_get fs src \<noteq> None \<and> (\<forall>q. fs_get fs (src @ q) \<noteq> None \<longrightarrow> length q < n) \<and>
     (\<forall>q r. fs_get fs (src @ q @ r) \<noteq> None \<longrightarrow> r \<noteq> [] \<longrightarrow> fs_get fs (src @ q) = Some NDir) \<and>
     (\<forall>q. fs_get fs (src @ q) \<noteq> Some (NLink []))"

definition copied :: "string list \<Rightarrow> string list \<Rightarrow> fs \<Rightarrow> fs \<Rightarrow> bool" where
  "copied src dst fs fs' \<longleftrightarrow>
     (\<forall>q. fs_get fs' q = (if under dst q then fs_get fs (src @ drop (length dst) q) else fs_get fs q)) \<and> good_tree fs'"

lemma copyableD:
  assumes "copyable n src dst fs"
  shows "list_all good_name src" "list_all good_name dst" "src \<noteq> []" "dst \<noteq> []" "apart src dst" "good_tree fs"
    "real_dir (butlast src) fs" "real_dir (butlast dst) fs" "fs_get fs (dst @ r) = None" "fs_get fs src \<noteq> None"
    "fs_get fs (src @ q) \<noteq> None \<Longrightarrow> length q < n"
    "fs_get fs (src @ q @ r) \<noteq> None \<Longrightarrow> r \<noteq> [] \<Longrightarrow> fs_get fs (src @ q) = Some NDir"
    "fs_get fs (src @ q) \<noteq> Some (NLink [])"
  using assms unfolding copyable_def by blast+

lemmas copyable_parts = copyableD(1-8,10)

text \<open>A child while its directory is being copied.\<close>

lemma copyable_child:
  assumes c: "copyable (Suc m) src dst fs" and "good_name e" "fs_get fs (src @ [e]) \<noteq> None" "fs_get fs src = Some NDir"
    "good_tree f" and out: "\<And>q. \<not> under dst q \<Longrightarrow> fs_get f q = fs_get fs q" and "fs_get f dst = Some NDir"
    and free: "\<And>r. fs_get f (dst @ e # r) = None"
  shows "copyable m (src @ [e]) (dst @ [e]) f"
proof -
  note c' = copyable_parts [OF c]
  have s: "fs_get f (src @ r) = fs_get fs (src @ r)" for r
    using out apart_under [OF c'(5) under_append] by blast
  have p: "fs_get f a = fs_get fs a" if "under a (butlast src)" for a
  proof (rule out)
    show "\<not> under dst a"
    proof
      assume "under dst a"
      then have "under dst (butlast src)" using that by (rule under_trans)
      moreover have "under (butlast src) src" using append_butlast_last_id [OF c'(3)] under_append by metis
      ultimately have "under dst src" by (rule under_trans)
      with c'(5) show False by (simp add: apart_def)
    qed
  qed
  have "real_dir (butlast src) f" using c'(7) p by (simp add: real_dir_def)
  then have 1: "real_dir src f" using s [of "[]"] assms(4) by (simp add: real_dir_snoc [OF c'(3)])
  have "fs_get f a = fs_get fs a" if "under a (butlast dst)" for a
  proof (rule out)
    show "\<not> under dst a"
    proof
      assume "under dst a"
      with that have "under dst (butlast dst)" by (rule under_trans [rotated])
      then obtain r where "butlast dst = dst @ r" by (auto simp: under_iff)
      from arg_cong [OF this, of length] c'(4) show False by (cases dst rule: rev_cases) auto
    qed
  qed
  then have "real_dir (butlast dst) f" using c'(8) by (simp add: real_dir_def)
  then have 2: "real_dir dst f" using assms(7) by (simp add: real_dir_snoc [OF c'(4)])
  have 3: "apart (src @ [e]) (dst @ [e])"
    using c'(5) apart_under [OF c'(5)] under_append under_trans unfolding apart_def by blast
  have 4: "length q < m" if "fs_get f ((src @ [e]) @ q) \<noteq> None" for q
    using copyableD(11) [OF c, of "e # q"] that s [of "e # q"] by simp
  have 5: "fs_get f ((src @ [e]) @ q) = Some NDir" if "fs_get f ((src @ [e]) @ q @ r) \<noteq> None" "r \<noteq> []" for q r
    using copyableD(12) [OF c, of "e # q" r] that s [of "e # q"] s [of "e # q @ r"] by simp
  have 6: "fs_get f ((src @ [e]) @ q) \<noteq> Some (NLink [])" for q
    using copyableD(13) [OF c, of "e # q"] s [of "e # q"] by simp
  have 7: "fs_get f (src @ [e]) \<noteq> None" "fs_get f ((dst @ [e]) @ r) = None" for r
    using s [of "[e]"] assms(3) free by simp_all
  from 1 2 3 4 5 6 7 c'(1,2) assms(2,5) show ?thesis unfolding copyable_def by simp
qed

lemma copied_entries:
  assumes IH: "\<And>src dst f. copyable m src dst f \<Longrightarrow> \<exists>f'. CopyTree m src dst f = (True, f') \<and> copied src dst f f'"
    and c: "copyable (Suc m) src dst fs" "fs_get fs src = Some NDir"
    and es: "distinct es" "\<forall>e\<in>set es. good_name e \<and> fs_get fs (src @ [e]) \<noteq> None"
    and f: "good_tree f" "\<And>q. \<not> under dst q \<Longrightarrow> fs_get f q = fs_get fs q" "fs_get f dst = Some NDir"
      "\<And>e r. e \<in> set es \<Longrightarrow> fs_get f (dst @ e # r) = None"
  shows "\<exists>f'. CopyTree_entries m src dst es f = (True, f') \<and> good_tree f' \<and>
    (\<forall>q. fs_get f' q = (if \<exists>e\<in>set es. under (dst @ [e]) q then fs_get fs (src @ drop (length dst) q) else fs_get f q))"
  using es f
proof (induction es arbitrary: f)
  case (Cons e es)
  note ap = copyable_parts(5) [OF c(1)]
  have "copyable m (src @ [e]) (dst @ [e]) f"
    using Cons.prems by (intro copyable_child [OF c(1) _ _ c(2)]) auto
  from IH [OF this] obtain g where g: "CopyTree m (src @ [e]) (dst @ [e]) f = (True, g)" "copied (src @ [e]) (dst @ [e]) f g"
    by blast
  have get: "fs_get g q = (if under (dst @ [e]) q then fs_get fs (src @ drop (length dst) q) else fs_get f q)" for q
  proof (cases "under (dst @ [e]) q")
    case True
    then obtain r where q: "q = (dst @ [e]) @ r" by (auto simp: under_iff)
    have "fs_get f (src @ e # r) = fs_get fs (src @ e # r)"
      using Cons.prems(4) apart_under [OF ap under_append] by blast
    with g(2) True show ?thesis by (simp add: copied_def q)
  qed (use g(2) in \<open>simp add: copied_def\<close>)
  have gg: "good_tree g" "fs_get g dst = Some NDir" "\<And>q. \<not> under dst q \<Longrightarrow> fs_get g q = fs_get fs q"
  proof -
    show "good_tree g" using g(2) by (simp add: copied_def)
    have "\<not> under (dst @ [e]) dst" by (auto simp: under_iff)
    with get Cons.prems(5) show "fs_get g dst = Some NDir" by simp
    have "\<not> under (dst @ [e]) q" if "\<not> under dst q" for q using that under_trans [OF under_append] by blast
    with get Cons.prems(4) show "fs_get g q = fs_get fs q" if "\<not> under dst q" for q using that by simp
  qed
  have "fs_get g (dst @ x # r) = None" if "x \<in> set es" for x r
  proof -
    have "x \<noteq> e" using that Cons.prems(1) by auto
    then have "\<not> under (dst @ [e]) (dst @ x # r)" by (auto simp: under_iff)
    with get Cons.prems(6) that show ?thesis by simp
  qed
  with Cons.IH [OF _ _ gg(1,3,2)] Cons.prems(1,2)
  obtain h where h: "CopyTree_entries m src dst es g = (True, h)" "good_tree h"
    "\<forall>q. fs_get h q = (if \<exists>e\<in>set es. under (dst @ [e]) q then fs_get fs (src @ drop (length dst) q) else fs_get g q)"
    by auto
  then show ?case using g(1) get by auto
qed simp

lemma entries_cover:
  assumes c: "copyable n src dst fs" and nd: "fs_get fs src = Some NDir"
    and es: "\<forall>e. e \<in> set es \<longleftrightarrow> fs_get fs (src @ [e]) \<noteq> None"
    and get: "\<And>q. fs_get f q = (if q = dst then Some NDir else fs_get fs q)"
    and f': "\<forall>q. fs_get f' q = (if \<exists>e\<in>set es. under (dst @ [e]) q then fs_get fs (src @ drop (length dst) q) else fs_get f q)"
      "good_tree f'"
  shows "copied src dst fs f'"
proof -
  have "fs_get f' q = (if under dst q then fs_get fs (src @ drop (length dst) q) else fs_get fs q)" for q
  proof (cases "under dst q")
    case False
    then have "\<not> under (dst @ [e]) q" "q \<noteq> dst" for e using under_trans [OF under_append] under_append [of dst "[]"] by auto
    with f'(1) get False show ?thesis by simp
  next
    case True
    then obtain r where q: "q = dst @ r" by (auto simp: under_iff)
    show ?thesis
    proof (cases r)
      case Nil
      have "\<not> under (dst @ [e]) dst" for e by (auto simp: under_iff)
      with f'(1) get nd True show ?thesis by (simp add: q Nil)
    next
      case (Cons e r')
      have u: "under (dst @ [x]) q \<longleftrightarrow> x = e" for x by (auto simp: under_iff q Cons)
      have none: "fs_get fs (src @ e # r') = None" if "e \<notin> set es"
      proof (rule ccontr)
        assume a: "fs_get fs (src @ e # r') \<noteq> None"
        then have "fs_get fs (src @ [e]) \<noteq> None"
        proof (cases "r' = []")
          case False
          with copyableD(12) [OF c, of "[e]" r'] a have "fs_get fs (src @ [e]) = Some NDir" by simp
          then show ?thesis by simp
        qed simp
        with es that show False by blast
      qed
      have "fs_get fs q = None" unfolding q by (rule copyableD(9) [OF c])
      moreover have "q \<noteq> dst" by (simp add: q Cons)
      ultimately show ?thesis using f'(1) u get True none by (auto simp: q Cons)
    qed
  qed
  with f'(2) show ?thesis by (simp add: copied_def)
qed

lemma CopyTree_copies:
  "copyable n src dst fs \<Longrightarrow> \<exists>fs'. CopyTree n src dst fs = (True, fs') \<and> copied src dst fs fs'"
proof (induction n arbitrary: src dst fs)
  case 0
  then have "length ([] :: string list) < 0" using copyableD(11) [OF 0, of "[]"] copyableD(10) [OF 0] by simp
  then show ?case by simp
next
  case (Suc m)
  note c = copyable_parts [OF Suc.prems]
  have d: "fs_get fs (dst @ r) = None" "fs_get fs dst = None" for r
    using copyableD(9) [OF Suc.prems] copyableD(9) [OF Suc.prems, of "[]"] by simp_all
  have look: "lookup fs False src = Some src" "lookup fs f dst = Some dst" for f
    using lookup_under_real [OF c(7,1,3)] lookup_under_real [OF c(8,2,4)] d(2) by auto
  then have L: "Lstat fs src = fs_get fs src" by (simp add: Lstat_def)
  have none: "fs_get fs (src @ r) = None" if "fs_get fs src \<noteq> Some NDir" "r \<noteq> []" for r
    using copyableD(12) [OF Suc.prems, of "[]" r] that by fastforce
  have single: "copied src dst fs (fs_put dst nd fs)" if "fs_get fs src = Some nd" "nd \<noteq> NDir" for nd
  proof -
    have "fs_get (fs_put dst nd fs) q = (if under dst q then fs_get fs (src @ drop (length dst) q) else fs_get fs q)" for q
    proof (cases "under dst q")
      case True
      then obtain r where q: "q = dst @ r" by (auto simp: under_iff)
      with that none [of r] d c(4) True show ?thesis by (cases "r = []") (auto simp: fs_get_put)
    next
      case False
      with c(4) under_append [of dst "[]"] show ?thesis by (auto simp: fs_get_put)
    qed
    then show ?thesis using good_tree_put [OF c(6,2)] by (simp add: copied_def)
  qed
  obtain nd where nd: "fs_get fs src = Some nd" using c(9) by blast
  show ?case
  proof (cases nd)
    case (NFile k)
    have "list_all good_name (butlast dst)" using c(2) by (auto simp: list_all_iff dest: in_set_butlastD)
    then have "MkdirAll (butlast dst) fs = (True, fs)" using MkdirAll_real [OF c(8)] by simp
    moreover have "write_file dst k fs = (True, fs_put dst (NFile k) fs)" using look(2) d(2) by (simp add: write_file_def)
    ultimately show ?thesis using L nd NFile single by simp
  next
    case (NLink t)
    have "t \<noteq> []" using copyableD(13) [OF Suc.prems, of "[]"] nd NLink by auto
    moreover have "snd (Remove dst fs) = fs" using look(2) d(2) by (simp add: Remove_def)
    ultimately have "CopyTree (Suc m) src dst fs = (True, fs_put dst (NLink t) fs)"
      using L nd NLink look(2) d(2) by (simp add: Symlink_def)
    then show ?thesis using single nd NLink by blast
  next
    case NDir
    then have "real_dir src fs" using c(7) nd by (simp add: real_dir_snoc [OF c(3)])
    from ReadDir_children [OF this c(1)] obtain es where es: "ReadDir fs src = Some es" "distinct es"
      "\<forall>e. e \<in> set es \<longleftrightarrow> fs_get fs (src @ [e]) \<noteq> None" by blast
    define f where "f = fs_put dst NDir fs"
    have M: "MkdirAll dst fs = (True, f)" unfolding f_def by (rule MkdirAll_new [OF c(8,2,4) d(2)])
    have good: "\<forall>e\<in>set es. good_name e" using ReadDir_good [OF c(6) es(1)] by (simp add: list_all_iff)
    have get: "fs_get f q = (if q = dst then Some NDir else fs_get fs q)" for q
      unfolding f_def by (rule fs_get_put [OF c(4)])
    have "good_tree f" unfolding f_def by (rule good_tree_put [OF c(6,2)])
    moreover have "fs_get f q = fs_get fs q" if "\<not> under dst q" for q using that get under_append [of dst "[]"] by auto
    moreover have "fs_get f (dst @ e # r) = None" for e r using get d(1) by simp
    ultimately obtain f' where f': "CopyTree_entries m src dst es f = (True, f')" "good_tree f'"
      "\<forall>q. fs_get f' q = (if \<exists>e\<in>set es. under (dst @ [e]) q then fs_get fs (src @ drop (length dst) q) else fs_get f q)"
      using copied_entries [OF Suc.IH Suc.prems nd [unfolded NDir] es(2), of f] es(3) good get by auto
    have "copied src dst fs f'"
      using entries_cover [OF Suc.prems nd [unfolded NDir] es(3) get f'(3,2)] .
    with f' L nd NDir es(1) M show ?thesis by simp
  qed
qed
section \<open>Duplicating a project\<close>

lemma Update_new_row:
  assumes "instances_ok db" "ins_id row = next_id db" "ins_policy i \<in> set restart_policies" "ins_id i = next_id db"
  shows "Update_instance now i (db\<lparr>is_rows := is_rows db @ [row]\<rparr>) = (None, db\<lparr>is_rows := is_rows db @ [updated_row now i row]\<rparr>)"
proof -
  have "map (\<lambda>r. if ins_id r = next_id db then updated_row now i r else r) (is_rows db) = is_rows db"
    using next_id_fresh(2) by (intro map_idI) fastforce
  with assms(2-4) show ?thesis by (simp add: Update_instance_def change_rows_def)
qed

text \<open>What a reservation leaves: one new row, in a place of its own.\<close>

definition reserved :: "project \<Rightarrow> instance_db \<Rightarrow> project \<Rightarrow> instance_db \<Rightarrow> bool" where
  "reserved source db c db' \<longleftrightarrow> (\<exists>row. db' = db\<lparr>is_rows := is_rows db @ [row]\<rparr> \<and> place row = place c \<and>
     ins_policy row \<in> set restart_policies) \<and> managed c \<and> ValidateSlug (ins_slug c) \<and>
     ins_type c = default_to ''minecraft-java-modded'' (ins_type source) \<and> ins_id c = next_id db \<and>
     ins_policy c \<in> set restart_policies \<and> \<not> ins_autostart c \<and>
     (\<forall>q\<in>set (is_rows db). (ins_type q, ins_slug q) \<noteq> (ins_type c, ins_slug c))"

lemma reserve_from_reserved:
  "reserve_from now source d base n db = (Some c, db') \<Longrightarrow> instances_ok db \<Longrightarrow> reserved source db c db'"
proof (induction now source d base n db rule: reserve_from.induct)
  case (1 now source d base n db)
  obtain x db1 where C: "Create_instance now (clone_of source d (duplicate_slug base n)) db = (x, db1)" by (metis surj_pair)
  have n: "\<not> 100 < n" using "1.prems"(1) by (subst (asm) reserve_from.simps) (auto split: if_splits)
  show ?case
  proof (cases x)
    case (Inl e)
    with C Create_failed have "db1 = db" by metis
    with "1.prems" C Inl n "1.IH" [OF n, of x db1 e] show ?thesis
      by (cases e) (auto simp: reserve_from.simps [of now source d base n db])
  next
    case (Inr i)
    note r = Create_rows [OF C [unfolded Inr]]
    define i' where "i' = i\<lparr>ins_autostart := False\<rparr>"
    have id: "ins_id (stored_row now i) = next_id db" "ins_id i' = next_id db"
      by (simp_all add: stored_row_def i'_def r(1))
    have pol: "ins_policy i' \<in> set restart_policies" using r(4) by (simp add: i'_def)
    have U: "Update_instance now i' db1 = (None, db\<lparr>is_rows := is_rows db @ [updated_row now i' (stored_row now i)]\<rparr>)"
      unfolding r(2) by (rule Update_new_row) (use "1.prems"(2) id pol in simp_all)
    have run: "c = i'" "db' = db\<lparr>is_rows := is_rows db @ [updated_row now i' (stored_row now i)]\<rparr>"
    proof -
      have "reserve_from now source d base n db =
          (Some i', db\<lparr>is_rows := is_rows db @ [updated_row now i' (stored_row now i)]\<rparr>)"
        unfolding reserve_from.simps [of now source d base n db] C Inr i'_def [symmetric] prod.case sum.case U option.case
        using n by simp
      with "1.prems"(1) show "c = i'" "db' = db\<lparr>is_rows := is_rows db @ [updated_row now i' (stored_row now i)]\<rparr>"
        by auto
    qed
    have pl: "ins_slug i' = duplicate_slug base n" "ins_dir i' = RelativeDirFor (duplicate_slug base n)" "\<not> ins_external i'"
      "ins_type i' = default_to ''minecraft-java-modded'' (ins_type source)" "\<not> ins_autostart i'"
      unfolding i'_def r(1) by (simp_all add: created_place clone_of_def zero_instance_def)
    have sl: "ins_slug (clone_of source d (duplicate_slug base n)) = duplicate_slug base n" "ins_type i = ins_type i'"
      by (simp_all add: clone_of_def i'_def)
    have row: "place (updated_row now i' (stored_row now i)) = place i'"
      "ins_policy (updated_row now i' (stored_row now i)) = ins_policy i'"
      by (simp_all add: updated_row_def stored_row_def place_def i'_def)
    have v: "managed i'" "ValidateSlug (ins_slug i')" using pl r(3) sl by (simp_all add: managed_def)
    have new: "\<forall>q\<in>set (is_rows db). (ins_type q, ins_slug q) \<noteq> (ins_type i', ins_slug i')"
      using r(5) pl(1) sl by simp
    have "\<exists>row. db\<lparr>is_rows := is_rows db @ [updated_row now i' (stored_row now i)]\<rparr> = db\<lparr>is_rows := is_rows db @ [row]\<rparr> \<and>
        place row = place i' \<and> ins_policy row \<in> set restart_policies"
      using row pol by (intro exI [of _ "updated_row now i' (stored_row now i)"]) simp
    with v new id(2) pol pl(4,5) show ?thesis unfolding reserved_def run by simp
  qed
qed

text \<open>C36. A duplicate is complete and apart: when a request to duplicate a managed project is accepted, the new
  project has a legal slug and a directory that lies apart from the directory of every managed project of its
  type; and once the copy runs undisturbed and its place is free, it succeeds, the tree in that directory is
  exactly the tree of the source, and no other file changes. Free means \<open>copyable\<close>: nothing is at the place of
  the new directory, both directories lie in real directories, and the source is a tree of less than 4096
  levels. A directory left over by a project deleted without its files is not free, and is merged into the
  duplicate (\<open>kept_files_merged\<close> of \<open>DuplicateUndo\<close>).\<close>

theorem duplicate_complete:
  assumes "IsAbs home" "instances_ok (pn_db p)" "pathInstance path (pn_db p) = Some source" "managed source"
    "handleServerDuplicate now online op_ok path req p = (202, Some clone, p1)"
    "copyable depth_limit (project_names home source) (project_names home clone) (pn_fs p)"
  shows "ValidateSlug (ins_slug clone) \<and> \<not> ins_autostart clone \<and>
    (\<forall>j\<in>set (is_rows (pn_db p)). managed j \<longrightarrow> ins_type j = ins_type clone \<longrightarrow>
       apart (project_names home clone) (project_names home j)) \<and>
    (\<exists>p2. duplicateServer home now True True False script detect source clone p1 = (True, p2) \<and>
       (\<forall>q. fs_get (pn_fs p2) (project_names home clone @ q) = fs_get (pn_fs p) (project_names home source @ q)) \<and>
       (\<forall>q. \<not> under (project_names home clone) q \<longrightarrow> fs_get (pn_fs p2) q = fs_get (pn_fs p) q))"
proof -
  obtain name db where R: "reserveDuplicate now source name (pn_db p) = (Some clone, db)" and p1: "p1 = p\<lparr>pn_db := db\<rparr>"
    using assms(3,5) by (auto simp: handleServerDuplicate_def Let_def split: if_splits option.splits prod.splits)
  from R have res: "reserved source (pn_db p) clone db"
    unfolding reserveDuplicate_def Let_def by (rule reserve_from_reserved) (rule assms(2))
  then have cl: "managed clone" "ValidateSlug (ins_slug clone)" "\<not> ins_autostart clone" "ins_policy clone \<in> set restart_policies"
    by (simp_all add: reserved_def)
  have apart: "apart (project_names home clone) (project_names home j)"
    if "j \<in> set (is_rows (pn_db p))" "managed j" "ins_type j = ins_type clone" for j
  proof -
    have "ins_slug j \<noteq> ins_slug clone" "ValidateSlug (ins_slug j)"
      using res that assms(2) by (auto simp: reserved_def instances_ok_def list_all_iff)
    with assms(1) cl(1,2) that(2) show ?thesis by (simp add: apart_def managed_names under_def)
  qed
  from CopyTree_copies [OF assms(6)] obtain fs' where fs':
    "CopyTree depth_limit (project_names home source) (project_names home clone) (pn_fs p) = (True, fs')"
    "copied (project_names home source) (project_names home clone) (pn_fs p) fs'" by blast
  define i' where "i' = (if ins_script clone \<noteq> [] then clone
      else case script of None \<Rightarrow> clone | Some (s, l) \<Rightarrow> clone\<lparr>ins_script := s, ins_loader := l\<rparr>)"
  have "ins_policy (case detect of None \<Rightarrow> i' | Some m \<Rightarrow> take_meta m i') = ins_policy clone"
    by (simp add: i'_def take_meta_def split: option.splits prod.splits)
  with cl(4) have "fst (finishInstall now script detect clone db)"
    unfolding finishInstall_def i'_def [symmetric] by (simp add: finish_db_def Update_instance_def Let_def)
  then obtain db2 where F: "finishInstall now script detect clone db = (True, db2)" by (metis prod.collapse)
  have "duplicateServer home now True True False script detect source clone p1 = (True, \<lparr>pn_db = db2, pn_fs = fs'\<rparr>)"
    using fs'(1) F by (simp add: duplicateServer_def p1 project_names_def)
  with cl apart fs'(2) show ?thesis by (auto simp: copied_def)
qed

lemma sample_copyable:
  "copyable depth_limit [''b'', ''servers'', ''minecraft-java'', ''modded'', ''smp'']
     [''b'', ''servers'', ''minecraft-java'', ''modded'', ''two''] (pn_fs sample_panel)"
proof -
  let ?m = "[''b'', ''servers'', ''minecraft-java'', ''modded'']"
  define fs where "fs = pn_fs sample_panel"
  have get: "fs_get fs p = (if p = [] \<or> p = [''b''] \<or> p = [''b'', ''servers''] \<or> p = [''b'', ''servers'', ''minecraft-java''] \<or>
      p = ?m \<or> p = ?m @ [''smp''] \<or> p = ?m @ [''smp'', ''world''] then Some NDir else None)" for p
    by (auto simp: fs_def fs_get_def sample_panel_def)
  have below: "fs_get fs (?m @ ''smp'' # q) = (if q = [] \<or> q = [''world''] then Some NDir else None)"
    "fs_get fs (?m @ ''two'' # q) = None" for q by (auto simp: get)
  have "real_dir ?m fs" by (auto simp: real_dir_def get under_iff Cons_eq_append_conv)
  then have r: "real_dir (butlast (?m @ [''smp''])) fs" "real_dir (butlast (?m @ [''two''])) fs" by simp_all
  have g: "list_all good_name (?m @ [''smp''])" "list_all good_name (?m @ [''two''])" "apart (?m @ [''smp'']) (?m @ [''two''])"
    by (code_simp, code_simp, simp add: apart_def under_def)
  have t: "good_tree fs" unfolding fs_def by code_simp
  have q: "r = [] \<or> q = []" if "q @ r = [] \<or> q @ r = [''world'']" for q r :: "string list"
    using that by (auto simp: append_eq_Cons_conv)
  have b: "fs_get fs ((?m @ [''smp'']) @ q) = (if q = [] \<or> q = [''world''] then Some NDir else None)"
    "fs_get fs ((?m @ [''two'']) @ q) = None" for q using below [of q] by simp_all
  have depth: "length q < depth_limit" if "fs_get fs ((?m @ [''smp'']) @ q) \<noteq> None" for q
    using that unfolding b(1) by (auto simp: depth_limit_def split: if_splits)
  have closed: "fs_get fs ((?m @ [''smp'']) @ q) = Some NDir"
    if "fs_get fs ((?m @ [''smp'']) @ q @ r) \<noteq> None" "r \<noteq> []" for q r
  proof -
    from that(1) have "q @ r = [] \<or> q @ r = [''world'']" unfolding b(1) by (simp split: if_splits)
    with q that(2) show ?thesis unfolding b(1) by auto
  qed
  have top: "fs_get fs (?m @ [''smp'']) \<noteq> None" using b(1) [of "[]"] by simp
  have links: "fs_get fs ((?m @ [''smp'']) @ q) \<noteq> Some (NLink [])" for q unfolding b(1) by simp
  have "copyable depth_limit (?m @ [''smp'']) (?m @ [''two'']) fs"
    unfolding copyable_def using r g t b(2) depth closed top links by blast
  then show ?thesis by (simp add: fs_def)
qed

theorem duplicate_complete_witness:
  "\<exists>clone p1 p2. handleServerDuplicate ''t'' False True ''1'' (Some ''Two'') sample_panel = (202, Some clone, p1) \<and>
     ins_slug clone = ''two'' \<and>
     duplicateServer ''/b'' ''t'' True True False None None (sample_project\<lparr>ins_id := 1\<rparr>) clone p1 = (True, p2) \<and>
     fs_get (pn_fs p2) [''b'', ''servers'', ''minecraft-java'', ''modded'', ''two'', ''world''] = Some NDir"
proof -
  let ?r = "handleServerDuplicate ''t'' False True ''1'' (Some ''Two'') sample_panel"
  have a: "fst ?r = 202" by code_simp
  have b: "map_option ins_slug (fst (snd ?r)) = Some ''two''"
    "map_option (project_names ''/b'') (fst (snd ?r)) = Some [''b'', ''servers'', ''minecraft-java'', ''modded'', ''two'']" by code_simp+
  then obtain clone p1 where r: "?r = (202, Some clone, p1)" and c: "ins_slug clone = ''two''"
    "project_names ''/b'' clone = [''b'', ''servers'', ''minecraft-java'', ''modded'', ''two'']"
  proof (cases "fst (snd ?r)")
    case (Some clone)
    with b that [of clone "snd (snd ?r)"] a show ?thesis by (simp add: prod_eq_iff)
  qed simp
  have s: "IsAbs ''/b''" "pathInstance ''1'' (pn_db sample_panel) = Some (sample_project\<lparr>ins_id := 1\<rparr>)"
    "managed (sample_project\<lparr>ins_id := 1\<rparr>)"
    "project_names ''/b'' (sample_project\<lparr>ins_id := 1\<rparr>) = [''b'', ''servers'', ''minecraft-java'', ''modded'', ''smp'']" by code_simp+
  have ok: "instances_ok (pn_db sample_panel)" by code_simp
  from duplicate_complete [OF s(1) ok s(2,3) r, of None None] sample_copyable c(2) s(4)
  obtain p2 where p2: "duplicateServer ''/b'' ''t'' True True False None None (sample_project\<lparr>ins_id := 1\<rparr>) clone p1 = (True, p2)"
    "\<forall>q. fs_get (pn_fs p2) ([''b'', ''servers'', ''minecraft-java'', ''modded'', ''two''] @ q) =
       fs_get (pn_fs sample_panel) ([''b'', ''servers'', ''minecraft-java'', ''modded'', ''smp''] @ q)" by auto
  have "fs_get (pn_fs sample_panel) [''b'', ''servers'', ''minecraft-java'', ''modded'', ''smp'', ''world''] = Some NDir" by code_simp
  with p2(2) have "fs_get (pn_fs p2) [''b'', ''servers'', ''minecraft-java'', ''modded'', ''two'', ''world''] = Some NDir"
    by (metis append_Cons append_Nil)
  with r c(1) p2(1) show ?thesis by blast
qed

end
