(* ===== verification/FileRequests.thy ===== *)
theory FileRequests
  imports FileHandlers TreeCopy
begin

text \<open>
  The requests of the file browser to all projects together: whatever their order, they change files in
  the directories of projects only.
\<close>

section \<open>Directories that are jails or gone\<close>

text \<open>A batch can move the root of a project away; then nothing resolves in it any more.\<close>

definition rooted :: "string list \<Rightarrow> fs \<Rightarrow> bool" where
  "rooted d fs \<longleftrightarrow> link_free d fs \<and> good_tree fs \<and> d \<noteq> [] \<and> (real_dir d fs \<or> fs_get fs d = None)"

lemma rooted_jail: "rooted d fs \<Longrightarrow> real_dir d fs \<Longrightarrow> jail d fs"
  by (simp add: rooted_def jail_def)

lemma jail_rooted: "jail d fs \<Longrightarrow> d \<noteq> [] \<Longrightarrow> rooted d fs"
  by (simp add: rooted_def jail_def)

lemma eval_walk_plain:
  assumes "eval_walk n fs cur cs = Inr q" "list_all good_name cs" "\<And>a b t. cs = a @ b \<Longrightarrow> fs_get fs (cur @ a) \<noteq> Some (NLink t)"
    "fs_get fs cur \<noteq> None"
  shows "fs_get fs (cur @ cs) \<noteq> None"
  using assms
proof (induction cs arbitrary: cur)
  case (Cons c cs)
  have g4: "good_name c" "list_all good_name cs" using Cons.prems(2) by simp_all
  then have g: "c \<noteq> []" "c \<noteq> ''.''" "c \<noteq> ''..''" by (auto simp: good_name_def)
  have l: "fs_get fs ((cur @ [c]) @ a) \<noteq> Some (NLink t)" if "cs = a @ b" for a b t
    using Cons.prems(3) [of "c # a" b t] that by simp
  show ?case
  proof (cases "fs_get fs (cur @ [c])")
    case None
    with Cons.prems(1) g show ?thesis by simp
  next
    case (Some nd)
    have IH: "fs_get fs (cur @ c # cs) \<noteq> None" if "eval_walk n fs (cur @ [c]) cs = Inr q"
    proof -
      have "fs_get fs ((cur @ [c]) @ cs) \<noteq> None"
        by (rule Cons.IH [OF that g4(2)]) (use l Some in simp_all)
      then show ?thesis by simp
    qed
    have "fs_get fs (cur @ [c]) \<noteq> Some (NLink t)" for t using Cons.prems(3) [of "[c]" cs t] by simp
    with Cons.prems(1) g Some IH show ?thesis by (cases nd) (auto split: if_splits)
  qed
qed simp

lemma gone_unresolved:
  assumes "IsAbs (mg_root m)" "link_free (names (mg_root m)) fs" "fs_get fs (names (mg_root m)) = None"
  shows "\<exists>e. resolve m fs rel = Inl e"
proof -
  have "\<exists>e. EvalSymlinks fs (Clean (mg_root m)) = Inl e"
  proof (cases "EvalSymlinks fs (Clean (mg_root m))")
    case (Inr r)
    then obtain q where q: "eval_walk 255 fs [] (names (mg_root m)) = Inr q"
      using assms(1) by (auto simp: EvalSymlinks_def split: sum.splits)
    have l: "fs_get fs ([] @ a) \<noteq> Some (NLink t)" if "names (mg_root m) = a @ b" for a b t
      using assms(2) that unfolding link_free_def by (auto simp: under_iff)
    have "fs_get fs ([] @ names (mg_root m)) \<noteq> None"
      by (rule eval_walk_plain [OF q names_good]) (use l in \<open>simp_all add: fs_get_def\<close>)
    with assms(3) show ?thesis by simp
  qed blast
  then have "\<exists>e. EvalWithinRoot (EvalSymlinks fs) None (mg_root m) x = Some (Inl e)" for x
    by (auto simp: EvalWithinRoot_def)
  note none = this
  show ?thesis
  proof (cases "SafeJoin (mg_root m) [TrimPrefix (TrimSpace rel) ''/'']")
    case (Inr x)
    from none [of x] obtain e where "EvalWithinRoot (EvalSymlinks fs) None (mg_root m) x = Some (Inl e)" ..
    with Inr show ?thesis by (simp add: resolve_def)
  qed (simp add: resolve_def)
qed

lemma resolved_jail:
  assumes "IsAbs (mg_root m)" "rooted (names (mg_root m)) fs" "resolve m fs rel = Inr p"
  shows "jail (names (mg_root m)) fs"
proof -
  have "fs_get fs (names (mg_root m)) \<noteq> None"
    using gone_unresolved [OF assms(1), of fs rel] assms(2,3) by (auto simp: rooted_def)
  with assms(2) show ?thesis by (auto simp: rooted_def jail_def)
qed

lemma apart_prefix: "apart d e \<Longrightarrow> under e p \<or> under p e \<Longrightarrow> \<not> under d p"
  using apart_under under_trans unfolding apart_def by blast

lemma other_rooted:
  assumes "rooted e fs" "apart d e" "apart c e" "good_tree fs'"
    "\<And>p. \<not> under d p \<Longrightarrow> \<not> under c p \<Longrightarrow> fs_get fs' p = fs_get fs p"
  shows "rooted e fs'"
proof -
  have e: "fs_get fs' p = fs_get fs p" if "under e p \<or> under p e" for p
    using assms(5) apart_prefix [OF assms(2) that] apart_prefix [OF assms(3) that] by blast
  have "link_free e fs'" using assms(1) e unfolding rooted_def link_free_def by metis
  moreover have "real_dir e fs' \<longleftrightarrow> real_dir e fs" using e by (auto simp: real_dir_def)
  moreover have "fs_get fs' e = fs_get fs e" using e under_append [of e "[]"] by simp
  ultimately show ?thesis using assms(1,4) by (simp add: rooted_def)
qed

text \<open>What a request may do to a list of project directories: change files in them, and lose some.\<close>

definition within_all :: "string list list \<Rightarrow> fs \<Rightarrow> fs \<Rightarrow> bool" where
  "within_all ds fs fs' \<longleftrightarrow> list_all (\<lambda>d. rooted d fs') ds \<and> (\<forall>p. (\<forall>d\<in>set ds. \<not> under d p) \<longrightarrow> fs_get fs' p = fs_get fs p)"

definition all_apart :: "string list list \<Rightarrow> bool" where
  "all_apart ds \<longleftrightarrow> (\<forall>d\<in>set ds. \<forall>e\<in>set ds. d \<noteq> e \<longrightarrow> apart d e)"

lemma within_refl: "list_all (\<lambda>d. rooted d fs) ds \<Longrightarrow> within_all ds fs fs"
  by (simp add: within_all_def)

lemma within_trans: "within_all ds a b \<Longrightarrow> within_all ds b c \<Longrightarrow> within_all ds a c"
  by (simp add: within_all_def)

lemma two_within:
  assumes "all_apart ds" "list_all (\<lambda>d. rooted d fs) ds" "d \<in> set ds" "e \<in> set ds" "rooted d fs'" "rooted e fs'"
    "\<And>p. \<not> under d p \<Longrightarrow> \<not> under e p \<Longrightarrow> fs_get fs' p = fs_get fs p"
  shows "within_all ds fs fs'"
proof -
  have g: "good_tree fs'" using assms(5) by (simp add: rooted_def)
  have "rooted c fs'" if "c \<in> set ds" for c
  proof (cases "c = d \<or> c = e")
    case False
    then have "apart d c" "apart e c" using assms(1,3,4) that by (auto simp: all_apart_def)
    moreover have "rooted c fs" using assms(2) that by (simp add: list_all_iff)
    ultimately show ?thesis using other_rooted g assms(7) by blast
  qed (use assms(5,6) in blast)
  with assms(3,4,7) show ?thesis by (auto simp: within_all_def list_all_iff)
qed

lemma kept_within:
  assumes "all_apart ds" "list_all (\<lambda>d. rooted d fs) ds" "d \<in> set ds" "kept d fs fs'"
  shows "within_all ds fs fs'"
proof -
  have "d \<noteq> []" using assms(2,3) by (auto simp: rooted_def list_all_iff)
  then have "rooted d fs'" using assms(4) jail_rooted by (simp add: kept_def)
  with assms(4) show ?thesis by (intro two_within [OF assms(1-3,3)]) (simp_all add: kept_def same_outside_def)
qed

section \<open>A move between projects\<close>

lemma Rename_root_gone:
  assumes "Rename d (e @ s) fs = (True, fs')" "lookup fs False d = Some d" "lookup fs False (e @ s) = Some (e @ s)" "apart d e"
  shows "fs_get fs' d = None"
proof -
  have ne: "d \<noteq> []" "e @ s \<noteq> []" "d \<noteq> e @ s" using assms by (auto simp: Rename_def under_def apart_def)
  with assms(1-3) have fs': "fs' = map (\<lambda>x. (move_entry d (e @ s) (fst x), snd x)) (fs_del (e @ s) fs)"
    by (auto simp: Rename_def split: if_splits)
  have "move_entry d (e @ s) k \<noteq> d" for k
  proof
    assume "move_entry d (e @ s) k = d"
    then have "under d k \<longrightarrow> under e d" "\<not> under d k \<longrightarrow> k = d" by (auto simp: move_entry_def under_iff split: if_splits)
    with assms(4) under_append [of d "[]"] show False by (auto simp: apart_def)
  qed
  then have "map_of fs' d = None" unfolding fs' using map_of_moved by (metis not_None_eq)
  with ne(1) show ?thesis by (simp add: fs_get_def)
qed

lemma rooted_change:
  assumes "link_free d fs'" "good_tree fs'" "jail d fs" "d \<noteq> []" "fs_get fs' d = None \<or> (\<forall>p. under p d \<longrightarrow> fs_get fs' p = fs_get fs p)"
  shows "rooted d fs'"
  using assms by (auto simp: rooted_def jail_def real_dir_def)

text \<open>The rename of a move: both directories stay what they were, or the source is gone.\<close>

lemma Rename_two:
  assumes "jail d fs" "jail e fs" "apart d e" "d \<noteq> []" "e \<noteq> []" "s \<noteq> []"
    "list_all good_name (d @ r)" "list_all good_name (e @ s)" "Rename (d @ r) (e @ s) fs = (b, fs')"
  shows "rooted d fs'" "jail e fs'" "\<not> b \<Longrightarrow> fs' = fs" "\<not> under d p \<Longrightarrow> \<not> under e p \<Longrightarrow> fs_get fs' p = fs_get fs p"
proof -
  have l: "link_free d fs" "link_free e fs" "good_tree fs" using assms(1,2) by (simp_all add: jail_def)
  note R = Rename_stays [OF assms(7,8) l(1,2) assms(9)]
  have g: "good_tree fs'" using Rename_good [OF assms(8) l(3) assms(9)] .
  show un: "fs' = fs" if "\<not> b"
    using assms(9) that by (auto simp: Rename_def split: option.splits if_splits)
  show "\<not> under d p \<Longrightarrow> \<not> under e p \<Longrightarrow> fs_get fs' p = fs_get fs p" using R(1) by (simp add: stays_def)
  have short: "\<not> under (c @ x) p" if "under p c" "x \<noteq> []" for c x p :: "string list"
    using that by (auto simp: under_iff)
  have e: "fs_get fs' p = fs_get fs p" if "under p e" for p
  proof -
    have "\<not> under d p" using apart_prefix [OF assms(3)] that by blast
    then have "\<not> under (d @ r) p" using under_trans [OF under_append] by blast
    with R(2) short [OF that assms(6)] show ?thesis by blast
  qed
  then show "jail e fs'" using assms(2) R(1) g by (simp add: jail_def stays_def real_dir_def)
  have "fs_get fs' d = None \<or> (\<forall>p. under p d \<longrightarrow> fs_get fs' p = fs_get fs p)"
  proof (cases "r = [] \<and> b")
    case False
    show ?thesis
    proof (cases b)
      case True
      with False have r: "r \<noteq> []" by simp
      have "fs_get fs' p = fs_get fs p" if "under p d" for p
      proof -
        have "\<not> under e p" using apart_prefix [of e d] assms(3) that apart_sym by blast
        then have "\<not> under (e @ s) p" using under_trans [OF under_append] by blast
        with R(2) short [OF that r] show ?thesis by blast
      qed
      then show ?thesis by blast
    qed (simp add: un)
  next
    case True
    then have look: "lookup fs False d = Some d" using lookup_real assms(1,7) by (simp add: jail_def)
    moreover have "\<exists>q. lookup fs False (e @ s) = Some q" using assms(9) True by (auto simp: Rename_def split: option.splits)
    then have "lookup fs False (e @ s) = Some (e @ s)" using lookup_plain [OF assms(8) l(2)] by blast
    ultimately show ?thesis using Rename_root_gone [of d e s fs fs'] assms(3,9) True by simp
  qed
  then show "rooted d fs'" using rooted_change [OF _ g assms(1,4)] R(1) by (simp add: stays_def)
qed
definition two :: "string list \<Rightarrow> string list \<Rightarrow> fs \<Rightarrow> fs \<Rightarrow> bool" where
  "two d e fs fs' \<longleftrightarrow> rooted d fs' \<and> rooted e fs' \<and>
     (\<forall>p. \<not> under d p \<longrightarrow> \<not> under e p \<longrightarrow> fs_get fs' p = fs_get fs p)"

lemma two_trans: "two d e a b \<Longrightarrow> two d e b c \<Longrightarrow> two d e a c"
  by (simp add: two_def)

lemma kept_two:
  assumes "kept e fs fs'" "apart d e" "jail d fs" "e \<noteq> []" "d \<noteq> []"
  shows "two d e fs fs' \<and> jail d fs' \<and> jail e fs'"
proof -
  have k: "jail e fs'" "\<And>p. \<not> under e p \<Longrightarrow> fs_get fs' p = fs_get fs p"
    using assms(1) by (simp_all add: kept_def same_outside_def)
  have same: "fs_get fs' p = fs_get fs p" if "under d p \<or> under p d" for p
  proof -
    have "\<not> under e p" using apart_prefix [of e d] assms(2) that apart_sym by blast
    with k(2) show ?thesis by blast
  qed
  then have "link_free d fs'" using assms(3) unfolding jail_def link_free_def by metis
  moreover have "real_dir d fs'" using assms(3) same by (simp add: jail_def real_dir_def)
  ultimately have j: "jail d fs'" using k(1) by (simp add: jail_def)
  with k show ?thesis using jail_rooted assms(4,5) by (simp add: two_def)
qed

lemma RemoveAll_source:
  assumes "jail d fs" "jail e fs" "apart d e" "d \<noteq> []" "e \<noteq> []" "list_all good_name (d @ r)" "RemoveAll (d @ r) fs = (b, fs')"
  shows "two d e fs fs' \<and> jail e fs'"
proof (cases "r = []")
  case False
  then have "kept d fs fs'" using RemoveAll_kept [OF assms(1,6) False assms(7)] by blast
  from kept_two [OF this _ assms(2,4,5)] assms(3) apart_sym show ?thesis by (auto simp: two_def)
next
  case True
  have l: "link_free d fs" "good_tree fs" using assms(1) by (simp_all add: jail_def)
  have c: "confined d fs fs'" using RemoveAll_confined(1) [OF assms(6) l(1) assms(7)] .
  have "lookup fs False d = Some d" using lookup_real assms(1,6) by (simp add: jail_def)
  then have "fs' = filter (\<lambda>x. \<not> under d (fst x)) fs"
    using assms(4,7) True by (simp add: RemoveAll_def)
  then have gone: "fs_get fs' d = None"
    using assms(4) under_append [of d "[]"] map_of_filter_key [where P = "\<lambda>k. \<not> under d k" and xs = fs and k = d]
    by (simp add: fs_get_def)
  have rd: "rooted d fs'"
    using rooted_change [OF _ RemoveAll_good [OF l(2) assms(7)] assms(1,4)] gone c by (simp add: confined_def)
  have "fs_get fs' p = fs_get fs p" if "under e p \<or> under p e" for p
    using c apart_prefix [OF assms(3) that] by (simp add: confined_def same_outside_def)
  then have "link_free e fs'" "real_dir e fs'"
    using assms(2) unfolding jail_def link_free_def real_dir_def by metis+
  then have "jail e fs'" using rd by (simp add: jail_def rooted_def)
  with rd c jail_rooted [OF _ assms(5)] show ?thesis by (auto simp: two_def confined_def same_outside_def)
qed

lemma MoveTo_two:
  assumes abs: "IsAbs (mg_root m)" "IsAbs (mg_root dm)" and apart: "apart (names (mg_root m)) (names (mg_root dm))"
    and rooted: "rooted (names (mg_root m)) fs" "rooted (names (mg_root dm)) fs"
    and run: "MoveTo same m a (Some dm) b fs = (er, fs')"
  shows "two (names (mg_root m)) (names (mg_root dm)) fs fs'"
proof (cases "\<exists>p q. resolve m fs a = Inr p \<and> resolve dm fs b = Inr q \<and> Stat fs (names q) = None")
  case False
  with run have "fs' = fs" by (auto simp: MoveTo_def split: sum.splits if_splits)
  with rooted show ?thesis by (simp add: two_def)
next
  case True
  let ?d = "names (mg_root m)" and ?e = "names (mg_root dm)"
  from True obtain p q where pq: "resolve m fs a = Inr p" "resolve dm fs b = Inr q" "Stat fs (names q) = None" by blast
  have j: "jail ?d fs" "jail ?e fs" using resolved_jail abs rooted pq(1,2) by blast+
  have ne: "?d \<noteq> []" "?e \<noteq> []" using rooted by (simp_all add: rooted_def)
  obtain r where r: "names p = ?d @ r" "list_all good_name (?d @ r)" using resolved [OF abs(1) pq(1)] by blast
  obtain s where s: "names q = ?e @ s" "list_all good_name (?e @ s)" "names (Dir q) = butlast (?e @ s)"
    using resolved [OF abs(2) pq(2)] by blast
  have s0: "s \<noteq> []" using Stat_root [OF j(2)] s pq(3) by auto
  obtain b1 fs1 where M: "MkdirAll (names (Dir q)) fs = (b1, fs1)" by (metis surj_pair)
  have "kept ?e fs fs1" using MkdirAll_parent_kept [OF j(2) s(2)] M s(3) by simp
  from kept_two [OF this apart j(1) ne(2,1)] have k1: "two ?d ?e fs fs1" "jail ?d fs1" "jail ?e fs1" by blast+
  obtain b2 fs2 where R: "(if same then Rename (names p) (names q) fs1 else (False, fs1)) = (b2, fs2)" by (metis surj_pair)
  have k2: "two ?d ?e fs fs2 \<and> (\<not> b2 \<longrightarrow> fs2 = fs1)"
  proof (cases same)
    case True
    with R r(1) s(1) have "Rename (?d @ r) (?e @ s) fs1 = (b2, fs2)" by simp
    note n = Rename_two [OF k1(2,3) apart ne s0 r(2) s(2) this]
    from n jail_rooted [OF n(2) ne(2)] have "two ?d ?e fs1 fs2" by (simp add: two_def)
    with n(3) k1(1) two_trans show ?thesis by blast
  qed (use R k1(1) in auto)
  obtain er3 fs3 where C: "copyTree depth_limit (names p) (names q) fs1 = (er3, fs3)" by (metis surj_pair)
  have "kept ?e fs1 fs3" using copy_kept(1) [OF C s(1) s0 k1(3)] s by simp
  from kept_two [OF this apart k1(2) ne(2,1)] have k3: "two ?d ?e fs fs3" "jail ?d fs3" "jail ?e fs3"
    using two_trans [OF k1(1)] by blast+
  have gone: "two ?d ?e f (snd (RemoveAll (names q) f))" if f: "jail ?d f \<or> rooted ?d f" "jail ?e f" for f
  proof -
    have k: "kept ?e f (snd (RemoveAll (names q) f))" using RemoveAll_snd_kept [OF f(2) s(2) s0] s(1) by simp
    have g: "good_tree (snd (RemoveAll (names q) f))" using k by (simp add: kept_def jail_def)
    have out: "\<And>x. \<not> under ?e x \<Longrightarrow> fs_get (snd (RemoveAll (names q) f)) x = fs_get f x"
      using k by (simp add: kept_def same_outside_def)
    have "rooted ?d f" using f(1) jail_rooted ne(1) by blast
    then have "rooted ?d (snd (RemoveAll (names q) f))"
      using other_rooted [OF _ _ _ g] apart apart_sym out by blast
    with k jail_rooted [OF _ ne(2)] out show ?thesis by (simp add: two_def kept_def)
  qed
  obtain b4 fs4 where D: "RemoveAll (names p) fs3 = (b4, fs4)" by (metis surj_pair)
  have k4: "two ?d ?e fs fs4" "jail ?e fs4" "rooted ?d fs4"
  proof -
    have t: "two ?d ?e fs3 fs4" and j4: "jail ?e fs4"
      using RemoveAll_source [OF k3(2,3) apart ne r(2)] D r(1) by simp_all
    show "two ?d ?e fs fs4" using two_trans [OF k3(1) t] .
    show "jail ?e fs4" using j4 .
    show "rooted ?d fs4" using t by (simp add: two_def)
  qed
  have g3: "two ?d ?e fs (snd (RemoveAll (names q) fs3))"
    by (rule two_trans [OF k3(1) gone]) (simp_all add: k3)
  have g4: "two ?d ?e fs (snd (RemoveAll (names q) fs4))"
    by (rule two_trans [OF k4(1) gone]) (simp_all add: k4)
  have "two ?d ?e fs fs" using rooted by (simp add: two_def)
  moreover have "fs' \<in> {fs, fs1, fs2, snd (RemoveAll (names q) fs3), fs4, snd (RemoveAll (names q) fs4)}"
  proof (cases b2)
    case True
    with run pq M R show ?thesis by (auto simp: MoveTo_def split: bool.splits if_splits)
  next
    case False
    with k2 R have "(if same then Rename (names p) (names q) fs1 else (False, fs1)) = (False, fs1)" "fs2 = fs1" by simp_all
    with run pq M C D show ?thesis by (auto simp: MoveTo_def simp del: if_split split: option.splits bool.splits if_split_asm)
  qed
  ultimately show ?thesis using k1(1) k2 k4(1) g3 g4 by blast
qed

section \<open>Each operation\<close>

definition project_of :: "string list list \<Rightarrow> manager \<Rightarrow> bool" where
  "project_of ds m \<longleftrightarrow> IsAbs (mg_root m) \<and> names (mg_root m) \<in> set ds"

lemma op_within:
  assumes "all_apart ds" "list_all (\<lambda>d. rooted d fs) ds" "project_of ds m"
    "jail (names (mg_root m)) fs \<Longrightarrow> kept (names (mg_root m)) fs fs'"
    "(\<And>rel. \<exists>e. resolve m fs rel = Inl e) \<Longrightarrow> fs' = fs"
  shows "within_all ds fs fs'"
proof -
  have m: "IsAbs (mg_root m)" "names (mg_root m) \<in> set ds" using assms(3) by (simp_all add: project_of_def)
  then have r: "rooted (names (mg_root m)) fs" using assms(2) by (simp add: list_all_iff)
  show ?thesis
  proof (cases "fs_get fs (names (mg_root m)) = None")
    case True
    with assms(5) gone_unresolved [OF m(1)] r have "fs' = fs" by (simp add: rooted_def)
    with assms(2) show ?thesis by (simp add: within_refl)
  next
    case False
    with r have "jail (names (mg_root m)) fs" by (auto simp: rooted_def jail_def)
    with kept_within [OF assms(1,2) m(2)] assms(4) show ?thesis by blast
  qed
qed

lemma unresolved_stays:
  assumes "\<And>rel. \<exists>e. resolve m fs rel = Inl e"
  shows "snd (WriteText m stamp tmp rel content fs) = fs" "snd (CreateFile m rel fs) = fs" "snd (Mkdir m rel fs) = fs"
    "snd (Delete m rel fs) = fs" "snd (snd (SaveUpload m rel sz ok fs)) = fs" "snd (RenameIn same m a b fs) = fs"
proof -
  obtain e where e: "resolve m fs rel = Inl e" using assms by blast
  obtain f where f: "resolve m fs a = Inl f" using assms by blast
  show "snd (WriteText m stamp tmp rel content fs) = fs" "snd (CreateFile m rel fs) = fs" "snd (Mkdir m rel fs) = fs"
    "snd (Delete m rel fs) = fs" "snd (snd (SaveUpload m rel sz ok fs)) = fs" "snd (RenameIn same m a b fs) = fs"
    using e f by (simp_all add: WriteText_def CreateFile_def Mkdir_def Delete_def SaveUpload_def RenameIn_def MoveTo_def)
qed

lemma single_within:
  assumes "all_apart ds" "list_all (\<lambda>d. rooted d fs) ds" "project_of ds m"
  shows "slash \<notin> set stamp \<Longrightarrow> slash \<notin> set tmp \<Longrightarrow> within_all ds fs (snd (WriteText m stamp tmp rel content fs))"
    "within_all ds fs (snd (CreateFile m rel fs))" "within_all ds fs (snd (Mkdir m rel fs))"
    "within_all ds fs (snd (Delete m rel fs))" "within_all ds fs (snd (snd (SaveUpload m rel sz ok fs)))"
    "within_all ds fs (snd (RenameIn same m a b fs))"
proof -
  have abs: "IsAbs (mg_root m)" using assms(3) by (simp add: project_of_def)
  note w = op_within [OF assms]
  show "slash \<notin> set stamp \<Longrightarrow> slash \<notin> set tmp \<Longrightarrow> within_all ds fs (snd (WriteText m stamp tmp rel content fs))"
    by (rule w) (metis WriteText_kept abs surj_pair snd_conv, rule unresolved_stays, blast)
  show "within_all ds fs (snd (CreateFile m rel fs))"
    by (rule w) (metis CreateFile_kept abs surj_pair snd_conv, rule unresolved_stays, blast)
  show "within_all ds fs (snd (Mkdir m rel fs))"
    by (rule w) (metis Mkdir_kept abs surj_pair snd_conv, rule unresolved_stays, blast)
  show "within_all ds fs (snd (Delete m rel fs))"
    by (rule w) (metis Delete_kept abs surj_pair snd_conv, rule unresolved_stays, blast)
  show "within_all ds fs (snd (snd (SaveUpload m rel sz ok fs)))"
    by (rule w) (metis SaveUpload_kept abs surj_pair snd_conv, rule unresolved_stays, blast)
  show "within_all ds fs (snd (RenameIn same m a b fs))"
    by (rule w) (metis RenameIn_kept abs surj_pair snd_conv, rule unresolved_stays, blast)
qed

lemma CopyTo_within:
  assumes "all_apart ds" "list_all (\<lambda>d. rooted d fs) ds" "project_of ds dm"
  shows "within_all ds fs (snd (CopyTo m a (Some dm) b fs))"
proof -
  have abs: "IsAbs (mg_root dm)" using assms(3) by (simp add: project_of_def)
  have un: "snd (CopyTo m a (Some dm) b fs) = fs" if u: "\<And>rel. \<exists>e. resolve dm fs rel = Inl e"
  proof -
    obtain e where "resolve dm fs b = Inl e" using u by blast
    then show ?thesis by (simp add: CopyTo_def split: sum.split)
  qed
  show ?thesis
    by (rule op_within [OF assms]) (metis CopyTo_kept abs surj_pair snd_conv, rule un, blast)
qed

text \<open>A move of a batch: across projects, or within one.\<close>

lemma move_within:
  assumes "all_apart ds" "list_all (\<lambda>d. rooted d fs) ds" "project_of ds m" "project_of ds dm"
    "cross \<longrightarrow> names (mg_root m) \<noteq> names (mg_root dm)"
  shows "within_all ds fs (snd (move_one cross same m dm a b fs))"
proof (cases cross)
  case True
  have m: "IsAbs (mg_root m)" "names (mg_root m) \<in> set ds" "IsAbs (mg_root dm)" "names (mg_root dm) \<in> set ds"
    using assms(3,4) by (simp_all add: project_of_def)
  have ap: "apart (names (mg_root m)) (names (mg_root dm))" using assms(1,5) True m by (simp add: all_apart_def)
  have r: "rooted (names (mg_root m)) fs" "rooted (names (mg_root dm)) fs" using assms(2) m by (simp_all add: list_all_iff)
  obtain e fs' where run: "MoveTo same m a (Some dm) b fs = (e, fs')" by (metis surj_pair)
  have "two (names (mg_root m)) (names (mg_root dm)) fs fs'" using MoveTo_two [OF m(1,3) ap r run] .
  then have "within_all ds fs fs'" using two_within [OF assms(1,2) m(2,4)] by (simp add: two_def)
  with run True show ?thesis by (simp add: move_one_def)
qed (simp add: move_one_def single_within(6) assms)

section \<open>Batches with their roll-back\<close>

lemma within_rooted: "within_all ds a b \<Longrightarrow> list_all (\<lambda>d. rooted d b) ds"
  by (simp add: within_all_def)

interpretation projects: change_frame "\<lambda>fs. list_all (\<lambda>d. rooted d fs) ds" "within_all ds" for ds
  by unfold_locales (erule within_refl, erule (1) within_trans, erule within_rooted)

lemma copy_batch_within:
  assumes "all_apart ds" "project_of ds dm" "list_all (\<lambda>d. rooted d fs) ds"
  shows "within_all ds fs (snd (copy_batch m dm destination made ss fs))"
  using assms(3)
proof (induction ss arbitrary: made fs)
  case Nil
  then show ?case by (simp add: within_refl)
next
  case (Cons s ss)
  obtain e fs1 where c: "CopyTo m s (Some dm) (batch_target destination s) fs = (e, fs1)" by (metis surj_pair)
  then have w: "within_all ds fs fs1" using CopyTo_within [OF assms(1) Cons.prems assms(2)] by (metis snd_conv)
  note r = within_rooted [OF w]
  have "within_all ds fs1 (foldl (\<lambda>f t. snd (Delete dm t f)) fs1 (rev made))"
    by (rule projects.may_fold [OF _ r]) (rule single_within(4) [OF assms(1) _ assms(2)])
  with c w Cons.IH [OF r] show ?case using within_trans by (auto split: option.splits)
qed

lemma move_batch_within:
  assumes "all_apart ds" "project_of ds m" "project_of ds dm" "cross \<longrightarrow> names (mg_root m) \<noteq> names (mg_root dm)"
    "list_all (\<lambda>d. rooted d fs) ds"
  shows "within_all ds fs (snd (move_batch cross same m dm destination moved ss fs))"
  using assms(5)
proof (induction ss arbitrary: moved fs)
  case Nil
  then show ?case by (simp add: within_refl)
next
  case (Cons s ss)
  obtain e fs1 where c: "move_one cross same m dm s (batch_target destination s) fs = (e, fs1)" by (metis surj_pair)
  then have w: "within_all ds fs fs1" using move_within [OF assms(1) Cons.prems assms(2-4)] by (metis snd_conv)
  note r = within_rooted [OF w]
  have cross: "cross \<longrightarrow> names (mg_root dm) \<noteq> names (mg_root m)" using assms(4) by metis
  have undo: "within_all ds f ((\<lambda>f (a, b). snd (if cross then MoveTo same dm b (Some m) a f else RenameIn same m b a f)) f x)"
    if "list_all (\<lambda>d. rooted d f) ds" for f x
    using move_within [OF assms(1) that assms(3,2) cross, of same "snd x" "fst x"]
      single_within(6) [OF assms(1) that assms(2), of same "snd x" "fst x"]
    by (auto simp: move_one_def split: prod.split)
  have "within_all ds fs1 (foldl (\<lambda>f (a, b). snd (if cross then MoveTo same dm b (Some m) a f else RenameIn same m b a f)) fs1 (rev moved))"
    by (rule projects.may_fold [OF _ r]) (rule undo)
  with c w Cons.IH [OF r] show ?case using within_trans by (auto split: option.splits)
qed

lemma upload_within:
  assumes "all_apart ds" "project_of ds m" "list_all (\<lambda>d. rooted d fs) ds"
  shows "within_all ds fs (snd (upload_parts m dir pts fs))"
  using assms(3)
proof (induction pts arbitrary: fs)
  case Nil
  then show ?case by (simp add: within_refl)
next
  case (Cons pt pts)
  obtain n e fs1 where c: "SaveUpload m (JoinPath [dir, Base (pt_file pt)]) (pt_size pt) (pt_ok pt) fs = (n, e, fs1)"
    by (metis surj_pair)
  then have w: "within_all ds fs fs1" using single_within(5) [OF assms(1) Cons.prems assms(2)] by (metis snd_conv)
  with c Cons.IH [OF within_rooted [OF w]] Cons.IH [OF Cons.prems] show ?case
    using within_trans by (auto split: option.splits)
qed

section \<open>Any sequence of requests\<close>

datatype file_request =
    ReqWrite string string file_query "(string \<times> string) option"
  | ReqCreate file_query "string option"
  | ReqMkdir file_query "string option"
  | ReqRename bool file_query "(string \<times> string) option"
  | ReqDelete file_query "(string \<times> bool) option"
  | ReqUpload file_query "upload_part list option"
  | ReqCopy file_query "(string list \<times> string \<times> int) option"
  | ReqMove bool file_query "(string list \<times> string \<times> int) option"
  | ReqEULA string string string string "bool option"

fun serve_file :: "string \<Rightarrow> panel \<Rightarrow> file_request \<Rightarrow> panel" where
  "serve_file home p (ReqWrite stamp tmp q b) = snd (handleFileWrite home stamp tmp q b p)"
| "serve_file home p (ReqCreate q b) = snd (handleFileCreate home q b p)"
| "serve_file home p (ReqMkdir q b) = snd (handleFileMkdir home q b p)"
| "serve_file home p (ReqRename same q b) = snd (handleFileRename home same q b p)"
| "serve_file home p (ReqDelete q b) = snd (handleFileDelete home q b p)"
| "serve_file home p (ReqUpload q b) = snd (handleFileUpload home q b p)"
| "serve_file home p (ReqCopy q b) = snd (handleFileCopy home q b p)"
| "serve_file home p (ReqMove same q b) = snd (handleFileMove home same q b p)"
| "serve_file home p (ReqEULA stamp tmp content sid b) = snd (handleConfigEULA home stamp tmp content sid b p)"

text \<open>The time and the random number in the names of back-ups and temporary files have no slash.\<close>

fun plain_request :: "file_request \<Rightarrow> bool" where
  "plain_request (ReqWrite stamp tmp q b) \<longleftrightarrow> slash \<notin> set stamp \<and> slash \<notin> set tmp"
| "plain_request (ReqEULA stamp tmp content sid b) \<longleftrightarrow> slash \<notin> set stamp \<and> slash \<notin> set tmp"
| "plain_request _ \<longleftrightarrow> True"

text \<open>The directories of the projects: absolute, different, and none inside another.\<close>

definition project_dirs :: "string \<Rightarrow> instance_db \<Rightarrow> string list list" where
  "project_dirs home db = map (project_names home) (is_rows db)"

definition projects_apart :: "string \<Rightarrow> instance_db \<Rightarrow> bool" where
  "projects_apart home db \<longleftrightarrow> list_all (\<lambda>i. IsAbs (AbsoluteDir home i)) (is_rows db) \<and>
     distinct (project_dirs home db) \<and> all_apart (project_dirs home db)"

lemma ByID_row: "ByID k db = Some i \<Longrightarrow> i \<in> set (is_rows db) \<and> ins_id i = k"
  by (auto simp: ByID_def find_Some_iff)

lemma requestInstance_row: "requestInstance sid db = Some i \<Longrightarrow> i \<in> set (is_rows db)"
  by (auto simp: requestInstance_def activeInstance_def Let_def ByID_row split: if_splits option.splits)

lemma requestFiles_row: "requestFiles home q db = Some (m, Some i) \<Longrightarrow> i \<in> set (is_rows db) \<and> m = filesForInstance home i"
  by (auto simp: requestFiles_def Let_def requestInstance_row split: if_splits option.splits)

lemma row_project:
  assumes "projects_apart home db" "i \<in> set (is_rows db)"
  shows "project_of (project_dirs home db) \<lparr>mg_root = AbsoluteDir home i, mg_max_edit = x, mg_max_upload = y\<rparr>"
  using assms by (auto simp: project_of_def projects_apart_def project_dirs_def project_names_def list_all_iff)

definition serves :: "string \<Rightarrow> panel \<Rightarrow> panel \<Rightarrow> bool" where
  "serves home p p' \<longleftrightarrow> projects_apart home (pn_db p) \<and> pn_db p' = pn_db p \<and> within_all (project_dirs home (pn_db p)) (pn_fs p) (pn_fs p')"

definition settled :: "string \<Rightarrow> panel \<Rightarrow> bool" where
  "settled home p \<longleftrightarrow> projects_apart home (pn_db p) \<and> list_all (\<lambda>d. rooted d (pn_fs p)) (project_dirs home (pn_db p))"

interpretation requests: change_frame "settled home" "serves home" for home
  by unfold_locales (auto simp: settled_def serves_def within_refl dest: within_rooted intro: within_trans)

lemma file_change_within:
  assumes "settled home p"
    "\<And>i. i \<in> set (is_rows (pn_db p)) \<Longrightarrow>
       within_all (project_dirs home (pn_db p)) (pn_fs p) (snd (body (filesForInstance home i) i (pn_fs p)))"
  shows "serves home p (snd (file_change home q p body))"
  using assms within_refl
  by (auto simp: file_change_def serves_def settled_def case_prod_beta split: option.split dest!: requestFiles_row)

lemma status_snd: "snd (status_of r) = snd r"
  by (simp add: status_of_def split: prod.split)

lemma destination_row:
  assumes "fileBatchDestination home i k db = Some j" "i \<in> set (is_rows db)"
  shows "j \<in> set (is_rows db)" "ins_id j = ins_id i \<Longrightarrow> j = i"
  using assms by (auto simp: fileBatchDestination_def dest: ByID_row split: if_splits)

lemma apart_rows:
  assumes "projects_apart home db" "i \<in> set (is_rows db)" "j \<in> set (is_rows db)" "i \<noteq> j"
  shows "project_names home i \<noteq> project_names home j"
  using assms by (auto simp: projects_apart_def project_dirs_def distinct_map dest: inj_onD)

lemma serve_file_within:
  assumes "settled home p" "plain_request r"
  shows "serves home p (serve_file home p r)"
proof -
  let ?ds = "project_dirs home (pn_db p)"
  have P: "projects_apart home (pn_db p)" and R: "list_all (\<lambda>d. rooted d (pn_fs p)) ?ds"
    using assms(1) by (simp_all add: settled_def)
  have A: "all_apart ?ds" using P by (simp add: projects_apart_def)
  have M: "project_of ?ds (filesForInstance home i)" if "i \<in> set (is_rows (pn_db p))" for i
    unfolding filesForInstance_def by (rule row_project [OF P that])
  note S = single_within [OF A R M]
  note F = file_change_within [OF assms(1)]
  note N = within_refl [OF R]
  show ?thesis
  proof (cases r)
    case (ReqWrite stamp tmp q b)
    with assms(2) show ?thesis
      by (auto simp: handleFileWrite_def status_snd N split: option.split intro!: F S(1))
  next
    case (ReqCreate q b)
    then show ?thesis by (auto simp: handleFileCreate_def status_snd N split: option.split intro!: F S(2))
  next
    case (ReqMkdir q b)
    then show ?thesis by (auto simp: handleFileMkdir_def status_snd N split: option.split intro!: F S(3))
  next
    case (ReqRename same q b)
    then show ?thesis by (auto simp: handleFileRename_def status_snd N split: option.split intro!: F S(6))
  next
    case (ReqDelete q b)
    then show ?thesis by (auto simp: handleFileDelete_def status_snd N split: option.split intro!: F S(4))
  next
    case (ReqUpload q b)
    then show ?thesis
      by (auto simp: handleFileUpload_def N split: option.split intro!: F upload_within [OF A M R])
  next
    case (ReqCopy q b)
    have "within_all ?ds (pn_fs p) (snd (copy_batch (filesForInstance home i) (filesForInstance home j) d [] ps (pn_fs p)))"
      if "fileBatchDestination home i k (pn_db p) = Some j" "i \<in> set (is_rows (pn_db p))" for i j k d ps
      by (rule copy_batch_within [OF A M R]) (rule destination_row(1) [OF that])
    then have "serves home p (snd (handleFileCopy home q b p))"
      unfolding handleFileCopy_def by (intro F) (auto simp: N case_prod_beta split: option.split)
    with ReqCopy show ?thesis by simp
  next
    case (ReqMove same q b)
    have "within_all ?ds (pn_fs p) (snd (move_batch (ins_id j \<noteq> ins_id i) same (filesForInstance home i)
        (filesForInstance home j) d [] ps (pn_fs p)))"
      if b: "fileBatchDestination home i k (pn_db p) = Some j" "i \<in> set (is_rows (pn_db p))" for i j k d ps
    proof (rule move_batch_within [OF A M [OF b(2)] M _ R])
      show j: "j \<in> set (is_rows (pn_db p))" by (rule destination_row(1) [OF b])
      show "ins_id j \<noteq> ins_id i \<longrightarrow>
          names (mg_root (filesForInstance home i)) \<noteq> names (mg_root (filesForInstance home j))"
        using apart_rows [OF P b(2) j] by (auto simp: filesForInstance_def project_names_def)
    qed
    then have "serves home p (snd (handleFileMove home same q b p))"
      unfolding handleFileMove_def by (intro F) (auto simp: N case_prod_beta split: option.split)
    with ReqMove show ?thesis by simp
  next
    case (ReqEULA stamp tmp content sid b)
    then show ?thesis using assms(2) single_within(1) [OF A R row_project [OF P requestInstance_row]] N
      P by (auto simp: handleConfigEULA_def serves_def split: option.split prod.split) (metis snd_conv)
  qed
qed

text \<open>C32. Whatever requests the file browser gets, for whichever projects and in whatever order - writes,
  uploads, renames, deletions, batches of copies and moves between projects with their roll-back - the projects of the panel
  stay the same and nothing outside their directories changes; each directory stays free of links, a
  real directory or gone; provided that the directories are so and lie apart to begin with.\<close>

theorem file_requests_confined:
  assumes "projects_apart home (pn_db p)" "list_all (\<lambda>d. rooted d (pn_fs p)) (project_dirs home (pn_db p))"
    "list_all plain_request rs" "foldl (serve_file home) p rs = p'"
  shows "pn_db p' = pn_db p \<and>
    (\<forall>q. list_all (\<lambda>d. \<not> under d q) (project_dirs home (pn_db p)) \<longrightarrow> fs_get (pn_fs p') q = fs_get (pn_fs p) q) \<and>
    list_all (\<lambda>d. rooted d (pn_fs p')) (project_dirs home (pn_db p))"
proof -
  have "serves home p (foldl (serve_file home) p rs)"
    by (rule requests.may_fold) (use assms serve_file_within in \<open>simp_all add: settled_def list_all_iff\<close>)
  with assms show ?thesis by (auto simp: settled_def serves_def within_all_def list_all_iff)
qed

text \<open>Two projects; the first is moved into the second as a whole.\<close>

definition two_projects :: panel where
  "two_projects = \<lparr>pn_db = \<lparr>is_rows = [zero_instance\<lparr>ins_id := 1, ins_slug := ''one'', ins_dir := ''/srv/one'', ins_external := True\<rparr>,
        zero_instance\<lparr>ins_id := 2, ins_slug := ''two'', ins_dir := ''/srv/two'', ins_external := True\<rparr>], is_active = None\<rparr>,
     pn_fs = sample_tree\<rparr>"

theorem file_requests_confined_witness:
  "let q = (\<lambda>s. \<lparr>fq_root = [], fq_server = s, fq_path = [], fq_search = []\<rparr>);
       p' = foldl (serve_file ''/opt'') two_projects
         [ReqMove True (q ''1'') (Some ([''./''], ''in'', 2)), ReqDelete (q ''1'') (Some (''a'', True)),
          ReqDelete (q ''2'') (Some (''../../etc'', True))]
   in fs_get (pn_fs p') [''srv'', ''one''] = None \<and> fs_get (pn_fs p') [''srv'', ''two'', ''in'', ''a''] = Some (NFile 3) \<and>
      fs_get (pn_fs p') [''etc''] = Some NDir"
proof -
  define q where "q = (\<lambda>s. \<lparr>fq_root = [], fq_server = s, fq_path = [], fq_search = []\<rparr>)"
  define rs where "rs = [ReqMove True (q ''1'') (Some ([''./''], ''in'', 2)), ReqDelete (q ''1'') (Some (''a'', True)),
          ReqDelete (q ''2'') (Some (''../../etc'', True))]"
  have d: "project_dirs ''/opt'' (pn_db two_projects) = [[''srv'', ''one''], [''srv'', ''two'']]" by code_simp
  have "all_apart [[''srv'', ''one''], [''srv'', ''two'']]" by (simp add: all_apart_def apart_def under_def)
  moreover have "list_all (\<lambda>i. IsAbs (AbsoluteDir ''/opt'' i)) (is_rows (pn_db two_projects))" by code_simp
  ultimately have a: "projects_apart ''/opt'' (pn_db two_projects)" by (simp add: projects_apart_def d)
  have "pn_fs two_projects = sample_tree" by (simp add: two_projects_def)
  with jail_sample have j: "list_all (\<lambda>d. rooted d (pn_fs two_projects)) (project_dirs ''/opt'' (pn_db two_projects))"
    by (simp add: d jail_rooted)
  have n: "list_all plain_request rs" by (simp add: rs_def)
  have "fs_get (pn_fs (foldl (serve_file ''/opt'') two_projects rs)) [''etc''] = fs_get (pn_fs two_projects) [''etc'']"
    using file_requests_confined [OF a j n refl] by (simp add: d under_def)
  moreover have "fs_get (pn_fs two_projects) [''etc''] = Some NDir" by code_simp
  moreover have "fs_get (pn_fs (foldl (serve_file ''/opt'') two_projects rs)) [''srv'', ''one''] = None"
    "fs_get (pn_fs (foldl (serve_file ''/opt'') two_projects rs)) [''srv'', ''two'', ''in'', ''a''] = Some (NFile 3)"
    unfolding rs_def q_def by code_simp+
  ultimately show ?thesis unfolding rs_def q_def Let_def by simp
qed

end
