(* ===== verification/DuplicateUndo.thy ===== *)
theory DuplicateUndo
  imports TreeCopy
begin

text \<open>
  A duplication that fails is undone: the copy writes below a free place only, and giving up removes what is
  there with the row of the new project.
\<close>

section \<open>A copy writes below its destination only\<close>

definition free_place :: "string list \<Rightarrow> fs \<Rightarrow> bool" where
  "free_place d fs \<longleftrightarrow> list_all good_name d \<and> d \<noteq> [] \<and> good_tree fs \<and> real_dir (butlast d) fs \<and> (\<forall>r. fs_get fs (d @ r) = None)"

definition below_only :: "string list \<Rightarrow> fs \<Rightarrow> fs \<Rightarrow> bool" where
  "below_only d fs fs' \<longleftrightarrow> good_tree fs' \<and> (\<forall>q. \<not> under d q \<longrightarrow> fs_get fs' q = fs_get fs q)"

lemma below_only_refl: "good_tree fs \<Longrightarrow> below_only d fs fs"
  by (simp add: below_only_def)

lemma below_only_trans: "below_only d a b \<Longrightarrow> below_only d b c \<Longrightarrow> below_only d a c"
  by (simp add: below_only_def)

lemma below_child: "below_only (d @ [e]) a b \<Longrightarrow> below_only d a b"
  using under_trans [OF under_append] unfolding below_only_def by blast

lemma below_put: "list_all good_name d \<Longrightarrow> d \<noteq> [] \<Longrightarrow> good_tree fs \<Longrightarrow> below_only d fs (fs_put d n fs)"
  using under_append [of d "[]"] by (auto simp: below_only_def fs_get_put good_tree_put)

lemma free_lookup: "free_place d fs \<Longrightarrow> lookup fs f d = Some d"
proof -
  assume a: "free_place d fs"
  then have "fs_get fs d = None" unfolding free_place_def by (metis append_Nil2)
  with a lookup_under_real show ?thesis by (simp add: free_place_def)
qed

lemma free_child:
  assumes "real_dir d fs" "list_all good_name d" "good_name e" "good_tree fs" "\<And>r. fs_get fs (d @ e # r) = None"
  shows "free_place (d @ [e]) fs"
  using assms by (simp add: free_place_def)

lemma below_real_parent:
  assumes "below_only (d @ [e]) fs fs'" "real_dir d fs"
  shows "real_dir d fs'"
proof -
  have "\<not> under (d @ [e]) a" if "under a d" for a using that by (auto simp: under_iff)
  with assms show ?thesis by (simp add: real_dir_def below_only_def)
qed

lemma entries_below:
  assumes IH: "\<And>src d f b f'. free_place d f \<Longrightarrow> CopyTree n src d f = (b, f') \<Longrightarrow> below_only d f f'"
    and d: "list_all good_name d" and es: "distinct es" "list_all good_name es"
    and f: "good_tree f" "real_dir d f" "\<And>e r. e \<in> set es \<Longrightarrow> fs_get f (d @ e # r) = None"
    and run: "CopyTree_entries n src d es f = (b, f')"
  shows "below_only d f f'"
  using es f run
proof (induction es arbitrary: f)
  case Nil
  then show ?case by (simp add: below_only_refl)
next
  case (Cons e es)
  obtain b1 g where g: "CopyTree n (src @ [e]) (d @ [e]) f = (b1, g)" by (metis surj_pair)
  have e: "below_only (d @ [e]) f g"
    by (rule IH [OF free_child [OF Cons.prems(4) d _ Cons.prems(3)] g]) (use Cons.prems in simp_all)
  note k = below_child [OF e]
  show ?case
  proof (cases b1)
    case False
    with g Cons.prems(6) k show ?thesis by simp
  next
    case True
    have "fs_get g (d @ x # r) = None" if "x \<in> set es" for x r
    proof -
      have "x \<noteq> e" using that Cons.prems(1) by auto
      then have "\<not> under (d @ [e]) (d @ x # r)" by (auto simp: under_iff)
      with e Cons.prems(5) that show ?thesis by (simp add: below_only_def)
    qed
    moreover have "good_tree g" using e by (simp add: below_only_def)
    moreover note below_real_parent [OF e Cons.prems(4)]
    ultimately have "below_only d g f'"
      using Cons.IH [of g] Cons.prems(1,2,6) g True by simp
    with k show ?thesis by (rule below_only_trans)
  qed
qed

lemma ReadDir_distinct: "ReadDir fs p = Some es \<Longrightarrow> distinct es"
  by (auto simp: ReadDir_def split: option.splits if_splits)

lemma CopyTree_below:
  "free_place d fs \<Longrightarrow> CopyTree n src d fs = (b, fs') \<Longrightarrow> below_only d fs fs'"
proof (induction n arbitrary: src d fs b fs')
  have step: "below_only d fs fs'"
    if fp: "free_place d fs" and run: "CopyTree n src d fs = (b, fs')"
      and IH: "\<And>m src d f b f'. n = Suc m \<Longrightarrow> free_place d f \<Longrightarrow> CopyTree m src d f = (b, f') \<Longrightarrow> below_only d f f'"
    for n src d fs b fs'
  proof -
    have p: "list_all good_name d" "d \<noteq> []" "good_tree fs" "real_dir (butlast d) fs" "\<And>r. fs_get fs (d @ r) = None"
      using fp by (simp_all add: free_place_def)
    have none: "fs_get fs d = None" using p(5) [of "[]"] by simp
    note look = free_lookup [OF fp]
    show ?thesis
    proof (cases "Lstat fs src")
      case None
      with run p(3) show ?thesis by (simp add: below_only_refl)
    next
      case (Some nd)
      show ?thesis
      proof (cases nd)
        case (NLink t)
        have "snd (Remove d fs) = fs" using look none by (simp add: Remove_def)
        with run Some NLink look none have "fs' = fs \<or> fs' = fs_put d (NLink t) fs"
          by (auto simp: Symlink_def split: if_splits)
        with below_only_refl [OF p(3)] below_put [OF p(1-3)] show ?thesis by blast
      next
        case (NFile k)
        have "list_all good_name (butlast d)" using p(1) by (auto simp: list_all_iff dest: in_set_butlastD)
        then have "MkdirAll (butlast d) fs = (True, fs)" using MkdirAll_real [OF p(4)] by simp
        with run Some NFile look none have "fs' = fs_put d (NFile k) fs" by (simp add: write_file_def)
        with below_put [OF p(1-3)] show ?thesis by simp
      next
        case NDir
        define f where "f = fs_put d NDir fs"
        have M: "MkdirAll d fs = (True, f)" unfolding f_def by (rule MkdirAll_new [OF p(4,1,2) none])
        have k: "below_only d fs f" unfolding f_def by (rule below_put [OF p(1-3)])
        have get: "fs_get f q = (if q = d then Some NDir else fs_get fs q)" for q unfolding f_def by (rule fs_get_put [OF p(2)])
        have "fs_get f a = fs_get fs a" if "under a (butlast d)" for a
        proof -
          have "a \<noteq> d"
          proof
            assume "a = d"
            with that obtain r where "butlast d = d @ r" by (auto simp: under_iff)
            from arg_cong [OF this, of length] p(2) show False by (cases d rule: rev_cases) auto
          qed
          with get show ?thesis by simp
        qed
        then have "real_dir (butlast d) f" using p(4) by (simp add: real_dir_def)
        then have real: "real_dir d f" using get by (simp add: real_dir_snoc [OF p(2)])
        have free: "fs_get f (d @ e # r) = None" for e r using get p(5) by simp
        have gt: "good_tree f" using k by (simp add: below_only_def)
        show ?thesis
        proof (cases "ReadDir fs src")
          case None
          with run Some NDir below_only_refl [OF p(3)] show ?thesis by simp
        next
          case es: (Some es)
          show ?thesis
          proof (cases n)
            case 0
            with run Some NDir es M k show ?thesis by simp
          next
            case (Suc m)
            with run Some NDir es M have "CopyTree_entries m src d es f = (b, fs')" by simp
            moreover have "below_only d f f'" if "free_place d f" "CopyTree m src d f = (b, f')" for src d f b f'
              using IH [OF Suc] that by blast
            ultimately have "below_only d f fs'"
              using entries_below [of m d es f src b fs'] p(1) ReadDir_distinct [OF es] ReadDir_good [OF p(3) es] gt real free
              by blast
            with k show ?thesis by (rule below_only_trans)
          qed
        qed
      qed
    qed
  qed
  {
    case 0
    then show ?case by (rule step) simp
  next
    case (Suc n)
    then show ?case using step [of d fs "Suc n" src b fs'] by blast
  }
qed

section \<open>Giving up\<close>

lemma RemoveAll_free:
  assumes "free_place d fs" "below_only d fs fs1"
  shows "fs_get (snd (RemoveAll d fs1)) q = fs_get fs q"
proof -
  have p: "list_all good_name d" "d \<noteq> []" "real_dir (butlast d) fs" "\<And>r. fs_get fs (d @ r) = None"
    using assms(1) by (simp_all add: free_place_def)
  obtain c x where d: "d = c @ [x]" using p(2) by (cases d rule: rev_cases) auto
  have "real_dir (butlast d) fs1" using below_real_parent assms(2) p(3) by (simp add: d)
  then have "lookup fs1 False d = Some d" using lookup_under_real p by blast
  then have "snd (RemoveAll d fs1) = filter (\<lambda>e. \<not> under d (fst e)) fs1" using p(2) by (simp add: RemoveAll_def)
  then have get: "fs_get (snd (RemoveAll d fs1)) q = (if q = [] then Some NDir else if under d q then None else fs_get fs1 q)"
    by (simp add: fs_get_def map_of_filter_key [where P = "\<lambda>k. \<not> under d k"])
  show ?thesis
  proof (cases "under d q")
    case True
    then have "q \<noteq> []" "fs_get fs q = None" using p(2,4) by (auto simp: under_iff)
    with get True show ?thesis by simp
  next
    case False
    with get assms(2) show ?thesis by (cases "q = []") (auto simp: below_only_def fs_get_def)
  qed
qed

lemma reserved_undone:
  assumes "reserved source db c db'" "instances_ok db"
  shows "Delete_instance (ins_id c) db' = db"
proof -
  obtain row where row: "db' = db\<lparr>is_rows := is_rows db @ [row]\<rparr>" "place row = place c" "ins_id c = next_id db"
    using assms(1) by (auto simp: reserved_def)
  have "ins_id row = next_id db" using row(2,3) by (simp add: place_def)
  moreover have "ins_id r \<noteq> next_id db" if "r \<in> set (is_rows db)" for r using next_id_fresh(2) [OF that] by simp
  moreover have "is_active db \<noteq> Some (next_id db)"
  proof
    assume "is_active db = Some (next_id db)"
    with assms(2) next_id_fresh(2) show False by (fastforce simp: instances_ok_def list_ex_iff)
  qed
  moreover have "filter (\<lambda>r. ins_id r \<noteq> next_id db) (is_rows db) = is_rows db" using next_id_fresh(2) by (intro filter_True) fastforce
  ultimately show ?thesis using row(1,3) by (simp add: Delete_instance_def)
qed

lemma reserve_from_none: "reserve_from now source d base n db = (None, db') \<Longrightarrow> instances_ok db \<Longrightarrow> db' = db"
proof (induction now source d base n db rule: reserve_from.induct)
  case (1 now source d base n db)
  obtain x db1 where C: "Create_instance now (clone_of source d (duplicate_slug base n)) db = (x, db1)" by (metis surj_pair)
  show ?case
  proof (cases "100 < n")
    case True
    with "1.prems"(1) show ?thesis by (simp add: reserve_from.simps [of now source d base n db])
  next
    case n: False
    show ?thesis
    proof (cases x)
      case (Inl e)
      with C Create_failed have "db1 = db" by metis
      with "1.prems" C Inl n "1.IH" [OF n, of x db1 e] show ?thesis
        by (cases e) (auto simp: reserve_from.simps [of now source d base n db])
    next
      case (Inr i)
      note r = Create_rows [OF C [unfolded Inr]]
      define i' where "i' = i\<lparr>ins_autostart := False\<rparr>"
      have id: "ins_id (stored_row now i) = next_id db" "ins_id i' = next_id db"
        by (simp_all add: stored_row_def i'_def r(1))
      have pol: "ins_policy i' \<in> set restart_policies" using r(4) by (simp add: i'_def)
      have U: "fst (Update_instance now i' db1) = None"
        unfolding r(2) using Update_new_row [OF "1.prems"(2) id(1) pol id(2)] by simp
      have "fst (reserve_from now source d base n db) = Some i'"
        unfolding reserve_from.simps [of now source d base n db] C Inr i'_def [symmetric] prod.case sum.case
        using n U by (auto split: prod.split)
      with "1.prems"(1) show ?thesis by simp
    qed
  qed
qed

text \<open>C37. A duplication that fails is undone. A request that is refused leaves the panel as it was. When it is accepted
  and the copy then fails - because the locks cannot be had, the server was started meanwhile, or the copy
  itself fails halfway - the table of projects is again what it was and so is every file, provided that
  the place of the new project was free: nothing was at its directory, which lies in a real directory. Without
  this the undoing removes what was there before (\<open>kept_files_destroyed\<close> below).\<close>

theorem failed_duplicate_undone:
  assumes "instances_ok (pn_db p)" "handleServerDuplicate now online op_ok path req p = (st, clone, p1)"
  shows "(st \<noteq> 202 \<longrightarrow> p1 = p) \<and>
    (\<forall>c p2 lock lifecycle online2 script detect source. clone = Some c \<longrightarrow> free_place (project_names home c) (pn_fs p) \<longrightarrow>
       duplicateServer home now' lock lifecycle online2 script detect source c p1 = (False, p2) \<longrightarrow>
       pn_db p2 = pn_db p \<and> (\<forall>q. fs_get (pn_fs p2) q = fs_get (pn_fs p) q))"
proof -
  have undone: "Delete_instance (ins_id c) db = pn_db p" "reserved source (pn_db p) c db"
    if "reserveDuplicate now source name (pn_db p) = (Some c, db)" for source name c db
  proof -
    show r: "reserved source (pn_db p) c db"
      using that unfolding reserveDuplicate_def Let_def by (rule reserve_from_reserved) (rule assms(1))
    show "Delete_instance (ins_id c) db = pn_db p" by (rule reserved_undone [OF r assms(1)])
  qed
  have none: "db = pn_db p" if "reserveDuplicate now source name (pn_db p) = (None, db)" for source name db
    using that unfolding reserveDuplicate_def Let_def by (rule reserve_from_none) (rule assms(1))
  have "st \<noteq> 202 \<longrightarrow> p1 = p" using assms(2) undone(1) none
    by (auto simp: handleServerDuplicate_def Let_def split: if_splits option.splits prod.splits)
  moreover have "pn_db p2 = pn_db p \<and> (\<forall>q. fs_get (pn_fs p2) q = fs_get (pn_fs p) q)"
    if c: "clone = Some c" and free: "free_place (project_names home c) (pn_fs p)"
      and run: "duplicateServer home now' lock lifecycle online2 script detect source c p1 = (False, p2)"
    for c p2 lock lifecycle online2 script detect source
  proof -
    obtain s name db where R: "reserveDuplicate now s name (pn_db p) = (Some c, db)" and p1: "p1 = p\<lparr>pn_db := db\<rparr>"
      using assms(2) c by (auto simp: handleServerDuplicate_def Let_def split: if_splits option.splits prod.splits)
    obtain b fs1 where T: "CopyTree depth_limit (project_names home source) (project_names home c) (pn_fs p) = (b, fs1)"
      by (metis surj_pair)
    have k: "below_only (project_names home c) (pn_fs p) fs1" by (rule CopyTree_below [OF free T])
    have k0: "below_only (project_names home c) (pn_fs p) (pn_fs p)" using free by (simp add: free_place_def below_only_refl)
    have "ins_policy c \<in> set restart_policies" using undone(2) [OF R] by (simp add: reserved_def)
    then have F: "fst (finishInstall now' script detect c db)"
      by (auto simp: finishInstall_def finish_db_def Update_instance_def Let_def take_meta_def split: option.split prod.split)
    have "pn_db p2 = Delete_instance (ins_id c) db \<and> (\<exists>f. below_only (project_names home c) (pn_fs p) f \<and>
        pn_fs p2 = snd (RemoveAll (project_names home c) f))"
      using run T k k0 F by (auto simp: duplicateServer_def p1 project_names_def Let_def split: if_splits bool.splits prod.splits)
    then show ?thesis using undone(1) [OF R] RemoveAll_free [OF free] by auto
  qed
  ultimately show ?thesis by blast
qed

theorem failed_duplicate_undone_witness:
  "\<exists>clone p1 p2. handleServerDuplicate ''t'' False True ''1'' (Some ''Two'') sample_panel = (202, Some clone, p1) \<and>
     length (is_rows (pn_db p1)) = 2 \<and>
     duplicateServer ''/b'' ''t'' True False False None None (sample_project\<lparr>ins_id := 1\<rparr>) clone p1 = (False, p2) \<and>
     pn_db p2 = pn_db sample_panel"
proof -
  let ?r = "handleServerDuplicate ''t'' False True ''1'' (Some ''Two'') sample_panel"
  have a: "fst ?r = 202" "length (is_rows (pn_db (snd (snd ?r)))) = 2" by code_simp+
  have b: "map_option (project_names ''/b'') (fst (snd ?r)) = Some [''b'', ''servers'', ''minecraft-java'', ''modded'', ''two'']" by code_simp
  then obtain clone p1 where r: "?r = (202, Some clone, p1)" "length (is_rows (pn_db p1)) = 2"
    "project_names ''/b'' clone = [''b'', ''servers'', ''minecraft-java'', ''modded'', ''two'']"
  proof (cases "fst (snd ?r)")
    case (Some clone)
    with b that [of clone "snd (snd ?r)"] a show ?thesis by (simp add: prod_eq_iff)
  qed simp
  obtain p2 where p2: "duplicateServer ''/b'' ''t'' True False False None None (sample_project\<lparr>ins_id := 1\<rparr>) clone p1 = (False, p2)"
    by (simp add: duplicateServer_def)
  have ok: "instances_ok (pn_db sample_panel)" by code_simp
  have "free_place (project_names ''/b'' clone) (pn_fs sample_panel)"
    using copyable_parts [OF sample_copyable] copyableD(9) [OF sample_copyable] by (simp add: free_place_def r(3))
  with failed_duplicate_undone [OF ok r(1), where home = "''/b''" and now' = "''t''"] p2 have "pn_db p2 = pn_db sample_panel" by blast
  with r(1,2) p2 show ?thesis by blast
qed
section \<open>Files that were kept\<close>

text \<open>
  A slug is free again once its project is deleted, also when the files were kept. In this panel
  the second project is deleted without its files and the first is then duplicated under the same
  name. When the duplication fails, its undoing removes the directory with the kept files; when it
  succeeds, they are in the tree of the duplicate. Both properties above therefore ask for a free
  place.
\<close>

definition two_projects :: panel where
  "two_projects = sample_panel
     \<lparr>pn_db := \<lparr>is_rows = [sample_project\<lparr>ins_id := 1\<rparr>,
        sample_project\<lparr>ins_id := 2, ins_slug := ''two'', ins_dir := RelativeDirFor ''two''\<rparr>], is_active = None\<rparr>,
      pn_fs := pn_fs sample_panel @
        [([''b'', ''servers'', ''minecraft-java'', ''modded'', ''two''], NDir),
         ([''b'', ''servers'', ''minecraft-java'', ''modded'', ''two'', ''kept''], NFile 3)]\<rparr>"

definition kept_file :: "string list" where
  "kept_file = [''b'', ''servers'', ''minecraft-java'', ''modded'', ''two'', ''kept'']"

definition after_delete :: panel where
  "after_delete = snd (handleServerDelete ''/b'' False True ''2'' False two_projects)"

definition second_try :: "nat \<times> project option \<times> panel" where
  "second_try = handleServerDuplicate ''t'' False True ''1'' (Some ''Two'') after_delete"

lemma kept_files_destroyed:
  "fs_get (pn_fs after_delete) kept_file = Some (NFile 3) \<and> fst second_try = 202 \<and>
   (case fst (snd second_try) of None \<Rightarrow> False | Some c \<Rightarrow>
      (case duplicateServer ''/b'' ''t'' False True False None None (sample_project\<lparr>ins_id := 1\<rparr>) c
          (snd (snd second_try)) of
         (ok, p) \<Rightarrow> \<not> ok \<and> fs_get (pn_fs p) kept_file = None))"
  by code_simp

lemma kept_files_merged:
  "case fst (snd second_try) of None \<Rightarrow> False | Some c \<Rightarrow>
      (case duplicateServer ''/b'' ''t'' True True False None None (sample_project\<lparr>ins_id := 1\<rparr>) c
          (snd (snd second_try)) of
         (ok, p) \<Rightarrow> ok \<and> fs_get (pn_fs p) kept_file = Some (NFile 3))"
  by code_simp

end
