(* ===== verification/BotStore.thy ===== *)
theory BotStore
  imports Utf8 "HOL-Library.List_Lexorder" "HOL-Library.Char_ord"
begin

text \<open>
  The notification bots (\<open>source/internal/bot/store.go\<close>): their normalisation, the four tables with their
  constraints, and every operation on them. A transaction happens as a whole or fails as a whole; other
  failures of the database are left out. The mapping of letters to small letters, the reading of IP addresses,
  the encryption with the key of the store and the clock are arguments.
\<close>

section \<open>Data\<close>

record topic =
  tp_id :: int
  tp_name :: string

record destination =
  de_id :: string
  de_name :: string
  de_type :: string
  de_photo_file :: string
  de_photo_data :: string
  de_forum :: bool
  de_thread :: int
  de_thread_name :: string
  de_topics :: "topic list"
  de_guild :: string
  de_guild_name :: string
  de_guild_icon :: string
  de_discovered :: string

definition empty_destination :: destination where
  "empty_destination = \<lparr>de_id = [], de_name = [], de_type = [], de_photo_file = [], de_photo_data = [], de_forum = False,
     de_thread = 0, de_thread_name = [], de_topics = [], de_guild = [], de_guild_name = [], de_guild_icon = [],
     de_discovered = []\<rparr>"

text \<open>The rows of the tables; the topics of a discovery are a column of JSON that is read back as it was written.\<close>

record bot_row =
  bt_id :: int
  bt_name :: string
  bt_provider :: string
  bt_token :: string
  bt_dns :: string
  bt_dest :: string
  bt_enabled :: bool
  bt_started :: bool
  bt_stopped :: bool
  bt_joined :: bool
  bt_left :: bool
  bt_created :: string
  bt_updated :: string

record dest_row =
  dr_bot :: int
  dr_dest :: destination
  dr_pos :: int

record disc_row =
  di_bot :: int
  di_dest :: destination
  di_seen :: string

record bot_db =
  bd_bots :: "bot_row list"
  bd_dests :: "dest_row list"
  bd_discs :: "disc_row list"
  bd_states :: "(int \<times> int) list"

definition empty_bots :: bot_db where
  "empty_bots = \<lparr>bd_bots = [], bd_dests = [], bd_discs = [], bd_states = []\<rparr>"

datatype bot_error =
    ErrNotFound | ErrDisabled | ErrNoDestinations | BadName | BadProvider | TokenMissing | BadToken | BadDNS
  | NoDestination | TooManyDestinations | DuplicateDestination | BadDestination | BadThread | BadGuild | MetadataTooLong
  | TooManyDiscovered | TooManyTopics | TooManyBots | ProviderFixed | WrongProvider | ThreeConnected | ContainerRequired
  | BadCursor | SealFailed | OpenFailed | ForeignKey | CheckFailed | UnknownEvent | DestinationRequired

text \<open>What the store uses of the rest of the world; \<open>be_ip\<close> is \<open>net.ParseIP\<close> with the canonical text of the address.\<close>

record bot_env =
  be_low :: "nat \<Rightarrow> nat"
  be_ip :: "string \<Rightarrow> string option"
  be_seal :: "string \<Rightarrow> string option"
  be_open :: "string \<Rightarrow> string option"
  be_now :: string

section \<open>Normalisation\<close>

definition ProviderTelegram :: string where "ProviderTelegram = ''telegram''"
definition ProviderDiscord :: string where "ProviderDiscord = ''discord''"

definition lower_text :: "bot_env \<Rightarrow> string \<Rightarrow> string" where
  "lower_text env s = encode_all (map (be_low env) (runes s))"

fun telegram_digits :: "string \<Rightarrow> bool" where
  "telegram_digits s \<longleftrightarrow> s \<noteq> [] \<and> list_all is_digit s"

definition handle_char :: "char \<Rightarrow> bool" where
  "handle_char c \<longleftrightarrow> is_digit c \<or> (CHR ''a'' \<le> c \<and> c \<le> CHR ''z'') \<or> (CHR ''A'' \<le> c \<and> c \<le> CHR ''Z'') \<or> c = CHR ''_''"

definition telegramDestinationRE :: "string \<Rightarrow> bool" where
  "telegramDestinationRE s \<longleftrightarrow> telegram_digits (TrimPrefix s ''-'') \<or>
     (HasPrefix s ''@'' \<and> 5 \<le> length (tl s) \<and> list_all handle_char (tl s))"

definition discordDestinationRE :: "string \<Rightarrow> bool" where
  "discordDestinationRE s \<longleftrightarrow> 10 \<le> length s \<and> length s \<le> 25 \<and> list_all is_digit s"

definition normalizeProvider :: "bot_env \<Rightarrow> string \<Rightarrow> string" where
  "normalizeProvider env value = lower_text env (TrimSpace value)"

text \<open>\<open>net.SplitHostPort\<close>.\<close>

definition last_colon :: "string \<Rightarrow> (string \<times> string) option" where
  "last_colon s = (if CHR '':'' \<in> set s
     then Some (rev (tl (dropWhile (\<lambda>c. c \<noteq> CHR '':'') (rev s))), rev (takeWhile (\<lambda>c. c \<noteq> CHR '':'') (rev s)))
     else None)"

definition SplitHostPort :: "string \<Rightarrow> (string \<times> string) option" where
  "SplitHostPort s =
     (case last_colon s of
        None \<Rightarrow> None
      | Some (host, port) \<Rightarrow>
          if HasPrefix s ''[''
          then (if HasSuffix host '']'' \<and> CHR '']'' \<notin> set (butlast host) \<and> CHR ''['' \<notin> set (tl s) \<and> CHR '']'' \<notin> set port
                then Some (butlast (tl host), port) else None)
          else if CHR '':'' \<in> set host \<or> CHR ''['' \<in> set s \<or> CHR '']'' \<in> set s then None
          else Some (host, port))"

definition normalizeDNSServer :: "bot_env \<Rightarrow> string \<Rightarrow> bot_error + string" where
  "normalizeDNSServer env value0 =
     (let value = TrimSpace value0 in
      if value = [] then Inr []
      else case (case SplitHostPort value of
                   Some hp \<Rightarrow> Some hp
                 | None \<Rightarrow> if CHR '':'' \<in> set value \<and> be_ip env value = None then None else Some (value, ''53'')) of
        None \<Rightarrow> Inl BadDNS
      | Some (host, port) \<Rightarrow>
          (case be_ip env (TrimChars ''[]'' host) of
             None \<Rightarrow> Inl BadDNS
           | Some ip \<Rightarrow> if port \<noteq> ''53'' then Inl BadDNS else Inr ip))"

definition validate :: "bot_env \<Rightarrow> string \<Rightarrow> string \<Rightarrow> string \<Rightarrow> bool \<Rightarrow> bot_error option" where
  "validate env name0 provider0 token0 requireToken =
     (let name = TrimSpace name0; provider = normalizeProvider env provider0; token = TrimSpace token0 in
      if name = [] \<or> 80 < RuneCount name then Some BadName
      else if provider \<noteq> ProviderTelegram \<and> provider \<noteq> ProviderDiscord then Some BadProvider
      else if requireToken \<and> token = [] then Some TokenMissing
      else if token \<noteq> [] \<and> (length token < 20 \<or> ContainsAny token [CHR '' '', CHR 0x09, CHR 0x0D, CHR 0x0A]) then Some BadToken
      else None)"

text \<open>One destination, trimmed, without what only the other provider has.\<close>

definition trim_destination :: "bot_env \<Rightarrow> destination \<Rightarrow> destination" where
  "trim_destination env v = v\<lparr>
     de_id := TrimSpace (de_id v), de_name := TrimSpace (de_name v), de_type := lower_text env (TrimSpace (de_type v)),
     de_photo_file := TrimSpace (de_photo_file v), de_photo_data := [], de_thread_name := TrimSpace (de_thread_name v),
     de_guild := TrimSpace (de_guild v), de_guild_name := TrimSpace (de_guild_name v), de_guild_icon := TrimSpace (de_guild_icon v),
     de_topics := []\<rparr>"

definition for_provider :: "string \<Rightarrow> destination \<Rightarrow> destination" where
  "for_provider provider v =
     (let v1 = (if provider \<noteq> ProviderTelegram then v\<lparr>de_forum := False, de_thread := 0, de_thread_name := []\<rparr> else v)
      in if provider \<noteq> ProviderDiscord then v1\<lparr>de_guild := [], de_guild_name := [], de_guild_icon := []\<rparr> else v1)"

definition bad_destination :: "string \<Rightarrow> destination \<Rightarrow> bot_error option" where
  "bad_destination provider v =
     (if provider = ProviderTelegram \<and> \<not> telegramDestinationRE (de_id v) then Some BadDestination
      else if provider = ProviderDiscord \<and> \<not> discordDestinationRE (de_id v) then Some BadDestination
      else if de_thread v < 0 then Some BadThread
      else let w = for_provider provider v in
        if provider = ProviderDiscord \<and> de_guild w \<noteq> [] \<and> \<not> discordDestinationRE (de_guild w) then Some BadGuild
        else if 120 < RuneCount (de_name w) \<or> 30 < length (de_type w) \<or> 512 < length (de_photo_file w) \<or>
          128 < RuneCount (de_thread_name w) \<or> 120 < RuneCount (de_guild_name w) \<or> 128 < length (de_guild_icon w)
        then Some MetadataTooLong else None)"

fun normalize_each :: "bot_env \<Rightarrow> string \<Rightarrow> string list \<Rightarrow> destination list \<Rightarrow> bot_error + destination list" where
  "normalize_each env provider seen [] = Inr []"
| "normalize_each env provider seen (v0 # vs) =
     (let v = trim_destination env v0 in
      if de_id v \<in> set seen then Inl DuplicateDestination
      else case bad_destination provider v of
        Some e \<Rightarrow> Inl e
      | None \<Rightarrow> map_sum id (\<lambda>ws. for_provider provider v # ws) (normalize_each env provider (de_id v # seen) vs))"

definition normalizeDestinations :: "bot_env \<Rightarrow> string \<Rightarrow> destination list \<Rightarrow> string \<Rightarrow> bot_error + destination list" where
  "normalizeDestinations env provider values0 legacy =
     (let values = (if values0 = [] \<and> TrimSpace legacy \<noteq> [] then [empty_destination\<lparr>de_id := legacy\<rparr>] else values0);
          known = (provider = ProviderTelegram \<or> provider = ProviderDiscord);
          limit = (if known then 3 else 1)
      in if values = [] \<and> known then Inr []
         else if values = [] then Inl NoDestination
         else if limit < length values then Inl TooManyDestinations
         else normalize_each env provider [] values)"

section \<open>Topics and discoveries\<close>

definition invisible :: "nat \<Rightarrow> bool" where
  "invisible r \<longleftrightarrow> (8203 \<le> r \<and> r \<le> 8205) \<or> r = 8288 \<or> r = 65279"

definition cleanTopicName :: "string \<Rightarrow> string" where
  "cleanTopicName value = Join '' '' (Fields (encode_all (filter (\<lambda>r. \<not> invisible r) (runes value))))"

definition topicNameKey :: "bot_env \<Rightarrow> string \<Rightarrow> string" where
  "topicNameKey env value = lower_text env (cleanTopicName value)"

definition channel_name :: "int \<Rightarrow> string" where
  "channel_name i = ''Channel '' @ Itoa i"

text \<open>Of the topics with one number the last stays, then of those with one name the one with the largest number.\<close>

definition named_topics :: "topic list \<Rightarrow> topic list" where
  "named_topics ts = map (\<lambda>t. let n = cleanTopicName (tp_name t) in t\<lparr>tp_name := if n = [] then channel_name (tp_id t) else n\<rparr>)
     (filter (\<lambda>t. 1 < tp_id t) ts)"

fun last_by_id :: "topic list \<Rightarrow> topic list" where
  "last_by_id [] = []"
| "last_by_id (t # ts) = (if list_ex (\<lambda>u. tp_id u = tp_id t) ts then last_by_id ts else t # last_by_id ts)"

definition best_by_name :: "bot_env \<Rightarrow> topic list \<Rightarrow> topic list" where
  "best_by_name env ts = filter (\<lambda>t. \<not> list_ex (\<lambda>u. topicNameKey env (tp_name u) = topicNameKey env (tp_name t) \<and> tp_id t < tp_id u) ts) ts"

definition dedupeTopics :: "bot_env \<Rightarrow> topic list \<Rightarrow> topic list" where
  "dedupeTopics env ts = sort_key (\<lambda>t. lower_text env (tp_name t)) (best_by_name env (last_by_id (named_topics ts)))"

definition mergeTopics :: "bot_env \<Rightarrow> topic list \<Rightarrow> topic list \<Rightarrow> topic list" where
  "mergeTopics env existing incoming = dedupeTopics env (existing @ incoming)"

text \<open>One discovered container.\<close>

definition discovered_topics :: "topic list \<Rightarrow> topic list" where
  "discovered_topics ts =
     map (\<lambda>t. t\<lparr>tp_name := if TrimSpace (tp_name t) = [] then channel_name (tp_id t) else TrimSpace (tp_name t)\<rparr>)
       (filter (\<lambda>t. \<not> (tp_id t \<le> 1 \<or> 128 < RuneCount (TrimSpace (tp_name t)))) ts)"

definition normalize_container :: "bot_env \<Rightarrow> string \<Rightarrow> destination \<Rightarrow> bot_error + destination" where
  "normalize_container env provider v0 =
     (let v = (trim_destination env v0)\<lparr>de_thread := 0, de_thread_name := [], de_topics := de_topics v0\<rparr> in
      if provider = ProviderTelegram \<and> \<not> telegramDestinationRE (de_id v) then Inl BadDestination
      else if provider = ProviderDiscord \<and> \<not> discordDestinationRE (de_id v) then Inl BadDestination
      else if 120 < RuneCount (de_name v) \<or> 30 < length (de_type v) \<or> 512 < length (de_photo_file v) \<or>
        120 < RuneCount (de_guild_name v) \<or> 128 < length (de_guild_icon v) then Inl MetadataTooLong
      else
        let w = (if provider = ProviderDiscord
                 then v\<lparr>de_guild := de_id v, de_guild_name := (if de_guild_name v = [] then de_name v else de_guild_name v),
                        de_topics := [], de_forum := False\<rparr>
                 else v\<lparr>de_guild := [], de_guild_name := [], de_guild_icon := []\<rparr>);
            ts = discovered_topics (de_topics w)
        in if 100 < length ts then Inl TooManyTopics
           else Inr (w\<lparr>de_topics := dedupeTopics env ts\<rparr>))"

definition or_else :: "string \<Rightarrow> string \<Rightarrow> string" where
  "or_else a b = (if a = [] then b else a)"

definition merge_container :: "bot_env \<Rightarrow> destination \<Rightarrow> destination \<Rightarrow> destination" where
  "merge_container env existing v = v\<lparr>
     de_topics := dedupeTopics env (de_topics existing @ de_topics v), de_forum := (de_forum v \<or> de_forum existing),
     de_name := or_else (de_name v) (de_name existing), de_photo_file := or_else (de_photo_file v) (de_photo_file existing),
     de_guild_name := or_else (de_guild_name v) (de_guild_name existing),
     de_guild_icon := or_else (de_guild_icon v) (de_guild_icon existing)\<rparr>"

text \<open>\<open>acc\<close> is the map by the identifier.\<close>

fun gather_containers :: "bot_env \<Rightarrow> string \<Rightarrow> destination list \<Rightarrow> destination list \<Rightarrow> bot_error + destination list" where
  "gather_containers env provider acc [] = Inr acc"
| "gather_containers env provider acc (v0 # vs) =
     (case normalize_container env provider v0 of
        Inl e \<Rightarrow> Inl e
      | Inr v \<Rightarrow>
          gather_containers env provider
            (if list_ex (\<lambda>x. de_id x = de_id v) acc
             then map (\<lambda>x. if de_id x = de_id v then merge_container env x v else x) acc
             else acc @ [v]) vs)"

text \<open>Containers with one name come in any order in the code; nothing depends on it, since each is stored under its
  own identifier.\<close>

definition normalizeDiscovered :: "bot_env \<Rightarrow> string \<Rightarrow> destination list \<Rightarrow> bot_error + destination list" where
  "normalizeDiscovered env provider values =
     (if 100 < length values then Inl TooManyDiscovered
      else map_sum id (\<lambda>ws. sort_key (\<lambda>v. lower_text env (de_name v)) (map (\<lambda>v. v\<lparr>de_topics := dedupeTopics env (de_topics v)\<rparr>) ws))
             (gather_containers env provider [] values))"

section \<open>Rows\<close>

definition find_bot :: "int \<Rightarrow> bot_db \<Rightarrow> bot_row option" where
  "find_bot i db = List.find (\<lambda>b. bt_id b = i) (bd_bots db)"

definition dests_of :: "int \<Rightarrow> bot_db \<Rightarrow> dest_row list" where
  "dests_of i db = filter (\<lambda>r. dr_bot r = i) (bd_dests db)"

definition bot_destinations :: "int \<Rightarrow> bot_db \<Rightarrow> destination list" where
  "bot_destinations i db = map dr_dest (sort_key dr_pos (sort_key (\<lambda>r. de_id (dr_dest r)) (dests_of i db)))"

definition bot_discovered :: "int \<Rightarrow> bot_db \<Rightarrow> destination list" where
  "bot_discovered i db = map di_dest (sort_key (\<lambda>r. ToLower (de_name (di_dest r)))
     (sort_key (\<lambda>r. de_id (di_dest r)) (filter (\<lambda>r. di_bot r = i) (bd_discs db))))"

definition next_bot_id :: "bot_db \<Rightarrow> int" where
  "next_bot_id db = foldl max 0 (map bt_id (bd_bots db)) + 1"

text \<open>The columns of a row of destinations; the others of the record have no column.\<close>

definition dest_columns :: "destination \<Rightarrow> destination" where
  "dest_columns v = v\<lparr>de_photo_data := [], de_forum := False, de_topics := [], de_discovered := []\<rparr>"

definition insertDestinations :: "int \<Rightarrow> destination list \<Rightarrow> bot_db \<Rightarrow> bot_db" where
  "insertDestinations i ds db = db\<lparr>bd_dests := bd_dests db @
     map (\<lambda>(k, v). \<lparr>dr_bot = i, dr_dest = dest_columns v, dr_pos = int k\<rparr>) (enumerate 0 ds)\<rparr>"

text \<open>The upsert of a discovery.\<close>

definition updated_disc :: "bot_env \<Rightarrow> destination \<Rightarrow> disc_row \<Rightarrow> disc_row" where
  "updated_disc env v r =
     (let d = di_dest r in
      r\<lparr>di_dest := d\<lparr>de_name := or_else (de_name v) (de_name d), de_type := or_else (de_type v) (de_type d),
          de_photo_file := or_else (de_photo_file v) (de_photo_file d), de_forum := (de_forum d \<or> de_forum v),
          de_topics := mergeTopics env (de_topics d) (de_topics v), de_guild := or_else (de_guild v) (de_guild d),
          de_guild_name := or_else (de_guild_name v) (de_guild_name d),
          de_guild_icon := or_else (de_guild_icon v) (de_guild_icon d)\<rparr>,
        di_seen := be_now env\<rparr>)"

definition merge_one :: "bot_env \<Rightarrow> int \<Rightarrow> bot_db \<Rightarrow> destination \<Rightarrow> bot_db" where
  "merge_one env i db v =
     (if list_ex (\<lambda>r. di_bot r = i \<and> de_id (di_dest r) = de_id v) (bd_discs db)
      then db\<lparr>bd_discs := map (\<lambda>r. if di_bot r = i \<and> de_id (di_dest r) = de_id v then updated_disc env v r else r) (bd_discs db)\<rparr>
      else db\<lparr>bd_discs := bd_discs db @
        [\<lparr>di_bot = i, di_dest = v\<lparr>de_photo_data := [], de_thread := 0, de_thread_name := [],
            de_topics := mergeTopics env [] (de_topics v), de_discovered := be_now env\<rparr>, di_seen = be_now env\<rparr>]\<rparr>)"

definition mergeDiscoveredTx :: "bot_env \<Rightarrow> int \<Rightarrow> destination list \<Rightarrow> bot_db \<Rightarrow> bot_db" where
  "mergeDiscoveredTx env i vs db = foldl (merge_one env i) db vs"

section \<open>Operations\<close>

record bot_config =
  cf_bot :: bot_row
  cf_destinations :: "destination list"
  cf_discovered :: "destination list"
  cf_token_configured :: bool

definition attachDestinations :: "bot_row \<Rightarrow> bot_db \<Rightarrow> bot_config" where
  "attachDestinations b db =
     (let ds = bot_destinations (bt_id b) db in
      \<lparr>cf_bot = (if ds = [] then b else b\<lparr>bt_dest := de_id (hd ds)\<rparr>), cf_destinations = ds,
       cf_discovered = bot_discovered (bt_id b) db, cf_token_configured = (bt_token b \<noteq> [])\<rparr>)"

definition BotByID :: "int \<Rightarrow> bot_db \<Rightarrow> bot_config option" where
  "BotByID i db = map_option (\<lambda>b. attachDestinations b db) (find_bot i db)"

definition ListBots :: "bot_db \<Rightarrow> bot_config list" where
  "ListBots db = map (\<lambda>b. attachDestinations b db)
     (sort_key bt_provider (sort_key (\<lambda>b. ToLower (bt_name b)) (bd_bots db)))"

record create_input =
  ci_name :: string
  ci_provider :: string
  ci_token :: string
  ci_dns :: string
  ci_dest :: string
  ci_dests :: "destination list"
  ci_discs :: "destination list"
  ci_enabled :: bool
  ci_started :: bool
  ci_stopped :: bool
  ci_joined :: bool
  ci_left :: bool

definition first_id :: "destination list \<Rightarrow> string" where
  "first_id ds = (case ds of [] \<Rightarrow> [] | d # _ \<Rightarrow> de_id d)"

definition too_many_bots :: "string \<Rightarrow> bot_db \<Rightarrow> bool" where
  "too_many_bots provider db \<longleftrightarrow> 4 \<le> length (bd_bots db) \<or> 2 \<le> length (filter (\<lambda>b. bt_provider b = provider) (bd_bots db))"

text \<open>The transaction that makes a bot; an error at its end undoes it.\<close>

definition create_tx ::
  "bot_env \<Rightarrow> bot_row \<Rightarrow> destination list \<Rightarrow> destination list \<Rightarrow> bot_db \<Rightarrow> (bot_error + bot_config) \<times> bot_db" where
  "create_tx env row ds discs db =
     (let i = bt_id row;
          db1 = insertDestinations i ds (db\<lparr>bd_bots := bd_bots db @ [row]\<rparr>);
          db2 = (if bt_provider row = ProviderTelegram then db1\<lparr>bd_states := bd_states db1 @ [(i, 0)]\<rparr> else db1)
      in if bt_provider row \<noteq> ProviderTelegram \<and> bt_provider row \<noteq> ProviderDiscord then (Inl CheckFailed, db)
         else case normalizeDiscovered env (bt_provider row) (discs @ ds) of
           Inl e \<Rightarrow> (Inl e, db)
         | Inr vs \<Rightarrow>
             let db3 = mergeDiscoveredTx env i vs db2
             in (case BotByID i db3 of None \<Rightarrow> (Inl ErrNotFound, db3) | Some c \<Rightarrow> (Inr c, db3)))"

definition CreateBot :: "bot_env \<Rightarrow> create_input \<Rightarrow> bot_db \<Rightarrow> (bot_error + bot_config) \<times> bot_db" where
  "CreateBot env input db =
     (let name = TrimSpace (ci_name input); provider = normalizeProvider env (ci_provider input);
          token = TrimSpace (ci_token input) in
      case normalizeDNSServer env (ci_dns input) of
        Inl e \<Rightarrow> (Inl e, db)
      | Inr dns \<Rightarrow>
      (case validate env name provider token True of
        Some e \<Rightarrow> (Inl e, db)
      | None \<Rightarrow>
      (case normalizeDestinations env provider (ci_dests input) (TrimSpace (ci_dest input)) of
        Inl e \<Rightarrow> (Inl e, db)
      | Inr ds \<Rightarrow>
      (case be_seal env token of
        None \<Rightarrow> (Inl SealFailed, db)
      | Some sealed \<Rightarrow>
        if too_many_bots provider db then (Inl TooManyBots, db)
        else create_tx env
          \<lparr>bt_id = next_bot_id db, bt_name = name, bt_provider = provider, bt_token = sealed, bt_dns = dns, bt_dest = first_id ds,
            bt_enabled = ci_enabled input, bt_started = ci_started input, bt_stopped = ci_stopped input,
            bt_joined = ci_joined input, bt_left = ci_left input, bt_created = be_now env, bt_updated = be_now env\<rparr>
          ds (ci_discs input) db))))"

record bot_patch =
  pt_name :: "string option"
  pt_provider :: "string option"
  pt_token :: "string option"
  pt_dns :: "string option"
  pt_dest :: "string option"
  pt_dests :: "destination list option"
  pt_enabled :: "bool option"
  pt_started :: "bool option"
  pt_stopped :: "bool option"
  pt_joined :: "bool option"
  pt_left :: "bool option"

definition given :: "'a option \<Rightarrow> 'a \<Rightarrow> 'a" where
  "given x d = (case x of None \<Rightarrow> d | Some y \<Rightarrow> y)"

definition change_bot :: "int \<Rightarrow> (bot_row \<Rightarrow> bot_row) \<Rightarrow> bot_db \<Rightarrow> bot_db" where
  "change_bot i f db = db\<lparr>bd_bots := map (\<lambda>b. if bt_id b = i then f b else b) (bd_bots db)\<rparr>"

text \<open>The transaction of a change. A new token forgets what was seen with the old one.\<close>

definition patch_tx ::
  "bot_env \<Rightarrow> int \<Rightarrow> string \<Rightarrow> bool \<Rightarrow> (bot_row \<Rightarrow> bot_row) \<Rightarrow> destination list \<Rightarrow> bot_db \<Rightarrow> (bot_error + bot_config) \<times> bot_db" where
  "patch_tx env i provider renewed f ds db =
     (let db1 = change_bot i f db;
          db2 = insertDestinations i ds (db1\<lparr>bd_dests := filter (\<lambda>r. dr_bot r \<noteq> i) (bd_dests db1)\<rparr>);
          db3 = (if renewed \<and> provider = ProviderTelegram
                 then db2\<lparr>bd_states := filter (\<lambda>s. fst s \<noteq> i) (bd_states db2)\<rparr> else db2);
          db4 = (if renewed then db3\<lparr>bd_discs := filter (\<lambda>r. di_bot r \<noteq> i) (bd_discs db3)\<rparr> else db3)
      in case normalizeDiscovered env provider ds of
           Inl e \<Rightarrow> (Inl e, db)
         | Inr vs \<Rightarrow>
             let db5 = mergeDiscoveredTx env i vs db4
             in (case BotByID i db5 of None \<Rightarrow> (Inl ErrNotFound, db5) | Some c \<Rightarrow> (Inr c, db5)))"

definition PatchBot :: "bot_env \<Rightarrow> int \<Rightarrow> bot_patch \<Rightarrow> bot_db \<Rightarrow> (bot_error + bot_config) \<times> bot_db" where
  "PatchBot env i patch db =
     (case find_bot i db of
        None \<Rightarrow> (Inl ErrNotFound, db)
      | Some b \<Rightarrow>
          let provider = bt_provider b;
              name = (case pt_name patch of None \<Rightarrow> bt_name b | Some n \<Rightarrow> TrimSpace n);
              dest1 = (case pt_dest patch of None \<Rightarrow> bt_dest b | Some d \<Rightarrow> TrimSpace d);
              dests1 = (case pt_dest patch of None \<Rightarrow> bot_destinations i db | Some d \<Rightarrow> []);
              dests = (case pt_dests patch of None \<Rightarrow> dests1 | Some ds \<Rightarrow> ds);
              dest = (case pt_dests patch of None \<Rightarrow> dest1 | Some ds \<Rightarrow> []);
              token = (case pt_token patch of None \<Rightarrow> [] | Some t \<Rightarrow> TrimSpace t)
          in if (case pt_provider patch of None \<Rightarrow> False | Some q \<Rightarrow> normalizeProvider env q \<noteq> provider) then (Inl ProviderFixed, db)
             else case validate env name provider token False of
               Some e \<Rightarrow> (Inl e, db)
             | None \<Rightarrow>
             (case normalizeDNSServer env (given (pt_dns patch) (bt_dns b)) of
               Inl e \<Rightarrow> (Inl e, db)
             | Inr dns \<Rightarrow>
             (case normalizeDestinations env provider dests dest of
               Inl e \<Rightarrow> (Inl e, db)
             | Inr ds \<Rightarrow>
             (case (if token = [] then Some (bt_token b) else be_seal env token) of
               None \<Rightarrow> (Inl SealFailed, db)
             | Some sealed \<Rightarrow>
                 patch_tx env i provider (token \<noteq> []) (\<lambda>r. r\<lparr>bt_name := name, bt_token := sealed, bt_dns := dns, bt_dest := first_id ds,
                   bt_enabled := given (pt_enabled patch) (bt_enabled b), bt_started := given (pt_started patch) (bt_started b),
                   bt_stopped := given (pt_stopped patch) (bt_stopped b), bt_joined := given (pt_joined patch) (bt_joined b),
                   bt_left := given (pt_left patch) (bt_left b), bt_updated := be_now env\<rparr>) ds db))))"

text \<open>The rows of a deleted bot go with it.\<close>

definition DeleteBot :: "int \<Rightarrow> bot_db \<Rightarrow> bot_error option \<times> bot_db" where
  "DeleteBot i db =
     (if find_bot i db = None then (Some ErrNotFound, db)
      else (None, \<lparr>bd_bots = filter (\<lambda>b. bt_id b \<noteq> i) (bd_bots db), bd_dests = filter (\<lambda>r. dr_bot r \<noteq> i) (bd_dests db),
                  bd_discs = filter (\<lambda>r. di_bot r \<noteq> i) (bd_discs db), bd_states = filter (\<lambda>s. fst s \<noteq> i) (bd_states db)\<rparr>))"

definition MergeDiscovered :: "bot_env \<Rightarrow> int \<Rightarrow> destination list \<Rightarrow> bot_db \<Rightarrow> (bot_error + destination list) \<times> bot_db" where
  "MergeDiscovered env i values db =
     (case find_bot i db of
        None \<Rightarrow> (Inl ErrNotFound, db)
      | Some b \<Rightarrow>
          (case normalizeDiscovered env (bt_provider b) values of
             Inl e \<Rightarrow> (Inl e, db)
           | Inr vs \<Rightarrow> let db1 = mergeDiscoveredTx env i vs db in (Inr (bot_discovered i db1), db1)))"

text \<open>The column that names the first destination follows the table.\<close>

definition refresh_dest :: "bot_env \<Rightarrow> int \<Rightarrow> bot_db \<Rightarrow> bot_db" where
  "refresh_dest env i db = change_bot i (\<lambda>b. b\<lparr>bt_dest := first_id (bot_destinations i db), bt_updated := be_now env\<rparr>) db"

definition ForgetDiscovered :: "bot_env \<Rightarrow> int \<Rightarrow> string \<Rightarrow> bot_db \<Rightarrow> bot_error option \<times> bot_db" where
  "ForgetDiscovered env i dest0 db =
     (let dest = TrimSpace dest0 in
      if dest = [] then (Some ContainerRequired, db)
      else case find_bot i db of
        None \<Rightarrow> (Some ErrNotFound, db)
      | Some b \<Rightarrow>
          let hit = (\<lambda>d. if bt_provider b = ProviderTelegram then de_id d = dest else de_guild d = dest);
              db1 = db\<lparr>bd_discs := filter (\<lambda>r. \<not> (di_bot r = i \<and> de_id (di_dest r) = dest)) (bd_discs db),
                       bd_dests := filter (\<lambda>r. \<not> (dr_bot r = i \<and> hit (dr_dest r))) (bd_dests db)\<rparr>
          in (None, refresh_dest env i db1))"

definition InitializeTelegramUpdates :: "int \<Rightarrow> int \<Rightarrow> bot_db \<Rightarrow> bot_error option \<times> bot_db" where
  "InitializeTelegramUpdates i u db =
     (if i \<le> 0 \<or> u < 0 then (Some BadCursor, db)
      else if find_bot i db = None then (Some ForeignKey, db)
      else (None, db\<lparr>bd_states := (if list_ex (\<lambda>s. fst s = i) (bd_states db)
              then map (\<lambda>s. if fst s = i then (i, u) else s) (bd_states db) else bd_states db @ [(i, u)])\<rparr>))"

definition AdvanceTelegramUpdate :: "int \<Rightarrow> int \<Rightarrow> bot_db \<Rightarrow> bot_error option \<times> bot_db" where
  "AdvanceTelegramUpdate i u db =
     (if i \<le> 0 \<or> u \<le> 0 then (Some BadCursor, db)
      else if find_bot i db = None then (Some ForeignKey, db)
      else (None, db\<lparr>bd_states := (if list_ex (\<lambda>s. fst s = i) (bd_states db)
              then map (\<lambda>s. if fst s = i then (i, max (snd s) u) else s) (bd_states db) else bd_states db @ [(i, u)])\<rparr>))"

text \<open>The upsert of a destination keeps its place and a photo it had.\<close>

definition updated_dest :: "destination \<Rightarrow> dest_row \<Rightarrow> dest_row" where
  "updated_dest v r = r\<lparr>dr_dest := (dest_columns v)\<lparr>de_photo_file := or_else (de_photo_file v) (de_photo_file (dr_dest r))\<rparr>\<rparr>"

definition guild_container :: "destination \<Rightarrow> destination" where
  "guild_container d = empty_destination\<lparr>de_id := de_guild d, de_name := de_guild_name d, de_type := ''guild'',
     de_guild := de_guild d, de_guild_name := de_guild_name d, de_guild_icon := de_guild_icon d\<rparr>"

definition setProviderDestination :: "bot_env \<Rightarrow> int \<Rightarrow> string \<Rightarrow> destination \<Rightarrow> bot_db \<Rightarrow> bot_error option \<times> bot_db" where
  "setProviderDestination env i provider destination0 db =
     (case normalizeDestinations env provider [destination0] [] of
        Inl e \<Rightarrow> (Some e, db)
      | Inr values \<Rightarrow>
        let d = hd values in
        case find_bot i db of
          None \<Rightarrow> (Some ErrNotFound, db)
        | Some b \<Rightarrow>
            if bt_provider b \<noteq> provider then (Some WrongProvider, db)
            else if 3 \<le> length (filter (\<lambda>r. de_id (dr_dest r) \<noteq> de_id d) (dests_of i db)) then (Some ThreeConnected, db)
            else
              let here = (\<lambda>r. dr_bot r = i \<and> de_id (dr_dest r) = de_id d);
                  db1 = (if list_ex here (bd_dests db)
                         then db\<lparr>bd_dests := map (\<lambda>r. if here r then updated_dest d r else r) (bd_dests db)\<rparr>
                         else db\<lparr>bd_dests := bd_dests db @
                           [\<lparr>dr_bot = i, dr_dest = dest_columns d, dr_pos = foldl max (- 1) (map dr_pos (dests_of i db)) + 1\<rparr>]\<rparr>);
                  container = (if provider = ProviderDiscord then guild_container d else d)
              in (case (if TrimSpace (de_id container) \<noteq> [] then normalizeDiscovered env provider [container] else Inr []) of
                    Inl e \<Rightarrow> (Some e, db)
                  | Inr vs \<Rightarrow> (None, refresh_dest env i (mergeDiscoveredTx env i vs db1))))"

definition SetTelegramDestination :: "bot_env \<Rightarrow> int \<Rightarrow> destination \<Rightarrow> bot_db \<Rightarrow> bot_error option \<times> bot_db" where
  "SetTelegramDestination env i d db = setProviderDestination env i ProviderTelegram d db"

definition SetDiscordDestination :: "bot_env \<Rightarrow> int \<Rightarrow> destination \<Rightarrow> bot_db \<Rightarrow> bot_error option \<times> bot_db" where
  "SetDiscordDestination env i d db = setProviderDestination env i ProviderDiscord d db"

definition disconnectProviderDestination :: "bot_env \<Rightarrow> int \<Rightarrow> string \<Rightarrow> string \<Rightarrow> bot_db \<Rightarrow> bot_db" where
  "disconnectProviderDestination env i provider dest db =
     (let ours = (case find_bot i db of None \<Rightarrow> False | Some b \<Rightarrow> bt_provider b = provider) in
      refresh_dest env i
        (db\<lparr>bd_dests := filter (\<lambda>r. \<not> (ours \<and> dr_bot r = i \<and> de_id (dr_dest r) = TrimSpace dest)) (bd_dests db)\<rparr>))"

definition DisconnectTelegramDestination :: "bot_env \<Rightarrow> int \<Rightarrow> string \<Rightarrow> bot_db \<Rightarrow> bot_db" where
  "DisconnectTelegramDestination env i dest db = disconnectProviderDestination env i ProviderTelegram dest db"

definition DisconnectDiscordDestination :: "bot_env \<Rightarrow> int \<Rightarrow> string \<Rightarrow> bot_db \<Rightarrow> bot_db" where
  "DisconnectDiscordDestination env i dest db = disconnectProviderDestination env i ProviderDiscord dest db"

section \<open>Reading\<close>

definition providerDestination :: "int \<Rightarrow> string \<Rightarrow> string \<Rightarrow> bot_db \<Rightarrow> destination option" where
  "providerDestination i provider dest db =
     (case find_bot i db of
        None \<Rightarrow> None
      | Some b \<Rightarrow>
          if bt_provider b \<noteq> provider then None
          else map_option dr_dest (List.find (\<lambda>r. dr_bot r = i \<and> de_id (dr_dest r) = TrimSpace dest) (bd_dests db)))"

record target =
  ta_id :: int
  ta_name :: string
  ta_provider :: string
  ta_token :: string
  ta_dns :: string
  ta_dest :: string
  ta_thread :: int

definition Credential :: "bot_env \<Rightarrow> int \<Rightarrow> bot_db \<Rightarrow> bot_error + target" where
  "Credential env i db =
     (case find_bot i db of
        None \<Rightarrow> Inl ErrNotFound
      | Some b \<Rightarrow>
          (case be_open env (bt_token b) of
             None \<Rightarrow> Inl OpenFailed
           | Some t \<Rightarrow> Inr \<lparr>ta_id = bt_id b, ta_name = bt_name b, ta_provider = bt_provider b, ta_token = t, ta_dns = bt_dns b,
                           ta_dest = [], ta_thread = 0\<rparr>))"

definition Targets :: "bot_env \<Rightarrow> int \<Rightarrow> bot_db \<Rightarrow> bot_error + target list" where
  "Targets env i db =
     map_sum id (\<lambda>t. map (\<lambda>d. t\<lparr>ta_dest := de_id d, ta_thread := de_thread d\<rparr>) (bot_destinations i db)) (Credential env i db)"

definition Target_bot :: "bot_env \<Rightarrow> int \<Rightarrow> bot_db \<Rightarrow> bot_error + target" where
  "Target_bot env i db =
     (case Targets env i db of Inl e \<Rightarrow> Inl e | Inr [] \<Rightarrow> Inl ErrNoDestinations | Inr (t # _) \<Rightarrow> Inr t)"

datatype bot_event = EventServerStarted | EventServerStopped | EventPlayerJoined | EventPlayerLeft | OtherEvent string

fun wants_event :: "bot_event \<Rightarrow> bot_row \<Rightarrow> bool option" where
  "wants_event EventServerStarted b = Some (bt_started b)"
| "wants_event EventServerStopped b = Some (bt_stopped b)"
| "wants_event EventPlayerJoined b = Some (bt_joined b)"
| "wants_event EventPlayerLeft b = Some (bt_left b)"
| "wants_event (OtherEvent s) b = None"

text \<open>The join of the bots with their destinations in the order of both; the first token that cannot be read ends it.\<close>

fun bot_targets :: "bot_env \<Rightarrow> bot_db \<Rightarrow> bot_row list \<Rightarrow> bot_error + target list" where
  "bot_targets env db [] = Inr []"
| "bot_targets env db (b # bs) =
     (if bot_destinations (bt_id b) db = [] then bot_targets env db bs
      else case be_open env (bt_token b) of
        None \<Rightarrow> Inl OpenFailed
      | Some t \<Rightarrow>
          map_sum id (\<lambda>ts. map (\<lambda>d. \<lparr>ta_id = bt_id b, ta_name = bt_name b, ta_provider = bt_provider b, ta_token = t,
              ta_dns = bt_dns b, ta_dest = de_id d, ta_thread = de_thread d\<rparr>) (bot_destinations (bt_id b) db) @ ts)
            (bot_targets env db bs))"

definition TargetsFor :: "bot_env \<Rightarrow> bot_event \<Rightarrow> bot_db \<Rightarrow> bot_error + target list" where
  "TargetsFor env e db =
     (case e of
        OtherEvent s \<Rightarrow> Inl UnknownEvent
      | _ \<Rightarrow> bot_targets env db (sort_key bt_id (filter (\<lambda>b. bt_enabled b \<and> wants_event e b = Some True) (bd_bots db))))"

text \<open>The photo of a saved destination comes before that of a discovery.\<close>

definition TelegramPhotoTarget :: "bot_env \<Rightarrow> int \<Rightarrow> string \<Rightarrow> bot_db \<Rightarrow> bot_error + (target \<times> string)" where
  "TelegramPhotoTarget env i dest0 db =
     (let dest = TrimSpace dest0 in
      if dest = [] then Inl DestinationRequired
      else case find_bot i db of
        None \<Rightarrow> Inl ErrNotFound
      | Some b \<Rightarrow>
          let d = List.find (\<lambda>r. dr_bot r = i \<and> de_id (dr_dest r) = dest) (bd_dests db);
              c = List.find (\<lambda>r. di_bot r = i \<and> de_id (di_dest r) = dest) (bd_discs db);
              photo = or_else (case d of None \<Rightarrow> [] | Some r \<Rightarrow> de_photo_file (dr_dest r))
                        (case c of None \<Rightarrow> [] | Some r \<Rightarrow> de_photo_file (di_dest r))
          in if bt_provider b \<noteq> ProviderTelegram \<or> (d = None \<and> c = None) then Inl ErrNotFound
             else case be_open env (bt_token b) of
               None \<Rightarrow> Inl OpenFailed
             | Some t \<Rightarrow> Inr (\<lparr>ta_id = bt_id b, ta_name = bt_name b, ta_provider = bt_provider b, ta_token = t, ta_dns = bt_dns b,
                            ta_dest = dest, ta_thread = 0\<rparr>, TrimSpace photo))"

record telegram_state =
  ts_bot :: int
  ts_name :: string
  ts_token :: string
  ts_dns :: string
  ts_last :: int
  ts_initialized :: bool

fun command_states :: "bot_env \<Rightarrow> bot_db \<Rightarrow> bot_row list \<Rightarrow> bot_error + telegram_state list" where
  "command_states env db [] = Inr []"
| "command_states env db (b # bs) =
     (case be_open env (bt_token b) of
        None \<Rightarrow> Inl OpenFailed
      | Some t \<Rightarrow>
          let s = map_of (bd_states db) (bt_id b) in
          map_sum id (\<lambda>ss. \<lparr>ts_bot = bt_id b, ts_name = bt_name b, ts_token = t, ts_dns = bt_dns b,
              ts_last = (case s of None \<Rightarrow> 0 | Some u \<Rightarrow> u), ts_initialized = (s \<noteq> None)\<rparr> # ss) (command_states env db bs))"

definition TelegramCommandBots :: "bot_env \<Rightarrow> bot_db \<Rightarrow> bot_error + telegram_state list" where
  "TelegramCommandBots env db =
     command_states env db (sort_key bt_id (filter (\<lambda>b. bt_provider b = ProviderTelegram) (bd_bots db)))"

record discord_state =
  ds_bot :: int
  ds_name :: string
  ds_token :: string
  ds_dns :: string

fun discord_states :: "bot_env \<Rightarrow> bot_row list \<Rightarrow> bot_error + discord_state list" where
  "discord_states env [] = Inr []"
| "discord_states env (b # bs) =
     (case be_open env (bt_token b) of
        None \<Rightarrow> Inl OpenFailed
      | Some t \<Rightarrow> map_sum id (\<lambda>ss. \<lparr>ds_bot = bt_id b, ds_name = bt_name b, ds_token = t, ds_dns = bt_dns b\<rparr> # ss) (discord_states env bs))"

definition DiscordCommandBots :: "bot_env \<Rightarrow> bot_db \<Rightarrow> bot_error + discord_state list" where
  "DiscordCommandBots env db = discord_states env (sort_key bt_id (filter (\<lambda>b. bt_provider b = ProviderDiscord) (bd_bots db)))"

end
