(* ===== verification/BotCommands.thy ===== *)
theory BotCommands
  imports BotStore
begin

text \<open>
  What reaches the notification bots: the commands of Telegram groups and Discord channels
  (\<open>source/internal/bot/telegram_commands.go\<close>, \<open>discord_commands.go\<close>), the requests of the panel and the messages it
  sends (\<open>source/internal/app/bots.go\<close>, the dispatcher in \<open>bot/sender.go\<close>). The answers of Telegram and Discord
  and the delivery of messages are arguments.
\<close>

section \<open>Telegram\<close>

record telegram_chat =
  tc_id :: int
  tc_type :: string
  tc_title :: string
  tc_forum :: bool
  tc_photo :: "string option"

record telegram_message =
  tm_thread :: int
  tm_text :: string
  tm_chat :: telegram_chat
  tm_from :: "int option"
  tm_sender_chat :: "int option"

record membership =
  mb_chat :: telegram_chat
  mb_status :: string
  mb_is_member :: "bool option"

record telegram_update =
  tu_id :: int
  tu_message :: "telegram_message option"
  tu_member :: "membership option"

text \<open>What Telegram answers: the pending updates from an offset, the status of a member of a chat, the full chat.\<close>

record telegram_api =
  tg_updates :: "int \<Rightarrow> telegram_update list option"
  tg_member :: "int \<Rightarrow> int \<Rightarrow> string option"
  tg_chat :: "int \<Rightarrow> telegram_chat option"

definition is_group :: "telegram_chat \<Rightarrow> bool" where
  "is_group c \<longleftrightarrow> tc_type c = ''group'' \<or> tc_type c = ''supergroup''"

definition telegramGroupContainer :: "telegram_chat \<Rightarrow> destination" where
  "telegramGroupContainer c = empty_destination\<lparr>de_id := Itoa (tc_id c), de_name := TrimSpace (tc_title c),
     de_type := tc_type c, de_forum := tc_forum c\<rparr>"

definition observeTelegramMembership :: "bot_env \<Rightarrow> int \<Rightarrow> telegram_update \<Rightarrow> bot_db \<Rightarrow> bot_db" where
  "observeTelegramMembership env i u db =
     (case tu_member u of
        None \<Rightarrow> db
      | Some m \<Rightarrow>
          if \<not> is_group (mb_chat m) then db
          else
            let status = lower_text env (TrimSpace (mb_status m)) in
            if status = ''left'' \<or> status = ''kicked'' \<or> (status = ''restricted'' \<and> mb_is_member m = Some False)
            then snd (ForgetDiscovered env i (Itoa (tc_id (mb_chat m))) db)
            else snd (MergeDiscovered env i [telegramGroupContainer (mb_chat m)] db))"

datatype bot_command = CmdHelp | CmdHere | CmdDisconnect | CmdWhere

definition command_word :: "string \<Rightarrow> bot_command" where
  "command_word s = (if s = ''here'' then CmdHere else if s = ''disconnect'' then CmdDisconnect
     else if s = ''where'' then CmdWhere else CmdHelp)"

definition telegramCommand :: "bot_env \<Rightarrow> string \<Rightarrow> bot_command option" where
  "telegramCommand env text =
     (case Fields (TrimSpace text) of
        [] \<Rightarrow> None
      | f # fs \<Rightarrow>
          if \<not> HasPrefix f ''/'' then None
          else
            let root0 = TrimPrefix (lower_text env f) ''/'';
                root = (case Cut (CHR ''@'') root0 of None \<Rightarrow> root0 | Some (a, b) \<Rightarrow> a)
            in if root \<noteq> ''bonghos'' then None
               else case fs of [] \<Rightarrow> Some CmdHelp | g # _ \<Rightarrow> Some (command_word (lower_text env g)))"

definition telegramAdmin :: "telegram_api \<Rightarrow> telegram_message \<Rightarrow> bool" where
  "telegramAdmin api m \<longleftrightarrow>
     (if tm_sender_chat m = Some (tc_id (tm_chat m)) then True
      else case tm_from m of
        None \<Rightarrow> False
      | Some u \<Rightarrow> 0 < u \<and> (tg_member api (tc_id (tm_chat m)) u = Some ''creator'' \<or>
                           tg_member api (tc_id (tm_chat m)) u = Some ''administrator''))"

datatype bot_reply =
    ReplyHelp | ReplyAdminOnly | ReplyHere | ReplyThree | ReplyFailed | ReplyGone | ReplyNotConnected | ReplyThisTopic
  | ReplyOtherTopic | ReplyServerOnly

definition here_destination :: "telegram_api \<Rightarrow> telegram_message \<Rightarrow> destination" where
  "here_destination api m =
     (let c = tm_chat m; thread = (if 1 < tm_thread m then tm_thread m else 0);
          d = empty_destination\<lparr>de_id := Itoa (tc_id c), de_name := TrimSpace (tc_title c), de_type := tc_type c,
                de_forum := (tc_forum c \<or> 0 < thread), de_thread := thread,
                de_thread_name := (if 0 < thread then ''Selected topic'' else ''General'')\<rparr>
      in case tg_chat api (tc_id c) of
           None \<Rightarrow> d
         | Some full \<Rightarrow> d\<lparr>de_name := or_else (TrimSpace (tc_title full)) (de_name d),
                         de_photo_file := (case tc_photo full of None \<Rightarrow> [] | Some f \<Rightarrow> TrimSpace f)\<rparr>)"

definition handleTelegramCommand ::
  "bot_env \<Rightarrow> telegram_api \<Rightarrow> int \<Rightarrow> telegram_message \<Rightarrow> bot_db \<Rightarrow> bot_reply option \<times> bot_db" where
  "handleTelegramCommand env api i m db0 =
     (let c = tm_chat m in
      if \<not> is_group c then (None, db0)
      else
        let db = (if 0 < i then snd (MergeDiscovered env i [telegramGroupContainer c] db0) else db0) in
        case telegramCommand env (tm_text m) of
          None \<Rightarrow> (None, db)
        | Some CmdHelp \<Rightarrow> (Some ReplyHelp, db)
        | Some cmd \<Rightarrow>
            if \<not> telegramAdmin api m then (Some ReplyAdminOnly, db)
            else (case cmd of
                CmdHere \<Rightarrow>
                  (case SetTelegramDestination env i (here_destination api m) db of
                     (Some ThreeConnected, db1) \<Rightarrow> (Some ReplyThree, db1)
                   | (Some e, db1) \<Rightarrow> (Some ReplyFailed, db1)
                   | (None, db1) \<Rightarrow> (Some ReplyHere, db1))
              | CmdDisconnect \<Rightarrow> (Some ReplyGone, DisconnectTelegramDestination env i (Itoa (tc_id c)) db)
              | _ \<Rightarrow>
                  (case providerDestination i ProviderTelegram (Itoa (tc_id c)) db of
                     None \<Rightarrow> (Some ReplyNotConnected, db)
                   | Some d \<Rightarrow> (Some (if de_thread d = (if 1 < tm_thread m then tm_thread m else 0)
                                    then ReplyThisTopic else ReplyOtherTopic), db))))"

text \<open>One round of polling of one bot: the first only takes note of where the updates stand. The second component
  are the updates whose messages were handled.\<close>

fun run_updates :: "bot_env \<Rightarrow> telegram_api \<Rightarrow> int \<Rightarrow> telegram_update list \<Rightarrow> bot_db \<Rightarrow> bot_db \<times> telegram_update list" where
  "run_updates env api i [] db = (db, [])"
| "run_updates env api i (u # us) db =
     (let db1 = observeTelegramMembership env i u db;
          db2 = (case tu_message u of None \<Rightarrow> db1 | Some m \<Rightarrow> snd (handleTelegramCommand env api i m db1))
      in if 0 < tu_id u
         then (case AdvanceTelegramUpdate i (tu_id u) db2 of
                 (Some e, db3) \<Rightarrow> (db3, [u])
               | (None, db3) \<Rightarrow> (case run_updates env api i us db3 of (db4, hs) \<Rightarrow> (db4, u # hs)))
         else (case run_updates env api i us db2 of (db4, hs) \<Rightarrow> (db4, u # hs)))"

definition poll_bot :: "bot_env \<Rightarrow> telegram_api \<Rightarrow> telegram_state \<Rightarrow> bot_db \<Rightarrow> bot_db \<times> telegram_update list" where
  "poll_bot env api s db =
     (case tg_updates api (ts_last s + 1) of
        None \<Rightarrow> (db, [])
      | Some us \<Rightarrow>
          if ts_initialized s then run_updates env api (ts_bot s) us db
          else (snd (InitializeTelegramUpdates (ts_bot s) (foldl (\<lambda>l u. max l (tu_id u)) (ts_last s) us)
                 (foldl (\<lambda>db u. observeTelegramMembership env (ts_bot s) u db) db us)), []))"

text \<open>The states of all bots are read before the first is polled; each bot has answers of its own.\<close>

definition pollTelegramCommands :: "bot_env \<Rightarrow> (int \<Rightarrow> telegram_api) \<Rightarrow> bot_db \<Rightarrow> bot_db" where
  "pollTelegramCommands env api db =
     (case TelegramCommandBots env db of
        Inl e \<Rightarrow> db
      | Inr ss \<Rightarrow> foldl (\<lambda>db s. fst (poll_bot env (api (ts_bot s)) s db)) db ss)"

section \<open>Discord\<close>

record discord_guild =
  dg_id :: string
  dg_name :: string
  dg_icon :: string
  dg_unavailable :: bool

record interaction =
  dx_type :: int
  dx_guild :: string
  dx_channel :: string
  dx_permissions :: "string option"
  dx_channel_name :: "string option"
  dx_command :: string
  dx_options :: "(int \<times> string) list"
  dx_payload_guild :: "discord_guild option"

text \<open>\<open>strconv.ParseUint\<close> to 64 bits.\<close>

definition ParseUint64 :: "string \<Rightarrow> nat option" where
  "ParseUint64 s = (if s = [] \<or> \<not> list_all is_digit s then None
     else if 2 ^ 64 \<le> digits_value s then None else Some (nat (digits_value s)))"

fun discordSubcommand :: "bot_env \<Rightarrow> (int \<times> string) list \<Rightarrow> bot_command" where
  "discordSubcommand env [] = CmdHelp"
| "discordSubcommand env ((ty, n) # os) =
     (let name = lower_text env n in
      if ty = 1 \<and> (name = ''here'' \<or> name = ''where'' \<or> name = ''disconnect'' \<or> name = ''help'') then command_word name
      else discordSubcommand env os)"

definition discordAdministrator :: "string option \<Rightarrow> bool" where
  "discordAdministrator member =
     (case member of
        None \<Rightarrow> False
      | Some p \<Rightarrow> (case ParseUint64 p of None \<Rightarrow> False | Some n \<Rightarrow> bit n 3 \<or> bit n 5))"

definition channel_destination :: "interaction \<Rightarrow> discord_guild option \<Rightarrow> destination" where
  "channel_destination x g =
     (let name = (case dx_channel_name x of
          None \<Rightarrow> ''Channel '' @ dx_channel x
        | Some n \<Rightarrow> if TrimSpace n = [] then ''Channel '' @ dx_channel x else TrimSpace n);
          d = empty_destination\<lparr>de_id := dx_channel x, de_name := name, de_type := ''channel'', de_guild := dx_guild x\<rparr>
      in case g of None \<Rightarrow> d | Some h \<Rightarrow> d\<lparr>de_guild_name := TrimSpace (dg_name h), de_guild_icon := TrimSpace (dg_icon h)\<rparr>)"

definition handleDiscordInteraction ::
  "bot_env \<Rightarrow> int \<Rightarrow> interaction \<Rightarrow> discord_guild option \<Rightarrow> bot_db \<Rightarrow> bot_reply option \<times> bot_db" where
  "handleDiscordInteraction env i x g db =
     (if dx_type x \<noteq> 2 \<or> dx_command x \<noteq> ''bonghos'' then (None, db)
      else if dx_guild x = [] \<or> \<not> discordDestinationRE (dx_channel x) then (Some ReplyServerOnly, db)
      else if \<not> discordAdministrator (dx_permissions x) then (Some ReplyAdminOnly, db)
      else case discordSubcommand env (dx_options x) of
        CmdHelp \<Rightarrow> (Some ReplyHelp, db)
      | CmdHere \<Rightarrow>
          (case SetDiscordDestination env i (channel_destination x g) db of
             (Some ThreeConnected, db1) \<Rightarrow> (Some ReplyThree, db1)
           | (Some e, db1) \<Rightarrow> (Some ReplyFailed, db1)
           | (None, db1) \<Rightarrow> (Some ReplyHere, db1))
      | CmdDisconnect \<Rightarrow> (Some ReplyGone, DisconnectDiscordDestination env i (dx_channel x) db)
      | CmdWhere \<Rightarrow>
          (case providerDestination i ProviderDiscord (dx_channel x) db of
             None \<Rightarrow> (Some ReplyNotConnected, db)
           | Some d \<Rightarrow> (Some ReplyThisTopic, db)))"

text \<open>The events of the gateway that change something; the guilds seen on a connection are a map by their identifier.\<close>

datatype gateway_event = GuildCreate discord_guild | GuildDelete discord_guild | InteractionCreate interaction

fun gateway_step :: "bot_env \<Rightarrow> int \<Rightarrow> (string \<Rightarrow> discord_guild option) \<times> bot_db \<Rightarrow> gateway_event \<Rightarrow>
    (string \<Rightarrow> discord_guild option) \<times> bot_db" where
  "gateway_step env i (gs, db) (GuildCreate g) =
     (gs(dg_id g \<mapsto> g),
      if dg_unavailable g then db
      else snd (MergeDiscovered env i [empty_destination\<lparr>de_id := dg_id g, de_name := TrimSpace (dg_name g), de_type := ''guild'',
             de_guild := dg_id g, de_guild_name := TrimSpace (dg_name g), de_guild_icon := TrimSpace (dg_icon g)\<rparr>] db))"
| "gateway_step env i (gs, db) (GuildDelete g) =
     (if dg_unavailable g then (gs, db) else (gs(dg_id g := None), snd (ForgetDiscovered env i (dg_id g) db)))"
| "gateway_step env i (gs, db) (InteractionCreate x) = 
     (gs, snd (handleDiscordInteraction env i x (case gs (dx_guild x) of None \<Rightarrow> dx_payload_guild x | Some g \<Rightarrow> Some g) db))"

section \<open>Requests of the panel\<close>

record bot_request =
  br_name :: string
  br_provider :: string
  br_token :: "string option"
  br_dns :: string
  br_dest :: string
  br_dests :: "destination list"
  br_discs :: "destination list"
  br_enabled :: "bool option"
  br_started :: "bool option"
  br_stopped :: "bool option"
  br_joined :: "bool option"
  br_left :: "bool option"

definition handleBotCreate :: "bot_env \<Rightarrow> bot_request option \<Rightarrow> bot_db \<Rightarrow> nat \<times> bot_db" where
  "handleBotCreate env req db =
     (case req of
        None \<Rightarrow> (400, db)
      | Some r \<Rightarrow>
          (case CreateBot env \<lparr>ci_name = br_name r, ci_provider = br_provider r, ci_token = given (br_token r) [],
                  ci_dns = br_dns r, ci_dest = br_dest r, ci_dests = br_dests r, ci_discs = br_discs r,
                  ci_enabled = given (br_enabled r) True, ci_started = given (br_started r) True,
                  ci_stopped = given (br_stopped r) True, ci_joined = given (br_joined r) True,
                  ci_left = given (br_left r) True\<rparr> db of
             (Inl _, db1) \<Rightarrow> (400, db1)
           | (Inr _, db1) \<Rightarrow> (201, db1)))"

definition botID :: "string \<Rightarrow> int option" where
  "botID path = (case Atoi path of None \<Rightarrow> None | Some i \<Rightarrow> if i \<le> 0 then None else Some i)"

definition handleBotUpdate :: "bot_env \<Rightarrow> string \<Rightarrow> bot_patch option \<Rightarrow> bot_db \<Rightarrow> nat \<times> bot_db" where
  "handleBotUpdate env path req db =
     (case botID path of
        None \<Rightarrow> (400, db)
      | Some i \<Rightarrow>
        (case req of
           None \<Rightarrow> (400, db)
         | Some p \<Rightarrow>
           (case PatchBot env i p db of
              (Inl ErrNotFound, db1) \<Rightarrow> (404, db1)
            | (Inl _, db1) \<Rightarrow> (400, db1)
            | (Inr _, db1) \<Rightarrow> (200, db1))))"

definition handleBotDelete :: "string \<Rightarrow> bot_db \<Rightarrow> nat \<times> bot_db" where
  "handleBotDelete path db =
     (case botID path of
        None \<Rightarrow> (400, db)
      | Some i \<Rightarrow>
          if BotByID i db = None then (404, db)
          else (case DeleteBot i db of (Some _, db1) \<Rightarrow> (500, db1) | (None, db1) \<Rightarrow> (200, db1)))"

text \<open>\<open>discover\<close> is what Telegram shows for a token and a name server.\<close>

definition telegramDiscovery ::
  "bot_env \<Rightarrow> (string \<Rightarrow> string \<Rightarrow> destination list option) \<Rightarrow> string \<Rightarrow> string \<Rightarrow> int \<Rightarrow> bot_db \<Rightarrow> nat \<times> bot_db" where
  "telegramDiscovery env discover token dns i db =
     (case discover token dns of
        None \<Rightarrow> (502, db)
      | Some groups \<Rightarrow>
          if 0 < i then (case MergeDiscovered env i groups db of (Inl _, db1) \<Rightarrow> (500, db1) | (Inr _, db1) \<Rightarrow> (200, db1))
          else (200, db))"

definition handleBotTelegramDiscover ::
  "bot_env \<Rightarrow> (string \<Rightarrow> string \<Rightarrow> destination list option) \<Rightarrow> (string \<times> string) option \<Rightarrow> bot_db \<Rightarrow> nat \<times> bot_db" where
  "handleBotTelegramDiscover env discover req db =
     (case req of
        None \<Rightarrow> (400, db)
      | Some (token, dns) \<Rightarrow> if TrimSpace token = [] then (400, db) else telegramDiscovery env discover token dns 0 db)"

definition handleBotTelegramDiscoverExisting ::
  "bot_env \<Rightarrow> (string \<Rightarrow> string \<Rightarrow> destination list option) \<Rightarrow> string \<Rightarrow> string option \<Rightarrow> bot_db \<Rightarrow> nat \<times> bot_db" where
  "handleBotTelegramDiscoverExisting env discover path req db =
     (case botID path of
        None \<Rightarrow> (400, db)
      | Some i \<Rightarrow>
        (case BotByID i db of
           None \<Rightarrow> (404, db)
         | Some c \<Rightarrow>
             if bt_provider (cf_bot c) \<noteq> ProviderTelegram then (400, db)
             else (case req of
                None \<Rightarrow> (400, db)
              | Some token0 \<Rightarrow>
                  (case (if TrimSpace token0 = [] then map_sum id ta_token (Credential env i db) else Inr (TrimSpace token0)) of
                     Inl _ \<Rightarrow> (400, db)
                   | Inr token \<Rightarrow> telegramDiscovery env discover token (bt_dns (cf_bot c)) i db))))"

text \<open>The test message goes to the targets in turn until one fails.\<close>

definition Test_bot :: "bot_env \<Rightarrow> (target \<Rightarrow> bool) \<Rightarrow> int \<Rightarrow> bot_db \<Rightarrow> (bot_error option \<times> bool) \<times> target list" where
  "Test_bot env delivered i db =
     (case BotByID i db of
        None \<Rightarrow> ((Some ErrNotFound, False), [])
      | Some c \<Rightarrow>
          if \<not> bt_enabled (cf_bot c) then ((Some ErrDisabled, False), [])
          else (case Targets env i db of
            Inl e \<Rightarrow> ((Some e, False), [])
          | Inr [] \<Rightarrow> ((Some ErrNoDestinations, False), [])
          | Inr ts \<Rightarrow> ((None, list_all delivered ts),
              takeWhile delivered ts @ take 1 (dropWhile delivered ts))))"

definition handleBotTest :: "bot_env \<Rightarrow> (target \<Rightarrow> bool) \<Rightarrow> string \<Rightarrow> bot_db \<Rightarrow> nat" where
  "handleBotTest env delivered path db =
     (case botID path of
        None \<Rightarrow> 400
      | Some i \<Rightarrow>
          (case fst (Test_bot env delivered i db) of
             (Some e, _) \<Rightarrow> if e = ErrNotFound then 404 else if e = ErrDisabled \<or> e = ErrNoDestinations then 409 else 502
           | (None, ok) \<Rightarrow> if ok then 200 else 502))"

section \<open>Messages\<close>

text \<open>The targets a message about an event goes to.\<close>

definition Notify :: "bot_env \<Rightarrow> bot_event \<Rightarrow> bot_db \<Rightarrow> target list" where
  "Notify env e db = (case TargetsFor env e db of Inl _ \<Rightarrow> [] | Inr ts \<Rightarrow> ts)"

text \<open>The lifecycle of the server as the bots tell it: the flags of \<open>App\<close>, and what is sent.\<close>

record bot_lifecycle =
  bl_saw_online :: bool
  bl_ready_sent :: bool
  bl_stopped_sent :: bool

definition fresh_lifecycle :: bot_lifecycle where
  "fresh_lifecycle = \<lparr>bl_saw_online = False, bl_ready_sent = False, bl_stopped_sent = False\<rparr>"

datatype lifecycle_event = MarkReady | Observe string

datatype lifecycle_message = ToldStarted | ToldStopped string

definition markBotReady :: "bot_lifecycle \<Rightarrow> bot_lifecycle \<times> lifecycle_message list" where
  "markBotReady l =
     (if bl_ready_sent l then (l, [])
      else (\<lparr>bl_saw_online = True, bl_ready_sent = True, bl_stopped_sent = False\<rparr>, [ToldStarted]))"

definition observeBotLifecycle :: "string \<Rightarrow> bot_lifecycle \<Rightarrow> bot_lifecycle \<times> lifecycle_message list" where
  "observeBotLifecycle state l =
     (if state = ''starting'' \<or> state = ''running''
      then ((if bl_saw_online l then l else l\<lparr>bl_ready_sent := False, bl_stopped_sent := False\<rparr>)\<lparr>bl_saw_online := True\<rparr>, [])
      else if state = ''stopping'' \<or> state = ''restarting'' \<or> state = ''stopped'' \<or> state = ''crashed''
      then (if bl_saw_online l \<and> \<not> bl_stopped_sent l
            then (l\<lparr>bl_stopped_sent := True, bl_saw_online := False\<rparr>, [ToldStopped state])
            else (l\<lparr>bl_saw_online := False\<rparr>, []))
      else (l, []))"

fun tell_step :: "bot_lifecycle \<times> lifecycle_message list \<Rightarrow> lifecycle_event \<Rightarrow> bot_lifecycle \<times> lifecycle_message list" where
  "tell_step (l, out) MarkReady = (case markBotReady l of (l', ms) \<Rightarrow> (l', out @ ms))"
| "tell_step (l, out) (Observe s) = (case observeBotLifecycle s l of (l', ms) \<Rightarrow> (l', out @ ms))"

end
