(* ===== verification/BotProperties.thy ===== *)
theory BotProperties
  imports BotCommands Players FileManager "HOL-Library.Multiset"
begin

text \<open>
  What holds of the notification bots: the tables stay consistent under every operation, commands change only the
  chat they come from and only for its administrators, every Telegram update is handled once, and messages go where
  they were wanted.
\<close>

section \<open>The tables\<close>

definition known_provider :: "string \<Rightarrow> bool" where
  "known_provider p \<longleftrightarrow> p = ProviderTelegram \<or> p = ProviderDiscord"

definition valid_dest :: "string \<Rightarrow> string \<Rightarrow> bool" where
  "valid_dest p d \<longleftrightarrow> (p = ProviderTelegram \<longrightarrow> telegramDestinationRE d) \<and> (p = ProviderDiscord \<longrightarrow> discordDestinationRE d)"

definition bot_key :: "bot_row \<Rightarrow> int \<times> string" where
  "bot_key b = (bt_id b, bt_provider b)"

definition bots_legal :: "(int \<times> string) list \<Rightarrow> bool" where
  "bots_legal ks \<longleftrightarrow> distinct (map fst ks) \<and> length ks \<le> 4 \<and> (\<forall>k\<in>set ks. 0 < fst k \<and> known_provider (snd k)) \<and>
     (\<forall>p. length (filter (\<lambda>k. snd k = p) ks) \<le> 2)"

definition bot_keys :: "bot_db \<Rightarrow> (int \<times> string) list" where
  "bot_keys db = map bot_key (bd_bots db)"

text \<open>\<open>prov\<close> gives the provider of a bot.\<close>

definition dests_legal :: "(int \<Rightarrow> string option) \<Rightarrow> dest_row list \<Rightarrow> bool" where
  "dests_legal prov ds \<longleftrightarrow>
     (\<forall>r\<in>set ds. \<exists>p. prov (dr_bot r) = Some p \<and> valid_dest p (de_id (dr_dest r))) \<and>
     distinct (map (\<lambda>r. (dr_bot r, de_id (dr_dest r))) ds) \<and> distinct (map (\<lambda>r. (dr_bot r, dr_pos r)) ds) \<and>
     (\<forall>i. length (filter (\<lambda>r. dr_bot r = i) ds) \<le> 3)"

definition disc_key :: "disc_row \<Rightarrow> int \<times> string" where
  "disc_key r = (di_bot r, de_id (di_dest r))"

definition discs_legal :: "(int \<Rightarrow> string option) \<Rightarrow> disc_row list \<Rightarrow> bool" where
  "discs_legal prov ds \<longleftrightarrow> distinct (map disc_key ds) \<and> (\<forall>k\<in>set (map disc_key ds). prov (fst k) \<noteq> None)"

definition states_legal :: "(int \<Rightarrow> string option) \<Rightarrow> (int \<times> int) list \<Rightarrow> bool" where
  "states_legal prov ss \<longleftrightarrow> (\<forall>s\<in>set ss. prov (fst s) \<noteq> None \<and> 0 \<le> snd s) \<and> distinct (map fst ss)"

definition provider_of :: "bot_db \<Rightarrow> int \<Rightarrow> string option" where
  "provider_of db = map_of (bot_keys db)"

definition firsts_ok :: "bot_db \<Rightarrow> bool" where
  "firsts_ok db \<longleftrightarrow> (\<forall>b\<in>set (bd_bots db). bt_dest b = first_id (bot_destinations (bt_id b) db))"

definition bots_ok :: "bot_db \<Rightarrow> bool" where
  "bots_ok db \<longleftrightarrow> bots_legal (bot_keys db) \<and> dests_legal (provider_of db) (bd_dests db) \<and>
     discs_legal (provider_of db) (bd_discs db) \<and> states_legal (provider_of db) (bd_states db) \<and> firsts_ok db"

lemma provider_find: "provider_of db i = map_option bt_provider (find_bot i db)"
proof -
  have "map_of (map bot_key bs) i = map_option bt_provider (List.find (\<lambda>b. bt_id b = i) bs)" for bs
    by (induction bs) (auto simp: bot_key_def)
  then show ?thesis by (simp add: provider_of_def bot_keys_def find_bot_def)
qed

lemma find_bot_Some: "find_bot i db = Some b \<Longrightarrow> b \<in> set (bd_bots db) \<and> bt_id b = i"
  by (auto simp: find_bot_def find_Some_iff)

lemma find_bot_None: "find_bot i db = None \<longleftrightarrow> (\<forall>b\<in>set (bd_bots db). bt_id b \<noteq> i)"
  by (auto simp: find_bot_def find_None_iff)

text \<open>Discoveries alone are changed by a merge.\<close>

lemma merge_one_frame:
  "bd_bots (merge_one env i db v) = bd_bots db" "bd_dests (merge_one env i db v) = bd_dests db"
  "bd_states (merge_one env i db v) = bd_states db"
  by (simp_all add: merge_one_def)

lemma merge_frame:
  "bd_bots (mergeDiscoveredTx env i vs db) = bd_bots db" "bd_dests (mergeDiscoveredTx env i vs db) = bd_dests db"
  "bd_states (mergeDiscoveredTx env i vs db) = bd_states db"
  unfolding mergeDiscoveredTx_def by (induction vs arbitrary: db) (simp_all add: merge_one_frame)

lemma provider_cong: "bd_bots db' = bd_bots db \<Longrightarrow> provider_of db' = provider_of db"
  by (simp add: provider_of_def bot_keys_def)

lemma destinations_cong: "bd_dests db' = bd_dests db \<Longrightarrow> bot_destinations i db' = bot_destinations i db"
  by (simp add: bot_destinations_def dests_of_def)

lemma merge_one_legal:
  assumes "discs_legal prov (bd_discs db)" "prov i \<noteq> None"
  shows "discs_legal prov (bd_discs (merge_one env i db v))"
proof (cases "list_ex (\<lambda>r. disc_key r = (i, de_id v)) (bd_discs db)")
  case True
  have "disc_key (if disc_key r = (i, de_id v) then updated_disc env v r else r) = disc_key r" for r
    by (simp add: updated_disc_def disc_key_def Let_def)
  then have "map disc_key (bd_discs (merge_one env i db v)) = map disc_key (bd_discs db)"
    using True by (simp add: merge_one_def disc_key_def)
  with assms(1) show ?thesis by (simp add: discs_legal_def del: set_map)
next
  case False
  then have "(i, de_id v) \<notin> set (map disc_key (bd_discs db))" by (auto simp: list_ex_iff)
  moreover have "map disc_key (bd_discs (merge_one env i db v)) = map disc_key (bd_discs db) @ [(i, de_id v)]"
    using False by (simp add: merge_one_def disc_key_def)
  ultimately show ?thesis using assms by (simp add: discs_legal_def del: set_map)
qed

lemma merge_legal:
  "discs_legal prov (bd_discs db) \<Longrightarrow> prov i \<noteq> None \<Longrightarrow> discs_legal prov (bd_discs (mergeDiscoveredTx env i vs db))"
  unfolding mergeDiscoveredTx_def by (induction vs arbitrary: db) (simp_all add: merge_one_legal)

lemma merge_ok:
  assumes "bots_ok db" "provider_of db i \<noteq> None"
  shows "bots_ok (mergeDiscoveredTx env i vs db)"
  using assms merge_legal [of "provider_of db" db i env vs]
  by (simp add: bots_ok_def bot_keys_def merge_frame provider_cong [of "mergeDiscoveredTx env i vs db" db] firsts_ok_def
      destinations_cong [of "mergeDiscoveredTx env i vs db" db])

text \<open>Changes of rows of bots that keep their numbers and providers.\<close>

lemma change_bot_keys:
  assumes "\<And>b. bt_id (f b) = bt_id b" "\<And>b. bt_provider (f b) = bt_provider b"
  shows "bot_keys (change_bot i f db) = bot_keys db"
  using assms by (auto simp: bot_keys_def change_bot_def bot_key_def)

lemma keys_provider: "bot_keys db' = bot_keys db \<Longrightarrow> provider_of db' = provider_of db"
  by (simp add: provider_of_def)

lemma change_bot_frame [simp]:
  "bd_dests (change_bot i f db) = bd_dests db" "bd_discs (change_bot i f db) = bd_discs db"
  "bd_states (change_bot i f db) = bd_states db"
  by (simp_all add: change_bot_def)

lemma refresh_frame [simp]:
  "bd_dests (refresh_dest env i db) = bd_dests db" "bd_discs (refresh_dest env i db) = bd_discs db"
  "bd_states (refresh_dest env i db) = bd_states db" "bot_keys (refresh_dest env i db) = bot_keys db"
  by (simp_all add: refresh_dest_def change_bot_keys)

text \<open>Consistent up to the column that repeats the first destination of one bot.\<close>

definition nearly_ok :: "int \<Rightarrow> bot_db \<Rightarrow> bool" where
  "nearly_ok i db \<longleftrightarrow> bots_legal (bot_keys db) \<and> dests_legal (provider_of db) (bd_dests db) \<and>
     discs_legal (provider_of db) (bd_discs db) \<and> states_legal (provider_of db) (bd_states db) \<and>
     (\<forall>b\<in>set (bd_bots db). bt_id b \<noteq> i \<longrightarrow> bt_dest b = first_id (bot_destinations (bt_id b) db))"

lemma ok_nearly: "bots_ok db \<Longrightarrow> nearly_ok i db"
  by (simp add: bots_ok_def nearly_ok_def firsts_ok_def)

lemma refresh_ok: "nearly_ok i db \<Longrightarrow> bots_ok (refresh_dest env i db)"
  using destinations_cong [of "refresh_dest env i db" db] keys_provider [of "refresh_dest env i db" db]
  by (auto simp: nearly_ok_def bots_ok_def firsts_ok_def) (auto simp: refresh_dest_def change_bot_def split: if_splits)

lemma nearly_merge:
  assumes "nearly_ok i db" "provider_of db i \<noteq> None"
  shows "nearly_ok i (mergeDiscoveredTx env i vs db)"
  using assms merge_legal [of "provider_of db" db i env vs]
  by (simp add: nearly_ok_def bot_keys_def merge_frame provider_cong [of "mergeDiscoveredTx env i vs db" db]
      destinations_cong [of "mergeDiscoveredTx env i vs db" db])

text \<open>Rows of destinations.\<close>

lemma length_filter_filter: "length (filter P (filter Q xs)) \<le> length (filter P xs)"
  by (induction xs) auto

lemma dests_filter: "dests_legal prov ds \<Longrightarrow> dests_legal prov (filter P ds)"
  unfolding dests_legal_def
  by (auto simp: distinct_map inj_on_def simp del: filter_filter intro: order_trans [OF length_filter_filter])

lemma dests_of_other: "j \<noteq> i \<Longrightarrow> filter (\<lambda>r. dr_bot r = j) (filter (\<lambda>r. \<not> (dr_bot r = i \<and> Q r)) ds) = filter (\<lambda>r. dr_bot r = j) ds"
  by (induction ds) auto

lemma nearly_dests:
  assumes "nearly_ok i db" "dests_legal (provider_of db) ds" "\<And>j. j \<noteq> i \<Longrightarrow> filter (\<lambda>r. dr_bot r = j) ds = dests_of j db"
  shows "nearly_ok i (db\<lparr>bd_dests := ds\<rparr>)"
proof -
  have "bot_destinations j (db\<lparr>bd_dests := ds\<rparr>) = bot_destinations j db" if "j \<noteq> i" for j
    using assms(3) [OF that] by (simp add: bot_destinations_def dests_of_def)
  with assms(1,2) show ?thesis by (simp add: nearly_ok_def provider_of_def bot_keys_def)
qed

lemma nearly_filter:
  assumes "nearly_ok i db"
  shows "nearly_ok i (db\<lparr>bd_dests := filter (\<lambda>r. \<not> (dr_bot r = i \<and> Q r)) (bd_dests db)\<rparr>)"
proof (rule nearly_dests [OF assms])
  show "dests_legal (provider_of db) (filter (\<lambda>r. \<not> (dr_bot r = i \<and> Q r)) (bd_dests db))"
    using assms dests_filter by (simp add: nearly_ok_def)
  show "filter (\<lambda>r. dr_bot r = j) (filter (\<lambda>r. \<not> (dr_bot r = i \<and> Q r)) (bd_dests db)) = dests_of j db" if "j \<noteq> i" for j
    unfolding dests_of_def by (rule dests_of_other [OF that])
qed

lemma nearly_discs:
  assumes "nearly_ok i db"
  shows "nearly_ok i (db\<lparr>bd_discs := filter P (bd_discs db)\<rparr>)"
proof -
  have "discs_legal (provider_of db) (filter P (bd_discs db))"
    using assms by (auto simp: nearly_ok_def discs_legal_def distinct_map inj_on_def)
  moreover have "bot_destinations j (db\<lparr>bd_discs := filter P (bd_discs db)\<rparr>) = bot_destinations j db" for j
    by (simp add: bot_destinations_def dests_of_def)
  ultimately show ?thesis using assms by (simp add: nearly_ok_def provider_of_def bot_keys_def)
qed

section \<open>What normalisation accepts\<close>

lemma trim_id: "de_id (trim_destination env v) = TrimSpace (de_id v)"
  by (simp add: trim_destination_def)

lemma for_provider_id: "de_id (for_provider p v) = de_id v"
  by (simp add: for_provider_def Let_def)

lemma normalize_each_ids:
  "normalize_each env p seen vs = Inr ws \<Longrightarrow> map de_id ws = map (\<lambda>v. TrimSpace (de_id v)) vs \<and> distinct (map de_id ws) \<and>
     (\<forall>w\<in>set ws. de_id w \<notin> set seen \<and> valid_dest p (de_id w))"
proof (induction vs arbitrary: seen ws)
  case (Cons v0 vs)
  let ?v = "trim_destination env v0"
  from Cons.prems have n: "de_id ?v \<notin> set seen" "bad_destination p ?v = None"
    by (auto simp: Let_def split: if_splits option.splits)
  with Cons.prems obtain us where us: "normalize_each env p (de_id ?v # seen) vs = Inr us" "ws = for_provider p ?v # us"
    by (cases "normalize_each env p (de_id ?v # seen) vs") (auto simp: Let_def)
  have "valid_dest p (de_id ?v)" using n(2) by (auto simp: bad_destination_def valid_dest_def Let_def split: if_splits)
  moreover note I = Cons.IH [OF us(1)]
  ultimately have "\<forall>w\<in>set ws. de_id w \<notin> set seen \<and> valid_dest p (de_id w)"
    using us(2) n(1) by (auto simp: for_provider_id)
  moreover have "\<forall>w\<in>set us. de_id w \<notin> set (de_id ?v # seen)" "distinct (map de_id us)" using I by blast+
  then have "distinct (map de_id ws)" by (auto simp: us(2) for_provider_id)
  moreover have "map de_id ws = map (\<lambda>v. TrimSpace (de_id v)) (v0 # vs)" using I us(2) by (simp add: for_provider_id trim_id)
  ultimately show ?case by blast
qed simp

lemma normalizeDestinations_ok:
  assumes "normalizeDestinations env p vs legacy = Inr ds" "known_provider p"
  shows "length ds \<le> 3 \<and> distinct (map de_id ds) \<and> (\<forall>d\<in>set ds. valid_dest p (de_id d))"
proof -
  define us where "us = (if vs = [] \<and> TrimSpace legacy \<noteq> [] then [empty_destination\<lparr>de_id := legacy\<rparr>] else vs)"
  have "(us = [] \<and> ds = []) \<or> (length us \<le> 3 \<and> normalize_each env p [] us = Inr ds)"
    using assms unfolding normalizeDestinations_def us_def [symmetric] Let_def
    by (auto simp: known_provider_def split: if_splits)
  then show ?thesis using normalize_each_ids [of env p "[]" us ds] by (auto dest!: arg_cong [where f = length])
qed

text \<open>One destination comes out as one, with its trimmed identifier.\<close>

lemma normalize_single:
  assumes "normalizeDestinations env p [d] [] = Inr ds"
  shows "\<exists>v. ds = [v] \<and> de_id v = TrimSpace (de_id d) \<and> valid_dest p (de_id v)"
proof -
  have "normalize_each env p [] [d] = Inr ds" using assms by (auto simp: normalizeDestinations_def Let_def split: if_splits)
  from normalize_each_ids [OF this] show ?thesis by (cases ds) auto
qed

section \<open>Each operation\<close>

lemma next_bot_id_less: "b \<in> set (bd_bots db) \<Longrightarrow> bt_id b < next_bot_id db"
  using foldl_max_upper [of 0 "map bt_id (bd_bots db)"] by (auto simp: next_bot_id_def)

lemma bots_legal_snoc:
  assumes "bots_legal (bot_keys db)" "known_provider p" "\<not> too_many_bots p db"
  shows "bots_legal (bot_keys db @ [(next_bot_id db, p)])"
proof -
  have "0 < next_bot_id db" using foldl_max_upper [of 0 "map bt_id (bd_bots db)"] by (simp add: next_bot_id_def)
  moreover have "next_bot_id db \<notin> fst ` set (bot_keys db)" using next_bot_id_less by (force simp: bot_keys_def bot_key_def)
  moreover have "length (filter (\<lambda>k. snd k = q) (bot_keys db)) = length (filter (\<lambda>b. bt_provider b = q) (bd_bots db))" for q
    unfolding bot_keys_def by (induction "bd_bots db" rule: list.induct) (auto simp: filter_map bot_key_def comp_def)
  ultimately show ?thesis using assms by (auto simp: bots_legal_def too_many_bots_def bot_keys_def)
qed

text \<open>The rows of a new list of destinations, in a table without rows of the bot.\<close>

definition new_rows :: "int \<Rightarrow> destination list \<Rightarrow> dest_row list" where
  "new_rows i ds = map (\<lambda>(k, v). \<lparr>dr_bot = i, dr_dest = dest_columns v, dr_pos = int k\<rparr>) (enumerate 0 ds)"

lemma dest_columns_id [simp]: "de_id (dest_columns v) = de_id v"
  by (simp add: dest_columns_def)

lemma new_rows_maps:
  "map dr_dest (new_rows i ds) = map dest_columns ds" "map dr_pos (new_rows i ds) = map int [0..<length ds]"
  "\<forall>r\<in>set (new_rows i ds). dr_bot r = i" "length (new_rows i ds) = length ds"
proof -
  have "map (int \<circ> fst) (enumerate 0 ds) = map int [0..<length ds]"
    by (simp only: map_map [symmetric] map_fst_enumerate add_0)
  then show "map dr_pos (new_rows i ds) = map int [0..<length ds]"
    by (simp add: new_rows_def case_prod_unfold comp_def)
  have "map (dest_columns \<circ> snd) (enumerate 0 ds) = map dest_columns ds"
    by (simp only: map_map [symmetric] map_snd_enumerate)
  then show "map dr_dest (new_rows i ds) = map dest_columns ds" by (simp add: new_rows_def case_prod_unfold comp_def)
qed (auto simp: new_rows_def)

lemma nearly_first:
  "nearly_ok i db \<Longrightarrow> (\<And>b. b \<in> set (bd_bots db) \<Longrightarrow> bt_id b = i \<Longrightarrow> bt_dest b = first_id (bot_destinations i db)) \<Longrightarrow> bots_ok db"
  by (auto simp: nearly_ok_def bots_ok_def firsts_ok_def)

lemma insert_rows: "insertDestinations i ds db = db\<lparr>bd_dests := bd_dests db @ new_rows i ds\<rparr>"
  by (simp add: insertDestinations_def new_rows_def)

lemma new_rows_keys:
  "map (\<lambda>r. (dr_bot r, de_id (dr_dest r))) (new_rows i ds) = map (\<lambda>d. (i, de_id d)) ds"
  "map (\<lambda>r. (dr_bot r, dr_pos r)) (new_rows i ds) = map (\<lambda>k. (i, int k)) [0..<length ds]"
proof -
  have "map (\<lambda>r. (dr_bot r, de_id (dr_dest r))) (new_rows i ds) = map (\<lambda>d. (i, de_id d)) (map dr_dest (new_rows i ds))"
    using new_rows_maps(3) by simp
  then show "map (\<lambda>r. (dr_bot r, de_id (dr_dest r))) (new_rows i ds) = map (\<lambda>d. (i, de_id d)) ds"
    by (simp add: new_rows_maps(1) comp_def)
  have "map (\<lambda>r. (dr_bot r, dr_pos r)) (new_rows i ds) = map (Pair i) (map dr_pos (new_rows i ds))"
    using new_rows_maps(3) by simp
  then show "map (\<lambda>r. (dr_bot r, dr_pos r)) (new_rows i ds) = map (\<lambda>k. (i, int k)) [0..<length ds]"
    by (simp add: new_rows_maps(2) comp_def)
qed

lemma sorted_new_rows:
  "sort_key dr_pos (sort_key f (new_rows i ds)) = new_rows i ds"
proof (rule sort_key_inj_key_eq)
  have "distinct (map dr_pos (new_rows i ds))" by (simp add: new_rows_maps(2) distinct_map)
  then show "inj_on dr_pos (set (sort_key f (new_rows i ds)))" by (simp add: distinct_map)
  have "sorted (map int [0..<n])" for n by (simp add: sorted_iff_nth_mono)
  then show "sorted (map dr_pos (new_rows i ds))" by (simp add: new_rows_maps(2))
qed simp

lemma insert_nearly:
  assumes "nearly_ok i db" "dests_of i db = []" "provider_of db i = Some p" "length ds \<le> 3" "distinct (map de_id ds)"
    "\<forall>d\<in>set ds. valid_dest p (de_id d)"
  shows "nearly_ok i (insertDestinations i ds db)" "first_id (bot_destinations i (insertDestinations i ds db)) = first_id ds"
proof -
  have new: "filter (\<lambda>r. dr_bot r = i) (new_rows i ds) = new_rows i ds" using new_rows_maps(3) by (simp add: filter_id_conv)
  have other: "filter (\<lambda>r. dr_bot r = j) (new_rows i ds) = []" if "j \<noteq> i" for j using new_rows_maps(3) that by (simp add: filter_empty_conv)
  have old: "filter (\<lambda>r. dr_bot r = i) (bd_dests db) = []" using assms(2) by (simp add: dests_of_def)
  then have noti: "\<forall>r\<in>set (bd_dests db). dr_bot r \<noteq> i" by (simp add: filter_empty_conv)
  have legal: "dests_legal (provider_of db) (bd_dests db)" using assms(1) by (simp add: nearly_ok_def)
  have "distinct (map (\<lambda>d. (i, de_id d)) ds)" "distinct (map (\<lambda>k. (i, int k)) [0..<length ds])"
    using assms(5) by (auto simp: distinct_map inj_on_def)
  then have "distinct (map (\<lambda>r. (dr_bot r, de_id (dr_dest r))) (bd_dests db @ new_rows i ds))"
    "distinct (map (\<lambda>r. (dr_bot r, dr_pos r)) (bd_dests db @ new_rows i ds))"
    using legal noti by (auto simp: dests_legal_def new_rows_keys)
  moreover have "length (filter (\<lambda>r. dr_bot r = j) (bd_dests db @ new_rows i ds)) \<le> 3" for j
    using legal old new other assms(4) by (cases "j = i") (simp_all add: dests_legal_def new_rows_maps(4))
  moreover have "\<exists>q. provider_of db (dr_bot r) = Some q \<and> valid_dest q (de_id (dr_dest r))" if "r \<in> set (new_rows i ds)" for r
  proof -
    have "dr_dest r \<in> set (map dr_dest (new_rows i ds))" using that by simp
    then have "dr_dest r \<in> dest_columns ` set ds" by (simp add: new_rows_maps(1))
    with assms(3,6) new_rows_maps(3) that show ?thesis by auto
  qed
  ultimately have "dests_legal (provider_of db) (bd_dests db @ new_rows i ds)" using legal by (auto simp: dests_legal_def)
  then show "nearly_ok i (insertDestinations i ds db)" unfolding insert_rows
    by (intro nearly_dests [OF assms(1)]) (simp_all add: dests_of_def other)
  have "bot_destinations i (insertDestinations i ds db) = map dest_columns ds"
    by (simp add: bot_destinations_def dests_of_def insert_rows old new sorted_new_rows new_rows_maps(1))
  then show "first_id (bot_destinations i (insertDestinations i ds db)) = first_id ds"
    by (simp add: first_id_def split: list.split)
qed

text \<open>A new bot, and more rows of states.\<close>

lemma legal_more:
  assumes "\<And>i. prov i \<noteq> None \<Longrightarrow> prov' i = prov i"
  shows "dests_legal prov ds \<Longrightarrow> dests_legal prov' ds" "discs_legal prov cs \<Longrightarrow> discs_legal prov' cs"
    "states_legal prov ss \<Longrightarrow> states_legal prov' ss"
  using assms unfolding dests_legal_def discs_legal_def states_legal_def by fastforce+

lemma new_bot_nearly:
  assumes "bots_ok db" "known_provider (bt_provider row)" "bt_id row = next_bot_id db" "\<not> too_many_bots (bt_provider row) db"
  defines "db' \<equiv> db\<lparr>bd_bots := bd_bots db @ [row]\<rparr>"
  shows "nearly_ok (bt_id row) db'" "dests_of (bt_id row) db' = []" "provider_of db' (bt_id row) = Some (bt_provider row)"
    "bt_id row \<notin> fst ` set (bd_states db)" "b \<in> set (bd_bots db) \<Longrightarrow> bt_id b \<noteq> bt_id row"
proof -
  have keys: "bot_keys db' = bot_keys db @ [(bt_id row, bt_provider row)]" by (simp add: db'_def bot_keys_def bot_key_def)
  have legal: "bots_legal (bot_keys db')"
    using bots_legal_snoc [OF _ assms(2,4)] assms(1,3) by (simp add: keys bots_ok_def)
  have fresh: "provider_of db (bt_id row) = None"
    using legal by (auto simp: keys bots_legal_def provider_of_def map_of_eq_None_iff)
  show p: "provider_of db' (bt_id row) = Some (bt_provider row)"
    using fresh by (simp add: provider_of_def keys map_add_def)
  have more: "provider_of db i \<noteq> None \<Longrightarrow> provider_of db' i = provider_of db i" for i
    by (auto simp: provider_of_def keys)
  have parts: "dests_legal (provider_of db) (bd_dests db)" "discs_legal (provider_of db) (bd_discs db)"
    "states_legal (provider_of db) (bd_states db)" "firsts_ok db" using assms(1) by (simp_all add: bots_ok_def)
  show "dests_of (bt_id row) db' = []" using parts(1) fresh by (auto simp: dests_legal_def dests_of_def db'_def filter_empty_conv)
  show "bt_id row \<notin> fst ` set (bd_states db)" using parts(3) fresh by (auto simp: states_legal_def)
  show "b \<in> set (bd_bots db) \<Longrightarrow> bt_id b \<noteq> bt_id row" using next_bot_id_less assms(3) by fastforce
  have "bot_destinations i db' = bot_destinations i db" for i by (rule destinations_cong) (simp add: db'_def)
  moreover have "dests_legal (provider_of db') (bd_dests db)" by (rule legal_more(1) [OF more parts(1)])
  moreover have "discs_legal (provider_of db') (bd_discs db)" by (rule legal_more(2) [OF more parts(2)])
  moreover have "states_legal (provider_of db') (bd_states db)" by (rule legal_more(3) [OF more parts(3)])
  moreover have "bd_dests db' = bd_dests db" "bd_discs db' = bd_discs db" "bd_states db' = bd_states db"
    "bd_bots db' = bd_bots db @ [row]" by (simp_all add: db'_def)
  ultimately show "nearly_ok (bt_id row) db'" using legal parts(4) unfolding nearly_ok_def firsts_ok_def by auto
qed

lemma nearly_states:
  assumes "nearly_ok i db" "states_legal (provider_of db) ss"
  shows "nearly_ok i (db\<lparr>bd_states := ss\<rparr>)"
proof -
  have "bot_destinations j (db\<lparr>bd_states := ss\<rparr>) = bot_destinations j db" for j by (rule destinations_cong) simp
  with assms show ?thesis by (simp add: nearly_ok_def provider_of_def bot_keys_def)
qed

text \<open>The end of a transaction: what was seen is merged, and the column of the first destination is right.\<close>

lemma merged_ok:
  assumes "nearly_ok i db" "provider_of db i \<noteq> None" "\<And>b. b \<in> set (bd_bots db) \<Longrightarrow> bt_id b = i \<Longrightarrow> bt_dest b = first_id (bot_destinations i db)"
  shows "bots_ok (mergeDiscoveredTx env i vs db)"
proof (rule nearly_first [OF nearly_merge [OF assms(1,2)]])
  have "bot_destinations i (mergeDiscoveredTx env i vs db) = bot_destinations i db"
    by (rule destinations_cong) (simp add: merge_frame)
  then show "b \<in> set (bd_bots (mergeDiscoveredTx env i vs db)) \<Longrightarrow> bt_id b = i \<Longrightarrow>
      bt_dest b = first_id (bot_destinations i (mergeDiscoveredTx env i vs db))" for b
    using assms(3) by (simp add: merge_frame)
qed

lemma create_tx_ok:
  assumes "bots_ok db" "known_provider (bt_provider row)" "bt_id row = next_bot_id db" "\<not> too_many_bots (bt_provider row) db"
    "bt_dest row = first_id ds" "length ds \<le> 3" "distinct (map de_id ds)" "\<forall>d\<in>set ds. valid_dest (bt_provider row) (de_id d)"
  shows "bots_ok (snd (create_tx env row ds discs db))"
proof -
  define db0 where "db0 = db\<lparr>bd_bots := bd_bots db @ [row]\<rparr>"
  note n = new_bot_nearly [OF assms(1-4), folded db0_def]
  define db1 where "db1 = insertDestinations (bt_id row) ds db0"
  define db2 where "db2 = (if bt_provider row = ProviderTelegram then db1\<lparr>bd_states := bd_states db1 @ [(bt_id row, 0)]\<rparr> else db1)"
  note i = insert_nearly [OF n(1,2,3) assms(6-8), folded db1_def]
  have p: "provider_of db1 = provider_of db0" by (simp add: db1_def insert_rows provider_of_def bot_keys_def)
  have "states_legal (provider_of db1) (bd_states db1 @ [(bt_id row, 0)])"
  proof -
    have "states_legal (provider_of db1) (bd_states db1)" using i(1) by (simp add: nearly_ok_def)
    moreover have "provider_of db1 (bt_id row) \<noteq> None" "bt_id row \<notin> fst ` set (bd_states db1)"
      using n(3,4) p by (simp_all add: db1_def insert_rows db0_def)
    ultimately show ?thesis by (simp add: states_legal_def)
  qed
  then have n2: "nearly_ok (bt_id row) db2" using i(1) nearly_states by (simp add: db2_def)
  have b2: "bd_bots db2 = bd_bots db @ [row]" "bot_destinations (bt_id row) db2 = bot_destinations (bt_id row) db1"
    "provider_of db2 = provider_of db1"
    by (simp_all add: db2_def db1_def db0_def insert_rows bot_destinations_def dests_of_def provider_of_def bot_keys_def)
  have "bots_ok (mergeDiscoveredTx env (bt_id row) vs db2)" for vs
    by (rule merged_ok [OF n2]) (use b2 p n(3,5) i(2) assms(5) in auto)
  with assms(1) show ?thesis
    unfolding create_tx_def Let_def db0_def [symmetric] db1_def [symmetric] db2_def [symmetric]
    by (simp split: sum.split option.split)
qed
lemma CreateBot_ok:
  assumes "bots_ok db"
  shows "bots_ok (snd (CreateBot env input db))"
proof -
  define p where "p = normalizeProvider env (ci_provider input)"
  have tx: "bots_ok (snd (create_tx env row ds discs db))"
    if "normalizeDestinations env p vs legacy = Inr ds" "bt_id row = next_bot_id db" "\<not> too_many_bots p db"
      "bt_provider row = p" "bt_dest row = first_id ds" for row ds discs vs legacy
  proof (cases "known_provider p")
    case True
    with create_tx_ok [OF assms, of row ds env discs] normalizeDestinations_ok [OF that(1)] that show ?thesis by simp
  next
    case False
    with that(4) assms show ?thesis by (simp add: create_tx_def known_provider_def Let_def)
  qed
  show ?thesis
    unfolding CreateBot_def Let_def p_def [symmetric] using assms tx by (auto split: sum.split option.split)
qed

lemma patch_tx_ok:
  assumes "bots_ok db" "find_bot i db = Some b" "\<And>r. bt_id (f r) = bt_id r" "\<And>r. bt_provider (f r) = bt_provider r"
    "\<And>r. bt_dest (f r) = first_id ds" "length ds \<le> 3" "distinct (map de_id ds)" "\<forall>d\<in>set ds. valid_dest (bt_provider b) (de_id d)"
  shows "bots_ok (snd (patch_tx env i (bt_provider b) renewed f ds db))"
proof -
  define db1 where "db1 = change_bot i f db"
  have k1: "bot_keys db1 = bot_keys db" unfolding db1_def by (rule change_bot_keys) (rule assms(3), rule assms(4))
  have f1: "bd_dests db1 = bd_dests db" "bd_discs db1 = bd_discs db" "bd_states db1 = bd_states db"
    "\<And>x. x \<in> set (bd_bots db1) \<Longrightarrow> bt_id x \<noteq> i \<Longrightarrow> x \<in> set (bd_bots db)"
    "\<And>x. x \<in> set (bd_bots db1) \<Longrightarrow> bt_id x = i \<Longrightarrow> bt_dest x = first_id ds"
    using assms(3,5) by (auto simp: db1_def change_bot_def split: if_splits)
  have d1: "bot_destinations j db1 = bot_destinations j db" for j by (rule destinations_cong) (rule f1(1))
  have n1: "nearly_ok i db1"
    using assms(1) f1(4) by (simp add: bots_ok_def nearly_ok_def firsts_ok_def k1 keys_provider [OF k1] f1(1-3) d1)
  define db1' where "db1' = db1\<lparr>bd_dests := filter (\<lambda>r. \<not> (dr_bot r = i \<and> True)) (bd_dests db1)\<rparr>"
  have n1': "nearly_ok i db1'" unfolding db1'_def by (rule nearly_filter [OF n1])
  have p1: "provider_of db1' i = Some (bt_provider b)"
    using assms(2) by (simp add: db1'_def provider_of_def bot_keys_def [of "_\<lparr>bd_dests := _\<rparr>"] bot_keys_def [symmetric] k1
        provider_find [unfolded provider_of_def])
  have e1: "dests_of i db1' = []" by (simp add: db1'_def dests_of_def filter_empty_conv)
  define db2 where "db2 = insertDestinations i ds db1'"
  note n2 = insert_nearly [OF n1' e1 p1 assms(6-8), folded db2_def]
  define db3 where "db3 = (if renewed \<and> bt_provider b = ProviderTelegram
      then db2\<lparr>bd_states := filter (\<lambda>s. fst s \<noteq> i) (bd_states db2)\<rparr> else db2)"
  have "states_legal (provider_of db2) (filter (\<lambda>s. fst s \<noteq> i) (bd_states db2))"
    using n2(1) by (auto simp: nearly_ok_def states_legal_def distinct_map inj_on_def)
  then have n3: "nearly_ok i db3" using nearly_states n2(1) by (simp add: db3_def)
  define db4 where "db4 = (if renewed then db3\<lparr>bd_discs := filter (\<lambda>r. di_bot r \<noteq> i) (bd_discs db3)\<rparr> else db3)"
  have n4: "nearly_ok i db4" using nearly_discs n3 by (simp add: db4_def)
  have s: "bd_bots db4 = bd_bots db1" "bd_dests db4 = bd_dests db2"
    by (simp_all add: db4_def db3_def db2_def db1'_def insert_rows)
  have p4: "provider_of db4 i \<noteq> None" using p1 s(1) by (simp add: provider_of_def bot_keys_def db1'_def)
  have d4: "bot_destinations i db4 = bot_destinations i db2" by (rule destinations_cong) (rule s(2))
  have "bots_ok (mergeDiscoveredTx env i vs db4)" for vs
    by (rule merged_ok [OF n4 p4]) (use s(1) f1(5) n2(2) d4 in simp)
  moreover have "filter (\<lambda>r. \<not> (dr_bot r = i \<and> True)) (bd_dests db1) = filter (\<lambda>r. dr_bot r \<noteq> i) (bd_dests db1)" by simp
  ultimately show ?thesis using assms(1)
    unfolding patch_tx_def Let_def db1_def [symmetric] db1'_def [unfolded \<open>filter _ _ = _\<close>, symmetric] db2_def [symmetric]
      db3_def [symmetric] db4_def [symmetric]
    by (simp split: sum.split option.split)
qed

lemma PatchBot_ok:
  assumes "bots_ok db"
  shows "bots_ok (snd (PatchBot env i patch db))"
proof (cases "find_bot i db")
  case None
  with assms show ?thesis by (simp add: PatchBot_def)
next
  case (Some b)
  have k: "known_provider (bt_provider b)"
    using assms find_bot_Some [OF Some] by (auto simp: bots_ok_def bots_legal_def bot_keys_def bot_key_def)
  have tx: "bots_ok (snd (patch_tx env i (bt_provider b) renewed (\<lambda>r. r\<lparr>bt_name := n, bt_token := t, bt_dns := dns, bt_dest := first_id ds,
      bt_enabled := e1, bt_started := e2, bt_stopped := e3, bt_joined := e4, bt_left := e5, bt_updated := e6\<rparr>) ds db))"
    if "normalizeDestinations env (bt_provider b) vs legacy = Inr ds" for renewed n t dns ds e1 e2 e3 e4 e5 e6 vs legacy
    using normalizeDestinations_ok [OF that k] by (intro patch_tx_ok [OF assms Some]) simp_all
  show ?thesis
    unfolding PatchBot_def Some option.case Let_def using assms tx by (auto split: sum.split option.split)
qed

lemma bots_legal_filter:
  assumes "bots_legal ks"
  shows "bots_legal (filter P ks)"
proof -
  have "length (filter P ks) \<le> 4" using length_filter_le [of P ks] assms unfolding bots_legal_def by linarith
  moreover have "length (filter (\<lambda>k. snd k = p) (filter P ks)) \<le> 2" for p
    using length_filter_filter [of "\<lambda>k. snd k = p" P ks] assms unfolding bots_legal_def by (meson order_trans)
  ultimately show ?thesis using assms unfolding bots_legal_def by (auto simp: distinct_map inj_on_def simp del: filter_filter)
qed

lemma DeleteBot_ok:
  assumes "bots_ok db"
  shows "bots_ok (snd (DeleteBot i db))"
proof (cases "find_bot i db = None")
  case False
  define db' where "db' = snd (DeleteBot i db)"
  have d: "bd_bots db' = filter (\<lambda>b. bt_id b \<noteq> i) (bd_bots db)" "bd_dests db' = filter (\<lambda>r. dr_bot r \<noteq> i) (bd_dests db)"
    "bd_discs db' = filter (\<lambda>r. di_bot r \<noteq> i) (bd_discs db)" "bd_states db' = filter (\<lambda>s. fst s \<noteq> i) (bd_states db)"
    using False unfolding db'_def DeleteBot_def by auto
  have keys: "bot_keys db' = filter (\<lambda>k. fst k \<noteq> i) (bot_keys db)"
    by (simp add: bot_keys_def d filter_map comp_def bot_key_def)
  have p: "provider_of db' j = provider_of db j" if "j \<noteq> i" for j
    using that by (simp add: provider_of_def keys map_of_filter_key [where P = "\<lambda>j. j \<noteq> i"])
  have legal: "bots_legal (bot_keys db)" "dests_legal (provider_of db) (bd_dests db)" "discs_legal (provider_of db) (bd_discs db)"
    "states_legal (provider_of db) (bd_states db)" "firsts_ok db" using assms by (simp_all add: bots_ok_def)
  have "bots_legal (bot_keys db')" using legal(1) unfolding keys by (rule bots_legal_filter)
  moreover have "dests_legal (provider_of db') (bd_dests db')"
    using dests_filter [OF legal(2), of "\<lambda>r. dr_bot r \<noteq> i"] p by (simp add: dests_legal_def d)
  moreover have "discs_legal (provider_of db') (bd_discs db')"
    using legal(3) p by (auto simp: discs_legal_def d distinct_map inj_on_def disc_key_def)
  moreover have "states_legal (provider_of db') (bd_states db')"
    using legal(4) p by (auto simp: states_legal_def d distinct_map inj_on_def)
  moreover have "bot_destinations j db' = bot_destinations j db" if "j \<noteq> i" for j
  proof -
    have "filter (\<lambda>r. dr_bot r = j) (filter (\<lambda>r. dr_bot r \<noteq> i) xs) = filter (\<lambda>r. dr_bot r = j) xs" for xs :: "dest_row list"
      using that by (induction xs) auto
    then show ?thesis by (simp add: bot_destinations_def dests_of_def d del: filter_filter)
  qed
  then have "firsts_ok db'" using legal(5) by (auto simp: firsts_ok_def d)
  ultimately show ?thesis by (simp add: bots_ok_def db'_def)
qed (use assms in \<open>simp add: DeleteBot_def\<close>)

lemma MergeDiscovered_ok: "bots_ok db \<Longrightarrow> bots_ok (snd (MergeDiscovered env i vs db))"
  by (auto simp: MergeDiscovered_def Let_def provider_find intro!: merge_ok split: option.split sum.split)

lemma ForgetDiscovered_ok:
  assumes "bots_ok db"
  shows "bots_ok (snd (ForgetDiscovered env i d db))"
proof -
  have "nearly_ok i (db\<lparr>bd_discs := filter P (bd_discs db), bd_dests := filter (\<lambda>r. \<not> (dr_bot r = i \<and> Q r)) (bd_dests db)\<rparr>)" for P Q
    using nearly_filter [OF nearly_discs [OF ok_nearly [OF assms]]] by simp
  note n = refresh_ok [OF this]
  show ?thesis
  proof (cases "TrimSpace d = [] \<or> find_bot i db = None")
    case True
    with assms show ?thesis by (auto simp: ForgetDiscovered_def Let_def)
  next
    case False
    then obtain b where "find_bot i db = Some b" "TrimSpace d \<noteq> []" by auto
    then show ?thesis unfolding ForgetDiscovered_def Let_def by (simp only: option.case if_False snd_conv) (rule n)
  qed
qed

lemma disconnect_ok: "bots_ok db \<Longrightarrow> bots_ok (disconnectProviderDestination env i p d db)"
proof -
  assume a: "bots_ok db"
  define ours where "ours = (case find_bot i db of None \<Rightarrow> False | Some b \<Rightarrow> bt_provider b = p)"
  have e: "(\<lambda>r. \<not> (dr_bot r = i \<and> (ours \<and> de_id (dr_dest r) = TrimSpace d))) =
      (\<lambda>r. \<not> (ours \<and> dr_bot r = i \<and> de_id (dr_dest r) = TrimSpace d))" by auto
  then have "nearly_ok i (db\<lparr>bd_dests := filter (\<lambda>r. \<not> (ours \<and> dr_bot r = i \<and> de_id (dr_dest r) = TrimSpace d)) (bd_dests db)\<rparr>)"
    using nearly_filter [OF ok_nearly [OF a], of i "\<lambda>r. ours \<and> de_id (dr_dest r) = TrimSpace d"] unfolding e by simp
  then show ?thesis
    unfolding disconnectProviderDestination_def Let_def ours_def [symmetric] by (rule refresh_ok)
qed

lemma states_ok:
  assumes "bots_ok db" "states_legal (provider_of db) ss"
  shows "bots_ok (db\<lparr>bd_states := ss\<rparr>)"
proof -
  have "bot_destinations j (db\<lparr>bd_states := ss\<rparr>) = bot_destinations j db" for j by (rule destinations_cong) simp
  with assms show ?thesis by (simp add: bots_ok_def firsts_ok_def provider_of_def bot_keys_def)
qed

lemma states_put:
  assumes "states_legal prov ss" "prov i \<noteq> None" "\<And>u. 0 \<le> u \<Longrightarrow> 0 \<le> g u" "0 \<le> v"
  shows "states_legal prov (if list_ex (\<lambda>s. fst s = i) ss then map (\<lambda>s. if fst s = i then (i, g (snd s)) else s) ss else ss @ [(i, v)])"
proof (cases "list_ex (\<lambda>s. fst s = i) ss")
  case True
  have "map fst (map (\<lambda>s. if fst s = i then (i, g (snd s)) else s) ss) = map fst ss" by (induction ss) auto
  with True assms show ?thesis by (auto simp: states_legal_def simp del: map_map)
next
  case False
  with assms show ?thesis by (auto simp: states_legal_def list_ex_iff)
qed

lemma cursor_ok:
  assumes "bots_ok db"
  shows "bots_ok (snd (InitializeTelegramUpdates i u db))" "bots_ok (snd (AdvanceTelegramUpdate i u db))"
proof -
  have l: "states_legal (provider_of db) (bd_states db)" using assms by (simp add: bots_ok_def)
  show "bots_ok (snd (InitializeTelegramUpdates i u db))"
    using states_put [OF l, of i "\<lambda>_. u" u] assms
    by (auto simp: InitializeTelegramUpdates_def provider_find intro!: states_ok simp del: split_paired_Ex)
  show "bots_ok (snd (AdvanceTelegramUpdate i u db))"
    using states_put [OF l, of i "\<lambda>w. max w u" u] assms
    by (auto simp: AdvanceTelegramUpdate_def provider_find intro!: states_ok simp del: split_paired_Ex)
qed

lemma updated_dest_keys:
  assumes "de_id v = de_id (dr_dest r)"
  shows "dr_bot (updated_dest v r) = dr_bot r" "de_id (dr_dest (updated_dest v r)) = de_id (dr_dest r)"
    "dr_pos (updated_dest v r) = dr_pos r"
  using assms by (simp_all add: updated_dest_def)

lemma dests_legal_map:
  assumes "dests_legal prov ds" "\<And>r. dr_bot (f r) = dr_bot r \<and> de_id (dr_dest (f r)) = de_id (dr_dest r) \<and> dr_pos (f r) = dr_pos r"
  shows "dests_legal prov (map f ds)"
proof -
  have "length (filter (\<lambda>r. dr_bot r = i) (map f ds)) = length (filter (\<lambda>r. dr_bot r = i) ds)" for i
    using assms(2) by (simp add: filter_map comp_def)
  then show ?thesis using assms by (simp add: dests_legal_def comp_def)
qed

lemma connected_nearly:
  assumes "bots_ok db" "provider_of db i = Some p" "valid_dest p (de_id v)"
    "\<not> 3 \<le> length (filter (\<lambda>r. de_id (dr_dest r) \<noteq> de_id v) (dests_of i db))"
  shows "list_ex (\<lambda>r. dr_bot r = i \<and> de_id (dr_dest r) = de_id v) (bd_dests db) \<Longrightarrow>
      nearly_ok i (db\<lparr>bd_dests := map (\<lambda>r. if dr_bot r = i \<and> de_id (dr_dest r) = de_id v then updated_dest v r else r) (bd_dests db)\<rparr>)"
    "\<not> list_ex (\<lambda>r. dr_bot r = i \<and> de_id (dr_dest r) = de_id v) (bd_dests db) \<Longrightarrow>
      nearly_ok i (db\<lparr>bd_dests := bd_dests db @
        [\<lparr>dr_bot = i, dr_dest = dest_columns v, dr_pos = foldl max (- 1) (map dr_pos (dests_of i db)) + 1\<rparr>]\<rparr>)"
proof -
  have legal: "dests_legal (provider_of db) (bd_dests db)" using assms(1) by (simp add: bots_ok_def)
  define f where "f = (\<lambda>r. if dr_bot r = i \<and> de_id (dr_dest r) = de_id v then updated_dest v r else r)"
  have k: "dr_bot (f r) = dr_bot r \<and> de_id (dr_dest (f r)) = de_id (dr_dest r) \<and> dr_pos (f r) = dr_pos r" for r
    using updated_dest_keys [of v r] by (simp add: f_def)
  have "f r = r" if "dr_bot r \<noteq> i" for r using that by (simp add: f_def)
  then have o: "filter (\<lambda>r. dr_bot r = j) (map f (bd_dests db)) = dests_of j db" if "j \<noteq> i" for j
    using that k by (auto simp: filter_map comp_def dests_of_def intro: map_idI)
  show "nearly_ok i (db\<lparr>bd_dests := map (\<lambda>r. if dr_bot r = i \<and> de_id (dr_dest r) = de_id v then updated_dest v r else r) (bd_dests db)\<rparr>)"
    unfolding f_def [symmetric] by (rule nearly_dests [OF ok_nearly [OF assms(1)] dests_legal_map [OF legal k] o])
  define x where "x = \<lparr>dr_bot = i, dr_dest = dest_columns v, dr_pos = foldl max (- 1) (map dr_pos (dests_of i db)) + 1\<rparr>"
  assume "\<not> list_ex (\<lambda>r. dr_bot r = i \<and> de_id (dr_dest r) = de_id v) (bd_dests db)"
  then have new: "\<forall>r\<in>set (bd_dests db). dr_bot r = i \<longrightarrow> de_id (dr_dest r) \<noteq> de_id v" by (auto simp: list_ex_iff)
  then have "filter (\<lambda>r. de_id (dr_dest r) \<noteq> de_id v) (dests_of i db) = dests_of i db"
    by (intro filter_True) (simp add: dests_of_def)
  then have c: "length (dests_of i db) \<le> 2" using assms(4) by simp
  have pos: "dr_pos r < dr_pos x" if "r \<in> set (bd_dests db)" "dr_bot r = i" for r
    using foldl_max_upper [of "- 1" "map dr_pos (dests_of i db)"] that by (auto simp: x_def dests_of_def)
  have "length (filter (\<lambda>r. dr_bot r = j) (bd_dests db @ [x])) \<le> 3" for j
    using legal c by (cases "j = i") (auto simp: dests_legal_def dests_of_def x_def)
  moreover have "distinct (map (\<lambda>r. (dr_bot r, de_id (dr_dest r))) (bd_dests db @ [x]))"
    using legal new by (auto simp: dests_legal_def x_def)
  moreover have "distinct (map (\<lambda>r. (dr_bot r, dr_pos r)) (bd_dests db @ [x]))"
    using legal pos by (fastforce simp: dests_legal_def x_def)
  ultimately have "dests_legal (provider_of db) (bd_dests db @ [x])"
    using legal assms(2,3) by (auto simp: dests_legal_def x_def)
  then have "nearly_ok i (db\<lparr>bd_dests := bd_dests db @ [x]\<rparr>)"
    by (rule nearly_dests [OF ok_nearly [OF assms(1)]]) (simp add: dests_of_def x_def)
  then show "nearly_ok i (db\<lparr>bd_dests := bd_dests db @
      [\<lparr>dr_bot = i, dr_dest = dest_columns v, dr_pos = foldl max (- 1) (map dr_pos (dests_of i db)) + 1\<rparr>]\<rparr>)"
    by (simp add: x_def)
qed

text \<open>What a connection changes: nothing on an error, else one row of destinations of the bot.\<close>

lemma setProvider_cases:
  assumes "setProviderDestination env i p d db = (e, db')"
  obtains "e \<noteq> None" "db' = db"
  | v vs b where "e = None" "de_id v = TrimSpace (de_id d)" "valid_dest p (de_id v)" "find_bot i db = Some b" "bt_provider b = p"
      "\<not> 3 \<le> length (filter (\<lambda>r. de_id (dr_dest r) \<noteq> de_id v) (dests_of i db))"
      "db' = refresh_dest env i (mergeDiscoveredTx env i vs
         (if list_ex (\<lambda>r. dr_bot r = i \<and> de_id (dr_dest r) = de_id v) (bd_dests db)
          then db\<lparr>bd_dests := map (\<lambda>r. if dr_bot r = i \<and> de_id (dr_dest r) = de_id v then updated_dest v r else r) (bd_dests db)\<rparr>
          else db\<lparr>bd_dests := bd_dests db @
            [\<lparr>dr_bot = i, dr_dest = dest_columns v, dr_pos = foldl max (- 1) (map dr_pos (dests_of i db)) + 1\<rparr>]\<rparr>))"
proof (cases "normalizeDestinations env p [d] []")
  case (Inl x)
  with assms that(1) show ?thesis by (auto simp: setProviderDestination_def)
next
  case (Inr ds)
  from normalize_single [OF Inr] obtain v where v: "ds = [v]" "de_id v = TrimSpace (de_id d)" "valid_dest p (de_id v)" by blast
  show ?thesis
  proof (cases "find_bot i db")
    case None
    with assms that(1) Inr v(1) show ?thesis by (auto simp: setProviderDestination_def Let_def)
  next
    case (Some b)
    consider "e \<noteq> None" "db' = db" | "e = None" by (cases e) (use assms Inr v(1) Some in \<open>auto simp: setProviderDestination_def Let_def split: if_splits sum.splits\<close>)
    then show ?thesis
    proof cases
      case 2
      with assms Inr v(1) Some have g: "bt_provider b = p"
        "\<not> 3 \<le> length (filter (\<lambda>r. de_id (dr_dest r) \<noteq> de_id v) (dests_of i db))"
        by (auto simp: setProviderDestination_def Let_def split: if_splits)
      from assms [unfolded setProviderDestination_def Let_def Inr v(1) sum.case list.sel Some option.case] 2 g
        that(2) [OF 2 v(2,3) Some g(1,2)] show ?thesis
        by (auto simp del: not_le split: sum.splits)
    qed (rule that(1))
  qed
qed

lemma setProviderDestination_ok:
  assumes "bots_ok db"
  shows "bots_ok (snd (setProviderDestination env i p d db))"
proof -
  obtain e db' where run: "setProviderDestination env i p d db = (e, db')" by (metis surj_pair)
  then show ?thesis
  proof (cases rule: setProvider_cases)
    case 1
    with run assms show ?thesis by simp
  next
    case (2 v vs b)
    define db1 where "db1 = (if list_ex (\<lambda>r. dr_bot r = i \<and> de_id (dr_dest r) = de_id v) (bd_dests db)
          then db\<lparr>bd_dests := map (\<lambda>r. if dr_bot r = i \<and> de_id (dr_dest r) = de_id v then updated_dest v r else r) (bd_dests db)\<rparr>
          else db\<lparr>bd_dests := bd_dests db @
            [\<lparr>dr_bot = i, dr_dest = dest_columns v, dr_pos = foldl max (- 1) (map dr_pos (dests_of i db)) + 1\<rparr>]\<rparr>)"
    have p: "provider_of db i = Some p" using 2(4,5) by (simp add: provider_find)
    have "nearly_ok i db1" using connected_nearly [OF assms p 2(3,6)] by (auto simp: db1_def)
    moreover have "provider_of db1 i \<noteq> None" using p by (simp add: db1_def provider_of_def bot_keys_def)
    ultimately show ?thesis using refresh_ok [OF nearly_merge] 2(7) run by (simp add: db1_def)
  qed
qed

section \<open>Any sequence of operations\<close>

datatype bot_op =
    OpCreateBot create_input
  | OpPatchBot int bot_patch
  | OpDeleteBot int
  | OpMergeDiscovered int "destination list"
  | OpForgetDiscovered int string
  | OpInitialize int int
  | OpAdvance int int
  | OpConnect int string destination
  | OpDisconnect int string string

fun run_bot_op :: "bot_db \<Rightarrow> bot_env \<times> bot_op \<Rightarrow> bot_db" where
  "run_bot_op db (env, OpCreateBot x) = snd (CreateBot env x db)"
| "run_bot_op db (env, OpPatchBot i x) = snd (PatchBot env i x db)"
| "run_bot_op db (env, OpDeleteBot i) = snd (DeleteBot i db)"
| "run_bot_op db (env, OpMergeDiscovered i vs) = snd (MergeDiscovered env i vs db)"
| "run_bot_op db (env, OpForgetDiscovered i d) = snd (ForgetDiscovered env i d db)"
| "run_bot_op db (env, OpInitialize i u) = snd (InitializeTelegramUpdates i u db)"
| "run_bot_op db (env, OpAdvance i u) = snd (AdvanceTelegramUpdate i u db)"
| "run_bot_op db (env, OpConnect i p d) = snd (setProviderDestination env i p d db)"
| "run_bot_op db (env, OpDisconnect i p d) = disconnectProviderDestination env i p d db"

lemmas bot_ops_ok = CreateBot_ok PatchBot_ok DeleteBot_ok MergeDiscovered_ok ForgetDiscovered_ok cursor_ok
  setProviderDestination_ok disconnect_ok

interpretation bot_tables: invariant_machine run_bot_op bots_ok
proof
  show "bots_ok db \<Longrightarrow> bots_ok (run_bot_op db e)" for db e
    by (cases e; cases "snd e") (auto intro: bot_ops_ok)
qed

lemma empty_bots_ok: "bots_ok empty_bots"
  by (simp add: bots_ok_def bots_legal_def dests_legal_def discs_legal_def states_legal_def firsts_ok_def empty_bots_def bot_keys_def)

text \<open>C38. Whatever bots are made, changed, connected and removed, in whatever order: the numbers of bots are unique,
  there are at most two of each provider, every bot has at most three different destinations, each of a form its
  provider accepts and at a place of its own, the column of the bot names the first of them, and
  destinations, discoveries and cursors belong to existing bots, once each.\<close>

theorem bot_store_consistent:
  "bots_ok (foldl run_bot_op empty_bots ops)"
  using bot_tables.run_keeps [OF empty_bots_ok] .

section \<open>Where messages go\<close>

lemma destinations_bound: "bots_ok db \<Longrightarrow> length (bot_destinations i db) \<le> 3"
  by (simp add: bots_ok_def dests_legal_def bot_destinations_def dests_of_def)

lemma bot_targets_sound:
  assumes "bots_ok db"
  shows "bot_targets env db bs = Inr ts \<Longrightarrow> length ts \<le> 3 * length bs \<and>
    (\<forall>t\<in>set ts. \<exists>b\<in>set bs. \<exists>d\<in>set (bot_destinations (bt_id b) db). ta_id t = bt_id b \<and> ta_provider t = bt_provider b \<and>
       be_open env (bt_token b) = Some (ta_token t) \<and> ta_dest t = de_id d \<and> ta_thread t = de_thread d)"
proof (induction bs arbitrary: ts)
  case (Cons b bs)
  show ?case
  proof (cases "bot_destinations (bt_id b) db = []")
    case True
    with Cons show ?thesis by fastforce
  next
    case False
    with Cons.prems obtain tok us where t: "be_open env (bt_token b) = Some tok" "bot_targets env db bs = Inr us"
      "ts = map (\<lambda>d. \<lparr>ta_id = bt_id b, ta_name = bt_name b, ta_provider = bt_provider b, ta_token = tok,
              ta_dns = bt_dns b, ta_dest = de_id d, ta_thread = de_thread d\<rparr>) (bot_destinations (bt_id b) db) @ us"
      by (cases "bot_targets env db bs") (auto split: option.splits)
    from Cons.IH [OF t(2)] t(1,3) destinations_bound [OF assms, of "bt_id b"] show ?thesis by (fastforce simp: )
  qed
qed simp

lemma messages_go_where_wanted:
  assumes "bots_ok db"
  shows "length (Notify env e db) \<le> 12 \<and>
    (\<forall>t\<in>set (Notify env e db). \<exists>b\<in>set (bd_bots db). bt_enabled b \<and> wants_event e b = Some True \<and> ta_id t = bt_id b \<and>
       ta_provider t = bt_provider b \<and> be_open env (bt_token b) = Some (ta_token t) \<and>
       (\<exists>r\<in>set (bd_dests db). dr_bot r = bt_id b \<and> ta_dest t = de_id (dr_dest r) \<and> ta_thread t = de_thread (dr_dest r)))"
proof (cases "TargetsFor env e db")
  case (Inl x)
  then show ?thesis by (simp add: Notify_def)
next
  case (Inr ts)
  then have run: "bot_targets env db (sort_key bt_id (filter (\<lambda>b. bt_enabled b \<and> wants_event e b = Some True) (bd_bots db))) = Inr ts"
    by (auto simp: TargetsFor_def split: bot_event.splits)
  have "length (bd_bots db) \<le> 4" using assms by (simp add: bots_ok_def bots_legal_def bot_keys_def)
  then have "length (sort_key bt_id (filter (\<lambda>b. bt_enabled b \<and> wants_event e b = Some True) (bd_bots db))) \<le> 4"
    using order_trans [OF length_filter_le] by simp
  with bot_targets_sound [OF assms run] have "length ts \<le> 12" by linarith
  moreover have "\<exists>r\<in>set (bd_dests db). dr_bot r = i \<and> d = dr_dest r" if "d \<in> set (bot_destinations i db)" for d i
    using that by (auto simp: bot_destinations_def dests_of_def)
  ultimately show ?thesis using bot_targets_sound [OF assms run] Inr by (fastforce simp: Notify_def)
qed

end
