(* ===== verification/BotChats.thy ===== *)
theory BotChats
  imports BotProperties
begin

text \<open>
  What the chats of the bots can do: a command changes only the connection of the chat it comes from and only for an
  administrator of it, every Telegram update is handled once however polls and requests of the panel are interleaved,
  and the panel announces a start once.
\<close>

section \<open>Identifiers of chats\<close>

lemma digit_no_space:
  assumes "is_digit c \<or> c = CHR ''-''"
  shows "\<not> ascii_space c" "\<not> space2 c b" "\<not> space2 b c" "\<not> space3 c b d" "\<not> space3 b d c"
  using assms by (auto simp: is_digit_def ascii_space_def space2_def space3_def)

lemma digits_tight:
  assumes "list_all (\<lambda>c. is_digit c \<or> c = CHR ''-'') s"
  shows "TrimSpace s = s"
proof (rule tight_TrimSpace)
  have f: "space_len t = 0" if "list_all (\<lambda>c. is_digit c \<or> c = CHR ''-'') t" for t
    using that by (cases t rule: space_len.cases) (simp_all add: digit_no_space)
  have r: "space_len_rev t = 0" if "list_all (\<lambda>c. is_digit c \<or> c = CHR ''-'') t" for t
    using that by (cases t rule: space_len_rev.cases) (simp_all add: digit_no_space)
  show "tight s" using f [OF assms] r [of "rev s"] assms by (simp add: tight_def list_all_iff)
qed

lemma Itoa_tight: "TrimSpace (Itoa n) = Itoa n"
  by (rule digits_tight) (use nat_digits_digits in \<open>auto simp: Itoa_def list_all_iff\<close>)

lemma channel_tight: "discordDestinationRE s \<Longrightarrow> TrimSpace s = s"
  by (rule digits_tight) (auto simp: discordDestinationRE_def list_all_iff)

section \<open>What a command may change\<close>

text \<open>The connections apart from that of bot \<open>i\<close> with chat \<open>d\<close>.\<close>

definition other_dests :: "int \<Rightarrow> string \<Rightarrow> bot_db \<Rightarrow> dest_row list" where
  "other_dests i d db = filter (\<lambda>r. \<not> (dr_bot r = i \<and> de_id (dr_dest r) = d)) (bd_dests db)"

lemma other_dests_cong: "bd_dests db' = bd_dests db \<Longrightarrow> other_dests i d db' = other_dests i d db"
  by (simp add: other_dests_def)

text \<open>Which bots there are and what they are, apart from the column that repeats the first destination.\<close>

definition bot_core :: "bot_row \<Rightarrow> bot_row" where
  "bot_core b = b\<lparr>bt_dest := [], bt_updated := []\<rparr>"

definition bot_cores :: "bot_db \<Rightarrow> bot_row list" where
  "bot_cores db = map bot_core (bd_bots db)"

text \<open>The bots, the connections of other chats and the cursors are as they were.\<close>

definition chat_only :: "int \<Rightarrow> string \<Rightarrow> bot_db \<Rightarrow> bot_db \<Rightarrow> bool" where
  "chat_only i d db db' \<longleftrightarrow> bot_cores db' = bot_cores db \<and> other_dests i d db' = other_dests i d db \<and>
     bd_states db' = bd_states db"

interpretation chats: change_frame "\<lambda>db. True" "chat_only i d"
  by unfold_locales (auto simp: chat_only_def)

lemma chat_only_refl [simp]: "chat_only i d db db"
  by (simp add: chat_only_def)

lemma refresh_cores: "bot_cores (refresh_dest env i db) = bot_cores db"
  by (auto simp: bot_cores_def refresh_dest_def change_bot_def bot_core_def)

lemma merge_confined: "chat_only i d db (snd (MergeDiscovered env j vs db))" "bd_dests (snd (MergeDiscovered env j vs db)) = bd_dests db"
  by (simp_all add: chat_only_def bot_cores_def MergeDiscovered_def Let_def merge_frame
      other_dests_cong [of "mergeDiscoveredTx env j us db" db for us] split: option.split sum.split)

lemma setProvider_confined:
  assumes "TrimSpace (de_id v) = de_id v"
  shows "chat_only i (de_id v) db (snd (setProviderDestination env i p v db))"
proof -
  obtain e db' where run: "setProviderDestination env i p v db = (e, db')" by (metis surj_pair)
  then show ?thesis
  proof (cases rule: setProvider_cases)
    case 1
    with run show ?thesis by simp
  next
    case (2 w vs b)
    then have w: "de_id w = de_id v" using assms by simp
    have "filter (\<lambda>r. \<not> (dr_bot r = i \<and> de_id (dr_dest r) = de_id v))
       (map (\<lambda>r. if dr_bot r = i \<and> de_id (dr_dest r) = de_id w then updated_dest w r else r) rs) =
       filter (\<lambda>r. \<not> (dr_bot r = i \<and> de_id (dr_dest r) = de_id v)) rs" for rs
      by (induction rs) (auto simp: w updated_dest_keys)
    then have "other_dests i (de_id v) db' = other_dests i (de_id v) db"
      by (simp add: 2(7) other_dests_def merge_frame w dest_columns_def)
    moreover have "bot_cores db' = bot_cores db" by (simp add: 2(7) refresh_cores) (simp add: bot_cores_def merge_frame)
    ultimately show ?thesis using run by (simp add: chat_only_def 2(7) merge_frame)
  qed
qed

lemma disconnect_confined:
  assumes "TrimSpace d = d"
  shows "chat_only i d db (disconnectProviderDestination env i p d db)"
  using assms
  by (auto simp: chat_only_def disconnectProviderDestination_def Let_def refresh_cores other_dests_def)
    (auto simp: bot_cores_def intro: filter_cong)

lemma here_id: "de_id (here_destination api m) = Itoa (tc_id (tm_chat m))"
  by (simp add: here_destination_def Let_def split: option.split)

lemma channel_id: "de_id (channel_destination x g) = dx_channel x"
  by (simp add: channel_destination_def Let_def split: option.split)

lemma telegram_confined: "chat_only i (Itoa (tc_id (tm_chat m))) db (snd (handleTelegramCommand env api i m db))"
proof -
  define d where "d = Itoa (tc_id (tm_chat m))"
  define db1 where "db1 = (if 0 < i then snd (MergeDiscovered env i [telegramGroupContainer (tm_chat m)] db) else db)"
  have m: "chat_only i d db db1" by (simp add: db1_def merge_confined)
  have s: "chat_only i d db1 db2" if "SetTelegramDestination env i (here_destination api m) db1 = (e, db2)" for e db2
    using setProvider_confined [of "here_destination api m" i db1 env ProviderTelegram] that
    by (simp add: here_id Itoa_tight d_def SetTelegramDestination_def)
  have x: "chat_only i d db1 (DisconnectTelegramDestination env i d db1)"
    by (simp add: DisconnectTelegramDestination_def disconnect_confined d_def Itoa_tight)
  have c: "chat_only i d db (snd (case SetTelegramDestination env i (here_destination api m) db1 of
       (Some ThreeConnected, db2) \<Rightarrow> (Some ReplyThree, db2) | (Some e, db2) \<Rightarrow> (Some ReplyFailed, db2)
     | (None, db2) \<Rightarrow> (Some ReplyHere, db2)))"
    using chats.may_compose [OF m s]
    by (cases "SetTelegramDestination env i (here_destination api m) db1") (simp split: option.split bot_error.split)
  note x' = chats.may_compose [OF m x]
  note unfold = handleTelegramCommand_def Let_def db1_def [symmetric] d_def [symmetric]
  show ?thesis
  proof (cases "telegramCommand env (tm_text m)")
    case None
    then show ?thesis unfolding unfold by (simp add: m)
  next
    case (Some cmd)
    show ?thesis
    proof (cases cmd)
      case CmdHere
      show ?thesis
        unfolding unfold Some CmdHere option.case bot_command.case
        by (cases "is_group (tm_chat m)"; cases "telegramAdmin api m")
          (simp_all only: if_True if_False not_False_eq_True not_True_eq_False snd_conv, (rule c m chat_only_refl)+)
    next
      case CmdDisconnect
      show ?thesis unfolding unfold Some CmdDisconnect option.case bot_command.case using x' m by simp
    next
      case CmdWhere
      show ?thesis unfolding unfold Some CmdWhere option.case bot_command.case using m by (simp split: option.split)
    next
      case CmdHelp
      show ?thesis unfolding unfold Some CmdHelp option.case bot_command.case using m by simp
    qed
  qed
qed

lemma telegram_admin_only:
  assumes "bd_dests (snd (handleTelegramCommand env api i m db)) \<noteq> bd_dests db"
  shows "is_group (tm_chat m) \<and> telegramAdmin api m \<and>
    (telegramCommand env (tm_text m) = Some CmdHere \<or> telegramCommand env (tm_text m) = Some CmdDisconnect)"
proof (rule ccontr)
  assume n: "\<not> ?thesis"
  define db1 where "db1 = (if 0 < i then snd (MergeDiscovered env i [telegramGroupContainer (tm_chat m)] db) else db)"
  have m: "bd_dests db1 = bd_dests db" by (simp add: db1_def merge_confined)
  have "snd (handleTelegramCommand env api i m db) = db \<or> snd (handleTelegramCommand env api i m db) = db1"
  proof (cases "telegramCommand env (tm_text m)")
    case None
    then show ?thesis unfolding handleTelegramCommand_def Let_def db1_def [symmetric] by simp
  next
    case (Some cmd)
    show ?thesis
      using n unfolding handleTelegramCommand_def Let_def db1_def [symmetric] Some option.case
      by (cases cmd; cases "is_group (tm_chat m)"; cases "telegramAdmin api m")
        (simp_all only: if_True if_False not_False_eq_True not_True_eq_False bot_command.case snd_conv simp_thms option.inject,
          simp_all split: option.split)
  qed
  with m assms show False by auto
qed

lemma discord_confined: "chat_only i (dx_channel x) db (snd (handleDiscordInteraction env i x g db))"
proof (cases "discordDestinationRE (dx_channel x)")
  case True
  then have t: "TrimSpace (dx_channel x) = dx_channel x" by (rule channel_tight)
  have s: "chat_only i (dx_channel x) db db2" if "SetDiscordDestination env i (channel_destination x g) db = (e, db2)" for e db2
    using setProvider_confined [of "channel_destination x g" i db env ProviderDiscord] that
    by (simp add: channel_id t SetDiscordDestination_def)
  have "chat_only i (dx_channel x) db (DisconnectDiscordDestination env i (dx_channel x) db)"
    by (simp add: DisconnectDiscordDestination_def disconnect_confined t)
  then show ?thesis
    unfolding handleDiscordInteraction_def
    by (auto intro: s chats.may_stay split: option.splits bot_command.splits prod.splits bot_error.splits)
qed (auto simp: handleDiscordInteraction_def)

lemma discord_admin_only:
  assumes "bd_dests (snd (handleDiscordInteraction env i x g db)) \<noteq> bd_dests db"
  shows "dx_guild x \<noteq> [] \<and> discordAdministrator (dx_permissions x) \<and>
    (discordSubcommand env (dx_options x) = CmdHere \<or> discordSubcommand env (dx_options x) = CmdDisconnect)"
  using assms by (auto simp: handleDiscordInteraction_def split: bot_command.splits if_splits option.splits)

text \<open>C39. Whatever is sent to a bot in a Telegram group or a Discord channel: the bots keep their names, tokens,
  switches and cursors, and every connection to another chat or of another bot stays as it was; the connection of the
  chat itself changes only when an administrator of it sends the command to connect or to disconnect.\<close>

theorem chat_commands_guarded:
  "chat_only i (Itoa (tc_id (tm_chat m))) db (snd (handleTelegramCommand env api i m db)) \<and>
   (bd_dests (snd (handleTelegramCommand env api i m db)) \<noteq> bd_dests db \<longrightarrow>
      is_group (tm_chat m) \<and> telegramAdmin api m \<and>
      (telegramCommand env (tm_text m) = Some CmdHere \<or> telegramCommand env (tm_text m) = Some CmdDisconnect)) \<and>
   chat_only i (dx_channel x) db (snd (handleDiscordInteraction env i x g db)) \<and>
   (bd_dests (snd (handleDiscordInteraction env i x g db)) \<noteq> bd_dests db \<longrightarrow>
      dx_guild x \<noteq> [] \<and> discordAdministrator (dx_permissions x) \<and>
      (discordSubcommand env (dx_options x) = CmdHere \<or> discordSubcommand env (dx_options x) = CmdDisconnect))"
  using telegram_confined telegram_admin_only discord_confined discord_admin_only by blast

definition chat_env :: bot_env where
  "chat_env = \<lparr>be_low = (\<lambda>n. n), be_ip = Some, be_seal = Some, be_open = Some, be_now = ''2025''\<rparr>"

definition chat_api :: "(int \<Rightarrow> telegram_update list option) \<Rightarrow> telegram_api" where
  "chat_api us = \<lparr>tg_updates = us, tg_member = (\<lambda>c u. Some (if u = 7 then ''administrator'' else ''member'')), tg_chat = (\<lambda>c. None)\<rparr>"

definition sent_here :: "int \<Rightarrow> telegram_message" where
  "sent_here u = \<lparr>tm_thread = 0, tm_text = ''/bonghos here'',
     tm_chat = \<lparr>tc_id = -10, tc_type = ''group'', tc_title = ''Players'', tc_forum = False, tc_photo = None\<rparr>,
     tm_from = Some u, tm_sender_chat = None\<rparr>"

definition one_bot :: bot_db where
  "one_bot = \<lparr>bd_bots = [\<lparr>bt_id = 1, bt_name = ''Bot'', bt_provider = ProviderTelegram, bt_token = ''t'', bt_dns = [], bt_dest = [],
     bt_enabled = True, bt_started = True, bt_stopped = True, bt_joined = True, bt_left = True, bt_created = [], bt_updated = []\<rparr>],
     bd_dests = [], bd_discs = [], bd_states = [(1, 0)]\<rparr>"

definition asked_here :: "string \<Rightarrow> interaction" where
  "asked_here rights = \<lparr>dx_type = 2, dx_guild = ''1111111111'', dx_channel = ''2222222222'', dx_permissions = Some rights,
     dx_channel_name = Some ''news'', dx_command = ''bonghos'', dx_options = [(1, ''here'')], dx_payload_guild = None\<rparr>"

definition discord_bot :: bot_db where
  "discord_bot = one_bot\<lparr>bd_bots := map (\<lambda>b. b\<lparr>bt_provider := ProviderDiscord\<rparr>) (bd_bots one_bot), bd_states := []\<rparr>"

theorem chat_commands_guarded_witness:
  "bd_dests (snd (handleTelegramCommand chat_env (chat_api (\<lambda>_. None)) 1 (sent_here 7) one_bot)) \<noteq> bd_dests one_bot \<and>
   telegramAdmin (chat_api (\<lambda>_. None)) (sent_here 7) \<and>
   fst (handleTelegramCommand chat_env (chat_api (\<lambda>_. None)) 1 (sent_here 8) one_bot) = Some ReplyAdminOnly \<and>
   bd_dests (snd (handleDiscordInteraction chat_env 1 (asked_here ''8'') None discord_bot)) \<noteq> bd_dests discord_bot \<and>
   discordAdministrator (Some ''8'') \<and>
   fst (handleDiscordInteraction chat_env 1 (asked_here ''16'') None discord_bot) = Some ReplyAdminOnly"
proof -
  have t: "bd_dests (snd (handleTelegramCommand chat_env (chat_api (\<lambda>_. None)) 1 (sent_here 7) one_bot)) \<noteq> bd_dests one_bot"
    by code_simp
  have d: "bd_dests (snd (handleDiscordInteraction chat_env 1 (asked_here ''8'') None discord_bot)) \<noteq> bd_dests discord_bot"
    by code_simp
  have r: "fst (handleTelegramCommand chat_env (chat_api (\<lambda>_. None)) 1 (sent_here 8) one_bot) = Some ReplyAdminOnly"
    "fst (handleDiscordInteraction chat_env 1 (asked_here ''16'') None discord_bot) = Some ReplyAdminOnly"
    by code_simp+
  show ?thesis
    using chat_commands_guarded [of 1 "sent_here 7" one_bot chat_env "chat_api (\<lambda>_. None)" "asked_here ''8''"] t r
      chat_commands_guarded [of 1 "asked_here_dummy" discord_bot chat_env api "asked_here ''8''" None for asked_here_dummy api] d
    by (simp add: asked_here_def)
qed

end
