(* ===== verification/BotUpdates.thy ===== *)
theory BotUpdates
  imports BotChats
begin

text \<open>
  The cursor of the Telegram updates: each update is handled once, in the order of Telegram, however the rounds of
  polling are interleaved with the requests of the panel and the commands of other bots; and what the panel tells about
  the server.
\<close>

section \<open>Cursors\<close>

definition cursor :: "int \<Rightarrow> bot_db \<Rightarrow> int option" where
  "cursor i db = map_of (bd_states db) i"

text \<open>What Telegram documents of an answer: no update before the offset, in increasing order.\<close>

definition honest_api :: "telegram_api \<Rightarrow> bool" where
  "honest_api api \<longleftrightarrow> (\<forall>off us. tg_updates api off = Some us \<longrightarrow> sorted_wrt (<) (map tu_id us) \<and> (\<forall>u\<in>set us. off \<le> tu_id u))"

lemma telegram_states: "bd_states (snd (handleTelegramCommand env api i m db)) = bd_states db"
  using telegram_confined [of i m db env api] by (simp add: chat_only_def)

lemma telegram_keys: "bot_keys (snd (handleTelegramCommand env api i m db)) = bot_keys db"
proof -
  have "bot_keys db = map bot_key (map bot_core (bd_bots db))" for db by (simp add: bot_keys_def bot_key_def bot_core_def comp_def)
  then show ?thesis using telegram_confined [of i m db env api] by (metis chat_only_def bot_cores_def)
qed

lemma observe_frame:
  "bd_states (observeTelegramMembership env i u db) = bd_states db"
  "bot_keys (observeTelegramMembership env i u db) = bot_keys db"
proof -
  have f: "bd_states (snd (ForgetDiscovered env i d db)) = bd_states db \<and> bot_keys (snd (ForgetDiscovered env i d db)) = bot_keys db" for d
    by (auto simp: ForgetDiscovered_def Let_def bot_keys_def [of "bd_bots_update f db" for f] split: option.split)
      (simp add: bot_keys_def)
  have m: "bd_states (snd (MergeDiscovered env i vs db)) = bd_states db \<and> bot_keys (snd (MergeDiscovered env i vs db)) = bot_keys db" for vs
    by (simp add: MergeDiscovered_def Let_def merge_frame bot_keys_def split: option.split sum.split)
  show "bd_states (observeTelegramMembership env i u db) = bd_states db"
    "bot_keys (observeTelegramMembership env i u db) = bot_keys db"
    using f m by (simp_all add: observeTelegramMembership_def Let_def split: option.split)
qed

lemma cursor_cong: "bd_states db' = bd_states db \<Longrightarrow> cursor i db' = cursor i db"
  by (simp add: cursor_def)

text \<open>The effect of an advance on the cursors.\<close>

lemma map_of_put:
  "map_of (if list_ex (\<lambda>s. fst s = i) ss then map (\<lambda>s. if fst s = i then (i, g (snd s)) else s) ss else ss @ [(i, v)]) j =
     (if j = i then Some (case map_of ss i of None \<Rightarrow> v | Some w \<Rightarrow> g w) else map_of ss j)"
proof (cases "list_ex (\<lambda>s. fst s = i) ss")
  case True
  have "map_of (map (\<lambda>s. if fst s = i then (i, g (snd s)) else s) ss) j = (if j = i then map_option g (map_of ss i) else map_of ss j)"
    by (induction ss) auto
  moreover have "map_of ss i \<noteq> None" using True by (auto simp: map_of_eq_None_iff list_ex_iff image_iff)
  ultimately show ?thesis using True by auto
next
  case False
  then have "map_of ss i = None" by (auto simp: map_of_eq_None_iff list_ex_iff)
  with False show ?thesis by (auto simp: map_add_def split: option.split)
qed

lemma cursor_advance:
  "cursor j (snd (AdvanceTelegramUpdate i u db)) =
     (if i \<le> 0 \<or> u \<le> 0 \<or> find_bot i db = None \<or> j \<noteq> i then cursor j db
      else Some (case cursor i db of None \<Rightarrow> u | Some w \<Rightarrow> max w u))"
  by (auto simp: AdvanceTelegramUpdate_def cursor_def map_of_put [where g = "\<lambda>w. max w u"])

lemma cursor_initialize:
  "cursor j (snd (InitializeTelegramUpdates i u db)) =
     (if i \<le> 0 \<or> u < 0 \<or> find_bot i db = None \<or> j \<noteq> i then cursor j db else Some u)"
  by (auto simp: InitializeTelegramUpdates_def cursor_def map_of_put [where g = "\<lambda>_. u"] split: option.split)

lemma advance_bot_keys: "bot_keys (snd (AdvanceTelegramUpdate i u db)) = bot_keys db"
  by (simp add: AdvanceTelegramUpdate_def bot_keys_def)

lemma find_bot_keys: "bot_keys db' = bot_keys db \<Longrightarrow> find_bot i db' = None \<longleftrightarrow> find_bot i db = None"
  using keys_provider [of db' db] by (metis provider_find option.map_disc_iff)

section \<open>Rounds keep the tables consistent\<close>

lemma observe_ok: "bots_ok db \<Longrightarrow> bots_ok (observeTelegramMembership env i u db)"
  by (simp add: observeTelegramMembership_def Let_def bot_ops_ok split: option.split)

lemma command_ok:
  assumes "bots_ok db"
  shows "bots_ok (snd (handleTelegramCommand env api i m db))"
proof -
  define db1 where "db1 = (if 0 < i then snd (MergeDiscovered env i [telegramGroupContainer (tm_chat m)] db) else db)"
  have m: "bots_ok db1" using assms by (simp add: db1_def bot_ops_ok)
  have c: "bots_ok (snd (case SetTelegramDestination env i (here_destination api m) db1 of
       (Some ThreeConnected, db2) \<Rightarrow> (Some ReplyThree, db2) | (Some e, db2) \<Rightarrow> (Some ReplyFailed, db2)
     | (None, db2) \<Rightarrow> (Some ReplyHere, db2)))"
    using setProviderDestination_ok [OF m, of env i ProviderTelegram "here_destination api m"]
    by (cases "SetTelegramDestination env i (here_destination api m) db1")
      (simp add: SetTelegramDestination_def split: option.split bot_error.split)
  have x: "bots_ok (DisconnectTelegramDestination env i (Itoa (tc_id (tm_chat m))) db1)"
    using m by (simp add: DisconnectTelegramDestination_def disconnect_ok)
  show ?thesis
  proof (cases "telegramCommand env (tm_text m)")
    case None
    with assms m show ?thesis unfolding handleTelegramCommand_def Let_def db1_def [symmetric] by simp
  next
    case (Some cmd)
    note unfold = handleTelegramCommand_def Let_def db1_def [symmetric] Some option.case
    show ?thesis
      unfolding unfold
      by (cases cmd; cases "is_group (tm_chat m)"; cases "telegramAdmin api m")
        (simp_all only: if_True if_False not_False_eq_True not_True_eq_False bot_command.case snd_conv c x m assms,
          simp_all add: m split: option.split)
  qed
qed

text \<open>What one update does before the cursor moves.\<close>

definition handle_one :: "bot_env \<Rightarrow> telegram_api \<Rightarrow> int \<Rightarrow> telegram_update \<Rightarrow> bot_db \<Rightarrow> bot_db" where
  "handle_one env api i u db =
     (let db1 = observeTelegramMembership env i u db
      in case tu_message u of None \<Rightarrow> db1 | Some m \<Rightarrow> snd (handleTelegramCommand env api i m db1))"

lemma handle_one_frame:
  "bd_states (handle_one env api i u db) = bd_states db" "bot_keys (handle_one env api i u db) = bot_keys db"
  "bots_ok db \<Longrightarrow> bots_ok (handle_one env api i u db)"
  by (simp_all add: handle_one_def Let_def telegram_states telegram_keys observe_frame observe_ok command_ok split: option.split)

lemma run_updates_step:
  "run_updates env api i (u # us) db =
     (let db2 = handle_one env api i u db
      in if 0 < tu_id u
         then (case AdvanceTelegramUpdate i (tu_id u) db2 of
                 (Some e, db3) \<Rightarrow> (db3, [u])
               | (None, db3) \<Rightarrow> (case run_updates env api i us db3 of (db4, hs) \<Rightarrow> (db4, u # hs)))
         else (case run_updates env api i us db2 of (db4, hs) \<Rightarrow> (db4, u # hs)))"
  by (simp add: handle_one_def Let_def)

declare run_updates.simps(2) [simp del]

lemma run_updates_all:
  assumes "find_bot i db \<noteq> None" "0 < i" "cursor i db = Some c" "0 \<le> c" "sorted_wrt (<) (map tu_id us)" "\<forall>u\<in>set us. c < tu_id u"
  shows "snd (run_updates env api i us db) = us \<and> bot_keys (fst (run_updates env api i us db)) = bot_keys db \<and>
    cursor i (fst (run_updates env api i us db)) = Some (if us = [] then c else tu_id (last us))"
  using assms
proof (induction us arbitrary: db c)
  case (Cons u us)
  define db2 where "db2 = handle_one env api i u db"
  define db3 where "db3 = snd (AdvanceTelegramUpdate i (tu_id u) db2)"
  have u: "0 < tu_id u" "c < tu_id u" using Cons.prems by auto
  have f: "find_bot i db2 \<noteq> None" using Cons.prems(1) find_bot_keys [of db2 db i] by (simp add: db2_def handle_one_frame)
  then have a: "AdvanceTelegramUpdate i (tu_id u) db2 = (None, db3)"
    using u(1) Cons.prems(2) by (simp add: AdvanceTelegramUpdate_def db3_def)
  have "cursor i db2 = Some c" using Cons.prems(3) cursor_cong [of db2 db i] by (simp add: db2_def handle_one_frame)
  then have c: "cursor i db3 = Some (tu_id u)"
    using u f Cons.prems(2) cursor_advance [of i i "tu_id u" db2] by (simp add: db3_def)
  have k: "bot_keys db3 = bot_keys db" by (simp add: db3_def advance_bot_keys db2_def handle_one_frame)
  have "find_bot i db3 \<noteq> None" using Cons.prems(1) find_bot_keys [OF k] by simp
  then have "snd (run_updates env api i us db3) = us \<and> bot_keys (fst (run_updates env api i us db3)) = bot_keys db3 \<and>
      cursor i (fst (run_updates env api i us db3)) = Some (if us = [] then tu_id u else tu_id (last us))"
    using Cons.IH [OF _ Cons.prems(2) c] u Cons.prems(5) by simp
  moreover have "run_updates env api i (u # us) db =
      (fst (run_updates env api i us db3), u # snd (run_updates env api i us db3))"
    using a u(1) by (simp add: run_updates_step Let_def db2_def [symmetric] case_prod_beta)
  ultimately show ?case using k by simp
qed simp

section \<open>The poller, one step at a time\<close>

text \<open>Where the poller stands in its round: between two bots; taking note of where the updates of a bot with no cursor
  stand; handling the updates of a bot; or about to store the cursor past the update it has just handled. What it holds
  was read at the start of the round, or is the answer of Telegram; requests of the panel can come between any two steps.\<close>

datatype poll_position =
    Idle
  | Between "telegram_state list"
  | Noting telegram_state "telegram_update list" int "telegram_state list"
  | Handling telegram_state "telegram_update list" "telegram_state list"
  | Advancing telegram_state telegram_update "telegram_update list" "telegram_state list"

text \<open>The last component tells the bot and the update whose message was handled in the step, if one was.\<close>

fun poll_step :: "bot_env \<Rightarrow> (int \<Rightarrow> telegram_api) \<Rightarrow> bot_db \<Rightarrow> poll_position \<Rightarrow> bot_db \<times> poll_position \<times> (int \<times> telegram_update) option" where
  "poll_step env api db Idle =
     (case TelegramCommandBots env db of Inl e \<Rightarrow> (db, Idle, None) | Inr ss \<Rightarrow> (db, Between ss, None))"
| "poll_step env api db (Between []) = (db, Idle, None)"
| "poll_step env api db (Between (s # ss)) =
     (case tg_updates (api (ts_bot s)) (ts_last s + 1) of
        None \<Rightarrow> (db, Between ss, None)
      | Some us \<Rightarrow> (db, if ts_initialized s then Handling s us ss else Noting s us (ts_last s) ss, None))"
| "poll_step env api db (Noting s [] latest ss) = (snd (InitializeTelegramUpdates (ts_bot s) latest db), Between ss, None)"
| "poll_step env api db (Noting s (u # us) latest ss) =
     (observeTelegramMembership env (ts_bot s) u db, Noting s us (max latest (tu_id u)) ss, None)"
| "poll_step env api db (Handling s [] ss) = (db, Between ss, None)"
| "poll_step env api db (Handling s (u # us) ss) =
     (handle_one env (api (ts_bot s)) (ts_bot s) u db, if 0 < tu_id u then Advancing s u us ss else Handling s us ss, Some (ts_bot s, u))"
| "poll_step env api db (Advancing s u us ss) =
     (case AdvanceTelegramUpdate (ts_bot s) (tu_id u) db of
        (Some e, db1) \<Rightarrow> (db1, Between ss, None)
      | (None, db1) \<Rightarrow> (db1, Handling s us ss, None))"

text \<open>Left alone, the steps of a round do what \<open>poll_bot\<close> does for each bot, and so the round of
  \<open>pollTelegramCommands\<close>.\<close>

definition alone :: "bot_env \<Rightarrow> (int \<Rightarrow> telegram_api) \<Rightarrow> bot_db \<times> poll_position \<Rightarrow> bot_db \<times> poll_position" where
  "alone env api = (\<lambda>(db, pos). case poll_step env api db pos of (db1, pos1, h) \<Rightarrow> (db1, pos1))"

definition reaches_alone :: "bot_env \<Rightarrow> (int \<Rightarrow> telegram_api) \<Rightarrow> bot_db \<times> poll_position \<Rightarrow> bot_db \<times> poll_position \<Rightarrow> bool" where
  "reaches_alone env api s t \<longleftrightarrow> (\<exists>n. (alone env api ^^ n) s = t)"

lemma reaches_refl: "reaches_alone env api s s"
  unfolding reaches_alone_def by (rule exI [of _ 0]) simp

lemma reaches_step: "reaches_alone env api (alone env api s) t \<Longrightarrow> reaches_alone env api s t"
  unfolding reaches_alone_def by (metis funpow_Suc_right comp_def)

lemma reaches_trans: "reaches_alone env api s t \<Longrightarrow> reaches_alone env api t v \<Longrightarrow> reaches_alone env api s v"
  unfolding reaches_alone_def by (metis funpow_add comp_def)

lemma noting_reaches:
  "reaches_alone env api (db, Noting s us l ss)
     (snd (InitializeTelegramUpdates (ts_bot s) (foldl (\<lambda>l u. max l (tu_id u)) l us)
        (foldl (\<lambda>db u. observeTelegramMembership env (ts_bot s) u db) db us)), Between ss)"
proof (induction us arbitrary: db l)
  case Nil
  show ?case by (rule reaches_step) (simp add: alone_def reaches_refl)
next
  case (Cons u us)
  show ?case by (rule reaches_step) (simp add: alone_def Cons.IH)
qed

lemma handling_reaches:
  "reaches_alone env api (db, Handling s us ss) (fst (run_updates env (api (ts_bot s)) (ts_bot s) us db), Between ss)"
proof (induction us arbitrary: db)
  case Nil
  show ?case by (rule reaches_step) (simp add: alone_def reaches_refl)
next
  case (Cons u us)
  let ?db2 = "handle_one env (api (ts_bot s)) (ts_bot s) u db"
  show ?case
  proof (cases "0 < tu_id u")
    case False
    with Cons.IH [of ?db2] show ?thesis
      by (intro reaches_step [of env api "(db, Handling s (u # us) ss)"]) (simp add: alone_def run_updates_step Let_def case_prod_beta)
  next
    case True
    obtain e db3 where a: "AdvanceTelegramUpdate (ts_bot s) (tu_id u) ?db2 = (e, db3)" by (metis surj_pair)
    show ?thesis
    proof (cases e)
      case None
      with True a Cons.IH [of db3] show ?thesis
        by (intro reaches_step [of env api "(db, Handling s (u # us) ss)"] reaches_step [of env api "(?db2, Advancing s u us ss)"])
          (simp_all add: alone_def run_updates_step Let_def case_prod_beta, (rule reaches_step, simp add: alone_def)?)
    next
      case (Some x)
      with True a show ?thesis
        by (intro reaches_step [of env api "(db, Handling s (u # us) ss)"])
          (simp add: alone_def run_updates_step Let_def, rule reaches_step, simp add: alone_def reaches_refl)
    qed
  qed
qed

lemma between_reaches:
  "reaches_alone env api (db, Between ss) (foldl (\<lambda>db s. fst (poll_bot env (api (ts_bot s)) s db)) db ss, Idle)"
proof (induction ss arbitrary: db)
  case Nil
  show ?case by (rule reaches_step) (simp add: alone_def reaches_refl)
next
  case (Cons s ss)
  have "reaches_alone env api (db, Between (s # ss)) (fst (poll_bot env (api (ts_bot s)) s db), Between ss)"
    by (rule reaches_step)
      (simp add: alone_def poll_bot_def reaches_refl noting_reaches handling_reaches split: option.split)
  with Cons.IH show ?case by (auto intro: reaches_trans)
qed

lemma steps_make_round:
  assumes "TelegramCommandBots env db = Inr ss"
  shows "reaches_alone env api (db, Idle) (pollTelegramCommands env api db, Idle)"
  by (rule reaches_step) (simp add: alone_def assms pollTelegramCommands_def between_reaches)

section \<open>Updates are handled once\<close>

text \<open>A step of the poller, with the answers of that moment for every bot, or a request to the tables. The log of bot
  \<open>i\<close> collects the updates whose messages were handled since the bot was last given a token or removed, since then the
  updates are those of another bot of Telegram.\<close>

datatype chat_event = Polled bot_env "int \<Rightarrow> telegram_api" | Requested bot_env bot_op

type_synonym chat = "bot_db \<times> poll_position \<times> telegram_update list"

fun renews :: "int \<Rightarrow> bot_op \<Rightarrow> bool" where
  "renews i (OpPatchBot j p) \<longleftrightarrow> j = i \<and> pt_token p \<noteq> None"
| "renews i (OpDeleteBot j) \<longleftrightarrow> j = i"
| "renews i op \<longleftrightarrow> False"

fun chat_step :: "int \<Rightarrow> chat \<Rightarrow> chat_event \<Rightarrow> chat" where
  "chat_step i (db, pos, hs) (Polled env api) =
     (case poll_step env api db pos of
        (db1, pos1, h) \<Rightarrow> (db1, pos1, case h of Some (j, u) \<Rightarrow> if j = i then hs @ [u] else hs | None \<Rightarrow> hs))"
| "chat_step i (db, pos, hs) (Requested env op) = (run_bot_op db (env, op), pos, if renews i op then [] else hs)"

text \<open>The poller holds what it read of bot \<open>i\<close> until it is done with it.\<close>

fun holds :: "int \<Rightarrow> poll_position \<Rightarrow> bool" where
  "holds i Idle \<longleftrightarrow> False"
| "holds i (Between ss) \<longleftrightarrow> i \<in> set (map ts_bot ss)"
| "holds i (Noting s us l ss) \<longleftrightarrow> i \<in> set (map ts_bot (s # ss))"
| "holds i (Handling s us ss) \<longleftrightarrow> i \<in> set (map ts_bot (s # ss))"
| "holds i (Advancing s u us ss) \<longleftrightarrow> i \<in> set (map ts_bot (s # ss))"

text \<open>What is asked of the answers: that they are those Telegram documents.\<close>

fun honest_event :: "chat_event \<Rightarrow> bool" where
  "honest_event (Polled env api) \<longleftrightarrow> (\<forall>j. honest_api (api j))"
| "honest_event (Requested env op) \<longleftrightarrow> True"

text \<open>What is asked of the requests: nothing but the poller moves the cursor of the bot, as in the code; and the bot is not
  given a token, nor removed, while the poller holds what it read of it.\<close>

fun moves_cursor :: "int \<Rightarrow> bot_op \<Rightarrow> bool" where
  "moves_cursor i (OpInitialize j u) \<longleftrightarrow> j = i"
| "moves_cursor i (OpAdvance j u) \<longleftrightarrow> j = i"
| "moves_cursor i op \<longleftrightarrow> False"

fun fair_event :: "int \<Rightarrow> chat \<Rightarrow> chat_event \<Rightarrow> bool" where
  "fair_event i s (Polled env api) \<longleftrightarrow> True"
| "fair_event i s (Requested env op) \<longleftrightarrow> \<not> moves_cursor i op \<and> \<not> (renews i op \<and> holds i (fst (snd s)))"

fun fair_run :: "int \<Rightarrow> chat \<Rightarrow> chat_event list \<Rightarrow> bool" where
  "fair_run i s [] \<longleftrightarrow> True"
| "fair_run i s (e # es) \<longleftrightarrow> fair_event i s e \<and> fair_run i (chat_step i s e) es"

text \<open>The updates handled are in order, and the cursor has passed each but the one the poller is about to pass.\<close>

fun being_passed :: "int \<Rightarrow> poll_position \<Rightarrow> telegram_update \<Rightarrow> bool" where
  "being_passed i (Advancing s u us ss) v \<longleftrightarrow> ts_bot s = i \<and> v = u"
| "being_passed i pos v \<longleftrightarrow> False"

fun handled_once :: "int \<Rightarrow> chat \<Rightarrow> bool" where
  "handled_once i (db, pos, hs) \<longleftrightarrow> bots_ok db \<and> sorted_wrt (<) (map tu_id hs) \<and>
     (\<forall>u\<in>set hs. being_passed i pos u \<or> (\<exists>c. cursor i db = Some c \<and> tu_id u \<le> c))"

lemma initialize_keys: "bot_keys (snd (InitializeTelegramUpdates i u db)) = bot_keys db"
  by (simp add: InitializeTelegramUpdates_def bot_keys_def)

lemma states_filter: "j \<noteq> i \<Longrightarrow> map_of (filter (\<lambda>s. fst s \<noteq> j) ss) i = map_of ss i"
  by (induction ss) auto

text \<open>A request leaves the cursor of a bot alone, unless it moves it, gives the bot a token or removes it; a bot that is
  made gets an id of its own.\<close>

definition same_bot :: "int \<Rightarrow> bot_db \<Rightarrow> bot_db \<Rightarrow> bool" where
  "same_bot i db db' \<longleftrightarrow> cursor i db' = cursor i db \<and> (find_bot i db \<noteq> None \<longrightarrow> find_bot i db' \<noteq> None)"

lemma create_cursor:
  assumes "find_bot i db \<noteq> None"
  shows "same_bot i db (snd (CreateBot env x db))"
proof -
  have n: "next_bot_id db \<noteq> i"
  proof -
    obtain b where "b \<in> set (bd_bots db)" "bt_id b = i" using assms by (auto simp: find_bot_None)
    then show ?thesis using next_bot_id_less [of b db] by auto
  qed
  have "same_bot i db (snd (create_tx env row ds discs db))" if "bt_id row = next_bot_id db" for row ds discs
    using n that
    by (auto simp: same_bot_def create_tx_def Let_def cursor_def find_bot_None merge_frame insertDestinations_def map_add_def
        split: sum.split option.split)
  then show ?thesis by (simp add: CreateBot_def Let_def same_bot_def split: sum.split option.split)
qed

lemma patch_cursor:
  assumes "j \<noteq> i \<or> pt_token p = None"
  shows "same_bot i db (snd (PatchBot env j p db))"
proof -
  have t: "same_bot i db (snd (patch_tx env j q r f ds db))" if "j \<noteq> i \<or> \<not> r" "\<And>b. bt_id (f b) = bt_id b" for q r f ds
    using that
    by (auto simp: same_bot_def patch_tx_def Let_def cursor_def find_bot_None merge_frame insertDestinations_def states_filter
        change_bot_def split: sum.split option.split)
  have "same_bot i db db" by (simp add: same_bot_def)
  with t assms show ?thesis by (auto simp: PatchBot_def Let_def split: option.split sum.split intro!: t)
qed

lemma bot_ids_refresh: "map bt_id (bd_bots (refresh_dest env j db)) = map bt_id (bd_bots db)"
  by (simp add: refresh_dest_def change_bot_def)

lemma set_frame: "bd_states (snd (setProviderDestination env j p d db)) = bd_states db"
  "map bt_id (bd_bots (snd (setProviderDestination env j p d db))) = map bt_id (bd_bots db)"
proof -
  obtain e db' where run: "setProviderDestination env j p d db = (e, db')" by (metis surj_pair)
  from run show "bd_states (snd (setProviderDestination env j p d db)) = bd_states db"
    by (cases rule: setProvider_cases) (use run in \<open>simp_all add: merge_frame\<close>)
  from run show "map bt_id (bd_bots (snd (setProviderDestination env j p d db))) = map bt_id (bd_bots db)"
    by (cases rule: setProvider_cases) (use run in \<open>auto simp: merge_frame bot_ids_refresh split: if_splits\<close>)
qed

lemma same_bot_ids:
  assumes "bd_states db' = bd_states db" "map bt_id (bd_bots db') = map bt_id (bd_bots db)"
  shows "same_bot i db db'"
proof -
  have "find_bot i db = None \<longleftrightarrow> i \<notin> set (map bt_id (bd_bots db))" for db by (auto simp: find_bot_None)
  with assms show ?thesis by (simp only: same_bot_def cursor_def) simp
qed

lemma request_cursor:
  assumes "\<not> moves_cursor i op" "\<not> renews i op" "find_bot i db \<noteq> None"
  shows "same_bot i db (run_bot_op db (env, op))"
proof (cases op)
  case (OpCreateBot x)
  with create_cursor [OF assms(3)] show ?thesis by simp
next
  case (OpPatchBot j p)
  with assms patch_cursor [of j i p] show ?thesis by simp
next
  case (OpDeleteBot j)
  with assms show ?thesis by (auto simp: same_bot_def DeleteBot_def cursor_def states_filter find_bot_None)
next
  case (OpMergeDiscovered j vs)
  then show ?thesis by (intro same_bot_ids) (simp_all add: MergeDiscovered_def merge_frame Let_def split: option.split sum.split)
next
  case (OpForgetDiscovered j d)
  then show ?thesis
    by (intro same_bot_ids) (simp_all add: ForgetDiscovered_def bot_ids_refresh Let_def split: option.split)
next
  case (OpInitialize j u)
  with assms show ?thesis by (simp add: same_bot_def cursor_initialize find_bot_keys [OF initialize_keys])
next
  case (OpAdvance j u)
  with assms show ?thesis by (simp add: same_bot_def cursor_advance find_bot_keys [OF advance_bot_keys])
next
  case (OpConnect j p d)
  then show ?thesis by (intro same_bot_ids) (simp_all only: run_bot_op.simps set_frame)
next
  case (OpDisconnect j p d)
  then show ?thesis
    by (intro same_bot_ids) (simp_all add: disconnectProviderDestination_def bot_ids_refresh Let_def)
qed

lemma request_ok: "bots_ok db \<Longrightarrow> bots_ok (run_bot_op db (env, op))"
  by (cases op) (auto intro: bot_ops_ok)

text \<open>The state of a bot as the poll reads it.\<close>

definition state_of :: "bot_db \<Rightarrow> telegram_state \<Rightarrow> bool" where
  "state_of db s \<longleftrightarrow> find_bot (ts_bot s) db \<noteq> None \<and> ts_initialized s = (cursor (ts_bot s) db \<noteq> None) \<and>
     ts_last s = (case cursor (ts_bot s) db of None \<Rightarrow> 0 | Some u \<Rightarrow> u)"

lemma command_states_sound:
  "command_states env db bs = Inr ss \<Longrightarrow> map ts_bot ss = map bt_id bs \<and>
     (\<forall>s\<in>set ss. ts_initialized s = (cursor (ts_bot s) db \<noteq> None) \<and>
        ts_last s = (case cursor (ts_bot s) db of None \<Rightarrow> 0 | Some u \<Rightarrow> u))"
proof (induction bs arbitrary: ss)
  case (Cons b bs)
  from Cons.prems obtain t us where us: "command_states env db bs = Inr us" "be_open env (bt_token b) = Some t"
    "ss = \<lparr>ts_bot = bt_id b, ts_name = bt_name b, ts_token = t, ts_dns = bt_dns b,
       ts_last = (case cursor (bt_id b) db of None \<Rightarrow> 0 | Some u \<Rightarrow> u), ts_initialized = (cursor (bt_id b) db \<noteq> None)\<rparr> # us"
    by (cases "command_states env db bs") (auto simp: Let_def cursor_def split: option.splits)
  with Cons.IH [OF us(1)] show ?case by simp
qed simp

lemma polled_states:
  assumes "bots_ok db" "TelegramCommandBots env db = Inr ss"
  shows "distinct (map ts_bot ss) \<and> (\<forall>s\<in>set ss. state_of db s)"
proof -
  let ?bs = "sort_key bt_id (filter (\<lambda>b. bt_provider b = ProviderTelegram) (bd_bots db))"
  note c = command_states_sound [OF assms(2) [unfolded TelegramCommandBots_def]]
  have "distinct (map bt_id (bd_bots db))" using assms(1) by (simp add: bots_ok_def bots_legal_def bot_keys_def bot_key_def comp_def)
  then have "distinct (map bt_id ?bs)" by (simp add: distinct_map inj_on_def)
  moreover have "find_bot (ts_bot s) db \<noteq> None" if "s \<in> set ss" for s
  proof -
    have "ts_bot s \<in> set (map ts_bot ss)" using that by simp
    also have "\<dots> = set (map bt_id ?bs)" using c by metis
    finally show ?thesis by (auto simp: find_bot_None)
  qed
  ultimately show ?thesis using c by (auto simp: state_of_def)
qed

text \<open>What is kept in between. The updates left to handle are all beyond the cursor.\<close>

definition covers :: "int \<Rightarrow> bot_db \<Rightarrow> telegram_update list \<Rightarrow> bool" where
  "covers i db hs \<longleftrightarrow> (\<forall>u\<in>set hs. \<exists>c. cursor i db = Some c \<and> tu_id u \<le> c)"

definition left_to_handle :: "int \<Rightarrow> bot_db \<Rightarrow> telegram_update list \<Rightarrow> bool" where
  "left_to_handle i db us \<longleftrightarrow> find_bot i db \<noteq> None \<and>
     (\<exists>c. cursor i db = Some c \<and> sorted_wrt (<) (map tu_id us) \<and> (\<forall>u\<in>set us. c < tu_id u))"

definition waiting :: "int \<Rightarrow> bot_db \<Rightarrow> telegram_state list \<Rightarrow> bool" where
  "waiting i db ss \<longleftrightarrow> distinct (map ts_bot ss) \<and> (\<forall>s\<in>set ss. ts_bot s = i \<longrightarrow> state_of db s)"

fun position_ok :: "int \<Rightarrow> chat \<Rightarrow> bool" where
  "position_ok i (db, Idle, hs) \<longleftrightarrow> covers i db hs"
| "position_ok i (db, Between ss, hs) \<longleftrightarrow> covers i db hs \<and> waiting i db ss"
| "position_ok i (db, Noting s us l ss, hs) \<longleftrightarrow> covers i db hs \<and> waiting i db (s # ss) \<and> \<not> ts_initialized s"
| "position_ok i (db, Handling s us ss, hs) \<longleftrightarrow> covers i db hs \<and> waiting i db ss \<and> ts_bot s \<notin> set (map ts_bot ss) \<and>
     (ts_bot s = i \<longrightarrow> left_to_handle i db us)"
| "position_ok i (db, Advancing s u us ss, hs) \<longleftrightarrow> waiting i db ss \<and> ts_bot s \<notin> set (map ts_bot ss) \<and>
     (if ts_bot s = i then 0 < tu_id u \<and> left_to_handle i db (u # us) \<and> hs \<noteq> [] \<and> last hs = u \<and> covers i db (butlast hs)
      else covers i db hs)"

definition chat_ok :: "int \<Rightarrow> chat \<Rightarrow> bool" where
  "chat_ok i s \<longleftrightarrow> bots_ok (fst s) \<and> sorted_wrt (<) (map tu_id (snd (snd s))) \<and> position_ok i s"

lemma chat_ok_handled: "chat_ok i s \<Longrightarrow> handled_once i s"
proof -
  assume ok: "chat_ok i s"
  obtain db pos hs where s: "s = (db, pos, hs)" by (cases s)
  have l: "u \<in> set (butlast hs) \<or> u = last hs" if "u \<in> set hs" for u using that by (induction hs) auto
  have "\<forall>u\<in>set hs. being_passed i pos u \<or> (\<exists>c. cursor i db = Some c \<and> tu_id u \<le> c)"
  proof (cases pos)
    case (Advancing t u us ss)
    show ?thesis
    proof (cases "ts_bot t = i")
      case True
      then have "last hs = u" "covers i db (butlast hs)" using ok s Advancing by (simp_all add: chat_ok_def)
      with True Advancing l show ?thesis unfolding covers_def by (metis being_passed.simps(1))
    qed (use ok s Advancing in \<open>simp add: chat_ok_def covers_def\<close>)
  qed (use ok s in \<open>simp_all add: chat_ok_def covers_def\<close>)
  with ok s show ?thesis by (simp add: chat_ok_def)
qed

text \<open>Nothing of this looks beyond the cursor of the bot and whether there is one.\<close>

lemma parts_kept:
  assumes "find_bot i db \<noteq> None \<Longrightarrow> cursor i db' = cursor i db \<and> find_bot i db' \<noteq> None"
    "\<And>c. cursor i db = Some c \<Longrightarrow> cursor i db' = Some c"
  shows "covers i db hs \<Longrightarrow> covers i db' hs" "left_to_handle i db us \<Longrightarrow> left_to_handle i db' us"
    "waiting i db ss \<Longrightarrow> waiting i db' ss"
proof -
  show "covers i db hs \<Longrightarrow> covers i db' hs" using assms(2) by (fastforce simp: covers_def)
  show "left_to_handle i db us \<Longrightarrow> left_to_handle i db' us" using assms(1) by (auto simp: left_to_handle_def)
  show "waiting i db ss \<Longrightarrow> waiting i db' ss" using assms(1) by (auto simp: waiting_def state_of_def)
qed

lemma position_kept:
  assumes "find_bot i db \<noteq> None \<Longrightarrow> cursor i db' = cursor i db \<and> find_bot i db' \<noteq> None"
    "\<And>c. cursor i db = Some c \<Longrightarrow> cursor i db' = Some c" "position_ok i (db, pos, hs)"
  shows "position_ok i (db', pos, hs)"
proof -
  have c: "covers i db gs \<Longrightarrow> covers i db' gs" and l: "left_to_handle i db us \<Longrightarrow> left_to_handle i db' us"
    and w: "waiting i db ss \<Longrightarrow> waiting i db' ss" for gs us ss
    using parts_kept [OF assms(1,2)] by blast+
  from assms(3) show ?thesis by (cases pos) (simp_all add: c l w split: if_splits)
qed

lemma same_cursor_parts:
  assumes "cursor i db' = cursor i db" "bot_keys db' = bot_keys db"
  shows "covers i db' = covers i db" "left_to_handle i db' = left_to_handle i db" "waiting i db' = waiting i db"
  using assms(1) find_bot_keys [OF assms(2)]
  by (auto simp: covers_def left_to_handle_def waiting_def state_of_def fun_eq_iff)

lemma cursor_found:
  assumes "bots_ok db" "cursor i db = Some c"
  shows "find_bot i db \<noteq> None \<and> 0 < i \<and> 0 \<le> c"
proof -
  have "states_legal (provider_of db) (bd_states db)" using assms(1) by (simp add: bots_ok_def)
  moreover have "(i, c) \<in> set (bd_states db)" using assms(2) by (simp add: cursor_def map_of_SomeD)
  ultimately have f: "provider_of db i \<noteq> None" "0 \<le> c" unfolding states_legal_def by (metis fst_conv, metis snd_conv)
  then obtain b where b: "find_bot i db = Some b" by (auto simp: provider_find)
  from find_bot_Some [OF this] assms(1) have "0 < i" by (auto simp: bots_ok_def bots_legal_def bot_keys_def bot_key_def)
  with f b show ?thesis by simp
qed

text \<open>A request keeps it.\<close>

lemma request_kept:
  assumes "chat_ok i (db, pos, hs)" "fair_event i (db, pos, hs) (Requested env op)"
  shows "chat_ok i (chat_step i (db, pos, hs) (Requested env op))"
proof (cases "renews i op")
  case True
  then have h: "\<not> holds i pos" using assms(2) by simp
  have "position_ok i (run_bot_op db (env, op), pos, [])"
    using h assms(1) by (cases pos) (auto simp: chat_ok_def covers_def waiting_def)
  with True assms(1) show ?thesis by (simp add: chat_ok_def request_ok)
next
  case False
  then have s: "same_bot i db (run_bot_op db (env, op))" if "find_bot i db \<noteq> None"
    using assms(2) that by (intro request_cursor) simp_all
  have ok: "bots_ok db" "position_ok i (db, pos, hs)" using assms(1) by (simp_all add: chat_ok_def)
  have "position_ok i (run_bot_op db (env, op), pos, hs)"
    by (rule position_kept [OF _ _ ok(2)]) (use s cursor_found [OF ok(1)] in \<open>auto simp: same_bot_def\<close>)
  with False assms(1) show ?thesis by (simp add: chat_ok_def request_ok)
qed

text \<open>So does a step of the poller.\<close>

lemma waiting_other:
  assumes "waiting i db ss" "\<And>j. j \<noteq> k \<Longrightarrow> cursor j db' = cursor j db" "bot_keys db' = bot_keys db" "k \<notin> set (map ts_bot ss)"
  shows "waiting i db' ss"
  using assms(1,4) assms(2) find_bot_keys [OF assms(3)] by (fastforce simp: waiting_def state_of_def image_iff)

lemma noted_kept:
  assumes "chat_ok i (db, Noting s [] l ss, hs)"
  shows "chat_ok i (chat_step i (db, Noting s [] l ss, hs) (Polled env api))"
proof -
  let ?db = "snd (InitializeTelegramUpdates (ts_bot s) l db)"
  have ok: "bots_ok db" "covers i db hs" "waiting i db (s # ss)" "\<not> ts_initialized s" using assms by (simp_all add: chat_ok_def)
  have "waiting i ?db ss"
    by (rule waiting_other [where k = "ts_bot s" and db = db])
      (use ok(3) in \<open>simp_all add: waiting_def cursor_initialize initialize_keys\<close>)
  moreover have "covers i ?db hs"
  proof (cases "ts_bot s = i")
    case True
    then have "cursor i db = None" using ok(3,4) by (simp add: waiting_def state_of_def)
    with ok(2) show ?thesis by (simp add: covers_def)
  next
    case False
    with ok(2) show ?thesis by (simp add: covers_def cursor_initialize)
  qed
  ultimately show ?thesis using assms cursor_ok(1) [OF ok(1)] by (simp add: chat_ok_def)
qed

lemma advanced_kept:
  assumes "chat_ok i (db, Advancing s u us ss, hs)"
  shows "chat_ok i (chat_step i (db, Advancing s u us ss, hs) (Polled env api))"
proof -
  obtain e db1 where a: "AdvanceTelegramUpdate (ts_bot s) (tu_id u) db = (e, db1)" by (metis surj_pair)
  then have db1: "db1 = snd (AdvanceTelegramUpdate (ts_bot s) (tu_id u) db)" by simp
  have ok: "bots_ok db" "waiting i db ss" "ts_bot s \<notin> set (map ts_bot ss)" "sorted_wrt (<) (map tu_id hs)"
    using assms by (simp_all add: chat_ok_def)
  have o: "bots_ok db1" using cursor_ok(2) [OF ok(1)] by (simp add: db1)
  have w: "waiting i db1 ss"
    by (rule waiting_other [OF ok(2) _ _ ok(3)]) (simp_all add: db1 cursor_advance advance_bot_keys)
  have kept: "covers i db1 hs \<and> (ts_bot s = i \<longrightarrow> e = None \<and> left_to_handle i db1 us)"
  proof (cases "ts_bot s = i")
    case False
    with assms show ?thesis by (simp add: chat_ok_def covers_def db1 cursor_advance)
  next
    case True
    with assms have p: "0 < tu_id u" "left_to_handle i db (u # us)" "hs \<noteq> []" "last hs = u" "covers i db (butlast hs)"
      by (simp_all add: chat_ok_def)
    from p(2) obtain c where c: "find_bot i db \<noteq> None" "cursor i db = Some c" "sorted_wrt (<) (map tu_id (u # us))" "c < tu_id u"
      by (auto simp: left_to_handle_def)
    have i: "0 < i" using cursor_found [OF ok(1) c(2)] by simp
    have e: "e = None" using a True i p(1) c(1) by (auto simp: AdvanceTelegramUpdate_def)
    have c1: "cursor i db1 = Some (tu_id u)" using True i p(1) c by (simp add: db1 cursor_advance)
    have "find_bot i db1 \<noteq> None" using c(1) find_bot_keys [OF advance_bot_keys] by (simp add: db1)
    with c1 c(3) have l: "left_to_handle i db1 us" by (simp add: left_to_handle_def)
    have "tu_id v \<le> tu_id u" if "v \<in> set hs" for v
    proof (cases "v \<in> set (butlast hs)")
      case True
      with p(5) c(2,4) show ?thesis by (fastforce simp: covers_def)
    next
      case False
      have "hs = butlast hs @ [u]" using p(3,4) by (metis append_butlast_last_id)
      with False that have "v = u" by (metis in_set_conv_decomp rotate1.simps(2) set_ConsD set_rotate1)
      then show ?thesis by simp
    qed
    with c1 l e show ?thesis by (simp add: covers_def)
  qed
  show ?thesis using a o w ok kept by (cases e) (auto simp: chat_ok_def)
qed

lemma handled_kept:
  assumes "chat_ok i (db, Handling s (u # us) ss, hs)"
  shows "chat_ok i (chat_step i (db, Handling s (u # us) ss, hs) (Polled env api))"
proof -
  let ?db = "handle_one env (api (ts_bot s)) (ts_bot s) u db"
  have ok: "bots_ok db" "covers i db hs" "waiting i db ss" "ts_bot s \<notin> set (map ts_bot ss)" "sorted_wrt (<) (map tu_id hs)"
    using assms by (simp_all add: chat_ok_def)
  have cur: "cursor i ?db = cursor i db" by (rule cursor_cong) (simp add: handle_one_frame)
  note same = same_cursor_parts [OF cur handle_one_frame(2)]
  have o: "bots_ok ?db" using ok(1) by (simp add: handle_one_frame)
  show ?thesis
  proof (cases "ts_bot s = i")
    case False
    with ok o show ?thesis by (simp add: chat_ok_def same)
  next
    case True
    with assms have l: "left_to_handle i db (u # us)" by (simp add: chat_ok_def)
    then obtain c where c: "cursor i db = Some c" "c < tu_id u" by (auto simp: left_to_handle_def)
    then have "0 < tu_id u" using cursor_found [OF ok(1) c(1)] by simp
    moreover have "\<forall>v\<in>set hs. tu_id v < tu_id u" using ok(2) c by (fastforce simp: covers_def)
    ultimately show ?thesis using True ok o l same by (simp add: chat_ok_def sorted_wrt_append)
  qed
qed

lemma polled_kept:
  assumes "chat_ok i (db, pos, hs)" "\<And>j. honest_api (api j)"
  shows "chat_ok i (chat_step i (db, pos, hs) (Polled env api))"
proof (cases pos)
  case Idle
  show ?thesis
  proof (cases "TelegramCommandBots env db")
    case (Inr ss)
    with polled_states [of db env ss] assms(1) Idle show ?thesis by (simp add: chat_ok_def waiting_def)
  qed (use assms(1) Idle in simp)
next
  case (Between ss)
  show ?thesis
  proof (cases ss)
    case (Cons s ts)
    with Between assms(1) have ok: "bots_ok db" "covers i db hs" "waiting i db (s # ts)" "sorted_wrt (<) (map tu_id hs)"
      by (simp_all add: chat_ok_def)
    have "left_to_handle i db us" if "ts_bot s = i" "ts_initialized s" "tg_updates (api i) (ts_last s + 1) = Some us" for us
    proof -
      have st: "state_of db s" using ok(3) that(1) by (simp add: waiting_def)
      with that obtain c where c: "cursor i db = Some c" "ts_last s = c" by (auto simp: state_of_def)
      from assms(2) [of i] that(3) have "sorted_wrt (<) (map tu_id us)" "\<forall>u\<in>set us. c + 1 \<le> tu_id u"
        by (auto simp: honest_api_def c(2))
      with c st that(1) show ?thesis by (auto simp: left_to_handle_def state_of_def)
    qed
    with Between Cons ok show ?thesis by (auto simp: chat_ok_def waiting_def split: option.split)
  qed (use assms(1) Between in \<open>simp add: chat_ok_def\<close>)
next
  case (Noting s us l ss)
  show ?thesis
  proof (cases us)
    case Nil
    with Noting assms(1) noted_kept show ?thesis by simp
  next
    case (Cons u vs)
    have "cursor i (observeTelegramMembership env (ts_bot s) u db) = cursor i db" by (rule cursor_cong) (simp add: observe_frame)
    note same_cursor_parts [OF this observe_frame(2)]
    with Noting Cons assms(1) show ?thesis by (simp add: chat_ok_def observe_ok)
  qed
next
  case (Handling s us ss)
  show ?thesis
  proof (cases us)
    case (Cons u vs)
    with assms(1) Handling handled_kept show ?thesis by simp
  qed (use assms(1) Handling in \<open>simp add: chat_ok_def\<close>)
next
  case (Advancing s u us ss)
  with assms(1) advanced_kept show ?thesis by simp
qed

lemma chat_step_kept: "chat_ok i s \<Longrightarrow> honest_event e \<Longrightarrow> fair_event i s e \<Longrightarrow> chat_ok i (chat_step i s e)"
  by (cases s; cases e) (auto simp del: chat_step.simps intro: request_kept polled_kept)

lemma chat_run_kept: "chat_ok i s \<Longrightarrow> \<forall>e\<in>set es. honest_event e \<Longrightarrow> fair_run i s es \<Longrightarrow> chat_ok i (foldl (chat_step i) s es)"
  by (induction es arbitrary: s) (simp_all add: chat_step_kept)

lemma chat_start_ok: "chat_ok i (empty_bots, Idle, [])"
  by (simp add: chat_ok_def covers_def empty_bots_ok)

text \<open>C40. The poller and the requests of the panel are interleaved at will, a request between any two steps of a round:
  between the reading of the cursors and the asking, between the handling of an update and the storing of the cursor. Then
  from an empty installation on, the updates of a bot whose messages were handled since it last got its token are in
  strictly increasing order, so that none was handled twice, and the stored cursor has passed each of them, save the one
  the poller has handled and is about to pass; provided that Telegram answers as it documents, in increasing order and with
  no update before the offset asked for, that only the poller, of which there is one, moves the cursor, and that the bot is
  neither given a token nor removed while the poller holds what it read of it.\<close>

theorem updates_handled_once:
  assumes "\<forall>e\<in>set es. honest_event e" "fair_run i (empty_bots, Idle, []) es"
  shows "handled_once i (foldl (chat_step i) (empty_bots, Idle, []) es)"
  by (rule chat_ok_handled [OF chat_run_kept [OF chat_start_ok assms]])

definition update_of :: "string \<Rightarrow> int \<Rightarrow> telegram_update" where
  "update_of txt n = \<lparr>tu_id = n, tu_message = Some ((sent_here 7)\<lparr>tm_text := txt\<rparr>), tu_member = None\<rparr>"

text \<open>Telegram keeps its updates until they are acknowledged by a higher offset.\<close>

definition keeping_api :: "int list \<Rightarrow> telegram_api" where
  "keeping_api ns = chat_api (\<lambda>off. Some (filter (\<lambda>u. off \<le> tu_id u) (map (update_of ''hello'') ns)))"

lemma keeping_honest: "sorted_wrt (<) ns \<Longrightarrow> honest_api (keeping_api ns)"
proof -
  have "sorted_wrt (<) (map tu_id (filter P (map (update_of t) ns)))" if "sorted_wrt (<) ns" for P t
    using that by (induction ns) (auto simp: update_of_def)
  then show "sorted_wrt (<) ns \<Longrightarrow> honest_api (keeping_api ns)" by (auto simp: honest_api_def keeping_api_def chat_api_def)
qed

definition telegram_input :: create_input where
  "telegram_input = \<lparr>ci_name = ''B'', ci_provider = ''telegram'', ci_token = ''12345678:abcdefghijkl'', ci_dns = [], ci_dest = [],
     ci_dests = [], ci_discs = [], ci_enabled = True, ci_started = True, ci_stopped = True, ci_joined = True, ci_left = True\<rparr>"

definition no_patch :: bot_patch where
  "no_patch = \<lparr>pt_name = None, pt_provider = None, pt_token = None, pt_dns = None, pt_dest = None, pt_dests = None, pt_enabled = None,
     pt_started = None, pt_stopped = None, pt_joined = None, pt_left = None\<rparr>"

definition polls :: "nat \<Rightarrow> int list \<Rightarrow> chat_event list" where
  "polls n ns = replicate n (Polled chat_env (\<lambda>_. keeping_api ns))"

text \<open>Two rounds with a request in the middle of the first, and a new token between two more.\<close>

definition polled_twice :: "chat_event list" where
  "polled_twice = [Requested chat_env (OpCreateBot telegram_input)] @ polls 3 [5, 6] @
     [Requested chat_env (OpPatchBot 1 (no_patch\<lparr>pt_enabled := Some False\<rparr>))] @ polls 9 [5, 6]"

definition token_renewed :: "chat_event list" where
  "token_renewed = polled_twice @ [Requested chat_env (OpPatchBot 1 (no_patch\<lparr>pt_token := Some ''12345678:mnopqrstuvwx''\<rparr>))] @
     polls 5 [2] @ polls 4 [2, 3]"

lemma renewed_honest: "\<forall>e\<in>set token_renewed. honest_event e"
  by (auto simp: token_renewed_def polled_twice_def polls_def keeping_honest)

lemma renewed_fair: "fair_run 1 (empty_bots, Idle, []) token_renewed"
  by code_simp

theorem updates_handled_once_witness:
  "handled_once 1 (foldl (chat_step 1) (empty_bots, Idle, []) token_renewed) \<and>
   map tu_id (snd (snd (foldl (chat_step 1) (empty_bots, Idle, []) polled_twice))) = [5, 6] \<and>
   map tu_id (snd (snd (foldl (chat_step 1) (empty_bots, Idle, []) token_renewed))) = [3]"
proof (intro conjI)
  show "handled_once 1 (foldl (chat_step 1) (empty_bots, Idle, []) token_renewed)"
    by (rule updates_handled_once [OF renewed_honest renewed_fair])
  show "map tu_id (snd (snd (foldl (chat_step 1) (empty_bots, Idle, []) polled_twice))) = [5, 6]"
    by code_simp
  show "map tu_id (snd (snd (foldl (chat_step 1) (empty_bots, Idle, []) token_renewed))) = [3]"
    by code_simp
qed

text \<open>What the exception is for. The token is changed between the handling of an update and the storing of the cursor: the
  change drops the cursor, and the poller stores that of the old token for the new one. The updates 2 and 3 of the new
  token are then behind the cursor for good.\<close>

definition token_changed_midway :: "chat_event list" where
  "token_changed_midway = [Requested chat_env (OpCreateBot telegram_input)] @ polls 3 [5] @
     [Requested chat_env (OpPatchBot 1 (no_patch\<lparr>pt_token := Some ''12345678:mnopqrstuvwx''\<rparr>))] @ polls 20 [2, 3]"

lemma old_cursor_returns:
  "cursor 1 (fst (foldl (chat_step 1) (empty_bots, Idle, []) (take 5 token_changed_midway))) = None \<and>
   cursor 1 (fst (foldl (chat_step 1) (empty_bots, Idle, []) token_changed_midway)) = Some 5 \<and>
   snd (snd (foldl (chat_step 1) (empty_bots, Idle, []) token_changed_midway)) = []"
  by (intro conjI) code_simp+

section \<open>What is told about the server\<close>

definition told :: "lifecycle_event list \<Rightarrow> bot_lifecycle \<times> lifecycle_message list" where
  "told es = foldl tell_step (fresh_lifecycle, []) es"

definition starts_apart :: "bot_lifecycle \<times> lifecycle_message list \<Rightarrow> bool" where
  "starts_apart s \<longleftrightarrow> successively (\<lambda>a b. a \<noteq> ToldStarted \<or> b \<noteq> ToldStarted) (snd s) \<and>
     (snd s \<noteq> [] \<and> last (snd s) = ToldStarted \<longrightarrow> bl_ready_sent (fst s) \<and> bl_saw_online (fst s) \<and> \<not> bl_stopped_sent (fst s))"

interpretation telling: invariant_machine tell_step starts_apart
proof
  show "starts_apart s \<Longrightarrow> starts_apart (tell_step s e)" for s e
    by (cases s; cases e)
      (auto simp: starts_apart_def markBotReady_def observeBotLifecycle_def successively_append_iff)
qed

text \<open>Between two announcements of a start there is one of a stop.\<close>

lemma starts_told_apart: "successively (\<lambda>a b. a \<noteq> ToldStarted \<or> b \<noteq> ToldStarted) (snd (told es))"
proof -
  have "starts_apart (fresh_lifecycle, [])" by (simp add: starts_apart_def)
  from telling.run_keeps [OF this, of es] show ?thesis by (simp add: told_def starts_apart_def)
qed

end
