(* ===== verification/Spec2Isabelle.thy ===== *)
theory Spec2Isabelle
  imports Supervisor Archive SchedulerProperties Hub ConsoleProtocol Runner Operations FileRequests DuplicateUndo BotUpdates
begin

text \<open>
  Bonghos runs Minecraft servers on a Linux host and is controlled from a browser. This library models the Go
  code under \<open>src/source/internal\<close> that decides what the panel does: who may do what, what happens to the
  server process, when schedules run, and which files a request can touch.

  \<^bold>\<open>The program.\<close> The control plane (package \<open>app\<close>) serves a REST interface and a websocket. A request passes
  the CSRF check, the session and a permission guard (\<open>http.go\<close>, \<open>handlers.go\<close>) before its handler runs; handlers
  work on the account store (\<open>auth\<close>), the role profiles (\<open>role_permissions.go\<close>), the project table
  (\<open>instance\<close>), the files of projects (\<open>files\<close>, \<open>security\<close>), the schedules (\<open>scheduler\<close>), the table of long
  operations with its lock file (\<open>operations\<close>) and, through the runner (\<open>runner.go\<close>), on the supervisor, a process of
  its own (\<open>supervisor\<close>) that owns the Minecraft process and talks to the panel over a framed socket
  (\<open>runtime/console\<close>) and a state file. Events go back to browsers through the hub (\<open>websocket\<close>).

  \<^bold>\<open>Conventions.\<close> A Go string is a list of bytes (\<open>char\<close>); text is decoded with \<open>Utf8\<close> where the code works on
  runes. Integers that can overflow are \<open>int\<close> with the wrap-around written out (\<open>wrap64\<close> of Prelude); an instant is
  its nanoseconds since 1970. A function that returns \<open>(T, error)\<close> is a sum with \<open>Inl\<close> for the error. A handler
  takes the decoded body (\<open>None\<close> when it is not JSON) and returns its status with the new state. Each source of
  failure or chance outside the code - the database failing at a call, time, random tokens, the
  state of other processes, decoders - is an argument. Where the code loops over a map, the order is an argument.

  \<^bold>\<open>Theories and code.\<close>

  \<^item> \<open>Prelude\<close>, \<open>GoStrings\<close>, \<open>Utf8\<close>, \<open>GoPath\<close>, \<open>GoTime\<close>: what the program uses of Go's \<open>strings\<close>, \<open>strconv\<close>,
    \<open>unicode/utf8\<close>, \<open>path/filepath\<close> and \<open>time\<close>, and the interfaces: \<open>invariant_machine\<close> (state changed by steps that
    keep an invariant), \<open>change_frame\<close> (what an operation may change, closed under running one after the other),
    \<open>keyed_store\<close> (a table read back by its key) and, in \<open>Sandbox\<close>, \<open>path_sandbox\<close> (a resolver that stays below its root).
  \<^item> \<open>Authorization\<close>: \<open>authorization/authorization.go\<close>, roles, the permission catalogue, the hierarchy.
    \<open>RolePermissions\<close>, \<open>RoleEditor\<close>: \<open>app/role_permissions.go\<close>, loading a stored profile, its closure under
    prerequisites, and the editor with its transaction. The lemmas show that a loaded profile is legal whatever the rows,
    that the fixpoint is the greatest closed subset in any map order, that an edit is read back, and that no
    manager grants what it does not hold.
  \<^item> \<open>Accounts\<close>, \<open>AccountHandlers\<close>, \<open>AccountProperties\<close>, \<open>LoginProperties\<close>: \<open>auth/store.go\<close> with the tables of
    \<open>migrations/0001_initial.sql\<close>, and the handlers for users, invitations and signing in. An Owner remains, managers stay
    within their rank, invitations and recovery codes work once, guesses are bounded, sessions expire.
  \<^item> \<open>Gateway\<close>, \<open>Hub\<close>: \<open>app/http.go\<close>, the route table of \<open>app/handlers.go\<close>, \<open>websocket/hub.go\<close>. A request reaches
    its handler only through its guards; a connection sees only topics it was granted at some check, and loses
    them when its profile changes.
  \<^item> \<open>ConsoleText\<close>, \<open>SupervisorConsole\<close>, \<open>Supervisor\<close>: \<open>supervisor/console_text.go\<close> and \<open>supervisor.go\<close>. The record
    \<open>sup\<close> is the struct \<open>Supervisor\<close>; \<open>phase\<close> says where \<open>Run\<close> stands, and \<open>sup_step\<close> interleaves its sections with the
    calls from outside. Cleaned lines, the history as the longest fitting suffix, crash loops, stops and restarts.
  \<^item> \<open>ConsoleProtocol\<close>: \<open>runtime/console/console.go\<close>, frames, the replay of the history, messages of a connection.
    \<open>Runner\<close>: \<open>app/runner.go\<close> and the autostart of \<open>app/app.go\<close>; the environment of a call is the record \<open>system\<close>, whose time
    only moves forward. Start and stop return and report what they saw; a restart stops first.
  \<^item> \<open>GoPath\<close>, \<open>Sandbox\<close>, \<open>FileTree\<close>, \<open>Archive\<close>: \<open>security/security.go\<close> and \<open>files/archive.go\<close> on a tree of
    directories, files and symbolic links resolved as the kernel does. Extraction stays in its directory and its
    limits.
  \<^item> \<open>FileManager\<close>, \<open>FileJail\<close>: \<open>files/manager.go\<close>. \<open>Instances\<close>: \<open>instance/instance.go\<close>. \<open>ServerHandlers\<close>,
    \<open>ServerProperties\<close>, \<open>TreeCopy\<close>, \<open>DuplicateUndo\<close>: the requests that create, change, delete, select and duplicate
    projects and reset worlds (\<open>app/handlers.go\<close>, \<open>handlers_import.go\<close>, \<open>handlers_world.go\<close>). \<open>FileHandlers\<close>,
    \<open>FileRequests\<close>: the file browser of \<open>app/handlers_manage.go\<close>. Requests to any projects in any order leave
    everything outside the directories of projects alone; deletion and reset hit only what they name; a duplicate is
    complete or leaves no trace.
  \<^item> \<open>Players\<close>: \<open>minecraft/players.go\<close> and the player commands. A command is a fixed verb with a checked name and one line of
    text; writing a property keeps every other line.
  \<^item> \<open>Schedule\<close>, \<open>ScheduleProperties\<close>, \<open>SchedulerRun\<close>, \<open>SchedulerProperties\<close>: \<open>scheduler/scheduler.go\<close> and the
    schedule handlers. \<open>NextRun\<close> against closed forms, cron, ticks of several processes on one database, the policies.
  \<^item> \<open>BotStore\<close>: \<open>bot/store.go\<close> with the tables of the migrations on notification bots. \<open>BotCommands\<close>: the commands of
    chats and the polling of \<open>bot/telegram_commands.go\<close>, the events and commands of \<open>bot/discord_commands.go\<close>, the
    requests and announcements of \<open>app/bots.go\<close>. \<open>BotProperties\<close>, \<open>BotChats\<close>, \<open>BotUpdates\<close>: the tables stay consistent under
    any operations, a command changes only the chat of its sender and only for its administrators, no update of Telegram
    is handled twice however polls and requests are interleaved, messages go only where they were wanted.
  \<^item> \<open>Operations\<close>: \<open>operations/operations.go\<close>, the table of operations and the lock file as single system calls that
    interleave.

  \<^bold>\<open>Bounds and fuel.\<close> Path resolution follows \<open>link_limit\<close> = 40 links as Linux does, \<open>EvalSymlinks\<close> 255 as Go does; both
  answer with an error beyond, as the code does. The walks over directories take \<open>depth_limit\<close> = 4096, the
  longest path Linux accepts, so that no deeper tree exists; a walk that reaches it fails, it is never taken for a success.
  The loops of the code are functions that terminate, with the measure in their termination proof; \<open>EvalWithinRoot\<close>, whose
  loop climbs by \<open>filepath.Dir\<close>, is proved to answer. Waiting loops (\<open>poll_until\<close>, \<open>poll_gone\<close>, \<open>wait_online\<close>)
  count the polls their deadline allows, and the termination properties bound the time they take.

  \<^bold>\<open>Not modelled.\<close> Contents of files beyond their size, their modes and times; the wording of errors, audit rows and
  response bodies other than the status; goroutines beyond the interleavings named above; SQL beyond the rows
  and constraints that operations read. The imports (uploads in chunks, downloads, linking a directory), backups, portability,
  the connections to chat services, playit, monitoring, passkeys and account security, image handling, the command line and the database
  set-up are not modelled: they are mostly calls to services, archives and the operating system. What the browser runs
  (\<open>source/web\<close>) and the vendored packages (\<open>source/third_party\<close>) are outside of the library.
\<close>

end
